(* ===== verification/Prelude.thy ===== *)
theory Prelude
  imports Main "HOL-Library.Word"
begin

text \<open>
  Shared vocabulary of the development: the types of the Go program (\<open>uint64\<close>,
  \<open>utils.Address\<close>, \<open>utils.Hash\<close>, byte slices, pointers to \<open>big.Int\<close>), the result type of
  code that may panic, and the standard library routines the program calls
  (\<open>sort.Search\<close>), with the lemmas the components share.
\<close>

section \<open>Types\<close>

type_synonym u64 = "64 word"
type_synonym byte = "8 word"
type_synonym bytes = "byte list"
type_synonym address = "160 word"
type_synonym hash = "256 word"

text \<open>A pointer to a \<open>big.Int\<close>: \<open>None\<close> is the nil pointer.\<close>

type_synonym bigp = "int option"

section \<open>Panics\<close>

text \<open>
  A run-time panic ends the goroutine. Code that may panic returns a sum: \<open>Inl\<close> for the
  panic, \<open>Inr\<close> for the values it returns.
\<close>

datatype go_panic = NilDeref | IndexOutOfRange | SliceOutOfRange | PanicMsg string

named_theorems go_simps \<open>unfolding of the panic-propagating combinators\<close>

definition rbind :: "'e + 'a \<Rightarrow> ('a \<Rightarrow> 'e + 'b) \<Rightarrow> 'e + 'b" where
  "rbind m f = (case m of Inl e \<Rightarrow> Inl e | Inr x \<Rightarrow> f x)"

lemma rbind_simps [simp, go_simps]: "rbind (Inr x) f = f x" "rbind (Inl e) f = Inl e"
  by (simp_all add: rbind_def)

lemma rbind_eq_Inr: "rbind m f = Inr y \<longleftrightarrow> (\<exists>x. m = Inr x \<and> f x = Inr y)"
  by (cases m) auto

lemma rbind_InrE [elim!]:
  assumes "rbind m f = Inr y"
  obtains x where "m = Inr x" and "f x = Inr y"
  using assms by (auto simp: rbind_eq_Inr)

lemma rbind_cong [fundef_cong]:
  "m = m' \<Longrightarrow> (\<And>x. m' = Inr x \<Longrightarrow> f x = f' x) \<Longrightarrow> rbind m f = rbind m' f'"
  by (cases m') auto

lemma rbind_assoc: "rbind (rbind m f) g = rbind m (\<lambda>x. rbind (f x) g)"
  by (cases m) auto

text \<open>Reading through a pointer.\<close>

definition deref :: "'a option \<Rightarrow> go_panic + 'a" where
  "deref p = (case p of None \<Rightarrow> Inl NilDeref | Some x \<Rightarrow> Inr x)"

lemma deref_simps [simp, go_simps]: "deref (Some x) = Inr x" "deref None = Inl NilDeref"
  by (simp_all add: deref_def)

lemma deref_eq_Inr [simp]: "deref p = Inr x \<longleftrightarrow> p = Some x"
  by (cases p) auto

section \<open>sort.Search\<close>

text \<open>
  Go's \<open>sort.Search(n, f)\<close>: binary search for the least index in \<open>[0, n)\<close> where \<open>f\<close>
  holds, assuming \<open>f\<close> is false and then true.
\<close>

function search_loop :: "(nat \<Rightarrow> bool) \<Rightarrow> nat \<Rightarrow> nat \<Rightarrow> nat" where
  "search_loop f i j =
     (if i < j
      then let h = (i + j) div 2 in
           if \<not> f h then search_loop f (h + 1) j else search_loop f i h
      else i)"
  by pat_completeness auto
termination
  by (relation "measure (\<lambda>(f, i, j). j - i)") (auto simp: Let_def)

declare search_loop.simps [simp del]

definition sort_Search :: "nat \<Rightarrow> (nat \<Rightarrow> bool) \<Rightarrow> nat" where
  "sort_Search n f = search_loop f 0 n"

lemma search_loop_spec:
  assumes mono: "\<And>k k'. k \<le> k' \<Longrightarrow> k' < n \<Longrightarrow> f k \<Longrightarrow> f k'"
  shows "i \<le> j \<Longrightarrow> (\<And>k. k < i \<Longrightarrow> \<not> f k) \<Longrightarrow> j \<le> n \<Longrightarrow> (j < n \<Longrightarrow> f j) \<Longrightarrow>
         search_loop f i j \<le> j \<and> (\<forall>k. k < search_loop f i j \<longrightarrow> \<not> f k) \<and>
         (search_loop f i j < n \<longrightarrow> f (search_loop f i j))"
proof (induction "j - i" arbitrary: i j rule: less_induct)
  case less
  show ?case
  proof (cases "i < j")
    case False
    then have "search_loop f i j = i" by (simp add: search_loop.simps)
    moreover have "i = j" using False less.prems(1) by simp
    ultimately show ?thesis using less.prems by auto
  next
    case True
    define h where "h = (i + j) div 2"
    have h: "i \<le> h" "h < j" using True by (auto simp: h_def)
    show ?thesis
    proof (cases "f h")
      case False
      have low: "\<not> f k" if "k < h + 1" for k
        using mono [of k h] that False h less.prems(3) by auto
      have "search_loop f i j = search_loop f (h + 1) j"
        using True False by (simp add: search_loop.simps [of f i j] h_def Let_def)
      moreover have "j - (h + 1) < j - i" using h by linarith
      ultimately show ?thesis using less.hyps [of j "h + 1"] low h less.prems(3,4) by auto
    next
      case fh: True
      have "search_loop f i j = search_loop f i h"
        using True fh by (simp add: search_loop.simps [of f i j] h_def Let_def)
      moreover have "h - i < j - i" using h by linarith
      ultimately show ?thesis using less.hyps [of h i] fh h less.prems by auto
    qed
  qed
qed

lemma sort_Search_spec:
  assumes "\<forall>k k'. k \<le> k' \<longrightarrow> k' < n \<longrightarrow> f k \<longrightarrow> f k'"
  shows "sort_Search n f \<le> n" "k < sort_Search n f \<Longrightarrow> \<not> f k"
    "sort_Search n f < n \<Longrightarrow> f (sort_Search n f)"
  using search_loop_spec [of n f 0 n] assms by (auto simp: sort_Search_def)

section \<open>Machine integers\<close>

lemma unat_u64: "unat (x :: u64) < 2 ^ 64"
  using unsigned_less [of x] by simp

lemma unat_byte: "unat (b :: byte) < 256"
  using unsigned_less [of b] by simp

end
