(* ===== verification/State.thy ===== *)
theory State
  imports Prelude
begin

text \<open>
  The account state: \<open>core/state/journal.go\<close>, \<open>core/state/state_object.go\<close> and
  \<open>core/state/statedb.go\<close>. A Merkle trie is its contents, the slot each key leads to after
  decoding, with the errors of the backing store kept per key; the database is the tries
  and contract codes it can resolve by hash, together with the Merkle root and Keccak
  functions. A live object is its entry in \<open>stateObjects\<close>: a method of \<open>stateObject\<close> that
  reaches its parent through \<open>s.db\<close> takes the object and the state and writes the changed
  object back under its address. Go maps are partial functions; an iteration over a map
  takes the order of the iteration as an argument.
\<close>

section \<open>Tries and the database\<close>

datatype dberr = MissingNodeError hash | StorageTrieErr dberr | CodeErr hash dberr | RlpErr

datatype 'v slot = Absent | Present 'v | Corrupt | Unavailable dberr

type_synonym ('k, 'v) trie = "'k \<Rightarrow> 'v slot"

definition TryUpdate :: "('k, 'v) trie \<Rightarrow> 'k \<Rightarrow> 'v \<Rightarrow> ('k, 'v) trie \<times> dberr option" where
  "TryUpdate t k v = (case t k of Unavailable e \<Rightarrow> (t, Some e) | _ \<Rightarrow> (t(k := Present v), None))"

definition TryDelete :: "('k, 'v) trie \<Rightarrow> 'k \<Rightarrow> ('k, 'v) trie \<times> dberr option" where
  "TryDelete t k = (case t k of Unavailable e \<Rightarrow> (t, Some e) | _ \<Rightarrow> (t(k := Absent), None))"

record Account =
  UnLockedBalance :: bigp
  UnDelegateTimestamp :: bigp
  LockedBalance :: bigp
  DelegateTimestamp :: bigp
  Nonce :: u64
  Balance :: bigp
  Root :: hash
  CodeHash :: "hash option"

text \<open>The zero value \<open>Account{}\<close>: every pointer nil.\<close>

definition emptyAccount :: Account where
  "emptyAccount = \<lparr>UnLockedBalance = None, UnDelegateTimestamp = None, LockedBalance = None,
     DelegateTimestamp = None, Nonce = 0, Balance = None, Root = 0, CodeHash = None\<rparr>"

type_synonym accountTrie = "(address, Account) trie"
type_synonym storageTrie = "(hash, hash) trie"

record Database =
  db_accounts :: "hash \<rightharpoonup> accountTrie"
  db_storages :: "hash \<rightharpoonup> storageTrie"
  db_codes :: "hash \<rightharpoonup> bytes"
  db_accountRoot :: "accountTrie \<Rightarrow> hash"
  db_storageRoot :: "storageTrie \<Rightarrow> hash"
  db_keccak :: "bytes \<Rightarrow> hash"

definition emptyRoot :: hash where
  "emptyRoot = 0x56e81f171bcc55a6ff8345e692c0f86e5b48e01b996cadc001622fb5e363b421"

definition OpenTrie :: "Database \<Rightarrow> hash \<Rightarrow> dberr + accountTrie" where
  "OpenTrie d root =
     (if root = 0 \<or> root = emptyRoot then Inr (\<lambda>_. Absent)
      else case db_accounts d root of None \<Rightarrow> Inl (MissingNodeError root) | Some t \<Rightarrow> Inr t)"

definition OpenStorageTrie :: "Database \<Rightarrow> hash \<Rightarrow> hash \<Rightarrow> dberr + storageTrie" where
  "OpenStorageTrie d addrHash root =
     (if root = 0 \<or> root = emptyRoot then Inr (\<lambda>_. Absent)
      else case db_storages d root of None \<Rightarrow> Inl (MissingNodeError root) | Some t \<Rightarrow> Inr t)"

definition ContractCode :: "Database \<Rightarrow> hash \<Rightarrow> hash \<Rightarrow> bytes option \<times> dberr option" where
  "ContractCode d addrHash codeHash =
     (case db_codes d codeHash of
        Some c \<Rightarrow> (Some c, None)
      | None \<Rightarrow> (None, Some (MissingNodeError codeHash)))"

definition ContractCodeSize :: "Database \<Rightarrow> hash \<Rightarrow> hash \<Rightarrow> nat \<times> dberr option" where
  "ContractCodeSize d addrHash codeHash =
     (let (c, err) = ContractCode d addrHash codeHash
      in (case c of None \<Rightarrow> 0 | Some b \<Rightarrow> length b, err))"

definition emptyCodeHash :: "Database \<Rightarrow> hash" where
  "emptyCodeHash d = db_keccak d []"

text \<open>The big-endian bytes of an address, \<open>addr[:]\<close>.\<close>

definition address_bytes :: "address \<Rightarrow> bytes" where
  "address_bytes a = map (\<lambda>i. ucast (drop_bit (8 * (19 - i)) a)) [0..<20]"

section \<open>State objects and the journal\<close>

record stateObject =
  so_address :: address
  so_addrHash :: hash
  so_data :: Account
  so_dbErr :: "dberr option"
  so_trie :: "storageTrie option"
  so_code :: "bytes option"
  cachedStorage :: "hash \<rightharpoonup> hash"
  dirtyStorage :: "hash \<rightharpoonup> hash"
  dirtyCode :: bool
  suicided :: bool
  deleted :: bool

datatype journalEntry =
    createObjectChange address
  | resetObjectChange stateObject
  | suicideChange address bool int
  | balanceChange address int
  | nonceChange address u64
  | storageChange address hash hash
  | codeChange address "bytes option" "hash option"
  | lockedBalanceChange address int
  | delegateTimestampChange address int
  | unlockedBalanceChange address int
  | undelegateTimestampChange address int
  | refundChange u64
  | addLogChange hash
  | addPreimageChange hash
  | touchChange address

record journal =
  entries :: "journalEntry list"
  dirties :: "address \<rightharpoonup> int"

definition newJournal :: journal where
  "newJournal = \<lparr>entries = [], dirties = Map.empty\<rparr>"

fun dirtied :: "journalEntry \<Rightarrow> address option" where
  "dirtied (createObjectChange a) = Some a"
| "dirtied (resetObjectChange _) = None"
| "dirtied (suicideChange a _ _) = Some a"
| "dirtied (balanceChange a _) = Some a"
| "dirtied (nonceChange a _) = Some a"
| "dirtied (storageChange a _ _) = Some a"
| "dirtied (codeChange a _ _) = Some a"
| "dirtied (lockedBalanceChange a _) = Some a"
| "dirtied (delegateTimestampChange a _) = Some a"
| "dirtied (unlockedBalanceChange a _) = Some a"
| "dirtied (undelegateTimestampChange a _) = Some a"
| "dirtied (refundChange _) = None"
| "dirtied (addLogChange _) = None"
| "dirtied (addPreimageChange _) = None"
| "dirtied (touchChange a) = Some a"

text \<open>\<open>m[a]++\<close> on a Go map: a missing key reads as 0.\<close>

definition map_int :: "('k \<rightharpoonup> int) \<Rightarrow> 'k \<Rightarrow> int" where
  "map_int m a = (case m a of None \<Rightarrow> 0 | Some n \<Rightarrow> n)"

definition journal_dirty :: "journal \<Rightarrow> address \<Rightarrow> journal" where
  "journal_dirty j a = j\<lparr>dirties := (dirties j)(a \<mapsto> map_int (dirties j) a + 1)\<rparr>"

definition journal_append :: "journal \<Rightarrow> journalEntry \<Rightarrow> journal" where
  "journal_append j e =
     (let j' = j\<lparr>entries := entries j @ [e]\<rparr>
      in case dirtied e of None \<Rightarrow> j' | Some a \<Rightarrow> journal_dirty j' a)"

definition journal_undirty :: "journal \<Rightarrow> journalEntry \<Rightarrow> journal" where
  "journal_undirty j e =
     (case dirtied e of
        None \<Rightarrow> j
      | Some a \<Rightarrow> (let n = map_int (dirties j) a - 1
                  in j\<lparr>dirties := (dirties j)(a := if n = 0 then None else Some n)\<rparr>))"

definition journal_length :: "journal \<Rightarrow> nat" where
  "journal_length j = length (entries j)"

record Log =
  log_Address :: address
  log_Topics :: "hash list"
  log_Data :: bytes
  log_BlockHeight :: u64
  log_BlockHash :: hash
  log_TransactionHash :: hash
  log_TransactionIndex :: nat
  log_LogIndex :: u64

record revision =
  rev_id :: nat
  rev_journalIndex :: nat

record StateDB =
  sdb_db :: Database
  sdb_trie :: accountTrie
  stateObjects :: "address \<rightharpoonup> stateObject"
  stateObjectsDirty :: "address set"
  sdb_dbErr :: "dberr option"
  sdb_refund :: u64
  sdb_thash :: hash
  sdb_bhash :: hash
  sdb_txIndex :: nat
  sdb_logs :: "hash \<rightharpoonup> Log list"
  sdb_logSize :: u64
  sdb_preimages :: "hash \<rightharpoonup> bytes"
  sdb_journal :: journal
  validRevisions :: "revision list"
  nextRevisionID :: nat

definition New :: "hash \<Rightarrow> Database \<Rightarrow> dberr + StateDB" where
  "New root d = rbind (OpenTrie d root) (\<lambda>tr. Inr
     \<lparr>sdb_db = d, sdb_trie = tr, stateObjects = Map.empty, stateObjectsDirty = {},
      sdb_dbErr = None, sdb_refund = 0, sdb_thash = 0, sdb_bhash = 0, sdb_txIndex = 0,
      sdb_logs = Map.empty, sdb_logSize = 0, sdb_preimages = Map.empty,
      sdb_journal = newJournal, validRevisions = [], nextRevisionID = 0\<rparr>)"

definition jappend :: "journalEntry \<Rightarrow> StateDB \<Rightarrow> StateDB" where
  "jappend e s = s\<lparr>sdb_journal := journal_append (sdb_journal s) e\<rparr>"

definition sdb_setError :: "dberr option \<Rightarrow> StateDB \<Rightarrow> StateDB" where
  "sdb_setError err s = (if sdb_dbErr s = None then s\<lparr>sdb_dbErr := err\<rparr> else s)"

definition so_setError :: "dberr option \<Rightarrow> stateObject \<Rightarrow> stateObject" where
  "so_setError err ob = (if so_dbErr ob = None then ob\<lparr>so_dbErr := err\<rparr> else ob)"

section \<open>Looking up and creating objects\<close>

text \<open>\<open>newObject\<close> fills four of the six pointers of the account; the pointers of the
  unlocked balance and of the undelegation time stay as they are.\<close>

definition newObject :: "Database \<Rightarrow> address \<Rightarrow> Account \<Rightarrow> stateObject" where
  "newObject d addr data =
     (let data1 = (if LockedBalance data = None then data\<lparr>LockedBalance := Some 0\<rparr> else data);
          data2 = (if DelegateTimestamp data1 = None then data1\<lparr>DelegateTimestamp := Some 0\<rparr> else data1);
          data3 = (if Balance data2 = None then data2\<lparr>Balance := Some 0\<rparr> else data2);
          data4 = (if CodeHash data3 = None then data3\<lparr>CodeHash := Some (emptyCodeHash d)\<rparr> else data3)
      in \<lparr>so_address = addr, so_addrHash = db_keccak d (address_bytes addr), so_data = data4,
          so_dbErr = None, so_trie = None, so_code = None, cachedStorage = Map.empty,
          dirtyStorage = Map.empty, dirtyCode = False, suicided = False, deleted = False\<rparr>)"

definition setStateObject :: "stateObject \<Rightarrow> StateDB \<Rightarrow> StateDB" where
  "setStateObject ob s = s\<lparr>stateObjects := (stateObjects s)(so_address ob \<mapsto> ob)\<rparr>"

definition getStateObject :: "StateDB \<Rightarrow> address \<Rightarrow> stateObject option \<times> StateDB" where
  "getStateObject s addr =
     (case stateObjects s addr of
        Some ob \<Rightarrow> (if deleted ob then (None, s) else (Some ob, s))
      | None \<Rightarrow>
          (case sdb_trie s addr of
             Absent \<Rightarrow> (None, sdb_setError None s)
           | Unavailable e \<Rightarrow> (None, sdb_setError (Some e) s)
           | Corrupt \<Rightarrow> (None, s)
           | Present data \<Rightarrow>
               (let ob = newObject (sdb_db s) addr data in (Some ob, setStateObject ob s))))"

definition so_setNonce :: "u64 \<Rightarrow> stateObject \<Rightarrow> stateObject" where
  "so_setNonce nonce ob = ob\<lparr>so_data := (so_data ob)\<lparr>Nonce := nonce\<rparr>\<rparr>"

definition createObject :: "StateDB \<Rightarrow> address \<Rightarrow> stateObject \<times> stateObject option \<times> StateDB" where
  "createObject s addr =
     (let (prev, s1) = getStateObject s addr;
          newobj = so_setNonce 0 (newObject (sdb_db s1) addr emptyAccount);
          s2 = (case prev of
                  None \<Rightarrow> jappend (createObjectChange addr) s1
                | Some p \<Rightarrow> jappend (resetObjectChange p) s1)
      in (newobj, prev, setStateObject newobj s2))"

definition GetOrNewStateObject :: "StateDB \<Rightarrow> address \<Rightarrow> stateObject \<times> StateDB" where
  "GetOrNewStateObject s addr =
     (case getStateObject s addr of
        (None, s1) \<Rightarrow> (let (newobj, _, s2) = createObject s1 addr in (newobj, s2))
      | (Some ob, s1) \<Rightarrow>
          (if deleted ob then (let (newobj, _, s2) = createObject s1 addr in (newobj, s2))
           else (ob, s1)))"

section \<open>Methods of the state object\<close>

text \<open>The unexported setters change one field and keep no journal.\<close>

definition so_setBalance :: "bigp \<Rightarrow> stateObject \<Rightarrow> stateObject" where
  "so_setBalance amount ob = ob\<lparr>so_data := (so_data ob)\<lparr>Balance := amount\<rparr>\<rparr>"

definition so_setLockedBalance :: "bigp \<Rightarrow> stateObject \<Rightarrow> stateObject" where
  "so_setLockedBalance amount ob = ob\<lparr>so_data := (so_data ob)\<lparr>LockedBalance := amount\<rparr>\<rparr>"

definition so_setUnLockedBalance :: "bigp \<Rightarrow> stateObject \<Rightarrow> stateObject" where
  "so_setUnLockedBalance amount ob = ob\<lparr>so_data := (so_data ob)\<lparr>UnLockedBalance := amount\<rparr>\<rparr>"

definition so_setDelegateTimestamp :: "bigp \<Rightarrow> stateObject \<Rightarrow> stateObject" where
  "so_setDelegateTimestamp t ob = ob\<lparr>so_data := (so_data ob)\<lparr>DelegateTimestamp := t\<rparr>\<rparr>"

definition so_setUnDelegateTimestamp :: "bigp \<Rightarrow> stateObject \<Rightarrow> stateObject" where
  "so_setUnDelegateTimestamp t ob = ob\<lparr>so_data := (so_data ob)\<lparr>UnDelegateTimestamp := t\<rparr>\<rparr>"

definition so_setCode :: "hash \<Rightarrow> bytes option \<Rightarrow> stateObject \<Rightarrow> stateObject" where
  "so_setCode codeHash code ob =
     ob\<lparr>so_code := code, so_data := (so_data ob)\<lparr>CodeHash := Some codeHash\<rparr>, dirtyCode := True\<rparr>"

definition so_setState :: "hash \<Rightarrow> hash \<Rightarrow> stateObject \<Rightarrow> stateObject" where
  "so_setState key value ob =
     ob\<lparr>cachedStorage := (cachedStorage ob)(key \<mapsto> value),
        dirtyStorage := (dirtyStorage ob)(key \<mapsto> value)\<rparr>"

definition markSuicided :: "stateObject \<Rightarrow> stateObject" where
  "markSuicided ob = ob\<lparr>suicided := True\<rparr>"

definition so_empty :: "Database \<Rightarrow> stateObject \<Rightarrow> go_panic + bool" where
  "so_empty d ob =
     (if Nonce (so_data ob) \<noteq> 0 then Inr False
      else rbind (deref (Balance (so_data ob))) (\<lambda>b.
        Inr (b = 0 \<and> CodeHash (so_data ob) = Some (emptyCodeHash d))))"

definition ripemd :: address where
  "ripemd = 3"

definition so_touch :: "stateObject \<Rightarrow> StateDB \<Rightarrow> StateDB" where
  "so_touch ob s =
     (let s1 = jappend (touchChange (so_address ob)) s
      in if so_address ob = ripemd
         then s1\<lparr>sdb_journal := journal_dirty (sdb_journal s1) (so_address ob)\<rparr> else s1)"

definition so_getTrie :: "Database \<Rightarrow> stateObject \<Rightarrow> storageTrie \<times> stateObject" where
  "so_getTrie d ob =
     (case so_trie ob of
        Some t \<Rightarrow> (t, ob)
      | None \<Rightarrow>
          (case OpenStorageTrie d (so_addrHash ob) (Root (so_data ob)) of
             Inr t \<Rightarrow> (t, ob\<lparr>so_trie := Some t\<rparr>)
           | Inl err \<Rightarrow>
               (let t = projr (OpenStorageTrie d (so_addrHash ob) 0)
                in (t, so_setError (Some (StorageTrieErr err)) (ob\<lparr>so_trie := Some t\<rparr>)))))"

definition so_GetState :: "Database \<Rightarrow> hash \<Rightarrow> stateObject \<Rightarrow> hash \<times> stateObject" where
  "so_GetState d key ob =
     (case cachedStorage ob key of
        Some v \<Rightarrow> (v, ob)
      | None \<Rightarrow>
          (let (tr, ob1) = so_getTrie d ob
           in case tr key of
                Unavailable err \<Rightarrow> (0, so_setError (Some err) ob1)
              | Absent \<Rightarrow> (0, ob1\<lparr>cachedStorage := (cachedStorage ob1)(key \<mapsto> 0)\<rparr>)
              | Corrupt \<Rightarrow>
                  (0, (so_setError (Some RlpErr) ob1)\<lparr>cachedStorage := (cachedStorage ob1)(key \<mapsto> 0)\<rparr>)
              | Present v \<Rightarrow> (v, ob1\<lparr>cachedStorage := (cachedStorage ob1)(key \<mapsto> v)\<rparr>)))"

definition so_SetState :: "hash \<Rightarrow> hash \<Rightarrow> stateObject \<Rightarrow> StateDB \<Rightarrow> StateDB" where
  "so_SetState key value ob s =
     (let (prevalue, ob1) = so_GetState (sdb_db s) key ob
      in setStateObject (so_setState key value ob1)
           (jappend (storageChange (so_address ob) key prevalue) s))"

text \<open>\<open>BytesToHash\<close> of a possibly nil slice holding a hash.\<close>

definition BytesToHash :: "hash option \<Rightarrow> hash" where
  "BytesToHash h = (case h of None \<Rightarrow> 0 | Some v \<Rightarrow> v)"

definition so_Code :: "Database \<Rightarrow> stateObject \<Rightarrow> bytes option \<times> stateObject" where
  "so_Code d ob =
     (if so_code ob \<noteq> None then (so_code ob, ob)
      else if CodeHash (so_data ob) = Some (emptyCodeHash d) then (None, ob)
      else (let (code, err) = ContractCode d (so_addrHash ob) (BytesToHash (CodeHash (so_data ob)));
                ob1 = (case err of
                         None \<Rightarrow> ob
                       | Some e \<Rightarrow> so_setError (Some (CodeErr (BytesToHash (CodeHash (so_data ob))) e)) ob)
            in (code, ob1\<lparr>so_code := code\<rparr>)))"

definition so_SetCode :: "hash \<Rightarrow> bytes option \<Rightarrow> stateObject \<Rightarrow> StateDB \<Rightarrow> StateDB" where
  "so_SetCode codeHash code ob s =
     (let (prevcode, ob1) = so_Code (sdb_db s) ob
      in setStateObject (so_setCode codeHash code ob1)
           (jappend (codeChange (so_address ob) prevcode (CodeHash (so_data ob1))) s))"

definition so_SetNonce :: "u64 \<Rightarrow> stateObject \<Rightarrow> StateDB \<Rightarrow> StateDB" where
  "so_SetNonce nonce ob s =
     setStateObject (so_setNonce nonce ob) (jappend (nonceChange (so_address ob) (Nonce (so_data ob))) s)"

definition so_SetBalance :: "int \<Rightarrow> stateObject \<Rightarrow> StateDB \<Rightarrow> go_panic + StateDB" where
  "so_SetBalance amount ob s = rbind (deref (Balance (so_data ob))) (\<lambda>prev.
     Inr (setStateObject (so_setBalance (Some amount) ob) (jappend (balanceChange (so_address ob) prev) s)))"

definition so_AddBalance :: "int \<Rightarrow> stateObject \<Rightarrow> StateDB \<Rightarrow> go_panic + StateDB" where
  "so_AddBalance amount ob s =
     (if amount = 0
      then rbind (so_empty (sdb_db s) ob) (\<lambda>e. Inr (if e then so_touch ob s else s))
      else rbind (deref (Balance (so_data ob))) (\<lambda>b. so_SetBalance (b + amount) ob s))"

definition so_SubBalance :: "int \<Rightarrow> stateObject \<Rightarrow> StateDB \<Rightarrow> go_panic + StateDB" where
  "so_SubBalance amount ob s =
     (if amount = 0 then Inr s
      else rbind (deref (Balance (so_data ob))) (\<lambda>b. so_SetBalance (b - amount) ob s))"

definition so_SetLockedBalance :: "int \<Rightarrow> stateObject \<Rightarrow> StateDB \<Rightarrow> go_panic + StateDB" where
  "so_SetLockedBalance amount ob s = rbind (deref (LockedBalance (so_data ob))) (\<lambda>prev.
     Inr (setStateObject (so_setLockedBalance (Some amount) ob)
            (jappend (lockedBalanceChange (so_address ob) prev) s)))"

definition so_SetUnLockedBalance :: "int \<Rightarrow> stateObject \<Rightarrow> StateDB \<Rightarrow> go_panic + StateDB" where
  "so_SetUnLockedBalance amount ob s = rbind (deref (UnLockedBalance (so_data ob))) (\<lambda>prev.
     Inr (setStateObject (so_setUnLockedBalance (Some amount) ob)
            (jappend (unlockedBalanceChange (so_address ob) prev) s)))"

definition so_SetDelegateTimestamp :: "int \<Rightarrow> stateObject \<Rightarrow> StateDB \<Rightarrow> go_panic + StateDB" where
  "so_SetDelegateTimestamp t ob s = rbind (deref (DelegateTimestamp (so_data ob))) (\<lambda>prev.
     Inr (setStateObject (so_setDelegateTimestamp (Some t) ob)
            (jappend (delegateTimestampChange (so_address ob) prev) s)))"

definition so_SetUnDelegateTimestamp :: "int \<Rightarrow> stateObject \<Rightarrow> StateDB \<Rightarrow> go_panic + StateDB" where
  "so_SetUnDelegateTimestamp t ob s = rbind (deref (UnDelegateTimestamp (so_data ob))) (\<lambda>prev.
     Inr (setStateObject (so_setUnDelegateTimestamp (Some t) ob)
            (jappend (undelegateTimestampChange (so_address ob) prev) s)))"

definition deepCopy :: "Database \<Rightarrow> stateObject \<Rightarrow> stateObject" where
  "deepCopy d ob =
     (newObject d (so_address ob) (so_data ob))
       \<lparr>so_trie := so_trie ob, so_code := so_code ob, dirtyStorage := dirtyStorage ob,
        cachedStorage := dirtyStorage ob, suicided := suicided ob, dirtyCode := dirtyCode ob,
        deleted := deleted ob\<rparr>"

text \<open>\<open>updateTrie\<close> ranges over \<open>dirtyStorage\<close> in the order \<open>ks\<close> and empties it.\<close>

fun updateTrie_loop :: "hash list \<Rightarrow> storageTrie \<Rightarrow> stateObject \<Rightarrow> storageTrie \<times> stateObject" where
  "updateTrie_loop [] tr ob = (tr, ob)"
| "updateTrie_loop (key # ks) tr ob =
     (case dirtyStorage ob key of
        None \<Rightarrow> updateTrie_loop ks tr ob
      | Some value \<Rightarrow>
          (let ob1 = ob\<lparr>dirtyStorage := (dirtyStorage ob)(key := None)\<rparr>;
               (tr1, err) = (if value = 0 then TryDelete tr key else TryUpdate tr key value)
           in updateTrie_loop ks tr1 (so_setError err ob1)))"

definition updateTrie :: "Database \<Rightarrow> hash list \<Rightarrow> stateObject \<Rightarrow> storageTrie \<times> stateObject" where
  "updateTrie d ks ob =
     (let (tr, ob1) = so_getTrie d ob; (tr1, ob2) = updateTrie_loop ks tr ob1
      in (tr1, ob2\<lparr>so_trie := Some tr1\<rparr>))"

definition updateRoot :: "Database \<Rightarrow> hash list \<Rightarrow> stateObject \<Rightarrow> stateObject" where
  "updateRoot d ks ob =
     (let (tr, ob1) = updateTrie d ks ob
      in ob1\<lparr>so_data := (so_data ob1)\<lparr>Root := db_storageRoot d tr\<rparr>\<rparr>)"

definition CommitTrie :: "Database \<Rightarrow> hash list \<Rightarrow> stateObject \<Rightarrow> dberr option \<times> stateObject \<times> Database" where
  "CommitTrie d ks ob =
     (let (tr, ob1) = updateTrie d ks ob
      in case so_dbErr ob1 of
           Some e \<Rightarrow> (Some e, ob1, d)
         | None \<Rightarrow>
             (let root = db_storageRoot d tr
              in (None, ob1\<lparr>so_data := (so_data ob1)\<lparr>Root := root\<rparr>\<rparr>,
                  d\<lparr>db_storages := (db_storages d)(root \<mapsto> tr)\<rparr>)))"

section \<open>Reads of the state database\<close>

definition Exist :: "StateDB \<Rightarrow> address \<Rightarrow> bool \<times> StateDB" where
  "Exist s addr = (let (ob, s1) = getStateObject s addr in (ob \<noteq> None, s1))"

definition Empty :: "StateDB \<Rightarrow> address \<Rightarrow> go_panic + (bool \<times> StateDB)" where
  "Empty s addr =
     (let (ob, s1) = getStateObject s addr
      in case ob of
           None \<Rightarrow> Inr (True, s1)
         | Some so \<Rightarrow> rbind (so_empty (sdb_db s1) so) (\<lambda>e. Inr (e, s1)))"

text \<open>The getters of one field: a missing account reads as the given default.\<close>

definition get_field :: "(Account \<Rightarrow> 'a) \<Rightarrow> 'a \<Rightarrow> StateDB \<Rightarrow> address \<Rightarrow> 'a \<times> StateDB" where
  "get_field f dflt s addr =
     (let (ob, s1) = getStateObject s addr
      in (case ob of None \<Rightarrow> dflt | Some so \<Rightarrow> f (so_data so), s1))"

definition GetBalance :: "StateDB \<Rightarrow> address \<Rightarrow> bigp \<times> StateDB" where
  "GetBalance = get_field Balance (Some 0)"

definition GetNonce :: "StateDB \<Rightarrow> address \<Rightarrow> u64 \<times> StateDB" where
  "GetNonce = get_field Nonce 0"

definition GetLockedBalance :: "StateDB \<Rightarrow> address \<Rightarrow> bigp \<times> StateDB" where
  "GetLockedBalance = get_field LockedBalance (Some 0)"

definition GetDelegateTimestamp :: "StateDB \<Rightarrow> address \<Rightarrow> bigp \<times> StateDB" where
  "GetDelegateTimestamp = get_field DelegateTimestamp (Some 0)"

definition GetUnLockedBalance :: "StateDB \<Rightarrow> address \<Rightarrow> bigp \<times> StateDB" where
  "GetUnLockedBalance = get_field UnLockedBalance (Some 0)"

definition GetUnDelegateTimestamp :: "StateDB \<Rightarrow> address \<Rightarrow> bigp \<times> StateDB" where
  "GetUnDelegateTimestamp = get_field UnDelegateTimestamp (Some 0)"

definition GetCodeHash :: "StateDB \<Rightarrow> address \<Rightarrow> hash \<times> StateDB" where
  "GetCodeHash = get_field (\<lambda>a. BytesToHash (CodeHash a)) 0"

definition GetCode :: "StateDB \<Rightarrow> address \<Rightarrow> bytes option \<times> StateDB" where
  "GetCode s addr =
     (case getStateObject s addr of
        (None, s1) \<Rightarrow> (None, s1)
      | (Some so, s1) \<Rightarrow> (let (c, so1) = so_Code (sdb_db s1) so in (c, setStateObject so1 s1)))"

definition GetCodeSize :: "StateDB \<Rightarrow> address \<Rightarrow> nat \<times> StateDB" where
  "GetCodeSize s addr =
     (case getStateObject s addr of
        (None, s1) \<Rightarrow> (0, s1)
      | (Some so, s1) \<Rightarrow>
          (case so_code so of
             Some c \<Rightarrow> (length c, s1)
           | None \<Rightarrow>
               (let (size, err) = ContractCodeSize (sdb_db s1) (so_addrHash so)
                                    (BytesToHash (CodeHash (so_data so)))
                in (size, if err = None then s1 else sdb_setError err s1))))"

definition GetState :: "StateDB \<Rightarrow> address \<Rightarrow> hash \<Rightarrow> hash \<times> StateDB" where
  "GetState s addr key =
     (case getStateObject s addr of
        (None, s1) \<Rightarrow> (0, s1)
      | (Some so, s1) \<Rightarrow> (let (v, so1) = so_GetState (sdb_db s1) key so in (v, setStateObject so1 s1)))"

definition HasSuicided :: "StateDB \<Rightarrow> address \<Rightarrow> bool \<times> StateDB" where
  "HasSuicided s addr =
     (let (ob, s1) = getStateObject s addr
      in (case ob of None \<Rightarrow> False | Some so \<Rightarrow> suicided so, s1))"

definition GetLogs :: "StateDB \<Rightarrow> hash \<Rightarrow> Log list" where
  "GetLogs s h = (case sdb_logs s h of None \<Rightarrow> [] | Some l \<Rightarrow> l)"

definition GetRefund :: "StateDB \<Rightarrow> u64" where
  "GetRefund s = sdb_refund s"

section \<open>Writes of the state database\<close>

definition AddLog :: "Log \<Rightarrow> StateDB \<Rightarrow> StateDB" where
  "AddLog tlog s =
     (let s1 = jappend (addLogChange (sdb_thash s)) s;
          tlog1 = tlog\<lparr>log_TransactionHash := sdb_thash s, log_BlockHash := sdb_bhash s,
                       log_TransactionIndex := sdb_txIndex s, log_LogIndex := sdb_logSize s\<rparr>
      in s1\<lparr>sdb_logs := (sdb_logs s1)(sdb_thash s \<mapsto> GetLogs s1 (sdb_thash s) @ [tlog1]),
            sdb_logSize := sdb_logSize s + 1\<rparr>)"

definition AddPreimage :: "hash \<Rightarrow> bytes \<Rightarrow> StateDB \<Rightarrow> StateDB" where
  "AddPreimage h preimage s =
     (if sdb_preimages s h = None
      then (jappend (addPreimageChange h) s)\<lparr>sdb_preimages := (sdb_preimages s)(h \<mapsto> preimage)\<rparr>
      else s)"

definition AddRefund :: "u64 \<Rightarrow> StateDB \<Rightarrow> StateDB" where
  "AddRefund gas s = (jappend (refundChange (sdb_refund s)) s)\<lparr>sdb_refund := sdb_refund s + gas\<rparr>"

definition AddBalance :: "address \<Rightarrow> int \<Rightarrow> StateDB \<Rightarrow> go_panic + StateDB" where
  "AddBalance addr amount s = (let (ob, s1) = GetOrNewStateObject s addr in so_AddBalance amount ob s1)"

definition SubBalance :: "address \<Rightarrow> int \<Rightarrow> StateDB \<Rightarrow> go_panic + StateDB" where
  "SubBalance addr amount s = (let (ob, s1) = GetOrNewStateObject s addr in so_SubBalance amount ob s1)"

definition SetBalance :: "address \<Rightarrow> int \<Rightarrow> StateDB \<Rightarrow> go_panic + StateDB" where
  "SetBalance addr amount s = (let (ob, s1) = GetOrNewStateObject s addr in so_SetBalance amount ob s1)"

definition SetNonce :: "address \<Rightarrow> u64 \<Rightarrow> StateDB \<Rightarrow> StateDB" where
  "SetNonce addr nonce s = (let (ob, s1) = GetOrNewStateObject s addr in so_SetNonce nonce ob s1)"

definition SetCode :: "address \<Rightarrow> bytes \<Rightarrow> StateDB \<Rightarrow> StateDB" where
  "SetCode addr code s =
     (let (ob, s1) = GetOrNewStateObject s addr
      in so_SetCode (db_keccak (sdb_db s1) code) (Some code) ob s1)"

definition SetState :: "address \<Rightarrow> hash \<Rightarrow> hash \<Rightarrow> StateDB \<Rightarrow> StateDB" where
  "SetState addr key value s = (let (ob, s1) = GetOrNewStateObject s addr in so_SetState key value ob s1)"

definition SetLockedBalance :: "address \<Rightarrow> int \<Rightarrow> StateDB \<Rightarrow> go_panic + StateDB" where
  "SetLockedBalance addr amount s =
     (let (ob, s1) = GetOrNewStateObject s addr in so_SetLockedBalance amount ob s1)"

definition SetUnLockedBalance :: "address \<Rightarrow> int \<Rightarrow> StateDB \<Rightarrow> go_panic + StateDB" where
  "SetUnLockedBalance addr amount s =
     (let (ob, s1) = GetOrNewStateObject s addr in so_SetUnLockedBalance amount ob s1)"

definition SetDelegateTimestamp :: "address \<Rightarrow> int \<Rightarrow> StateDB \<Rightarrow> go_panic + StateDB" where
  "SetDelegateTimestamp addr t s =
     (let (ob, s1) = GetOrNewStateObject s addr in so_SetDelegateTimestamp t ob s1)"

text \<open>This setter calls the unexported method of the object and keeps no journal.\<close>

definition SetUnDelegateTimestamp :: "address \<Rightarrow> int \<Rightarrow> StateDB \<Rightarrow> StateDB" where
  "SetUnDelegateTimestamp addr t s =
     (let (ob, s1) = GetOrNewStateObject s addr
      in setStateObject (so_setUnDelegateTimestamp (Some t) ob) s1)"

definition Suicide :: "address \<Rightarrow> StateDB \<Rightarrow> go_panic + (bool \<times> StateDB)" where
  "Suicide addr s =
     (case getStateObject s addr of
        (None, s1) \<Rightarrow> Inr (False, s1)
      | (Some ob, s1) \<Rightarrow>
          rbind (deref (Balance (so_data ob))) (\<lambda>b.
            Inr (True, setStateObject (so_setBalance (Some 0) (markSuicided ob))
                         (jappend (suicideChange addr (suicided ob) b) s1))))"

definition CreateAccount :: "address \<Rightarrow> StateDB \<Rightarrow> StateDB" where
  "CreateAccount addr s =
     (let (newobj, prev, s1) = createObject s addr
      in case prev of
           None \<Rightarrow> s1
         | Some p \<Rightarrow> setStateObject (so_setBalance (Balance (so_data p)) newobj) s1)"

definition Prepare :: "hash \<Rightarrow> hash \<Rightarrow> nat \<Rightarrow> StateDB \<Rightarrow> StateDB" where
  "Prepare th bh ti s = s\<lparr>sdb_thash := th, sdb_bhash := bh, sdb_txIndex := ti\<rparr>"

section \<open>Snapshots\<close>

text \<open>\<open>s.getStateObject(a).setX(v)\<close>: a nil object panics.\<close>

definition upd_obj :: "address \<Rightarrow> (stateObject \<Rightarrow> stateObject) \<Rightarrow> StateDB \<Rightarrow> go_panic + StateDB" where
  "upd_obj a f s =
     (case getStateObject s a of
        (None, _) \<Rightarrow> Inl NilDeref
      | (Some ob, s1) \<Rightarrow> Inr (setStateObject (f ob) s1))"

fun entry_revert :: "journalEntry \<Rightarrow> StateDB \<Rightarrow> go_panic + StateDB" where
  "entry_revert (createObjectChange a) s =
     Inr (s\<lparr>stateObjects := (stateObjects s)(a := None), stateObjectsDirty := stateObjectsDirty s - {a}\<rparr>)"
| "entry_revert (resetObjectChange prev) s = Inr (setStateObject prev s)"
| "entry_revert (suicideChange a prev prevbalance) s =
     (case getStateObject s a of
        (None, s1) \<Rightarrow> Inr s1
      | (Some ob, s1) \<Rightarrow> Inr (setStateObject (so_setBalance (Some prevbalance) (ob\<lparr>suicided := prev\<rparr>)) s1))"
| "entry_revert (balanceChange a prev) s = upd_obj a (so_setBalance (Some prev)) s"
| "entry_revert (nonceChange a prev) s = upd_obj a (so_setNonce prev) s"
| "entry_revert (storageChange a key prevalue) s = upd_obj a (so_setState key prevalue) s"
| "entry_revert (codeChange a prevcode prevhash) s = upd_obj a (so_setCode (BytesToHash prevhash) prevcode) s"
| "entry_revert (lockedBalanceChange a prev) s = upd_obj a (so_setLockedBalance (Some prev)) s"
| "entry_revert (delegateTimestampChange a prev) s = upd_obj a (so_setDelegateTimestamp (Some prev)) s"
| "entry_revert (unlockedBalanceChange a prev) s = upd_obj a (so_setUnLockedBalance (Some prev)) s"
| "entry_revert (undelegateTimestampChange a prev) s = upd_obj a (so_setUnDelegateTimestamp (Some prev)) s"
| "entry_revert (refundChange prev) s = Inr (s\<lparr>sdb_refund := prev\<rparr>)"
| "entry_revert (addLogChange txhash) s =
     (let logs = GetLogs s txhash
      in if length logs = 1
         then Inr (s\<lparr>sdb_logs := (sdb_logs s)(txhash := None), sdb_logSize := sdb_logSize s - 1\<rparr>)
         else if logs = [] then Inl SliceOutOfRange
         else Inr (s\<lparr>sdb_logs := (sdb_logs s)(txhash \<mapsto> butlast logs), sdb_logSize := sdb_logSize s - 1\<rparr>))"
| "entry_revert (addPreimageChange h) s = Inr (s\<lparr>sdb_preimages := (sdb_preimages s)(h := None)\<rparr>)"
| "entry_revert (touchChange a) s = Inr s"

text \<open>The loop of \<open>journal.revert\<close> over the entries from the last one down.\<close>

fun revert_entries :: "journalEntry list \<Rightarrow> StateDB \<Rightarrow> go_panic + StateDB" where
  "revert_entries [] s = Inr s"
| "revert_entries (e # es) s = rbind (entry_revert e s) (\<lambda>s1.
     revert_entries es (s1\<lparr>sdb_journal := journal_undirty (sdb_journal s1) e\<rparr>))"

definition journal_revert :: "nat \<Rightarrow> StateDB \<Rightarrow> go_panic + StateDB" where
  "journal_revert snapshot s =
     rbind (revert_entries (rev (drop snapshot (entries (sdb_journal s)))) s) (\<lambda>s1.
       Inr (s1\<lparr>sdb_journal := (sdb_journal s1)\<lparr>entries := take snapshot (entries (sdb_journal s1))\<rparr>\<rparr>))"

definition Snapshot :: "StateDB \<Rightarrow> nat \<times> StateDB" where
  "Snapshot s =
     (nextRevisionID s,
      s\<lparr>nextRevisionID := nextRevisionID s + 1,
        validRevisions := validRevisions s @
          [\<lparr>rev_id = nextRevisionID s, rev_journalIndex = journal_length (sdb_journal s)\<rparr>]\<rparr>)"

definition RevertToSnapshot :: "nat \<Rightarrow> StateDB \<Rightarrow> go_panic + StateDB" where
  "RevertToSnapshot revid s =
     (let revs = validRevisions s;
          idx = sort_Search (length revs) (\<lambda>i. revid \<le> rev_id (revs ! i))
      in if idx = length revs \<or> rev_id (revs ! idx) \<noteq> revid
         then Inl (PanicMsg ''revision id cannot be reverted'')
         else rbind (journal_revert (rev_journalIndex (revs ! idx)) s) (\<lambda>s1.
                Inr (s1\<lparr>validRevisions := take idx (validRevisions s1)\<rparr>)))"

section \<open>Finalisation, commit and copies\<close>

definition clearJournalAndRefund :: "StateDB \<Rightarrow> StateDB" where
  "clearJournalAndRefund s = s\<lparr>sdb_journal := newJournal, validRevisions := [], sdb_refund := 0\<rparr>"

text \<open>RLP refuses a negative integer and writes a nil one as zero, so a nil pointer is
  read back as zero.\<close>

definition rlp_big :: "bigp \<Rightarrow> bigp" where
  "rlp_big p = (case p of None \<Rightarrow> Some 0 | Some n \<Rightarrow> Some n)"

definition rlp_negative :: "bigp \<Rightarrow> bool" where
  "rlp_negative p = (case p of None \<Rightarrow> False | Some n \<Rightarrow> n < 0)"

definition rlp_account :: "Account \<Rightarrow> Account option" where
  "rlp_account a =
     (if rlp_negative (UnLockedBalance a) \<or> rlp_negative (UnDelegateTimestamp a)
         \<or> rlp_negative (LockedBalance a) \<or> rlp_negative (DelegateTimestamp a)
         \<or> rlp_negative (Balance a)
      then None
      else Some (a\<lparr>UnLockedBalance := rlp_big (UnLockedBalance a),
                  UnDelegateTimestamp := rlp_big (UnDelegateTimestamp a),
                  LockedBalance := rlp_big (LockedBalance a),
                  DelegateTimestamp := rlp_big (DelegateTimestamp a),
                  Balance := rlp_big (Balance a)\<rparr>))"

definition updateStateObject :: "stateObject \<Rightarrow> StateDB \<Rightarrow> go_panic + StateDB" where
  "updateStateObject ob s =
     (case rlp_account (so_data ob) of
        None \<Rightarrow> Inl (PanicMsg ''can't encode object'')
      | Some data \<Rightarrow>
          (let (tr, err) = TryUpdate (sdb_trie s) (so_address ob) data
           in Inr (sdb_setError err (s\<lparr>sdb_trie := tr\<rparr>))))"

definition deleteStateObject :: "stateObject \<Rightarrow> StateDB \<Rightarrow> StateDB" where
  "deleteStateObject ob s =
     (let s1 = setStateObject (ob\<lparr>deleted := True\<rparr>) s;
          (tr, err) = TryDelete (sdb_trie s1) (so_address ob)
      in sdb_setError err (s1\<lparr>sdb_trie := tr\<rparr>))"

definition Finalise_one :: "(address \<Rightarrow> hash list) \<Rightarrow> bool \<Rightarrow> address \<Rightarrow> StateDB \<Rightarrow> go_panic + StateDB" where
  "Finalise_one ks deleteEmptyObjects addr s =
     (case stateObjects s addr of
        None \<Rightarrow> Inr s
      | Some ob \<Rightarrow>
          rbind (if suicided ob then Inr True
                 else if deleteEmptyObjects then so_empty (sdb_db s) ob else Inr False) (\<lambda>del.
          rbind (if del then Inr (deleteStateObject ob s)
                 else (let ob1 = updateRoot (sdb_db s) (ks addr) ob
                       in updateStateObject ob1 (setStateObject ob1 s))) (\<lambda>s1.
          Inr (s1\<lparr>stateObjectsDirty := insert addr (stateObjectsDirty s1)\<rparr>))))"

fun Finalise_loop :: "(address \<Rightarrow> hash list) \<Rightarrow> bool \<Rightarrow> address list \<Rightarrow> StateDB \<Rightarrow> go_panic + StateDB" where
  "Finalise_loop ks del [] s = Inr s"
| "Finalise_loop ks del (addr # as) s = rbind (Finalise_one ks del addr s) (Finalise_loop ks del as)"

text \<open>\<open>order\<close> enumerates the journal's dirty addresses, \<open>ks\<close> the dirty keys of an object.\<close>

definition Finalise :: "address list \<Rightarrow> (address \<Rightarrow> hash list) \<Rightarrow> bool \<Rightarrow> StateDB \<Rightarrow> go_panic + StateDB" where
  "Finalise order ks deleteEmptyObjects s =
     rbind (Finalise_loop ks deleteEmptyObjects order s) (\<lambda>s1. Inr (clearJournalAndRefund s1))"

definition IntermediateRoot ::
  "address list \<Rightarrow> (address \<Rightarrow> hash list) \<Rightarrow> bool \<Rightarrow> StateDB \<Rightarrow> go_panic + (hash \<times> StateDB)" where
  "IntermediateRoot order ks deleteEmptyObjects s =
     rbind (Finalise order ks deleteEmptyObjects s) (\<lambda>s1.
       Inr (db_accountRoot (sdb_db s1) (sdb_trie s1), s1))"

text \<open>One turn of the loop of \<open>Commit\<close>; an error of \<open>CommitTrie\<close> leaves the loop.\<close>

definition Commit_one ::
  "(address \<Rightarrow> hash list) \<Rightarrow> bool \<Rightarrow> address \<Rightarrow> StateDB \<Rightarrow> go_panic + (dberr option \<times> StateDB)" where
  "Commit_one ks deleteEmptyObjects addr s =
     (case stateObjects s addr of
        None \<Rightarrow> Inr (None, s)
      | Some ob \<Rightarrow>
          (let isDirty = (addr \<in> stateObjectsDirty s)
           in rbind (if suicided ob then Inr True
                     else if isDirty \<and> deleteEmptyObjects then so_empty (sdb_db s) ob
                     else Inr False) (\<lambda>del.
              rbind (if del then Inr (None, deleteStateObject ob s)
                     else if isDirty
                     then (let (ob1, d1) =
                              (case so_code ob of
                                 Some code \<Rightarrow>
                                   (if dirtyCode ob
                                    then (ob\<lparr>dirtyCode := False\<rparr>,
                                          (sdb_db s)\<lparr>db_codes := (db_codes (sdb_db s))
                                             (BytesToHash (CodeHash (so_data ob)) \<mapsto> code)\<rparr>)
                                    else (ob, sdb_db s))
                               | None \<Rightarrow> (ob, sdb_db s));
                              (err, ob2, d2) = CommitTrie d1 (ks addr) ob1;
                              s2 = setStateObject ob2 (s\<lparr>sdb_db := d2\<rparr>)
                           in case err of
                                Some e \<Rightarrow> Inr (Some e, s2)
                              | None \<Rightarrow> rbind (updateStateObject ob2 s2) (\<lambda>s3. Inr (None, s3)))
                     else Inr (None, s)) (\<lambda>r.
              case r of
                (Some e, s3) \<Rightarrow> Inr (Some e, s3)
              | (None, s3) \<Rightarrow> Inr (None, s3\<lparr>stateObjectsDirty := stateObjectsDirty s3 - {addr}\<rparr>)))))"

fun Commit_loop ::
  "(address \<Rightarrow> hash list) \<Rightarrow> bool \<Rightarrow> address list \<Rightarrow> StateDB \<Rightarrow> go_panic + (dberr option \<times> StateDB)" where
  "Commit_loop ks del [] s = Inr (None, s)"
| "Commit_loop ks del (addr # as) s = rbind (Commit_one ks del addr s) (\<lambda>r.
     case r of (Some e, s1) \<Rightarrow> Inr (Some e, s1) | (None, s1) \<Rightarrow> Commit_loop ks del as s1)"

text \<open>\<open>order\<close> enumerates \<open>stateObjects\<close>. The final commit of the account trie stores the
  trie under its root.\<close>

definition Commit ::
  "address list \<Rightarrow> (address \<Rightarrow> hash list) \<Rightarrow> bool \<Rightarrow> StateDB \<Rightarrow> go_panic + (hash \<times> dberr option \<times> StateDB)" where
  "Commit order ks deleteEmptyObjects s =
     rbind (Commit_loop ks deleteEmptyObjects order
              (s\<lparr>stateObjectsDirty := stateObjectsDirty s \<union> dom (dirties (sdb_journal s))\<rparr>)) (\<lambda>r.
     case r of
       (Some e, s1) \<Rightarrow> Inr (0, Some e, clearJournalAndRefund s1)
     | (None, s1) \<Rightarrow>
         (let d = sdb_db s1; root = db_accountRoot d (sdb_trie s1);
              d1 = d\<lparr>db_accounts := (db_accounts d)(root \<mapsto> sdb_trie s1)\<rparr>
          in Inr (root, None, clearJournalAndRefund (s1\<lparr>sdb_db := d1\<rparr>))))"

definition Reset :: "hash \<Rightarrow> StateDB \<Rightarrow> dberr option \<times> StateDB" where
  "Reset root s =
     (case OpenTrie (sdb_db s) root of
        Inl e \<Rightarrow> (Some e, s)
      | Inr tr \<Rightarrow>
          (None, clearJournalAndRefund
             (s\<lparr>sdb_trie := tr, stateObjects := Map.empty, stateObjectsDirty := {}, sdb_thash := 0,
                sdb_bhash := 0, sdb_txIndex := 0, sdb_logs := Map.empty, sdb_logSize := 0,
                sdb_preimages := Map.empty\<rparr>)))"

text \<open>The two loops of \<open>Copy\<close>: dirty objects of the journal that are live, then the
  objects already marked dirty, where a missing object is a nil receiver of \<open>deepCopy\<close>.\<close>

definition Copy :: "StateDB \<Rightarrow> go_panic + StateDB" where
  "Copy s =
     (if \<exists>a \<in> stateObjectsDirty s. stateObjects s a = None then Inl NilDeref
      else (let copied = (\<lambda>a. if a \<in> dom (dirties (sdb_journal s)) \<or> a \<in> stateObjectsDirty s
                              then map_option (deepCopy (sdb_db s)) (stateObjects s a) else None)
            in Inr \<lparr>sdb_db = sdb_db s, sdb_trie = sdb_trie s, stateObjects = copied,
                    stateObjectsDirty = stateObjectsDirty s
                       \<union> {a \<in> dom (dirties (sdb_journal s)). stateObjects s a \<noteq> None},
                    sdb_dbErr = None, sdb_refund = sdb_refund s, sdb_thash = 0, sdb_bhash = 0,
                    sdb_txIndex = 0, sdb_logs = sdb_logs s, sdb_logSize = sdb_logSize s,
                    sdb_preimages = sdb_preimages s, sdb_journal = newJournal,
                    validRevisions = [], nextRevisionID = 0\<rparr>))"

end
