(* ===== verification/StateRevert.thy ===== *)
theory StateRevert
  imports State
begin

text \<open>
  What a client of \<open>StateDB\<close> observes, the invariant of the state, and the contract of
  \<open>Snapshot\<close> and \<open>RevertToSnapshot\<close>: every journaled operation appends entries whose
  reversal leads back to an observably equal state, and reverting to a snapshot that is
  still valid restores what was observable when it was taken.
\<close>

section \<open>Observations\<close>

text \<open>The object an address leads to, without the caching that \<open>getStateObject\<close> does.\<close>

definition obj_at :: "StateDB \<Rightarrow> address \<Rightarrow> stateObject option" where
  "obj_at s a =
     (case stateObjects s a of
        Some ob \<Rightarrow> (if deleted ob then None else Some ob)
      | None \<Rightarrow> (case sdb_trie s a of Present data \<Rightarrow> Some (newObject (sdb_db s) a data) | _ \<Rightarrow> None))"

record account_view =
  av_data :: Account
  av_code :: "bytes option"
  av_storage :: "hash \<Rightarrow> hash"
  av_suicided :: bool

definition view_of :: "Database \<Rightarrow> stateObject \<Rightarrow> account_view" where
  "view_of d ob = \<lparr>av_data = so_data ob, av_code = fst (so_Code d ob),
     av_storage = (\<lambda>k. fst (so_GetState d k ob)), av_suicided = suicided ob\<rparr>"

definition accounts_of :: "StateDB \<Rightarrow> address \<rightharpoonup> account_view" where
  "accounts_of s a = map_option (view_of (sdb_db s)) (obj_at s a)"

record observation =
  obs_accounts :: "address \<rightharpoonup> account_view"
  obs_refund :: u64
  obs_logs :: "hash \<Rightarrow> Log list"
  obs_logSize :: u64
  obs_preimages :: "hash \<rightharpoonup> bytes"

definition observe :: "StateDB \<Rightarrow> observation" where
  "observe s = \<lparr>obs_accounts = accounts_of s, obs_refund = sdb_refund s, obs_logs = GetLogs s,
     obs_logSize = sdb_logSize s, obs_preimages = sdb_preimages s\<rparr>"

section \<open>The invariant\<close>

definition obj_ok :: "stateObject \<Rightarrow> bool" where
  "obj_ok ob \<longleftrightarrow> Balance (so_data ob) \<noteq> None \<and> LockedBalance (so_data ob) \<noteq> None
     \<and> DelegateTimestamp (so_data ob) \<noteq> None \<and> CodeHash (so_data ob) \<noteq> None"

definition not_present :: "'v slot \<Rightarrow> bool" where
  "not_present sl \<longleftrightarrow> (case sl of Present _ \<Rightarrow> False | _ \<Rightarrow> True)"

definition objs_ok :: "StateDB \<Rightarrow> bool" where
  "objs_ok s \<longleftrightarrow> (\<forall>a ob. stateObjects s a = Some ob \<longrightarrow>
     so_address ob = a \<and> obj_ok ob \<and> (deleted ob \<longrightarrow> not_present (sdb_trie s a)))"

fun entry_ok :: "journalEntry \<Rightarrow> bool" where
  "entry_ok (resetObjectChange prev) \<longleftrightarrow> obj_ok prev \<and> \<not> deleted prev"
| "entry_ok _ \<longleftrightarrow> True"

definition revs_ok :: "StateDB \<Rightarrow> bool" where
  "revs_ok s \<longleftrightarrow>
     sorted_wrt (\<lambda>r r'. rev_id r < rev_id r' \<and> rev_journalIndex r \<le> rev_journalIndex r') (validRevisions s)
     \<and> (\<forall>r \<in> set (validRevisions s). rev_id r < nextRevisionID s
          \<and> rev_journalIndex r \<le> length (entries (sdb_journal s)))"

definition state_ok :: "StateDB \<Rightarrow> bool" where
  "state_ok s \<longleftrightarrow> objs_ok s \<and> (\<forall>e \<in> set (entries (sdb_journal s)). entry_ok e) \<and> revs_ok s"

section \<open>Observational equality\<close>

definition eqv :: "StateDB \<Rightarrow> StateDB \<Rightarrow> bool" where
  "eqv s t \<longleftrightarrow> sdb_db s = sdb_db t \<and> sdb_trie s = sdb_trie t \<and> observe s = observe t
     \<and> objs_ok s \<and> objs_ok t"

named_theorems state_defs

lemmas [state_defs] = setStateObject_def jappend_def sdb_setError_def

lemma eqv_trans: "eqv s t \<Longrightarrow> eqv t u \<Longrightarrow> eqv s u"
  by (auto simp: eqv_def)

lemma eqv_refl: "objs_ok s \<Longrightarrow> eqv s s"
  by (auto simp: eqv_def)

lemma eqv_sym: "eqv s t \<Longrightarrow> eqv t s"
  by (auto simp: eqv_def)

lemma newObject_fields [simp]:
  "so_address (newObject d a data) = a"
  "deleted (newObject d a data) = False"
  "suicided (newObject d a data) = False"
  "so_code (newObject d a data) = None"
  "so_trie (newObject d a data) = None"
  "cachedStorage (newObject d a data) = Map.empty"
  "dirtyStorage (newObject d a data) = Map.empty"
  "so_dbErr (newObject d a data) = None"
  by (simp_all add: newObject_def Let_def)

lemma newObject_ok [simp]: "obj_ok (newObject d a data)"
  by (auto simp: newObject_def Let_def obj_ok_def)

lemma observe_update_simps [simp]:
  "obj_at (s\<lparr>sdb_journal := j\<rparr>) = obj_at s"
  "obj_at (s\<lparr>sdb_dbErr := e\<rparr>) = obj_at s"
  "obj_at (s\<lparr>validRevisions := vr\<rparr>) = obj_at s"
  "obj_at (s\<lparr>nextRevisionID := n\<rparr>) = obj_at s"
  "obj_at (s\<lparr>sdb_refund := r\<rparr>) = obj_at s"
  "obj_at (s\<lparr>sdb_logs := l\<rparr>) = obj_at s"
  "obj_at (s\<lparr>sdb_logSize := z\<rparr>) = obj_at s"
  "obj_at (s\<lparr>sdb_preimages := p\<rparr>) = obj_at s"
  "obj_at (s\<lparr>sdb_thash := h\<rparr>) = obj_at s"
  "obj_at (s\<lparr>sdb_bhash := h\<rparr>) = obj_at s"
  "obj_at (s\<lparr>sdb_txIndex := i\<rparr>) = obj_at s"
  "obj_at (s\<lparr>stateObjectsDirty := dd\<rparr>) = obj_at s"
  by (simp_all add: obj_at_def fun_eq_iff split: option.split slot.split)

lemma obj_at_set:
  "\<not> deleted ob \<Longrightarrow> obj_at (setStateObject ob s) = (obj_at s)(so_address ob \<mapsto> ob)"
  by (auto simp: obj_at_def setStateObject_def fun_eq_iff split: option.split slot.split)

lemma objs_ok_set:
  "objs_ok s \<Longrightarrow> obj_ok ob \<Longrightarrow> \<not> deleted ob \<Longrightarrow> objs_ok (setStateObject ob s)"
  by (auto simp: objs_ok_def setStateObject_def)

lemma obj_at_ok:
  "objs_ok s \<Longrightarrow> obj_at s a = Some ob \<Longrightarrow> so_address ob = a \<and> obj_ok ob \<and> \<not> deleted ob"
  by (auto simp: obj_at_def objs_ok_def split: option.splits if_splits slot.splits)

text \<open>\<open>getStateObject\<close> returns the object of \<open>obj_at\<close>; it may note an error or cache the
  object it loads, and neither is observable.\<close>

lemma getStateObject_cases:
  assumes "getStateObject s a = (r, s1)"
  obtains (noted) e where "r = obj_at s a" "s1 = s\<lparr>sdb_dbErr := e\<rparr>"
    | (load) ob where "r = Some ob" "obj_at s a = Some ob" "s1 = setStateObject ob s"
        "so_address ob = a" "\<not> deleted ob" "obj_ok ob"
proof (cases "stateObjects s a")
  case (Some ob)
  with assms have "s1 = s" "r = obj_at s a"
    by (auto simp: getStateObject_def obj_at_def split: if_splits)
  then show thesis using noted [of "sdb_dbErr s"] by simp
next
  case None
  show thesis
  proof (cases "sdb_trie s a")
    case (Present data)
    with None assms show thesis
      by (intro load [of "newObject (sdb_db s) a data"])
        (simp_all add: getStateObject_def obj_at_def Let_def)
  next
    case Absent
    with None assms have "r = obj_at s a" "s1 = sdb_setError None s"
      by (simp_all add: getStateObject_def obj_at_def)
    then show thesis using noted [of "sdb_dbErr s1"] by (simp add: sdb_setError_def split: if_splits)
  next
    case Corrupt
    with None assms have "r = obj_at s a" "s1 = s"
      by (simp_all add: getStateObject_def obj_at_def)
    then show thesis using noted [of "sdb_dbErr s1"] by simp
  next
    case (Unavailable e)
    with None assms have "r = obj_at s a" "s1 = sdb_setError (Some e) s"
      by (simp_all add: getStateObject_def obj_at_def)
    then show thesis using noted [of "sdb_dbErr s1"] by (simp add: sdb_setError_def split: if_splits)
  qed
qed

text \<open>The fields that the operations on one object leave alone.\<close>

definition same_frame :: "StateDB \<Rightarrow> StateDB \<Rightarrow> bool" where
  "same_frame s t \<longleftrightarrow> sdb_db s = sdb_db t \<and> sdb_trie s = sdb_trie t \<and> sdb_refund s = sdb_refund t
     \<and> sdb_logs s = sdb_logs t \<and> sdb_logSize s = sdb_logSize t \<and> sdb_preimages s = sdb_preimages t
     \<and> validRevisions s = validRevisions t \<and> nextRevisionID s = nextRevisionID t"

lemma getStateObject_props:
  assumes "getStateObject s a = (r, s1)" "objs_ok s"
  shows "r = obj_at s a" "obj_at s1 = obj_at s" "objs_ok s1" "same_frame s1 s"
    "sdb_journal s1 = sdb_journal s"
proof -
  have "r = obj_at s a \<and> obj_at s1 = obj_at s \<and> objs_ok s1 \<and> same_frame s1 s \<and> sdb_journal s1 = sdb_journal s"
    using assms(1)
  proof (cases rule: getStateObject_cases)
    case (noted e)
    then show ?thesis using assms(2) by (simp add: same_frame_def objs_ok_def)
  next
    case (load ob)
    moreover have "same_frame s1 s" "sdb_journal s1 = sdb_journal s"
      using load(3) by (simp_all add: same_frame_def setStateObject_def)
    ultimately show ?thesis using assms(2) objs_ok_set [OF assms(2)]
      by (auto simp: obj_at_set fun_upd_idem)
  qed
  then show "r = obj_at s a" "obj_at s1 = obj_at s" "objs_ok s1" "same_frame s1 s"
    "sdb_journal s1 = sdb_journal s" by auto
qed

section \<open>Views of updated objects\<close>

definition code_of :: "Database \<Rightarrow> bytes option \<Rightarrow> hash option \<Rightarrow> bytes option" where
  "code_of d c h =
     (if c \<noteq> None then c else if h = Some (emptyCodeHash d) then None else db_codes d (BytesToHash h))"

definition trie_of :: "Database \<Rightarrow> storageTrie option \<Rightarrow> hash \<Rightarrow> storageTrie" where
  "trie_of d t root =
     (case t of Some tr \<Rightarrow> tr
      | None \<Rightarrow> (case OpenStorageTrie d 0 root of Inr tr \<Rightarrow> tr | Inl _ \<Rightarrow> (\<lambda>_. Absent)))"

definition slot_value :: "hash slot \<Rightarrow> hash" where
  "slot_value sl = (case sl of Present v \<Rightarrow> v | _ \<Rightarrow> 0)"

lemma so_Code_fst: "fst (so_Code d ob) = code_of d (so_code ob) (CodeHash (so_data ob))"
  by (simp add: so_Code_def code_of_def ContractCode_def Let_def split: option.split)

lemma so_getTrie_fst: "fst (so_getTrie d ob) = trie_of d (so_trie ob) (Root (so_data ob))"
  by (simp add: so_getTrie_def trie_of_def OpenStorageTrie_def Let_def split: option.split sum.split)

lemma so_getTrie_snd:
  "snd (so_getTrie d ob) = ob\<lparr>so_trie := Some (trie_of d (so_trie ob) (Root (so_data ob))),
     so_dbErr := so_dbErr (snd (so_getTrie d ob))\<rparr>"
  by (simp add: so_getTrie_def trie_of_def OpenStorageTrie_def so_setError_def Let_def
           split: option.split sum.split)

definition storage_of ::
  "Database \<Rightarrow> (hash \<rightharpoonup> hash) \<Rightarrow> storageTrie option \<Rightarrow> hash \<Rightarrow> hash \<Rightarrow> hash" where
  "storage_of d cached t root k = (case cached k of Some v \<Rightarrow> v | None \<Rightarrow> slot_value (trie_of d t root k))"

lemma storage_of_upd [simp]:
  "storage_of d (cached(k \<mapsto> v)) t root = (storage_of d cached t root)(k := v)"
  by (simp add: storage_of_def fun_eq_iff)

lemma so_GetState_fst:
  "fst (so_GetState d k ob) = storage_of d (cachedStorage ob) (so_trie ob) (Root (so_data ob)) k"
  by (cases "so_getTrie d ob")
    (use so_getTrie_fst [of d ob] in
      \<open>simp add: so_GetState_def storage_of_def slot_value_def split: option.split slot.split\<close>)

lemma view_of_alt:
  "view_of d ob = \<lparr>av_data = so_data ob, av_code = code_of d (so_code ob) (CodeHash (so_data ob)),
     av_storage = storage_of d (cachedStorage ob) (so_trie ob) (Root (so_data ob)),
     av_suicided = suicided ob\<rparr>"
  by (simp add: view_of_def so_Code_fst so_GetState_fst fun_eq_iff)

lemmas setter_defs = so_setNonce_def so_setBalance_def so_setLockedBalance_def
  so_setUnLockedBalance_def so_setDelegateTimestamp_def so_setUnDelegateTimestamp_def
  so_setCode_def so_setState_def markSuicided_def

text \<open>An update of an object is benign when it keeps the address, the deletion mark and the
  pointers that must not be nil, and acts on the view through a function.\<close>

definition acts_as :: "Database \<Rightarrow> (stateObject \<Rightarrow> stateObject) \<Rightarrow> (account_view \<Rightarrow> account_view) \<Rightarrow> bool" where
  "acts_as d f g \<longleftrightarrow> (\<forall>ob. so_address (f ob) = so_address ob \<and> deleted (f ob) = deleted ob
     \<and> (obj_ok ob \<longrightarrow> obj_ok (f ob)) \<and> view_of d (f ob) = g (view_of d ob))"

lemma setters_act:
  "acts_as d (so_setNonce n) (\<lambda>v. v\<lparr>av_data := (av_data v)\<lparr>Nonce := n\<rparr>\<rparr>)"
  "acts_as d (so_setBalance (Some b)) (\<lambda>v. v\<lparr>av_data := (av_data v)\<lparr>Balance := Some b\<rparr>\<rparr>)"
  "acts_as d (so_setLockedBalance (Some b)) (\<lambda>v. v\<lparr>av_data := (av_data v)\<lparr>LockedBalance := Some b\<rparr>\<rparr>)"
  "acts_as d (so_setUnLockedBalance p) (\<lambda>v. v\<lparr>av_data := (av_data v)\<lparr>UnLockedBalance := p\<rparr>\<rparr>)"
  "acts_as d (so_setDelegateTimestamp (Some b)) (\<lambda>v. v\<lparr>av_data := (av_data v)\<lparr>DelegateTimestamp := Some b\<rparr>\<rparr>)"
  "acts_as d (so_setUnDelegateTimestamp p) (\<lambda>v. v\<lparr>av_data := (av_data v)\<lparr>UnDelegateTimestamp := p\<rparr>\<rparr>)"
  "acts_as d (so_setCode h c) (\<lambda>v. v\<lparr>av_data := (av_data v)\<lparr>CodeHash := Some h\<rparr>, av_code := code_of d c (Some h)\<rparr>)"
  "acts_as d (so_setState k x) (\<lambda>v. v\<lparr>av_storage := (av_storage v)(k := x)\<rparr>)"
  by (auto simp: acts_as_def setter_defs view_of_alt obj_ok_def)

lemma acts_as_suicide:
  "acts_as d (\<lambda>ob. so_setBalance (Some b) (ob\<lparr>suicided := p\<rparr>))
     (\<lambda>v. v\<lparr>av_data := (av_data v)\<lparr>Balance := Some b\<rparr>, av_suicided := p\<rparr>)"
  by (auto simp: acts_as_def setter_defs view_of_alt obj_ok_def)

section \<open>Undoing one entry\<close>

lemma eqv_alt:
  "eqv s t \<longleftrightarrow> sdb_db s = sdb_db t \<and> sdb_trie s = sdb_trie t \<and> accounts_of s = accounts_of t
     \<and> sdb_refund s = sdb_refund t \<and> GetLogs s = GetLogs t \<and> sdb_logSize s = sdb_logSize t
     \<and> sdb_preimages s = sdb_preimages t \<and> objs_ok s \<and> objs_ok t"
  by (auto simp: eqv_def observe_def)

lemma GetLogs_frame [simp]: "same_frame s t \<Longrightarrow> GetLogs s = GetLogs t"
  by (simp add: same_frame_def GetLogs_def fun_eq_iff)

lemma eqv_frame:
  assumes "eqv s t" "same_frame s' s" "same_frame t' t" "accounts_of s' = accounts_of t'"
    "objs_ok s'" "objs_ok t'"
  shows "eqv s' t'"
  using assms GetLogs_frame [OF assms(2)] GetLogs_frame [OF assms(3)]
  unfolding eqv_alt same_frame_def by simp

lemma accounts_of_upd:
  "sdb_db s' = sdb_db s \<Longrightarrow> obj_at s' = (obj_at s)(a \<mapsto> ob) \<Longrightarrow>
   accounts_of s' = (accounts_of s)(a \<mapsto> view_of (sdb_db s) ob)"
  by (simp add: accounts_of_def fun_eq_iff)

lemma upd_obj_view:
  assumes ok: "objs_ok s" and act: "acts_as (sdb_db s) f g" and v: "accounts_of s a = Some v"
  obtains s' where "upd_obj a f s = Inr s'" "accounts_of s' = (accounts_of s)(a \<mapsto> g v)"
    "objs_ok s'" "same_frame s' s" "sdb_journal s' = sdb_journal s"
proof -
  obtain r s1 where g: "getStateObject s a = (r, s1)" by fastforce
  note p = getStateObject_props [OF g ok]
  from v obtain ob where ob: "obj_at s a = Some ob" "v = view_of (sdb_db s) ob"
    by (auto simp: accounts_of_def)
  from obj_at_ok [OF ok ob(1)] have o: "so_address ob = a" "obj_ok ob" "\<not> deleted ob" by auto
  from act o have f: "so_address (f ob) = a" "obj_ok (f ob)" "\<not> deleted (f ob)"
    "view_of (sdb_db s) (f ob) = g v" using ob by (auto simp: acts_as_def)
  let ?s = "setStateObject (f ob) s1"
  have at: "obj_at ?s = (obj_at s)(a \<mapsto> f ob)" using f p by (simp add: obj_at_set)
  have db: "sdb_db ?s = sdb_db s" using p by (simp add: same_frame_def setStateObject_def)
  show thesis
  proof (rule that)
    show "upd_obj a f s = Inr ?s" using g p(1) ob by (simp add: upd_obj_def)
    show "accounts_of ?s = (accounts_of s)(a \<mapsto> g v)" using accounts_of_upd [OF db at] f by simp
    show "objs_ok ?s" by (rule objs_ok_set [OF p(3) f(2,3)])
    show "same_frame ?s s" using p(4) by (simp add: same_frame_def setStateObject_def)
    show "sdb_journal ?s = sdb_journal s" using p(5) by (simp add: setStateObject_def)
  qed
qed

lemma upd_obj_none:
  "objs_ok s \<Longrightarrow> accounts_of s a = None \<Longrightarrow> upd_obj a f s = Inl NilDeref"
  using getStateObject_props(1) [of s a]
  by (cases "getStateObject s a") (auto simp: upd_obj_def accounts_of_def split: option.splits)

lemma upd_obj_frame:
  assumes "objs_ok s" "acts_as (sdb_db s) f g" "upd_obj a f s = Inr s'"
  shows "objs_ok s'" "same_frame s' s" "sdb_journal s' = sdb_journal s"
proof -
  from assms upd_obj_none obtain v where "accounts_of s a = Some v" by (cases "accounts_of s a") auto
  then obtain s'' where "upd_obj a f s = Inr s''" "objs_ok s''" "same_frame s'' s"
    "sdb_journal s'' = sdb_journal s" by (rule upd_obj_view [OF assms(1,2)])
  with assms(3) show "objs_ok s'" "same_frame s' s" "sdb_journal s' = sdb_journal s" by simp_all
qed

lemma upd_obj_eqv:
  assumes e: "eqv s t" and act: "acts_as (sdb_db s) f g" and u: "upd_obj a f s = Inr s'"
  shows "\<exists>t'. upd_obj a f t = Inr t' \<and> eqv s' t'"
proof -
  have ok: "objs_ok s" "objs_ok t" using e by (auto simp: eqv_def)
  from u ok upd_obj_none obtain v where v: "accounts_of s a = Some v" by (cases "accounts_of s a") auto
  from e v act have v': "accounts_of t a = Some v" "acts_as (sdb_db t) f g" by (auto simp: eqv_alt)
  obtain t' where t': "upd_obj a f t = Inr t'" "accounts_of t' = (accounts_of t)(a \<mapsto> g v)"
    "objs_ok t'" "same_frame t' t" by (rule upd_obj_view [OF ok(2) v'(2,1)])
  obtain s'' where s'': "upd_obj a f s = Inr s''" "accounts_of s'' = (accounts_of s)(a \<mapsto> g v)"
    "objs_ok s''" "same_frame s'' s" by (rule upd_obj_view [OF ok(1) act v])
  have "s'' = s'" using s''(1) u by simp
  moreover have "accounts_of s'' = accounts_of t'" using s''(2) t'(2) e by (simp add: eqv_alt)
  ultimately have "eqv s' t'" using eqv_frame [OF e s''(4) t'(4)] s''(3) t'(3) by simp
  with t' show ?thesis by auto
qed

text \<open>Every entry but the creation, the reset and the bookkeeping ones is undone by an update
  of one object.\<close>

fun entry_update :: "journalEntry \<Rightarrow> (address \<times> (stateObject \<Rightarrow> stateObject)) option" where
  "entry_update (balanceChange a prev) = Some (a, so_setBalance (Some prev))"
| "entry_update (nonceChange a prev) = Some (a, so_setNonce prev)"
| "entry_update (storageChange a key prevalue) = Some (a, so_setState key prevalue)"
| "entry_update (codeChange a prevcode prevhash) = Some (a, so_setCode (BytesToHash prevhash) prevcode)"
| "entry_update (lockedBalanceChange a prev) = Some (a, so_setLockedBalance (Some prev))"
| "entry_update (delegateTimestampChange a prev) = Some (a, so_setDelegateTimestamp (Some prev))"
| "entry_update (unlockedBalanceChange a prev) = Some (a, so_setUnLockedBalance (Some prev))"
| "entry_update (undelegateTimestampChange a prev) = Some (a, so_setUnDelegateTimestamp (Some prev))"
| "entry_update _ = None"

lemma entry_update_revert:
  "entry_update e = Some (a, f) \<Longrightarrow> entry_revert e s = upd_obj a f s"
  by (cases e) auto

lemma entry_update_acts: "entry_update e = Some (a, f) \<Longrightarrow> \<exists>g. acts_as d f g"
  by (cases e) (auto intro: setters_act)

lemma suicide_revert_upd:
  "entry_revert (suicideChange a p b) s =
     (case obj_at s a of None \<Rightarrow> Inr (snd (getStateObject s a))
      | Some _ \<Rightarrow> upd_obj a (\<lambda>ob. so_setBalance (Some b) (ob\<lparr>suicided := p\<rparr>)) s)"
  if "objs_ok s"
  using getStateObject_props(1) [OF _ that, of a]
  by (cases "getStateObject s a") (auto simp: upd_obj_def split: option.splits)

definition keeps :: "StateDB \<Rightarrow> StateDB \<Rightarrow> bool" where
  "keeps s s' \<longleftrightarrow> objs_ok s' \<and> sdb_db s' = sdb_db s \<and> sdb_trie s' = sdb_trie s
     \<and> validRevisions s' = validRevisions s \<and> nextRevisionID s' = nextRevisionID s"

lemma keeps_frame: "objs_ok s' \<Longrightarrow> same_frame s' s \<Longrightarrow> keeps s s'"
  by (simp add: keeps_def same_frame_def)

lemma entry_revert_other:
  assumes "entry_update e = None" "\<And>a p b. e \<noteq> suicideChange a p b"
  shows "(\<exists>a. e = createObjectChange a) \<or> (\<exists>p. e = resetObjectChange p) \<or> (\<exists>r. e = refundChange r)
    \<or> (\<exists>h. e = addLogChange h) \<or> (\<exists>h. e = addPreimageChange h) \<or> (\<exists>a. e = touchChange a)"
  using assms by (cases e) auto

lemma entry_revert_keeps:
  assumes ok: "objs_ok s" "entry_ok e" and r: "entry_revert e s = Inr s'"
  shows "keeps s s' \<and> sdb_journal s' = sdb_journal s"
proof (cases "entry_update e")
  case (Some af)
  obtain a f where af: "entry_update e = Some (a, f)" using Some by (cases af) auto
  obtain g where "acts_as (sdb_db s) f g" using entry_update_acts [OF af] by blast
  then show ?thesis using upd_obj_frame [OF ok(1)] r entry_update_revert [OF af] keeps_frame by metis
next
  case None
  show ?thesis
  proof (cases "\<exists>a p b. e = suicideChange a p b")
    case True
    then obtain a p b where e: "e = suicideChange a p b" by blast
    show ?thesis
    proof (cases "obj_at s a")
      case None
      obtain x y where g: "getStateObject s a = (x, y)" by fastforce
      show ?thesis using r None ok g getStateObject_props [OF g ok(1)] keeps_frame
        unfolding e suicide_revert_upd [OF ok(1)] by auto
    next
      case (Some ob)
      then have "upd_obj a (\<lambda>ob. so_setBalance (Some b) (ob\<lparr>suicided := p\<rparr>)) s = Inr s'"
        using r unfolding e suicide_revert_upd [OF ok(1)] by simp
      then show ?thesis using upd_obj_frame [OF ok(1) acts_as_suicide] keeps_frame by blast
    qed
  next
    case False
    then consider (cr) a where "e = createObjectChange a" | (rs) p where "e = resetObjectChange p"
      | (rf) x where "e = refundChange x" | (lg) h where "e = addLogChange h"
      | (pr) h where "e = addPreimageChange h" | (tc) a where "e = touchChange a"
      using entry_revert_other [OF None] by blast
    then show ?thesis
    proof cases
      case rs
      then show ?thesis using r ok objs_ok_set [OF ok(1)]
        by (auto simp: keeps_def setStateObject_def)
    qed (use r ok in \<open>auto simp: keeps_def objs_ok_def Let_def split: if_splits\<close>)
  qed
qed

lemma obj_at_uncache:
  "obj_at (s\<lparr>stateObjects := (stateObjects s)(a := None)\<rparr>) =
     (obj_at s)(a := (case sdb_trie s a of Present data \<Rightarrow> Some (newObject (sdb_db s) a data) | _ \<Rightarrow> None))"
  by (simp add: obj_at_def fun_eq_iff split: option.split slot.split)

lemma accounts_of_other_updates [simp]:
  "accounts_of (s\<lparr>sdb_journal := j\<rparr>) = accounts_of s"
  "accounts_of (s\<lparr>sdb_refund := r\<rparr>) = accounts_of s"
  "accounts_of (s\<lparr>sdb_logs := l\<rparr>) = accounts_of s"
  "accounts_of (s\<lparr>sdb_logSize := z\<rparr>) = accounts_of s"
  "accounts_of (s\<lparr>sdb_preimages := p\<rparr>) = accounts_of s"
  "accounts_of (s\<lparr>validRevisions := vr\<rparr>) = accounts_of s"
  "accounts_of (s\<lparr>nextRevisionID := n\<rparr>) = accounts_of s"
  "accounts_of (s\<lparr>stateObjectsDirty := dd\<rparr>) = accounts_of s"
  "accounts_of (s\<lparr>sdb_dbErr := er\<rparr>) = accounts_of s"
  by (simp_all add: accounts_of_def fun_eq_iff)

lemma accounts_of_set:
  "\<not> deleted ob \<Longrightarrow> accounts_of (setStateObject ob s) = (accounts_of s)(so_address ob \<mapsto> view_of (sdb_db s) ob)"
  by (rule accounts_of_upd) (simp_all add: obj_at_set, simp add: setStateObject_def)

lemma accounts_of_uncache:
  "accounts_of (s\<lparr>stateObjects := (stateObjects s)(a := None)\<rparr>) =
     (accounts_of s)(a := (case sdb_trie s a of
        Present data \<Rightarrow> Some (view_of (sdb_db s) (newObject (sdb_db s) a data)) | _ \<Rightarrow> None))"
  by (simp add: accounts_of_def fun_eq_iff obj_at_uncache split: slot.split)

lemma GetLogs_upd:
  "GetLogs (s\<lparr>sdb_logs := (sdb_logs s)(h := l)\<rparr>) = (GetLogs s)(h := (case l of None \<Rightarrow> [] | Some ls \<Rightarrow> ls))"
  by (simp add: GetLogs_def fun_eq_iff)

lemma GetLogs_other_updates [simp]:
  "GetLogs (s\<lparr>sdb_journal := j\<rparr>) = GetLogs s"
  "GetLogs (s\<lparr>sdb_refund := r\<rparr>) = GetLogs s"
  "GetLogs (s\<lparr>sdb_logSize := z\<rparr>) = GetLogs s"
  "GetLogs (s\<lparr>sdb_preimages := p\<rparr>) = GetLogs s"
  "GetLogs (s\<lparr>validRevisions := vr\<rparr>) = GetLogs s"
  "GetLogs (s\<lparr>nextRevisionID := n\<rparr>) = GetLogs s"
  "GetLogs (s\<lparr>stateObjects := objs\<rparr>) = GetLogs s"
  "GetLogs (s\<lparr>stateObjectsDirty := dd\<rparr>) = GetLogs s"
  by (simp_all add: GetLogs_def fun_eq_iff)

lemma entry_revert_other_eqv:
  assumes e: "eqv s t" and none: "entry_update e = None" "\<And>a p b. e \<noteq> suicideChange a p b"
    and r: "entry_revert e s = Inr s'" and ok: "entry_ok e"
  shows "\<exists>t'. entry_revert e t = Inr t' \<and> eqv s' t'"
proof -
  note E = e [unfolded eqv_alt]
  consider (cr) a where "e = createObjectChange a" | (rs) p where "e = resetObjectChange p"
    | (rf) x where "e = refundChange x" | (lg) h where "e = addLogChange h"
    | (pr) h where "e = addPreimageChange h" | (tc) a where "e = touchChange a"
    using entry_revert_other [OF none] by blast
  then show ?thesis
  proof cases
    case cr
    have "objs_ok s'" using entry_revert_keeps [OF _ ok r] E by (simp add: keeps_def)
    moreover have "objs_ok (projr (entry_revert e t))"
      using entry_revert_keeps [OF _ ok, of t "projr (entry_revert e t)"] E cr by (simp add: keeps_def)
    ultimately show ?thesis using r E cr by (auto simp: eqv_alt accounts_of_uncache split: slot.split)
  next
    case rs
    have "objs_ok (setStateObject p s)" "objs_ok (setStateObject p t)"
      using objs_ok_set E ok rs by auto
    moreover have "eqv (setStateObject p s) (setStateObject p t)"
      using E ok rs calculation by (auto simp: eqv_alt accounts_of_set, simp_all add: setStateObject_def)
    ultimately show ?thesis using r rs by auto
  next
    case lg
    have "GetLogs s h = GetLogs t h" using E by simp
    with lg r E show ?thesis
      by (auto simp: eqv_alt GetLogs_upd objs_ok_def Let_def split: if_splits)
  qed (use r E in \<open>auto simp: eqv_alt objs_ok_def\<close>)
qed

lemma entry_revert_eqv:
  assumes e: "eqv s t" and ok: "entry_ok e" and r: "entry_revert e s = Inr s'"
  shows "\<exists>t'. entry_revert e t = Inr t' \<and> eqv s' t'"
proof (cases "entry_update e")
  case (Some af)
  obtain a f where af: "entry_update e = Some (a, f)" using Some by (cases af) auto
  obtain g where "acts_as (sdb_db s) f g" using entry_update_acts [OF af] by blast
  then show ?thesis using upd_obj_eqv [OF e] r entry_update_revert [OF af] by metis
next
  case None
  note E = e [unfolded eqv_alt]
  show ?thesis
  proof (cases "\<exists>a p b. e = suicideChange a p b")
    case True
    then obtain a p b where sc: "e = suicideChange a p b" by blast
    have ok': "objs_ok s" "objs_ok t" using E by auto
    have iff: "obj_at s a = None \<longleftrightarrow> obj_at t a = None"
      using fun_cong [of _ _ a] E unfolding accounts_of_def by (metis map_option_is_None)
    show ?thesis
    proof (cases "obj_at s a")
      case None
      obtain x y x' y' where g: "getStateObject s a = (x, y)" "getStateObject t a = (x', y')" by fastforce
      note p = getStateObject_props [OF g(1) ok'(1)] and q = getStateObject_props [OF g(2) ok'(2)]
      have "accounts_of y = accounts_of y'"
        using p q E by (auto simp: accounts_of_def fun_eq_iff same_frame_def)
      then have "eqv y y'" using eqv_frame [OF e p(4) q(4)] p(3) q(3) by blast
      moreover have "entry_revert e t = Inr y'" "s' = y"
        using None iff r g unfolding sc suicide_revert_upd [OF ok'(1)] suicide_revert_upd [OF ok'(2)] by auto
      ultimately show ?thesis by blast
    next
      case (Some ob)
      then have "upd_obj a (\<lambda>ob. so_setBalance (Some b) (ob\<lparr>suicided := p\<rparr>)) s = Inr s'"
        using r unfolding sc suicide_revert_upd [OF ok'(1)] by simp
      from upd_obj_eqv [OF e acts_as_suicide this] show ?thesis
        using iff Some unfolding sc suicide_revert_upd [OF ok'(2)] by (cases "obj_at t a") auto
    qed
  next
    case False
    then show ?thesis using entry_revert_other_eqv [OF e None _ r ok] by blast
  qed
qed

section \<open>Undoing a run of entries\<close>

lemma objs_ok_other_updates [simp]:
  "objs_ok (s\<lparr>sdb_journal := j\<rparr>) = objs_ok s"
  "objs_ok (s\<lparr>sdb_refund := r\<rparr>) = objs_ok s"
  "objs_ok (s\<lparr>sdb_logs := l\<rparr>) = objs_ok s"
  "objs_ok (s\<lparr>sdb_logSize := z\<rparr>) = objs_ok s"
  "objs_ok (s\<lparr>sdb_preimages := p\<rparr>) = objs_ok s"
  "objs_ok (s\<lparr>validRevisions := vr\<rparr>) = objs_ok s"
  "objs_ok (s\<lparr>nextRevisionID := n\<rparr>) = objs_ok s"
  "objs_ok (s\<lparr>sdb_dbErr := er\<rparr>) = objs_ok s"
  by (simp_all add: objs_ok_def)

definition undirty :: "journalEntry \<Rightarrow> StateDB \<Rightarrow> StateDB" where
  "undirty e s = s\<lparr>sdb_journal := journal_undirty (sdb_journal s) e\<rparr>"

lemma undirty_eqv: "eqv s t \<Longrightarrow> eqv (undirty e s) (undirty e t)"
  by (simp add: undirty_def eqv_alt)

lemma undirty_keeps: "objs_ok s \<Longrightarrow> keeps s (undirty e s)"
  by (simp add: undirty_def keeps_def objs_ok_def)

lemma journal_undirty_entries [simp]: "entries (journal_undirty j e) = entries j"
  by (simp add: journal_undirty_def Let_def split: option.split)

lemma revert_entries_Cons [simp]:
  "revert_entries (e # es) s = rbind (entry_revert e s) (\<lambda>s1. revert_entries es (undirty e s1))"
  by (simp add: undirty_def)

declare revert_entries.simps(2) [simp del]

lemma revert_entries_append:
  "revert_entries (xs @ ys) s = rbind (revert_entries xs s) (revert_entries ys)"
  by (induction xs arbitrary: s) (simp_all add: rbind_assoc)

lemma keeps_trans: "keeps s t \<Longrightarrow> keeps t u \<Longrightarrow> keeps s u"
  by (simp add: keeps_def)

lemma revert_entries_keeps:
  "objs_ok s \<Longrightarrow> \<forall>e \<in> set es. entry_ok e \<Longrightarrow> revert_entries es s = Inr s' \<Longrightarrow>
   keeps s s' \<and> entries (sdb_journal s') = entries (sdb_journal s)"
proof (induction es arbitrary: s)
  case Nil
  then show ?case by (simp add: keeps_def)
next
  case (Cons e es)
  then obtain s1 where s1: "entry_revert e s = Inr s1" "revert_entries es (undirty e s1) = Inr s'"
    by auto
  have k: "keeps s s1" "sdb_journal s1 = sdb_journal s"
    using entry_revert_keeps [OF Cons.prems(1) _ s1(1)] Cons.prems(2) by auto
  have k2: "keeps s1 (undirty e s1)" using k undirty_keeps [of s1] by (simp add: keeps_def)
  have "keeps (undirty e s1) s' \<and> entries (sdb_journal s') = entries (sdb_journal (undirty e s1))"
    using Cons.IH [OF _ _ s1(2)] k2 Cons.prems(2) by (simp add: keeps_def)
  then show ?case using keeps_trans [OF keeps_trans [OF k(1) k2]] k(2) by (simp add: undirty_def)
qed

lemma revert_entries_eqv:
  "eqv s t \<Longrightarrow> \<forall>e \<in> set es. entry_ok e \<Longrightarrow> revert_entries es s = Inr s' \<Longrightarrow>
   \<exists>t'. revert_entries es t = Inr t' \<and> eqv s' t'"
proof (induction es arbitrary: s t)
  case Nil
  then show ?case by simp
next
  case (Cons e es)
  then obtain s1 where s1: "entry_revert e s = Inr s1" "revert_entries es (undirty e s1) = Inr s'"
    by auto
  obtain t1 where t1: "entry_revert e t = Inr t1" "eqv s1 t1"
    using entry_revert_eqv [OF Cons.prems(1) _ s1(1)] Cons.prems(2) by auto
  then show ?case using Cons.IH [OF undirty_eqv [OF t1(2)] _ s1(2)] Cons.prems(2) by simp
qed

definition reverts_to :: "journalEntry list \<Rightarrow> StateDB \<Rightarrow> StateDB \<Rightarrow> bool" where
  "reverts_to es s' s \<longleftrightarrow> (\<forall>e \<in> set es. entry_ok e) \<and> (\<exists>u. revert_entries (rev es) s' = Inr u \<and> eqv u s)"

lemma reverts_to_Nil: "eqv s' s \<Longrightarrow> reverts_to [] s' s"
  by (simp add: reverts_to_def)

lemma reverts_to_append:
  assumes "reverts_to xs s1 s0" "reverts_to ys s2 s1"
  shows "reverts_to (xs @ ys) s2 s0"
proof -
  obtain u where u: "revert_entries (rev ys) s2 = Inr u" "eqv u s1"
    using assms(2) by (auto simp: reverts_to_def)
  obtain w where w: "revert_entries (rev xs) s1 = Inr w" "eqv w s0"
    using assms(1) by (auto simp: reverts_to_def)
  obtain w' where "revert_entries (rev xs) u = Inr w'" "eqv w w'"
    using revert_entries_eqv [OF eqv_sym [OF u(2)] _ w(1)] assms(1) by (auto simp: reverts_to_def)
  moreover have "eqv w' s0" by (rule eqv_trans [OF eqv_sym [OF calculation(2)] w(2)])
  moreover have "\<forall>e \<in> set (xs @ ys). entry_ok e"
    using assms by (simp add: reverts_to_def ball_Un)
  ultimately show ?thesis using u(1) by (simp add: reverts_to_def revert_entries_append)
qed

lemma reverts_to_eqv:
  assumes "reverts_to es s' s" "eqv t s'"
  shows "reverts_to es t s"
  using reverts_to_append [OF assms(1) reverts_to_Nil [OF assms(2)]] by simp

end
