(* ===== verification/StateSnapshot.thy ===== *)
theory StateSnapshot
  imports StateRevert
begin

text \<open>
  Every operation of \<open>StateDB\<close> between two finalisations as a step relation, the proof that
  the steps keep the invariant and can be undone, and the snapshot theorems.
\<close>

section \<open>Undoable steps\<close>

definition logged :: "StateDB \<Rightarrow> StateDB \<Rightarrow> bool" where
  "logged s s' \<longleftrightarrow> keeps s s' \<and>
     (\<exists>es. entries (sdb_journal s') = entries (sdb_journal s) @ es \<and> reverts_to es s' s)"

lemma logged_trans:
  assumes "logged s t" "logged t u"
  shows "logged s u"
proof -
  obtain es where es: "entries (sdb_journal t) = entries (sdb_journal s) @ es" "reverts_to es t s"
    using assms(1) by (auto simp: logged_def)
  obtain fs where fs: "entries (sdb_journal u) = entries (sdb_journal t) @ fs" "reverts_to fs u t"
    using assms(2) by (auto simp: logged_def)
  have "entries (sdb_journal u) = entries (sdb_journal s) @ (es @ fs)" using es fs by simp
  then show ?thesis using reverts_to_append [OF es(2) fs(2)] keeps_trans assms
    unfolding logged_def by blast
qed

lemma logged_unseen:
  assumes "objs_ok s" "objs_ok s'" "same_frame s' s" "accounts_of s' = accounts_of s"
    "entries (sdb_journal s') = entries (sdb_journal s)"
  shows "logged s s'"
proof -
  have "eqv s' s" using eqv_frame [OF eqv_refl [OF assms(1)] assms(3)] assms
    by (simp add: same_frame_def)
  then show ?thesis using reverts_to_Nil keeps_frame assms(2,3,5) unfolding logged_def by fastforce
qed

lemma logged_refl: "objs_ok s \<Longrightarrow> logged s s"
  by (rule logged_unseen) (simp_all add: same_frame_def)

lemma accounts_of_same: "obj_at s' = obj_at s \<Longrightarrow> sdb_db s' = sdb_db s \<Longrightarrow> accounts_of s' = accounts_of s"
  by (simp add: accounts_of_def fun_eq_iff)

lemma getStateObject_logged:
  assumes g: "getStateObject s a = (r, s1)" and ok: "objs_ok s"
  shows "logged s s1"
  using getStateObject_props [OF g ok] ok
  by (intro logged_unseen accounts_of_same) (simp_all add: same_frame_def)

lemma jappend_entries [simp]:
  "entries (sdb_journal (jappend e s)) = entries (sdb_journal s) @ [e]"
  by (simp add: jappend_def journal_append_def journal_dirty_def Let_def split: option.split)

lemma jappend_frame [simp]:
  "same_frame (jappend e s) s"
  "objs_ok (jappend e s) = objs_ok s"
  "accounts_of (jappend e s) = accounts_of s"
  "obj_at (jappend e s) = obj_at s"
  "sdb_db (jappend e s) = sdb_db s"
  "sdb_trie (jappend e s) = sdb_trie s"
  "stateObjects (jappend e s) = stateObjects s"
  by (simp_all add: jappend_def same_frame_def)

lemma set_frame [simp]:
  "same_frame (setStateObject ob s) s"
  "sdb_db (setStateObject ob s) = sdb_db s"
  "sdb_trie (setStateObject ob s) = sdb_trie s"
  "sdb_journal (setStateObject ob s) = sdb_journal s"
  by (simp_all add: setStateObject_def same_frame_def)

lemma same_frame_trans: "same_frame s t \<Longrightarrow> same_frame t u \<Longrightarrow> same_frame s u"
  by (simp add: same_frame_def)

lemma logged_entry:
  assumes "keeps s s'" "entries (sdb_journal s') = entries (sdb_journal s) @ [e]" "entry_ok e"
    "entry_revert e s' = Inr u" "eqv u s"
  shows "logged s s'"
proof -
  have "eqv (undirty e u) u" using assms(5) undirty_eqv [OF eqv_refl, of u e]
    by (simp add: eqv_alt undirty_def)
  then have "eqv (undirty e u) s" using eqv_trans assms(5) by blast
  then show ?thesis using assms unfolding logged_def reverts_to_def
    by (intro conjI exI [of _ "[e]"]) simp_all
qed

text \<open>An update of a live object under an entry that sets it back.\<close>

lemma logged_update:
  assumes ok: "objs_ok s" and ob: "obj_at s a = Some ob"
    and ob': "so_address ob' = a" "\<not> deleted ob'" "obj_ok ob'"
    and e: "entry_ok e" and act: "acts_as (sdb_db s) h g"
    and rv: "entry_revert e (setStateObject ob' (jappend e s)) = upd_obj a h (setStateObject ob' (jappend e s))"
    and bk: "view_of (sdb_db s) (h ob') = view_of (sdb_db s) ob"
  shows "logged s (setStateObject ob' (jappend e s))" (is "logged s ?s")
proof -
  have ok': "objs_ok ?s" using objs_ok_set ok ob' by simp
  have fr: "same_frame ?s s" using same_frame_trans by (metis set_frame(1) jappend_frame(1))
  have ac: "accounts_of ?s = (accounts_of s)(a \<mapsto> view_of (sdb_db s) ob')"
    using ob' by (simp add: accounts_of_set)
  have "g (view_of (sdb_db s) ob') = view_of (sdb_db s) ob" using act bk by (simp add: acts_as_def)
  obtain u where u: "upd_obj a h ?s = Inr u" "accounts_of u = (accounts_of ?s)(a \<mapsto> g (view_of (sdb_db s) ob'))"
    "objs_ok u" "same_frame u ?s"
    by (rule upd_obj_view [OF ok', of h g a]) (use act ac in auto)
  have "accounts_of u = accounts_of s"
    using u(2) ac ob \<open>g _ = _\<close> by (simp add: accounts_of_def [of s a] fun_upd_idem)
  then have "eqv u s"
    using eqv_frame [OF eqv_refl [OF ok] same_frame_trans [OF u(4) fr], of s] u(3) ok
    by (simp add: same_frame_def)
  then show ?thesis using keeps_frame [OF ok' fr] e rv u(1) by (intro logged_entry) simp_all
qed

lemma logged_create:
  assumes ok: "objs_ok s" and ob: "so_address ob = a" "\<not> deleted ob" "obj_ok ob"
    and e: "e = (case obj_at s a of None \<Rightarrow> createObjectChange a | Some p \<Rightarrow> resetObjectChange p)"
  shows "logged s (setStateObject ob (jappend e s))" (is "logged s ?s")
proof -
  have ok': "objs_ok ?s" using objs_ok_set ok ob by simp
  have fr: "same_frame ?s s" using same_frame_trans by (metis set_frame(1) jappend_frame(1))
  show ?thesis
  proof (cases "obj_at s a")
    case None
    let ?u = "?s\<lparr>stateObjects := (stateObjects ?s)(a := None), stateObjectsDirty := stateObjectsDirty ?s - {a}\<rparr>"
    have np: "not_present (sdb_trie s a)"
      using None ok by (auto simp: obj_at_def objs_ok_def not_present_def split: option.splits slot.splits if_splits)
    have u: "entry_revert e ?s = Inr ?u" using e None by simp
    have "accounts_of ?u = accounts_of s"
      using None ob np by (auto simp: accounts_of_uncache accounts_of_set accounts_of_def not_present_def
          fun_eq_iff split: slot.splits)
    moreover have "objs_ok ?u"
      using entry_revert_keeps [OF ok' _ u] e None by (simp add: keeps_def)
    moreover have "same_frame ?u s" using fr by (simp add: same_frame_def)
    ultimately have "eqv ?u s" using eqv_frame [OF eqv_refl [OF ok], of ?u s] ok by (simp add: same_frame_def)
    then show ?thesis using e None by (intro logged_entry [OF keeps_frame [OF ok' fr] _ _ u]) simp_all
  next
    case (Some p)
    let ?u = "setStateObject p ?s"
    have p: "so_address p = a" "obj_ok p" "\<not> deleted p" using obj_at_ok [OF ok Some] by auto
    have u: "entry_revert e ?s = Inr ?u" using e Some by simp
    have "accounts_of ?u = accounts_of s"
      using Some ob p by (simp add: accounts_of_set accounts_of_def [of s a] fun_upd_idem)
    moreover have "objs_ok ?u" using objs_ok_set [OF ok'] p by simp
    moreover have "same_frame ?u s" using fr same_frame_trans set_frame(1) by blast
    ultimately have "eqv ?u s" using eqv_frame [OF eqv_refl [OF ok], of ?u s] ok by (simp add: same_frame_def)
    then show ?thesis using e Some p by (intro logged_entry [OF keeps_frame [OF ok' fr] _ _ u]) simp_all
  qed
qed

section \<open>The operations are undoable\<close>

lemma logged_objs_ok: "logged s s' \<Longrightarrow> objs_ok s'"
  by (simp add: logged_def keeps_def)

lemma obj_at_set_same [simp]: "\<not> deleted ob \<Longrightarrow> so_address ob = a \<Longrightarrow> obj_at (setStateObject ob s) a = Some ob"
  by (simp add: obj_at_set)

lemma createObject_logged:
  assumes c: "createObject s a = (newobj, prev, s')" and ok: "objs_ok s"
  shows "logged s s' \<and> obj_at s' a = Some newobj \<and> prev = obj_at s a"
proof -
  obtain r s1 where g: "getStateObject s a = (r, s1)" by fastforce
  note p = getStateObject_props [OF g ok]
  let ?e = "case obj_at s1 a of None \<Rightarrow> createObjectChange a | Some p \<Rightarrow> resetObjectChange p"
  have n: "so_address newobj = a" "\<not> deleted newobj" "obj_ok newobj"
    and s': "s' = setStateObject newobj (jappend ?e s1)" and pr: "prev = obj_at s a"
    using c g p(1,2) newObject_ok [unfolded obj_ok_def]
    by (auto simp: createObject_def so_setNonce_def Let_def obj_ok_def split: option.splits)
  have "logged s1 s'" using logged_create [OF p(3) n refl] s' by simp
  then show ?thesis using logged_trans [OF getStateObject_logged [OF g ok]] n s' pr by simp
qed

lemma GetOrNewStateObject_logged:
  assumes g: "GetOrNewStateObject s a = (ob, s')" and ok: "objs_ok s"
  shows "logged s s'" "obj_at s' a = Some ob"
proof -
  obtain r s1 where gs: "getStateObject s a = (r, s1)" by fastforce
  note p = getStateObject_props [OF gs ok]
  have "logged s s' \<and> obj_at s' a = Some ob"
  proof (cases r)
    case None
    obtain n q t where c: "createObject s1 a = (n, q, t)" by (cases "createObject s1 a") auto
    have "n = ob" "t = s'" using g gs None c by (auto simp: GetOrNewStateObject_def)
    then show ?thesis using createObject_logged [OF c p(3)] logged_trans [OF getStateObject_logged [OF gs ok]]
      by simp
  next
    case (Some x)
    have "\<not> deleted x" using obj_at_ok [OF ok] p(1) Some by auto
    then have "x = ob" "s1 = s'" using g gs Some by (auto simp: GetOrNewStateObject_def)
    then show ?thesis using getStateObject_logged [OF gs ok] p(1,2) Some by simp
  qed
  then show "logged s s'" "obj_at s' a = Some ob" by auto
qed

text \<open>An operation that looks the object up, creating it if needed, and then runs a method.\<close>

lemma logged_via:
  assumes "objs_ok s" "GetOrNewStateObject s a = (ob, s1)"
    "objs_ok s1 \<Longrightarrow> obj_at s1 a = Some ob \<Longrightarrow> logged s1 s'"
  shows "logged s s'"
  using GetOrNewStateObject_logged [OF assms(2,1)] assms(3) logged_trans logged_objs_ok by blast

lemma setter_logged:
  assumes ok: "objs_ok s" and at: "obj_at s a = Some ob"
    and e: "entry_update e = Some (a, h)" and f: "acts_as (sdb_db s) f g" and bk: "h (f ob) = ob"
  shows "logged s (setStateObject (f ob) (jappend e s))"
proof -
  obtain k where k: "acts_as (sdb_db s) h k" using entry_update_acts [OF e] by blast
  have "entry_ok e" using e by (cases e) auto
  moreover have "so_address (f ob) = a" "\<not> deleted (f ob)" "obj_ok (f ob)"
    using obj_at_ok [OF ok at] f by (auto simp: acts_as_def)
  ultimately show ?thesis
    using bk by (intro logged_update [OF ok at _ _ _ _ k entry_update_revert [OF e]]) simp_all
qed

lemma setter_back:
  "Balance (so_data ob) = x \<Longrightarrow> so_setBalance x (so_setBalance y ob) = ob"
  "LockedBalance (so_data ob) = x \<Longrightarrow> so_setLockedBalance x (so_setLockedBalance y ob) = ob"
  "UnLockedBalance (so_data ob) = x \<Longrightarrow> so_setUnLockedBalance x (so_setUnLockedBalance y ob) = ob"
  "DelegateTimestamp (so_data ob) = x \<Longrightarrow> so_setDelegateTimestamp x (so_setDelegateTimestamp y ob) = ob"
  "UnDelegateTimestamp (so_data ob) = x \<Longrightarrow> so_setUnDelegateTimestamp x (so_setUnDelegateTimestamp y ob) = ob"
  "Nonce (so_data ob) = n \<Longrightarrow> so_setNonce n (so_setNonce m ob) = ob"
  by (auto simp: setter_defs)

lemma so_setters_logged:
  assumes ok: "objs_ok s" and at: "obj_at s a = Some ob"
  shows "logged s (so_SetNonce n ob s)"
    and "so_SetBalance b ob s = Inr s' \<Longrightarrow> logged s s'"
    and "so_SetLockedBalance b ob s = Inr s' \<Longrightarrow> logged s s'"
    and "so_SetUnLockedBalance b ob s = Inr s' \<Longrightarrow> logged s s'"
    and "so_SetDelegateTimestamp b ob s = Inr s' \<Longrightarrow> logged s s'"
    and "so_SetUnDelegateTimestamp b ob s = Inr s' \<Longrightarrow> logged s s'"
proof -
  have a: "so_address ob = a" using obj_at_ok [OF ok at] by simp
  note L = setter_logged [OF ok at]
  show "logged s (so_SetNonce n ob s)"
    unfolding so_SetNonce_def a by (rule L [OF entry_update.simps(2) setters_act(1)]) (simp add: setter_back)
  show "so_SetBalance b ob s = Inr s' \<Longrightarrow> logged s s'"
    unfolding so_SetBalance_def a
    by (auto simp: deref_eq_Inr setter_back intro!: L [OF entry_update.simps(1) setters_act(2)])
  show "so_SetLockedBalance b ob s = Inr s' \<Longrightarrow> logged s s'"
    unfolding so_SetLockedBalance_def a
    by (auto simp: deref_eq_Inr setter_back intro!: L [OF entry_update.simps(5) setters_act(3)])
  show "so_SetUnLockedBalance b ob s = Inr s' \<Longrightarrow> logged s s'"
    unfolding so_SetUnLockedBalance_def a
    by (auto simp: deref_eq_Inr setter_back intro!: L [OF entry_update.simps(7) setters_act(4)])
  show "so_SetDelegateTimestamp b ob s = Inr s' \<Longrightarrow> logged s s'"
    unfolding so_SetDelegateTimestamp_def a
    by (auto simp: deref_eq_Inr setter_back intro!: L [OF entry_update.simps(6) setters_act(5)])
  show "so_SetUnDelegateTimestamp b ob s = Inr s' \<Longrightarrow> logged s s'"
    unfolding so_SetUnDelegateTimestamp_def a
    by (auto simp: deref_eq_Inr setter_back intro!: L [OF entry_update.simps(8) setters_act(6)])
qed

lemma so_touch_logged:
  assumes ok: "objs_ok s"
  shows "logged s (so_touch ob s)"
proof -
  have fr: "same_frame (so_touch ob s) s" "objs_ok (so_touch ob s)" "accounts_of (so_touch ob s) = accounts_of s"
    using ok by (auto simp: so_touch_def jappend_def Let_def same_frame_def)
  have "eqv (so_touch ob s) s"
    using eqv_frame [OF eqv_refl [OF ok] fr(1), of s] fr ok by (simp add: same_frame_def)
  moreover have "entries (sdb_journal (so_touch ob s)) = entries (sdb_journal s) @ [touchChange (so_address ob)]"
    by (simp add: so_touch_def Let_def journal_dirty_def)
  ultimately show ?thesis
    by (intro logged_entry [OF keeps_frame [OF fr(2,1)], where e = "touchChange (so_address ob)"]) simp_all
qed

lemma so_balance_logged:
  assumes "objs_ok s" "obj_at s a = Some ob"
  shows "so_AddBalance b ob s = Inr s' \<Longrightarrow> logged s s'"
    and "so_SubBalance b ob s = Inr s' \<Longrightarrow> logged s s'"
  using so_setters_logged(2) [OF assms] so_touch_logged [OF assms(1)] logged_refl [OF assms(1)]
  by (auto simp: so_AddBalance_def so_SubBalance_def split: if_splits)

text \<open>Reading code and storage caches in the object without changing its view.\<close>

lemma so_Code_view:
  assumes "so_Code d ob = (c, ob1)"
  shows "view_of d ob1 = view_of d ob" "so_address ob1 = so_address ob" "deleted ob1 = deleted ob"
    "so_data ob1 = so_data ob" "c = code_of d (so_code ob) (CodeHash (so_data ob))"
  using assms so_Code_fst [of d ob]
  by (auto simp: so_Code_def view_of_alt code_of_def ContractCode_def so_setError_def Let_def
      split: if_splits option.splits)

lemma so_GetState_view:
  assumes "so_GetState d k ob = (v, ob1)"
  shows "view_of d ob1 = view_of d ob" "so_address ob1 = so_address ob" "deleted ob1 = deleted ob"
    "so_data ob1 = so_data ob" "v = storage_of d (cachedStorage ob) (so_trie ob) (Root (so_data ob)) k"
proof -
  let ?t = "trie_of d (so_trie ob) (Root (so_data ob))"
  obtain e where tr: "so_getTrie d ob = (?t, ob\<lparr>so_trie := Some ?t, so_dbErr := e\<rparr>)"
    using so_getTrie_snd [of d ob] so_getTrie_fst [of d ob] by (cases "so_getTrie d ob") auto
  have t: "trie_of d (Some ?t) r = ?t" for r by (simp add: trie_of_def)
  have v: "v = storage_of d (cachedStorage ob) (so_trie ob) (Root (so_data ob)) k"
    using so_GetState_fst [of d k ob] assms by simp
  have "view_of d ob1 = view_of d ob \<and> so_address ob1 = so_address ob \<and> deleted ob1 = deleted ob
    \<and> so_data ob1 = so_data ob"
  proof (cases "cachedStorage ob k")
    case (Some w)
    then show ?thesis using assms by (simp add: so_GetState_def)
  next
    case None
    have "storage_of d (cachedStorage ob) (Some ?t) r = storage_of d (cachedStorage ob) (so_trie ob) (Root (so_data ob))" for r
      by (simp add: storage_of_def t fun_eq_iff split: option.split)
    moreover have "slot_value (?t k) = storage_of d (cachedStorage ob) (so_trie ob) (Root (so_data ob)) k"
      using None by (simp add: storage_of_def)
    ultimately show ?thesis using assms None tr
      by (auto simp: so_GetState_def view_of_alt so_setError_def slot_value_def fun_upd_idem split: slot.splits if_splits)
  qed
  with v show "view_of d ob1 = view_of d ob" "so_address ob1 = so_address ob" "deleted ob1 = deleted ob"
    "so_data ob1 = so_data ob" "v = storage_of d (cachedStorage ob) (so_trie ob) (Root (so_data ob)) k"
    by auto
qed

lemma obj_ok_data: "so_data ob1 = so_data ob \<Longrightarrow> obj_ok ob1 = obj_ok ob"
  by (simp add: obj_ok_def)

lemma cache_logged:
  assumes ok: "objs_ok s" and at: "obj_at s a = Some ob"
    and ob1: "view_of (sdb_db s) ob1 = view_of (sdb_db s) ob" "so_address ob1 = so_address ob"
      "deleted ob1 = deleted ob" "so_data ob1 = so_data ob"
  shows "logged s (setStateObject ob1 s)"
proof -
  have o: "so_address ob1 = a" "obj_ok ob1" "\<not> deleted ob1"
    using obj_at_ok [OF ok at] ob1(2,3) obj_ok_data [OF ob1(4)] by auto
  then have "accounts_of (setStateObject ob1 s) = accounts_of s"
    using ob1(1) at by (simp add: accounts_of_set accounts_of_def [of s a] fun_upd_idem)
  then show ?thesis using objs_ok_set [OF ok] o ok by (intro logged_unseen) simp_all
qed

lemma so_SetState_logged:
  assumes ok: "objs_ok s" and at: "obj_at s a = Some ob"
  shows "logged s (so_SetState k v ob s)"
proof -
  obtain p ob1 where g: "so_GetState (sdb_db s) k ob = (p, ob1)" by fastforce
  note q = so_GetState_view [OF g]
  have o: "so_address ob = a" "obj_ok ob1" "\<not> deleted ob1"
    using obj_at_ok [OF ok at] q(3) obj_ok_data [OF q(4)] by auto
  have st: "storage_of (sdb_db s) (cachedStorage ob1) (so_trie ob1) (Root (so_data ob1)) k = p"
    using arg_cong [OF q(1), of "\<lambda>w. av_storage w k"] q(5) by (simp add: view_of_alt)
  have bk: "view_of (sdb_db s) (so_setState k p (so_setState k v ob1)) = view_of (sdb_db s) ob"
    unfolding q(1) [symmetric] using st by (simp add: view_of_alt so_setState_def fun_upd_idem)
  have n: "so_address (so_setState k v ob1) = a" "\<not> deleted (so_setState k v ob1)" "obj_ok (so_setState k v ob1)"
    using o q(2) by (auto simp: so_setState_def obj_ok_def)
  show ?thesis
    using logged_update [OF ok at n _ setters_act(8) _ bk, where e = "storageChange a k p"] o(1)
    by (simp add: so_SetState_def g)
qed

lemma so_SetCode_logged:
  assumes ok: "objs_ok s" and at: "obj_at s a = Some ob"
  shows "logged s (so_SetCode h c ob s)"
proof -
  obtain p ob1 where g: "so_Code (sdb_db s) ob = (p, ob1)" by fastforce
  note q = so_Code_view [OF g]
  have o: "so_address ob = a" "obj_ok ob1" "\<not> deleted ob1"
    using obj_at_ok [OF ok at] q(3) obj_ok_data [OF q(4)] by auto
  obtain ch where ch: "CodeHash (so_data ob1) = Some ch" using o by (auto simp: obj_ok_def)
  have "code_of (sdb_db s) p (Some ch) = code_of (sdb_db s) (so_code ob) (Some ch)"
    using q(5) ch q(4) by (simp add: code_of_def)
  moreover have "code_of (sdb_db s) (so_code ob1) (Some ch) = code_of (sdb_db s) (so_code ob) (Some ch)"
    using arg_cong [OF q(1), of av_code] ch q(4) by (simp add: view_of_alt)
  moreover have "(so_data ob1)\<lparr>CodeHash := Some ch\<rparr> = so_data ob1" using ch by (cases "so_data ob1") simp
  ultimately have bk: "view_of (sdb_db s) (so_setCode ch p (so_setCode h c ob1)) = view_of (sdb_db s) ob"
    unfolding q(1) [symmetric] using ch by (simp add: view_of_alt so_setCode_def)
  have n: "so_address (so_setCode h c ob1) = a" "\<not> deleted (so_setCode h c ob1)" "obj_ok (so_setCode h c ob1)"
    using o q(2) by (auto simp: so_setCode_def obj_ok_def)
  show ?thesis
    using logged_update [OF ok at n _ setters_act(7) _ bk, where e = "codeChange a p (Some ch)"] o(1) ch
    by (simp add: so_SetCode_def g BytesToHash_def)
qed

lemma Suicide_logged:
  assumes ok: "objs_ok s" and r: "Suicide a s = Inr (b, s')"
  shows "logged s s'"
proof -
  obtain x s1 where g: "getStateObject s a = (x, s1)" by fastforce
  note p = getStateObject_props [OF g ok]
  show ?thesis
  proof (cases x)
    case None
    then show ?thesis using r g getStateObject_logged [OF g ok] by (simp add: Suicide_def)
  next
    case (Some ob)
    have at: "obj_at s1 a = Some ob" using p(1,2) Some by simp
    have o: "so_address ob = a" "obj_ok ob" "\<not> deleted ob" using obj_at_ok [OF p(3) at] by auto
    obtain bal where bal: "Balance (so_data ob) = Some bal" using o by (auto simp: obj_ok_def)
    let ?e = "suicideChange a (suicided ob) bal"
    let ?ob' = "so_setBalance (Some 0) (markSuicided ob)"
    let ?s = "setStateObject ?ob' (jappend ?e s1)"
    have n: "so_address ?ob' = a" "\<not> deleted ?ob'" "obj_ok ?ob'"
      using o by (auto simp: setter_defs obj_ok_def)
    have rv: "entry_revert ?e ?s = upd_obj a (\<lambda>ob'. so_setBalance (Some bal) (ob'\<lparr>suicided := suicided ob\<rparr>)) ?s"
      using suicide_revert_upd [OF objs_ok_set [OF _ n(3,2)]] p(3) n by simp
    have "(\<lambda>ob'. so_setBalance (Some bal) (ob'\<lparr>suicided := suicided ob\<rparr>)) ?ob' = ob"
      using bal by (cases ob) (auto simp: setter_defs)
    then have "logged s1 ?s"
      by (intro logged_update [OF p(3) at n _ acts_as_suicide rv]) simp_all
    moreover have "s' = ?s" using r g Some bal by (simp add: Suicide_def)
    ultimately show ?thesis using logged_trans [OF getStateObject_logged [OF g ok]] by simp
  qed
qed

lemma CreateAccount_logged:
  assumes ok: "objs_ok s"
  shows "logged s (CreateAccount a s)"
proof -
  obtain x s1 where g: "getStateObject s a = (x, s1)" by fastforce
  note p = getStateObject_props [OF g ok]
  have L: "logged s1 (setStateObject ob (jappend
      (case obj_at s1 a of None \<Rightarrow> createObjectChange a | Some p \<Rightarrow> resetObjectChange p) s1))"
    if "so_address ob = a" "\<not> deleted ob" "obj_ok ob" for ob
    using logged_create [OF p(3) that refl] .
  let ?n = "so_setNonce 0 (newObject (sdb_db s1) a emptyAccount)"
  have n: "so_address ?n = a" "\<not> deleted ?n" "obj_ok ?n"
    using newObject_ok [of "sdb_db s1" a emptyAccount, unfolded obj_ok_def] by (auto simp: setter_defs obj_ok_def)
  have "logged s1 (CreateAccount a s)"
  proof (cases x)
    case None
    then show ?thesis using L [OF n] g p(1,2) by (simp add: CreateAccount_def createObject_def Let_def)
  next
    case (Some q)
    have "obj_ok q" using obj_at_ok [OF ok] p(1) Some by auto
    then have "so_address (so_setBalance (Balance (so_data q)) ?n) = a"
      "\<not> deleted (so_setBalance (Balance (so_data q)) ?n)" "obj_ok (so_setBalance (Balance (so_data q)) ?n)"
      using n by (auto simp: setter_defs obj_ok_def)
    moreover have "CreateAccount a s = setStateObject (so_setBalance (Balance (so_data q)) ?n) (jappend (resetObjectChange q) s1)"
      using Some g n by (simp add: CreateAccount_def createObject_def Let_def setStateObject_def setter_defs)
    moreover have "obj_at s1 a = Some q" using p(1,2) Some by simp
    ultimately show ?thesis using L [of "so_setBalance (Balance (so_data q)) ?n"] by simp
  qed
  then show ?thesis using logged_trans [OF getStateObject_logged [OF g ok]] by blast
qed

lemma AddRefund_logged: "objs_ok s \<Longrightarrow> logged s (AddRefund g s)"
  by (rule logged_entry [where e = "refundChange (sdb_refund s)" and u = "jappend (refundChange (sdb_refund s)) s"])
    (auto simp: AddRefund_def jappend_def keeps_def eqv_alt journal_append_def Let_def)

lemma AddPreimage_logged: "objs_ok s \<Longrightarrow> logged s (AddPreimage h b s)"
proof (cases "sdb_preimages s h")
  case None
  assume "objs_ok s"
  with None show ?thesis
    by (intro logged_entry [where e = "addPreimageChange h" and
        u = "(jappend (addPreimageChange h) s)\<lparr>sdb_preimages := (sdb_preimages s)(h := None)\<rparr>"])
      (auto simp: fun_upd_idem AddPreimage_def jappend_def keeps_def eqv_alt journal_append_def Let_def)
qed (simp add: AddPreimage_def logged_refl)

lemma AddLog_logged:
  assumes ok: "objs_ok s"
  shows "logged s (AddLog l s)"
proof -
  define h s1 where "h = sdb_thash s" and "s1 = AddLog l s"
  obtain l' where s1: "s1 = (jappend (addLogChange h) s)
      \<lparr>sdb_logs := (sdb_logs s)(h \<mapsto> GetLogs s h @ [l']), sdb_logSize := sdb_logSize s + 1\<rparr>"
    by (auto simp: AddLog_def Let_def jappend_def h_def s1_def)
  have g: "GetLogs s1 = (GetLogs s)(h := GetLogs s h @ [l'])"
    by (simp add: s1 GetLogs_def fun_eq_iff)
  define x where "x = (if GetLogs s h = [] then None else Some (GetLogs s h))"
  let ?u = "s1\<lparr>sdb_logs := (sdb_logs s1)(h := x), sdb_logSize := sdb_logSize s1 - 1\<rparr>"
  have u: "entry_revert (addLogChange h) s1 = Inr ?u" by (simp add: g x_def)
  have "GetLogs ?u = GetLogs s" by (simp add: GetLogs_upd g x_def fun_eq_iff)
  then have "eqv ?u s" using ok by (simp add: eqv_alt, simp add: s1 jappend_def)
  moreover have "keeps s s1" using ok by (simp add: s1 jappend_def keeps_def)
  ultimately show ?thesis unfolding s1_def [symmetric] by (intro logged_entry [OF _ _ _ u]) (simp_all add: s1)
qed

section \<open>The step relation\<close>

text \<open>One journaled call of the interface between two finalisations. The one setter left out,
  \<open>SetUnDelegateTimestamp\<close>, changes the state behind the journal's back; the theory \<open>StateLife\<close> adds it, with the
  finalisations, commits, resets and copies.\<close>

inductive sdb_step :: "StateDB \<Rightarrow> StateDB \<Rightarrow> bool" where
  "Exist s a = (b, s') \<Longrightarrow> sdb_step s s'"
| "Empty s a = Inr (b, s') \<Longrightarrow> sdb_step s s'"
| "GetBalance s a = (p, s') \<Longrightarrow> sdb_step s s'"
| "GetNonce s a = (n, s') \<Longrightarrow> sdb_step s s'"
| "GetLockedBalance s a = (p, s') \<Longrightarrow> sdb_step s s'"
| "GetDelegateTimestamp s a = (p, s') \<Longrightarrow> sdb_step s s'"
| "GetUnLockedBalance s a = (p, s') \<Longrightarrow> sdb_step s s'"
| "GetUnDelegateTimestamp s a = (p, s') \<Longrightarrow> sdb_step s s'"
| "GetCodeHash s a = (h, s') \<Longrightarrow> sdb_step s s'"
| "GetCode s a = (c, s') \<Longrightarrow> sdb_step s s'"
| "GetCodeSize s a = (m, s') \<Longrightarrow> sdb_step s s'"
| "GetState s a k = (h, s') \<Longrightarrow> sdb_step s s'"
| "HasSuicided s a = (b, s') \<Longrightarrow> sdb_step s s'"
| "AddLog l s = s' \<Longrightarrow> sdb_step s s'"
| "AddPreimage h c s = s' \<Longrightarrow> sdb_step s s'"
| "AddRefund g s = s' \<Longrightarrow> sdb_step s s'"
| "AddBalance a v s = Inr s' \<Longrightarrow> sdb_step s s'"
| "SubBalance a v s = Inr s' \<Longrightarrow> sdb_step s s'"
| "SetBalance a v s = Inr s' \<Longrightarrow> sdb_step s s'"
| "SetNonce a n s = s' \<Longrightarrow> sdb_step s s'"
| "SetCode a c s = s' \<Longrightarrow> sdb_step s s'"
| "SetState a k h s = s' \<Longrightarrow> sdb_step s s'"
| "SetLockedBalance a v s = Inr s' \<Longrightarrow> sdb_step s s'"
| "SetUnLockedBalance a v s = Inr s' \<Longrightarrow> sdb_step s s'"
| "SetDelegateTimestamp a v s = Inr s' \<Longrightarrow> sdb_step s s'"
| "Suicide a s = Inr (b, s') \<Longrightarrow> sdb_step s s'"
| "CreateAccount a s = s' \<Longrightarrow> sdb_step s s'"
| sdb_Prepare: "Prepare th bh ti s = s' \<Longrightarrow> sdb_step s s'"
| sdb_Snapshot: "Snapshot s = (i, s') \<Longrightarrow> sdb_step s s'"
| sdb_Revert: "RevertToSnapshot i s = Inr s' \<Longrightarrow> sdb_step s s'"

lemma get_field_logged:
  assumes ok: "objs_ok s" and r: "get_field f d s a = (v, s')"
  shows "logged s s'"
  using r getStateObject_logged [of s a] ok
  by (cases "getStateObject s a") (auto simp: get_field_def)

lemma GetCode_logged:
  assumes ok: "objs_ok s" and r: "GetCode s a = (c, s')"
  shows "logged s s'"
proof -
  obtain x s1 where g: "getStateObject s a = (x, s1)" by fastforce
  note p = getStateObject_props [OF g ok] and l = getStateObject_logged [OF g ok]
  show ?thesis
  proof (cases x)
    case (Some ob)
    obtain c' ob1 where c: "so_Code (sdb_db s1) ob = (c', ob1)" by fastforce
    have "logged s1 (setStateObject ob1 s1)"
      using cache_logged [OF p(3) _ so_Code_view(1-4) [OF c]] p(1,2) Some by simp
    then show ?thesis using logged_trans [OF l] r g Some c by (simp add: GetCode_def)
  qed (use r g l in \<open>simp add: GetCode_def\<close>)
qed

lemma GetState_logged:
  assumes ok: "objs_ok s" and r: "GetState s a k = (v, s')"
  shows "logged s s'"
proof -
  obtain x s1 where g: "getStateObject s a = (x, s1)" by fastforce
  note p = getStateObject_props [OF g ok] and l = getStateObject_logged [OF g ok]
  show ?thesis
  proof (cases x)
    case (Some ob)
    obtain v' ob1 where c: "so_GetState (sdb_db s1) k ob = (v', ob1)" by fastforce
    have "logged s1 (setStateObject ob1 s1)"
      using cache_logged [OF p(3) _ so_GetState_view(1-4) [OF c]] p(1,2) Some by simp
    then show ?thesis using logged_trans [OF l] r g Some c by (simp add: GetState_def)
  qed (use r g l in \<open>simp add: GetState_def\<close>)
qed

lemma GetCodeSize_logged:
  assumes ok: "objs_ok s" and r: "GetCodeSize s a = (v, s')"
  shows "logged s s'"
proof -
  obtain x s1 where g: "getStateObject s a = (x, s1)" by fastforce
  note p = getStateObject_props [OF g ok] and l = getStateObject_logged [OF g ok]
  have "s' = s1 \<or> (\<exists>e. s' = sdb_setError e s1)"
    using r g by (auto simp: GetCodeSize_def Let_def split: option.splits prod.splits if_splits)
  moreover have "logged s1 (sdb_setError e s1)" for e
    using p(3) by (intro logged_unseen) (auto simp: sdb_setError_def same_frame_def)
  ultimately show ?thesis using l logged_trans by blast
qed

lemma via_logged:
  assumes ok: "objs_ok s"
  shows "AddBalance a v s = Inr s' \<Longrightarrow> logged s s'"
    "SubBalance a v s = Inr s' \<Longrightarrow> logged s s'"
    "SetBalance a v s = Inr s' \<Longrightarrow> logged s s'"
    "logged s (SetNonce a n s)"
    "logged s (SetCode a c s)"
    "logged s (SetState a k h s)"
    "SetLockedBalance a v s = Inr s' \<Longrightarrow> logged s s'"
    "SetUnLockedBalance a v s = Inr s' \<Longrightarrow> logged s s'"
    "SetDelegateTimestamp a v s = Inr s' \<Longrightarrow> logged s s'"
proof -
  obtain ob s1 where g: "GetOrNewStateObject s a = (ob, s1)" by fastforce
  note via = logged_via [OF ok g]
  show "AddBalance a v s = Inr s' \<Longrightarrow> logged s s'"
    using g by (auto simp: AddBalance_def intro: via so_balance_logged)
  show "SubBalance a v s = Inr s' \<Longrightarrow> logged s s'"
    using g by (auto simp: SubBalance_def intro: via so_balance_logged)
  show "SetBalance a v s = Inr s' \<Longrightarrow> logged s s'"
    using g by (auto simp: SetBalance_def intro: via so_setters_logged)
  show "logged s (SetNonce a n s)"
    using g by (auto simp: SetNonce_def intro: via so_setters_logged)
  show "logged s (SetCode a c s)"
    using g by (auto simp: SetCode_def intro: via so_SetCode_logged)
  show "logged s (SetState a k h s)"
    using g by (auto simp: SetState_def intro: via so_SetState_logged)
  show "SetLockedBalance a v s = Inr s' \<Longrightarrow> logged s s'"
    using g by (auto simp: SetLockedBalance_def intro: via so_setters_logged)
  show "SetUnLockedBalance a v s = Inr s' \<Longrightarrow> logged s s'"
    using g by (auto simp: SetUnLockedBalance_def intro: via so_setters_logged)
  show "SetDelegateTimestamp a v s = Inr s' \<Longrightarrow> logged s s'"
    using g by (auto simp: SetDelegateTimestamp_def intro: via so_setters_logged)
qed

lemma Prepare_logged: "objs_ok s \<Longrightarrow> logged s (Prepare th bh ti s)"
  by (rule logged_unseen) (simp_all add: Prepare_def same_frame_def objs_ok_def accounts_of_def fun_eq_iff)

lemma read_logged:
  assumes ok: "objs_ok s"
  shows "Exist s a = (b, s') \<Longrightarrow> logged s s'"
    "Empty s a = Inr (b, s') \<Longrightarrow> logged s s'"
    "HasSuicided s a = (b, s') \<Longrightarrow> logged s s'"
  using getStateObject_logged [of s a] ok
  by (cases "getStateObject s a"; auto simp: Exist_def Empty_def HasSuicided_def split: option.splits)+

lemma sdb_step_logged:
  assumes "sdb_step s s'" "objs_ok s"
  shows "logged s s' \<or> (\<exists>i. Snapshot s = (i, s')) \<or> (\<exists>i. RevertToSnapshot i s = Inr s')"
  using assms
  by (induction rule: sdb_step.induct)
    (auto simp: GetBalance_def GetNonce_def GetLockedBalance_def GetDelegateTimestamp_def
       GetUnLockedBalance_def GetUnDelegateTimestamp_def GetCodeHash_def
     intro: read_logged get_field_logged GetCode_logged GetCodeSize_logged GetState_logged via_logged
       AddLog_logged AddPreimage_logged AddRefund_logged Suicide_logged CreateAccount_logged Prepare_logged)

section \<open>The invariant is kept\<close>

lemma logged_state_ok:
  assumes "logged s s'" "state_ok s"
  shows "state_ok s'"
proof -
  obtain es where es: "entries (sdb_journal s') = entries (sdb_journal s) @ es" "\<forall>e \<in> set es. entry_ok e"
    using assms(1) by (auto simp: logged_def reverts_to_def)
  have "revs_ok s'" using assms es(1) unfolding state_ok_def revs_ok_def logged_def keeps_def by fastforce
  then show ?thesis using assms es by (auto simp: state_ok_def logged_def keeps_def)
qed

lemma Snapshot_state_ok:
  "Snapshot s = (i, s') \<Longrightarrow> state_ok s \<Longrightarrow> state_ok s'"
  by (auto simp: Snapshot_def state_ok_def revs_ok_def sorted_wrt_append journal_length_def less_Suc_eq)

lemma revs_search:
  assumes "revs_ok s" "idx < length (validRevisions s)"
  shows "sort_Search (length (validRevisions s)) (\<lambda>j. rev_id (validRevisions s ! idx) \<le> rev_id (validRevisions s ! j)) = idx"
    (is "sort_Search ?n ?f = idx")
proof -
  have lt: "rev_id (validRevisions s ! i) < rev_id (validRevisions s ! j)" if "i < j" "j < ?n" for i j
    using assms(1) that by (auto simp: revs_ok_def sorted_wrt_iff_nth_less)
  have mono: "\<forall>k k'. k \<le> k' \<longrightarrow> k' < ?n \<longrightarrow> ?f k \<longrightarrow> ?f k'"
  proof (intro allI impI)
    fix k k' assume "k \<le> k'" "k' < ?n" "?f k"
    then show "?f k'" using lt [of k k'] by (cases "k = k'") auto
  qed
  note spec = sort_Search_spec [where n = ?n and f = ?f, OF mono]
  have "?f idx" by simp
  show ?thesis
  proof (rule ccontr)
    assume ne: "\<not> ?thesis"
    consider "sort_Search ?n ?f < idx" | "idx < sort_Search ?n ?f" using ne by linarith
    then show False
    proof cases
      case 1
      have "sort_Search ?n ?f < ?n" using 1 assms(2) by linarith
      then have "?f (sort_Search ?n ?f)" using spec(3) by blast
      then show False using lt [OF 1 assms(2)] by simp
    next
      case 2
      from spec(2) [OF this] show False by simp
    qed
  qed
qed

section \<open>Reverting to a snapshot\<close>

lemma RevertToSnapshot_at:
  assumes "revs_ok s" "idx < length (validRevisions s)"
  shows "RevertToSnapshot (rev_id (validRevisions s ! idx)) s =
    rbind (journal_revert (rev_journalIndex (validRevisions s ! idx)) s) (\<lambda>s1.
      Inr (s1\<lparr>validRevisions := take idx (validRevisions s1)\<rparr>))"
  using assms by (simp add: RevertToSnapshot_def revs_search [OF assms])

text \<open>What a successful revert did: it undid the entries after the revision's index and
  dropped the revision and the later ones.\<close>

lemma RevertToSnapshot_cases:
  assumes r: "RevertToSnapshot i s = Inr s'" and ok: "state_ok s"
  obtains idx u where "idx < length (validRevisions s)" "rev_id (validRevisions s ! idx) = i"
    "revert_entries (rev (drop (rev_journalIndex (validRevisions s ! idx)) (entries (sdb_journal s)))) s = Inr u"
    "keeps s u" "eqv s' u" "nextRevisionID s' = nextRevisionID s"
    "entries (sdb_journal s') = take (rev_journalIndex (validRevisions s ! idx)) (entries (sdb_journal s))"
    "validRevisions s' = take idx (validRevisions s)"
proof -
  let ?vr = "validRevisions s" and ?E = "entries (sdb_journal s)"
  define idx where "idx = sort_Search (length ?vr) (\<lambda>k. i \<le> rev_id (?vr ! k))"
  have "\<forall>k k'. k \<le> k' \<longrightarrow> k' < length ?vr \<longrightarrow> i \<le> rev_id (?vr ! k) \<longrightarrow> i \<le> rev_id (?vr ! k')"
  proof (intro allI impI)
    fix k k' assume "k \<le> k'" "k' < length ?vr" "i \<le> rev_id (?vr ! k)"
    moreover have "rev_id (?vr ! k) < rev_id (?vr ! k')" if "k < k'" "k' < length ?vr"
      using ok that by (auto simp: state_ok_def revs_ok_def sorted_wrt_iff_nth_less)
    ultimately show "i \<le> rev_id (?vr ! k')" by (cases "k = k'") auto
  qed
  then have "idx \<le> length ?vr" unfolding idx_def by (rule sort_Search_spec(1))
  moreover have ne: "idx \<noteq> length ?vr" "rev_id (?vr ! idx) = i"
    using r unfolding RevertToSnapshot_def Let_def idx_def by (auto split: if_splits)
  ultimately have i: "idx < length ?vr" by simp
  let ?n = "rev_journalIndex (?vr ! idx)"
  have "rbind (journal_revert ?n s) (\<lambda>s1. Inr (s1\<lparr>validRevisions := take idx (validRevisions s1)\<rparr>)) = Inr s'"
    using r RevertToSnapshot_at [OF _ i] ok ne(2) by (simp add: state_ok_def)
  then obtain u where u: "revert_entries (rev (drop ?n ?E)) s = Inr u"
    "s' = u\<lparr>sdb_journal := (sdb_journal u)\<lparr>entries := take ?n (entries (sdb_journal u))\<rparr>,
            validRevisions := take idx (validRevisions u)\<rparr>"
    by (auto simp: journal_revert_def)
  have k: "keeps s u" "entries (sdb_journal u) = ?E"
    using revert_entries_keeps [OF _ _ u(1)] ok by (auto simp: state_ok_def dest: in_set_dropD)
  show thesis
    by (rule that [OF i ne(2) u(1) k(1)]) (use u(2) k in \<open>auto simp: eqv_alt keeps_def\<close>)
qed

lemma RevertToSnapshot_state_ok:
  assumes "RevertToSnapshot i s = Inr s'" "state_ok s"
  shows "state_ok s'"
  using assms
proof (cases rule: RevertToSnapshot_cases)
  case (1 idx u)
  let ?vr = "validRevisions s" and ?n = "rev_journalIndex (validRevisions s ! idx)"
  note so = assms(2) [unfolded state_ok_def revs_ok_def]
  have srt: "rev_journalIndex (?vr ! k) \<le> ?n" if "k < idx" for k
    using so 1(1) that by (auto simp: sorted_wrt_iff_nth_less)
  have "rev_journalIndex r \<le> length (entries (sdb_journal s')) \<and> rev_id r < nextRevisionID s'"
    if r: "r \<in> set (take idx ?vr)" for r
  proof -
    obtain k where "k < idx" "r = ?vr ! k" using r 1(1) by (auto simp: in_set_conv_nth)
    moreover have "?n \<le> length (entries (sdb_journal s))" using so 1(1) by simp
    ultimately show ?thesis using srt so 1(1,6,7) by auto
  qed
  then have "revs_ok s'" using so 1(8) by (simp add: revs_ok_def sorted_wrt_take)
  moreover have "objs_ok s'" using 1(5) by (simp add: eqv_def)
  moreover have "\<forall>e \<in> set (entries (sdb_journal s')). entry_ok e"
    using so 1(7) by (auto dest: in_set_takeD)
  ultimately show ?thesis by (simp add: state_ok_def)
qed

lemma sdb_step_state_ok:
  assumes "sdb_step s s'" "state_ok s"
  shows "state_ok s'"
  using sdb_step_logged [OF assms(1)] assms(2) logged_state_ok Snapshot_state_ok RevertToSnapshot_state_ok
  unfolding state_ok_def by metis

definition snap_inv :: "nat \<Rightarrow> StateDB \<Rightarrow> StateDB \<Rightarrow> bool" where
  "snap_inv i s0 s \<longleftrightarrow> state_ok s \<and> i < nextRevisionID s \<and>
     (\<forall>r \<in> set (validRevisions s). rev_id r = i \<longrightarrow>
        reverts_to (drop (rev_journalIndex r) (entries (sdb_journal s))) s s0)"

lemma snap_inv_logged:
  assumes l: "logged s s'" and inv: "snap_inv i s0 s"
  shows "snap_inv i s0 s'"
proof -
  obtain es where es: "entries (sdb_journal s') = entries (sdb_journal s) @ es" "reverts_to es s' s"
    using l by (auto simp: logged_def)
  have k: "validRevisions s' = validRevisions s" "nextRevisionID s' = nextRevisionID s"
    using l by (auto simp: logged_def keeps_def)
  have "reverts_to (drop (rev_journalIndex r) (entries (sdb_journal s'))) s' s0"
    if r: "r \<in> set (validRevisions s)" "rev_id r = i" for r
  proof -
    have "rev_journalIndex r \<le> length (entries (sdb_journal s))"
      using inv r by (auto simp: snap_inv_def state_ok_def revs_ok_def)
    then show ?thesis using reverts_to_append [OF _ es(2)] inv r es(1) by (simp add: snap_inv_def)
  qed
  then show ?thesis using inv k logged_state_ok [OF l] by (simp add: snap_inv_def)
qed

lemma Snapshot_eqv: "Snapshot s = (i, s') \<Longrightarrow> objs_ok s \<Longrightarrow> eqv s' s"
  by (auto simp: Snapshot_def eqv_alt)

lemma snap_inv_Snapshot:
  assumes "Snapshot s = (j, s')" "snap_inv i s0 s"
  shows "snap_inv i s0 s'"
proof -
  have "eqv s' s" using Snapshot_eqv [OF assms(1)] assms(2) by (simp add: snap_inv_def state_ok_def)
  then show ?thesis using assms Snapshot_state_ok [OF assms(1)] reverts_to_eqv
    by (auto simp: snap_inv_def Snapshot_def)
qed

lemma snap_inv_Revert:
  assumes "RevertToSnapshot j s = Inr s'" "snap_inv i s0 s"
  shows "snap_inv i s0 s'"
proof -
  have ok: "state_ok s" using assms(2) by (simp add: snap_inv_def)
  show ?thesis
    using assms(1) ok
  proof (cases rule: RevertToSnapshot_cases)
    case (1 idx u)
    let ?vr = "validRevisions s" and ?E = "entries (sdb_journal s)"
    let ?n = "rev_journalIndex (?vr ! idx)"
    have "reverts_to (drop (rev_journalIndex r) (take ?n ?E)) s' s0"
      if r: "r \<in> set (take idx ?vr)" "rev_id r = i" for r
    proof -
      obtain k where k: "k < idx" "r = ?vr ! k" using r 1(1) by (auto simp: in_set_conv_nth)
      then have le: "rev_journalIndex r \<le> ?n"
        using ok 1(1) by (auto simp: state_ok_def revs_ok_def sorted_wrt_iff_nth_less)
      have "reverts_to (drop (rev_journalIndex r) ?E) s s0"
        using assms(2) r by (auto simp: snap_inv_def dest: in_set_takeD)
      moreover have "drop (rev_journalIndex r) ?E = drop (rev_journalIndex r) (take ?n ?E) @ drop ?n ?E"
        using le by (simp add: drop_take append_take_drop_id)
          (metis append_take_drop_id drop_drop le_add_diff_inverse2)
      ultimately have "reverts_to (drop (rev_journalIndex r) (take ?n ?E)) u s0"
        using 1(3) by (auto simp: reverts_to_def revert_entries_append)
      then show ?thesis using reverts_to_eqv 1(5) by blast
    qed
    then show ?thesis
      using 1(6-8) RevertToSnapshot_state_ok [OF assms(1) ok] assms(2) by (simp add: snap_inv_def)
  qed
qed

lemma snap_inv_steps:
  assumes "sdb_step\<^sup>*\<^sup>* s s'" "snap_inv i s0 s"
  shows "snap_inv i s0 s'"
  using assms
proof (induction rule: rtranclp_induct)
  case (step t u)
  then have "objs_ok t" by (simp add: snap_inv_def state_ok_def)
  from sdb_step_logged [OF step.hyps(2) this] step show ?case
    using snap_inv_logged snap_inv_Snapshot snap_inv_Revert by blast
qed simp

lemma snap_inv_revertible:
  assumes "snap_inv i s0 s" "i \<in> rev_id ` set (validRevisions s)"
  shows "\<exists>u. RevertToSnapshot i s = Inr u \<and> eqv u s0"
proof -
  obtain idx where idx: "idx < length (validRevisions s)" "rev_id (validRevisions s ! idx) = i"
    using assms(2) by (auto simp: in_set_conv_nth)
  let ?r = "validRevisions s ! idx"
  have "reverts_to (drop (rev_journalIndex ?r) (entries (sdb_journal s))) s s0"
    using assms(1) idx by (simp add: snap_inv_def)
  then obtain u where u: "revert_entries (rev (drop (rev_journalIndex ?r) (entries (sdb_journal s)))) s = Inr u" "eqv u s0"
    by (auto simp: reverts_to_def)
  then show ?thesis using RevertToSnapshot_at [OF _ idx(1)] assms(1) idx(2)
    by (simp add: snap_inv_def state_ok_def journal_revert_def eqv_alt)
qed

lemma snap_inv_start:
  assumes "Snapshot s0 = (i, s1)" "state_ok s0"
  shows "snap_inv i s0 s1"
proof -
  have e: "eqv s1 s0" using Snapshot_eqv [OF assms(1)] assms(2) by (simp add: state_ok_def)
  have "rev_id r \<noteq> nextRevisionID s0" if "r \<in> set (validRevisions s0)" for r
    using assms(2) that by (auto simp: state_ok_def revs_ok_def)
  then show ?thesis using assms e Snapshot_state_ok [OF assms] reverts_to_Nil [OF e]
    by (auto simp: snap_inv_def Snapshot_def journal_length_def)
qed

end
