(* ===== verification/StateProps.thy ===== *)
theory StateProps
  imports StateSnapshot
begin

text \<open>
  The properties of the account state: snapshots restore what was observable, the setters act as documented on the account they name and
  on nothing else, and the behaviour of the two fields that the constructor and the journal
  leave out.
\<close>

section \<open>A small database\<close>

definition small_db :: Database where
  "small_db = \<lparr>db_accounts = Map.empty, db_storages = Map.empty, db_codes = Map.empty,
     db_accountRoot = (\<lambda>_. 1), db_storageRoot = (\<lambda>_. 2), db_keccak = (\<lambda>bs. of_nat (length bs))\<rparr>"

definition small_state :: StateDB where
  "small_state = projr (New 0 small_db)"

text \<open>The view of an account, or of the account an operation creates.\<close>

definition account_or_new :: "StateDB \<Rightarrow> address \<Rightarrow> account_view" where
  "account_or_new s a =
     (case accounts_of s a of
        Some v \<Rightarrow> v | None \<Rightarrow> view_of (sdb_db s) (newObject (sdb_db s) a emptyAccount))"

section \<open>The invariant in reachable states\<close>

lemma New_state_ok: "New root d = Inr s \<Longrightarrow> state_ok s"
  by (auto simp: New_def state_ok_def objs_ok_def newJournal_def revs_ok_def)

lemma New_small: "New 0 small_db = Inr small_state"
  by (simp add: small_state_def New_def OpenTrie_def)

lemma small_state_ok: "state_ok small_state"
  by (rule New_state_ok [OF New_small])

lemma steps_state_ok: "sdb_step\<^sup>*\<^sup>* s s' \<Longrightarrow> state_ok s \<Longrightarrow> state_ok s'"
  by (induction rule: rtranclp_induct) (auto intro: sdb_step_state_ok)

section \<open>What the setters do\<close>

lemma GetOrNewStateObject_view:
  assumes g: "GetOrNewStateObject s a = (ob, s1)" and ok: "state_ok s"
  shows "state_ok s1" "obj_at s1 a = Some ob" "sdb_db s1 = sdb_db s"
    "view_of (sdb_db s) ob = account_or_new s a" "accounts_of s1 = (accounts_of s)(a \<mapsto> account_or_new s a)"
proof -
  have oks: "objs_ok s" using ok by (simp add: state_ok_def)
  note l = GetOrNewStateObject_logged [OF g oks]
  obtain r t where gs: "getStateObject s a = (r, t)" by fastforce
  note p = getStateObject_props [OF gs oks]
  have db: "sdb_db s1 = sdb_db s" using l(1) by (simp add: logged_def keeps_def)
  have "view_of (sdb_db s) ob = account_or_new s a \<and> accounts_of s1 = (accounts_of s)(a \<mapsto> account_or_new s a)"
  proof (cases r)
    case (Some x)
    have "\<not> deleted x" using obj_at_ok [OF oks, of a x] p(1) Some by simp
    then have "x = ob" "s1 = t" using g gs Some by (auto simp: GetOrNewStateObject_def)
    moreover have "account_or_new s a = view_of (sdb_db s) x"
      using p(1) Some by (auto simp: account_or_new_def accounts_of_def split: option.split)
    moreover have "accounts_of t = accounts_of s" using p by (intro accounts_of_same) (simp_all add: same_frame_def)
    moreover have "accounts_of s a = Some (view_of (sdb_db s) x)" using p(1) [symmetric] Some by (simp add: accounts_of_def)
    ultimately show ?thesis by (simp add: fun_upd_idem)
  next
    case None
    obtain r' t' where gs': "getStateObject t a = (r', t')" by fastforce
    note p' = getStateObject_props [OF gs' p(3)]
    have dbt: "sdb_db t' = sdb_db s" using p'(4) p(4) by (simp add: same_frame_def)
    let ?n = "so_setNonce 0 (newObject (sdb_db s) a emptyAccount)"
    have nn: "?n = newObject (sdb_db s) a emptyAccount"
      by (simp add: so_setNonce_def newObject_def emptyAccount_def Let_def)
    have "r' = None" using p'(1) p(1,2) None by simp
    then have "ob = ?n" "s1 = setStateObject ?n (jappend (createObjectChange a) t')"
      using g gs gs' None dbt by (auto simp: GetOrNewStateObject_def createObject_def Let_def)
    moreover have "accounts_of t' = accounts_of s"
      using p p' by (intro accounts_of_same) (simp_all add: same_frame_def)
    moreover have "account_or_new s a = view_of (sdb_db s) (newObject (sdb_db s) a emptyAccount)"
      using p(1) None by (auto simp: account_or_new_def accounts_of_def split: option.split)
    ultimately show ?thesis using dbt by (simp add: nn accounts_of_set)
  qed
  then show "view_of (sdb_db s) ob = account_or_new s a" "accounts_of s1 = (accounts_of s)(a \<mapsto> account_or_new s a)"
    by auto
  show "state_ok s1" by (rule logged_state_ok [OF l(1) ok])
  show "obj_at s1 a = Some ob" "sdb_db s1 = sdb_db s" using l(2) db by auto
qed

lemma write_back_accounts:
  assumes g: "GetOrNewStateObject s a = (ob, s1)" and ok: "state_ok s"
    and ob': "so_address ob' = so_address ob" "deleted ob' = deleted ob"
  shows "accounts_of (setStateObject ob' (jappend e s1)) = (accounts_of s)(a \<mapsto> view_of (sdb_db s) ob')"
proof -
  note v = GetOrNewStateObject_view [OF g ok]
  have "so_address ob = a" "\<not> deleted ob" using obj_at_ok [OF _ v(2)] v(1) by (simp_all add: state_ok_def)
  then show ?thesis using v ob' by (simp add: accounts_of_set)
qed

lemma account_or_new_ok:
  assumes "state_ok s"
  obtains b where "Balance (av_data (account_or_new s a)) = Some b"
proof (cases "obj_at s a")
  case None
  then show thesis using that by (auto simp: account_or_new_def accounts_of_def view_of_def newObject_def
        emptyAccount_def Let_def)
next
  case (Some ob)
  then have "obj_ok ob" using obj_at_ok [of s a ob] assms by (simp add: state_ok_def)
  then show thesis using that Some by (auto simp: account_or_new_def accounts_of_def view_of_def obj_ok_def)
qed

lemma so_setters_view:
  "view_of d (so_setBalance p ob) = (view_of d ob)\<lparr>av_data := (so_data ob)\<lparr>Balance := p\<rparr>\<rparr>"
  "view_of d (so_setNonce n ob) = (view_of d ob)\<lparr>av_data := (so_data ob)\<lparr>Nonce := n\<rparr>\<rparr>"
  "view_of d (so_setState k v ob) = (view_of d ob)\<lparr>av_storage := (av_storage (view_of d ob))(k := v)\<rparr>"
  "view_of d (so_setUnDelegateTimestamp p ob) = (view_of d ob)\<lparr>av_data := (so_data ob)\<lparr>UnDelegateTimestamp := p\<rparr>\<rparr>"
  by (simp_all add: view_of_alt setter_defs)

lemma av_data_view [simp]: "av_data (view_of d ob) = so_data ob"
  by (simp add: view_of_def)

definition with_balance :: "account_view \<Rightarrow> int \<Rightarrow> account_view" where
  "with_balance w b = w\<lparr>av_data := (av_data w)\<lparr>Balance := Some b\<rparr>\<rparr>"

lemma with_balance_self: "Balance (av_data w) = Some b \<Longrightarrow> with_balance w b = w"
  by (cases w) (auto simp: with_balance_def)

lemma so_SetBalance_accounts:
  assumes g: "GetOrNewStateObject s a = (ob, s1)" and ok: "state_ok s"
  shows "\<exists>s'. so_SetBalance x ob s1 = Inr s' \<and> state_ok s'
    \<and> accounts_of s' = (accounts_of s)(a \<mapsto> with_balance (account_or_new s a) x)"
proof -
  note v = GetOrNewStateObject_view [OF g ok]
  have "objs_ok s1" using v(1) by (simp add: state_ok_def)
  obtain b where b: "Balance (so_data ob) = Some b"
    using account_or_new_ok [OF ok, of a] v(4) by (metis av_data_view)
  define s' where "s' = setStateObject (so_setBalance (Some x) ob) (jappend (balanceChange (so_address ob) b) s1)"
  have s': "so_SetBalance x ob s1 = Inr s'" using b by (simp add: so_SetBalance_def s'_def)
  have "state_ok s'"
    by (rule logged_state_ok [OF so_setters_logged(2) [OF \<open>objs_ok s1\<close> v(2) s'] v(1)])
  moreover have "accounts_of s' = (accounts_of s)(a \<mapsto> with_balance (account_or_new s a) x)"
    unfolding s'_def by (subst write_back_accounts [OF g ok])
      (simp_all add: so_setBalance_def so_setters_view(1) [unfolded so_setBalance_def] v(4) [symmetric] with_balance_def)
  ultimately show ?thesis using s' by blast
qed

lemma AddBalance_accounts:
  assumes ok: "state_ok s" and b: "Balance (av_data (account_or_new s a)) = Some b"
  shows "\<exists>s'. AddBalance a x s = Inr s' \<and> state_ok s'
    \<and> accounts_of s' = (accounts_of s)(a \<mapsto> with_balance (account_or_new s a) (b + x))"
proof -
  obtain ob s1 where g: "GetOrNewStateObject s a = (ob, s1)" by fastforce
  note v = GetOrNewStateObject_view [OF g ok]
  have bo: "Balance (so_data ob) = Some b" using b v(4) by (metis av_data_view)
  show ?thesis
  proof (cases "x = 0")
    case True
    have o1: "objs_ok s1" using v(1) by (simp add: state_ok_def)
    obtain e where e: "so_empty (sdb_db s1) ob = Inr e" using bo by (cases "Nonce (so_data ob) = 0") (auto simp: so_empty_def)
    have "AddBalance a x s = Inr (if e then so_touch ob s1 else s1)"
      using g e True by (simp add: AddBalance_def so_AddBalance_def)
    moreover have "state_ok (if e then so_touch ob s1 else s1)"
      using logged_state_ok [OF so_touch_logged [OF o1] v(1)] v(1) by simp
    moreover have "accounts_of (so_touch ob s1) = accounts_of s1"
      by (simp add: so_touch_def Let_def)
    ultimately show ?thesis using v(5) b True by (simp add: with_balance_self)
  next
    case False
    then show ?thesis using so_SetBalance_accounts [OF g ok, of "b + x"] g bo
      by (simp add: AddBalance_def so_AddBalance_def)
  qed
qed

lemma SubBalance_accounts:
  assumes ok: "state_ok s" and b: "Balance (av_data (account_or_new s a)) = Some b"
  shows "\<exists>s'. SubBalance a x s = Inr s' \<and> state_ok s'
    \<and> accounts_of s' = (accounts_of s)(a \<mapsto> with_balance (account_or_new s a) (b - x))"
proof -
  obtain ob s1 where g: "GetOrNewStateObject s a = (ob, s1)" by fastforce
  note v = GetOrNewStateObject_view [OF g ok]
  have "Balance (so_data ob) = Some b" using b v(4) by (metis av_data_view)
  then show ?thesis using so_SetBalance_accounts [OF g ok, of "b - x"] g v(1,5) b
    by (simp add: SubBalance_def so_SubBalance_def with_balance_self)
qed

lemma SetState_accounts:
  assumes ok: "state_ok s"
  shows "state_ok (SetState a k x s)"
    and "accounts_of (SetState a k x s) =
      (accounts_of s)(a \<mapsto> (account_or_new s a)\<lparr>av_storage := (av_storage (account_or_new s a))(k := x)\<rparr>)"
proof -
  obtain ob s1 where g: "GetOrNewStateObject s a = (ob, s1)" by fastforce
  note v = GetOrNewStateObject_view [OF g ok]
  show "state_ok (SetState a k x s)"
    using logged_state_ok [OF via_logged(6) ok] ok by (simp add: state_ok_def)
  obtain p ob1 where c: "so_GetState (sdb_db s) k ob = (p, ob1)" by fastforce
  note q = so_GetState_view [OF c]
  have "SetState a k x s = setStateObject (so_setState k x ob1) (jappend (storageChange (so_address ob) k p) s1)"
    using g c v(3) by (simp add: SetState_def so_SetState_def)
  then show "accounts_of (SetState a k x s) =
      (accounts_of s)(a \<mapsto> (account_or_new s a)\<lparr>av_storage := (av_storage (account_or_new s a))(k := x)\<rparr>)"
    using write_back_accounts [OF g ok, of "so_setState k x ob1"] q(1-3) v(4)
    by (simp add: so_setters_view) (simp add: so_setState_def)
qed

lemma GetState_value:
  assumes "state_ok s"
  shows "fst (GetState s a k) = (case accounts_of s a of None \<Rightarrow> 0 | Some w \<Rightarrow> av_storage w k)"
proof -
  obtain r t where gs: "getStateObject s a = (r, t)" by fastforce
  note p = getStateObject_props [OF gs] and ok = assms [unfolded state_ok_def]
  have "sdb_db t = sdb_db s" using p(4) ok by (simp add: same_frame_def)
  then show ?thesis using gs p(1) ok
    by (auto simp: GetState_def accounts_of_def view_of_def split: option.split prod.split)
qed

lemma GetBalance_value:
  assumes "state_ok s"
  shows "fst (GetBalance s a) = (case accounts_of s a of None \<Rightarrow> Some 0 | Some w \<Rightarrow> Balance (av_data w))"
proof -
  obtain r t where gs: "getStateObject s a = (r, t)" by fastforce
  then show ?thesis using getStateObject_props(1) [OF gs] assms
    by (auto simp: GetBalance_def get_field_def accounts_of_def view_of_def state_ok_def split: option.split)
qed

lemma GetBalance_account_or_new:
  "state_ok s \<Longrightarrow> fst (GetBalance s a) = Balance (av_data (account_or_new s a))"
  by (auto simp: GetBalance_value account_or_new_def newObject_def emptyAccount_def Let_def split: option.split)

lemma account_or_new_storage: "accounts_of s a = None \<Longrightarrow> av_storage (account_or_new s a) = (\<lambda>_. 0)"
  by (simp add: account_or_new_def view_of_alt storage_of_def trie_of_def slot_value_def OpenStorageTrie_def
      newObject_def emptyAccount_def Let_def fun_eq_iff)

section \<open>Properties\<close>

text \<open>C3: Taking a snapshot and then running any sequence of journaled operations, nested snapshots and
  reverts included, leaves a state in which reverting to the snapshot, if its identifier is
  still valid, does not panic and restores everything observable: every account with its
  code, storage and suicide mark, the refund counter, the logs and the preimages. The operations are those of
  \<open>sdb_step\<close>: every read and write of the interface but \<open>SetUnDelegateTimestamp\<close>, which changes the account
  without a journal entry and is not undone, and but the finalisations, commits, resets and copies,
  which empty the journal and end the validity of all snapshots.\<close>

theorem snapshot_revert_restores:
  assumes "state_ok s0" "Snapshot s0 = (i, s1)" "sdb_step\<^sup>*\<^sup>* s1 s"
    "i \<in> rev_id ` set (validRevisions s)"
  shows "\<exists>u. RevertToSnapshot i s = Inr u \<and> observe u = observe s0"
  using snap_inv_revertible [OF snap_inv_steps [OF assms(3) snap_inv_start [OF assms(2,1)]] assms(4)]
  by (auto simp: eqv_def)

theorem snapshot_revert_restores_witness:
  "\<exists>s u. AddBalance 7 5 (snd (Snapshot small_state)) = Inr s
     \<and> RevertToSnapshot 0 s = Inr u \<and> observe u = observe small_state"
proof -
  let ?s1 = "snd (Snapshot small_state)"
  have s1: "Snapshot small_state = (0, ?s1)"
    by (simp add: Snapshot_def small_state_def New_def OpenTrie_def)
  have ok1: "state_ok ?s1" by (rule Snapshot_state_ok [OF s1 small_state_ok])
  then have o1: "objs_ok ?s1" by (simp add: state_ok_def)
  obtain b where "Balance (av_data (account_or_new ?s1 7)) = Some b" by (rule account_or_new_ok [OF ok1])
  then obtain s where s: "AddBalance 7 5 ?s1 = Inr s" using AddBalance_accounts [OF ok1] by blast
  have "validRevisions s = validRevisions ?s1"
    using via_logged(1) [OF o1 s] by (simp add: logged_def keeps_def)
  then have "0 \<in> rev_id ` set (validRevisions s)"
    by (simp add: Snapshot_def small_state_def New_def OpenTrie_def)
  moreover have "sdb_step\<^sup>*\<^sup>* ?s1 s" using s by (intro r_into_rtranclp) (rule sdb_step.intros)
  ultimately show ?thesis using snapshot_revert_restores [OF small_state_ok s1] s by blast
qed

text \<open>Crediting an account never panics, changes the balance of that account alone, by
  the amount, and creates the account when it is missing.\<close>

theorem AddBalance_credits:
  assumes "state_ok s" "fst (GetBalance s a) = Some b"
  shows "\<exists>s'. AddBalance a x s = Inr s' \<and> state_ok s'
    \<and> accounts_of s' = (accounts_of s)(a \<mapsto> with_balance (account_or_new s a) (b + x))"
  using AddBalance_accounts [OF assms(1)] assms(2) by (simp add: GetBalance_account_or_new [OF assms(1)])

theorem AddBalance_credits_witness:
  "\<exists>s'. AddBalance 7 5 small_state = Inr s' \<and> fst (GetBalance s' 7) = Some 5"
proof -
  have "fst (GetBalance small_state 7) = Some 0"
    by (simp add: GetBalance_def get_field_def getStateObject_def small_state_def New_def OpenTrie_def)
  from AddBalance_credits [OF small_state_ok this, of 5] show ?thesis
    by (auto simp: GetBalance_value with_balance_def)
qed

text \<open>A storage read after a write sees the written value at that account and key, and
  what was there before everywhere else.\<close>

theorem GetState_SetState:
  assumes "state_ok s"
  shows "fst (GetState (SetState a k x s) b j) = (if b = a \<and> j = k then x else fst (GetState s b j))"
  using assms account_or_new_storage [of s a]
  by (auto simp: GetState_value SetState_accounts account_or_new_def split: option.splits)

theorem GetState_SetState_witness: "fst (GetState (SetState 1 2 3 small_state) 1 2) = 3"
  by (simp add: GetState_SetState [OF small_state_ok])

text \<open>The setter of the undelegation time is not journaled: after a snapshot, setting the
  time of an existing account and reverting to the snapshot leaves the new time in place.\<close>

theorem SetUnDelegateTimestamp_survives_revert:
  assumes "state_ok s0" "accounts_of s0 a = Some w" "Snapshot s0 = (i, s1)"
  shows "\<exists>u. RevertToSnapshot i (SetUnDelegateTimestamp a t s1) = Inr u
    \<and> accounts_of u a = Some (w\<lparr>av_data := (av_data w)\<lparr>UnDelegateTimestamp := Some t\<rparr>\<rparr>)"
proof -
  have ok1: "state_ok s1" by (rule Snapshot_state_ok [OF assms(3,1)])
  have w1: "accounts_of s1 a = Some w" using assms(2,3) by (auto simp: Snapshot_def)
  obtain ob s2 where g: "GetOrNewStateObject s1 a = (ob, s2)" by fastforce
  note v = GetOrNewStateObject_view [OF g ok1]
  obtain r t0 where gs: "getStateObject s1 a = (r, t0)" by fastforce
  note p = getStateObject_props [OF gs]
  have o1: "objs_ok s1" using ok1 by (simp add: state_ok_def)
  obtain ob0 where ob0: "obj_at s1 a = Some ob0" using w1 by (auto simp: accounts_of_def)
  have s2: "s2 = t0"
    using g gs p(1) [OF o1] ob0 obj_at_ok [OF o1 ob0] by (simp add: GetOrNewStateObject_def)
  define s3 where "s3 = SetUnDelegateTimestamp a t s1"
  have s3: "s3 = setStateObject (so_setUnDelegateTimestamp (Some t) ob) s2"
    using g by (simp add: s3_def SetUnDelegateTimestamp_def)
  have fr: "same_frame s3 s1" "sdb_journal s3 = sdb_journal s1"
    using p(4,5) [OF o1] s2 s3 by (simp_all add: same_frame_def setStateObject_def)
  have "so_address ob = a" "\<not> deleted ob" using obj_at_ok [OF _ v(2)] v(1) by (simp_all add: state_ok_def)
  then have acc: "accounts_of s3 a = Some (w\<lparr>av_data := (av_data w)\<lparr>UnDelegateTimestamp := Some t\<rparr>\<rparr>)"
    using v(3,4) w1 by (simp add: s3 accounts_of_set so_setUnDelegateTimestamp_def
        so_setters_view(4) [unfolded so_setUnDelegateTimestamp_def] account_or_new_def) (metis av_data_view)
  have revs: "validRevisions s3 = validRevisions s0 @ [\<lparr>rev_id = i, rev_journalIndex = length (entries (sdb_journal s0))\<rparr>]"
    "entries (sdb_journal s3) = entries (sdb_journal s0)"
    using fr assms(3) by (auto simp: same_frame_def Snapshot_def journal_length_def)
  have "revs_ok s3" using ok1 fr by (simp add: state_ok_def revs_ok_def same_frame_def)
  from RevertToSnapshot_at [OF this, of "length (validRevisions s0)"]
  show ?thesis using acc revs unfolding s3_def [symmetric]
    by (simp add: journal_revert_def)
qed

theorem SetUnDelegateTimestamp_survives_revert_witness:
  "\<exists>w u. accounts_of (SetNonce 1 1 small_state) 1 = Some w
     \<and> RevertToSnapshot 0 (SetUnDelegateTimestamp 1 9 (snd (Snapshot (SetNonce 1 1 small_state)))) = Inr u
     \<and> accounts_of u 1 = Some (w\<lparr>av_data := (av_data w)\<lparr>UnDelegateTimestamp := Some 9\<rparr>\<rparr>)"
proof -
  let ?s0 = "SetNonce 1 1 small_state"
  have o: "objs_ok small_state" using small_state_ok by (simp add: state_ok_def)
  have ok: "state_ok ?s0" by (rule logged_state_ok [OF via_logged(4) [OF o] small_state_ok])
  have "nextRevisionID ?s0 = 0"
    using via_logged(4) [OF o, of 1 1] by (simp add: logged_def keeps_def small_state_def New_def OpenTrie_def)
  then have sn: "Snapshot ?s0 = (0, snd (Snapshot ?s0))" by (simp add: Snapshot_def)
  obtain ob s1 where g: "GetOrNewStateObject small_state 1 = (ob, s1)" by fastforce
  obtain w where "accounts_of ?s0 1 = Some w"
    using write_back_accounts [OF g small_state_ok, of "so_setNonce 1 ob"] g
    by (auto simp: SetNonce_def so_SetNonce_def) (simp_all add: so_setNonce_def)
  with SetUnDelegateTimestamp_survives_revert [OF ok _ sn] show ?thesis by blast
qed

text \<open>Setting the unlocked balance of an account that does not exist yet dereferences the
  nil pointer that \<open>newObject\<close> leaves in the created object.\<close>

theorem SetUnLockedBalance_fresh_panics:
  assumes "state_ok s" "accounts_of s a = None"
  shows "SetUnLockedBalance a x s = Inl NilDeref"
proof -
  obtain ob s1 where g: "GetOrNewStateObject s a = (ob, s1)" by fastforce
  have "so_data ob = av_data (account_or_new s a)"
    using GetOrNewStateObject_view(4) [OF g assms(1)] by (metis av_data_view)
  then show ?thesis using g assms(2)
    by (simp add: SetUnLockedBalance_def so_SetUnLockedBalance_def account_or_new_def newObject_def
        emptyAccount_def Let_def)
qed

theorem SetUnLockedBalance_fresh_panics_witness: "SetUnLockedBalance 1 5 small_state = Inl NilDeref"
  by (rule SetUnLockedBalance_fresh_panics [OF small_state_ok])
    (simp add: accounts_of_def obj_at_def small_state_def New_def OpenTrie_def)

end
