(* ===== verification/StateLife.thy ===== *)
theory StateLife
  imports StateProps
begin

text \<open>
  The whole life of a state database: besides the calls between two finalisations, the finalisations, commits, resets
  and copies, and the setter that keeps no journal. Finalising and committing are what marks objects as deleted.
\<close>

section \<open>Deleted objects\<close>

text \<open>\<open>del\<close> is the flag \<open>deleteEmptyObjects\<close>. An object that is marked deleted stays one that every later finalisation
  deletes again.\<close>

definition gone_ok :: "bool \<Rightarrow> StateDB \<Rightarrow> bool" where
  "gone_ok del s \<longleftrightarrow> (\<forall>a ob. stateObjects s a = Some ob \<longrightarrow> deleted ob \<longrightarrow>
     suicided ob \<or> del \<and> so_empty (sdb_db s) ob = Inr True)"

text \<open>No object is newly marked.\<close>

definition marks_none :: "StateDB \<Rightarrow> StateDB \<Rightarrow> bool" where
  "marks_none s s' \<longleftrightarrow> sdb_db s' = sdb_db s
     \<and> (\<forall>a ob. stateObjects s' a = Some ob \<longrightarrow> deleted ob \<longrightarrow> stateObjects s a = Some ob)"

named_theorems marks_intros

lemma marks_refl [marks_intros]: "marks_none s s"
  by (simp add: marks_none_def)

lemma marks_trans: "marks_none s t \<Longrightarrow> marks_none t u \<Longrightarrow> marks_none s u"
  by (auto simp: marks_none_def)

lemma marks_gone_ok: "marks_none s s' \<Longrightarrow> gone_ok del s \<Longrightarrow> gone_ok del s'"
  by (auto simp: marks_none_def gone_ok_def)

lemma marks_same: "stateObjects s' = stateObjects s \<Longrightarrow> sdb_db s' = sdb_db s \<Longrightarrow> marks_none s s'"
  by (simp add: marks_none_def)

lemma marks_set [marks_intros]: "\<not> deleted ob \<Longrightarrow> marks_none s t \<Longrightarrow> marks_none s (setStateObject ob t)"
  by (auto simp: marks_none_def setStateObject_def)

lemma marks_jappend [marks_intros]: "marks_none s t \<Longrightarrow> marks_none s (jappend e t)"
  by (auto simp: marks_none_def jappend_def)

lemma marks_setError [marks_intros]: "marks_none s t \<Longrightarrow> marks_none s (sdb_setError e t)"
  by (auto simp: marks_none_def sdb_setError_def)

lemma marks_update [marks_intros]:
  assumes "marks_none s t"
  shows "marks_none s (t\<lparr>sdb_journal := j\<rparr>)" "marks_none s (t\<lparr>sdb_refund := r\<rparr>)"
    "marks_none s (t\<lparr>sdb_preimages := p\<rparr>)" "marks_none s (t\<lparr>validRevisions := v\<rparr>)"
    "marks_none s (t\<lparr>sdb_logs := g, sdb_logSize := n\<rparr>)"
    "marks_none s (t\<lparr>nextRevisionID := m, validRevisions := v\<rparr>)"
    "marks_none s (t\<lparr>sdb_thash := h, sdb_bhash := h', sdb_txIndex := i\<rparr>)"
  using assms by (auto simp: marks_none_def)

lemma newObject_live [simp]: "\<not> deleted (newObject d a x)" "so_address (newObject d a x) = a"
  by (simp_all add: newObject_def Let_def)

lemma setters_live [simp]:
  "deleted (so_setBalance p ob) = deleted ob" "deleted (so_setNonce n ob) = deleted ob" "deleted (so_setCode h c ob) = deleted ob"
  "deleted (so_setState k v ob) = deleted ob" "deleted (so_setLockedBalance p ob) = deleted ob"
  "deleted (so_setUnLockedBalance p ob) = deleted ob" "deleted (so_setDelegateTimestamp p ob) = deleted ob"
  "deleted (so_setUnDelegateTimestamp p ob) = deleted ob" "deleted (markSuicided ob) = deleted ob" "deleted (so_setError e ob) = deleted ob"
  by (simp_all add: setter_defs markSuicided_def so_setError_def)

lemma getStateObject_marks:
  assumes "getStateObject s a = (r, s')"
  shows "marks_none s s'" "r = Some ob \<Longrightarrow> \<not> deleted ob"
  using assms by (auto simp: getStateObject_def Let_def intro: marks_intros split: option.splits slot.splits if_splits)

lemma GetOrNewStateObject_marks:
  assumes "GetOrNewStateObject s a = (ob, s')"
  shows "marks_none s s'" "\<not> deleted ob"
proof -
  obtain r s1 where r: "getStateObject s a = (r, s1)" by fastforce
  obtain r' s2 where r': "getStateObject s1 a = (r', s2)" by fastforce
  note m = getStateObject_marks [OF r] getStateObject_marks [OF r']
  show "marks_none s s'" "\<not> deleted ob"
    using assms r r' m marks_trans [OF m(1) m(3)]
    by (auto simp: GetOrNewStateObject_def createObject_def Let_def intro!: marks_intros split: option.splits)
qed

lemma cached_live:
  "so_GetState d k ob = (v, ob1) \<Longrightarrow> deleted ob1 = deleted ob" "so_Code d ob = (c, ob1) \<Longrightarrow> deleted ob1 = deleted ob"
  using so_GetState_view(3) [of d k ob v ob1] so_Code_view(3) [of d ob c ob1] by simp_all

lemma so_ops_marks:
  assumes "\<not> deleted ob"
  shows "so_SetBalance x ob s = Inr s' \<Longrightarrow> marks_none s s'" "so_AddBalance x ob s = Inr s' \<Longrightarrow> marks_none s s'"
    "so_SubBalance x ob s = Inr s' \<Longrightarrow> marks_none s s'" "so_SetLockedBalance x ob s = Inr s' \<Longrightarrow> marks_none s s'"
    "so_SetUnLockedBalance x ob s = Inr s' \<Longrightarrow> marks_none s s'" "so_SetDelegateTimestamp x ob s = Inr s' \<Longrightarrow> marks_none s s'"
    "marks_none s (so_SetNonce n ob s)" "marks_none s (so_SetState k v ob s)" "marks_none s (so_SetCode h c ob s)"
  using assms cached_live [where ob = ob]
  by (auto simp: so_SetBalance_def so_AddBalance_def so_SubBalance_def so_SetLockedBalance_def so_SetUnLockedBalance_def so_SetDelegateTimestamp_def
      so_SetNonce_def so_SetState_def so_SetCode_def so_touch_def Let_def intro!: marks_intros split: if_splits prod.splits)

lemma via_marks:
  shows "AddBalance a x s = Inr s' \<Longrightarrow> marks_none s s'" "SubBalance a x s = Inr s' \<Longrightarrow> marks_none s s'"
    "SetBalance a x s = Inr s' \<Longrightarrow> marks_none s s'" "SetLockedBalance a x s = Inr s' \<Longrightarrow> marks_none s s'"
    "SetUnLockedBalance a x s = Inr s' \<Longrightarrow> marks_none s s'" "SetDelegateTimestamp a x s = Inr s' \<Longrightarrow> marks_none s s'"
    "marks_none s (SetNonce a n s)" "marks_none s (SetState a k v s)" "marks_none s (SetCode a c s)"
    "marks_none s (SetUnDelegateTimestamp a t s)"
proof -
  obtain ob s1 where g: "GetOrNewStateObject s a = (ob, s1)" by fastforce
  note m = GetOrNewStateObject_marks [OF g] and o = so_ops_marks [OF GetOrNewStateObject_marks(2) [OF g]]
  show "AddBalance a x s = Inr s' \<Longrightarrow> marks_none s s'" "SubBalance a x s = Inr s' \<Longrightarrow> marks_none s s'"
    "SetBalance a x s = Inr s' \<Longrightarrow> marks_none s s'" "SetLockedBalance a x s = Inr s' \<Longrightarrow> marks_none s s'"
    "SetUnLockedBalance a x s = Inr s' \<Longrightarrow> marks_none s s'" "SetDelegateTimestamp a x s = Inr s' \<Longrightarrow> marks_none s s'"
    "marks_none s (SetNonce a n s)" "marks_none s (SetState a k v s)" "marks_none s (SetCode a c s)"
    "marks_none s (SetUnDelegateTimestamp a t s)"
    using o marks_trans [OF m(1)] m
    by (auto simp: g AddBalance_def SubBalance_def SetBalance_def SetLockedBalance_def SetUnLockedBalance_def SetDelegateTimestamp_def
        SetNonce_def SetState_def SetCode_def SetUnDelegateTimestamp_def intro!: marks_intros)
qed

lemma read_marks:
  "Exist s a = (b, s') \<Longrightarrow> marks_none s s'" "Empty s a = Inr (b, s') \<Longrightarrow> marks_none s s'" "get_field f d s a = (v, s') \<Longrightarrow> marks_none s s'"
  "HasSuicided s a = (b, s') \<Longrightarrow> marks_none s s'" "GetCode s a = (c, s') \<Longrightarrow> marks_none s s'" "GetState s a k = (h, s') \<Longrightarrow> marks_none s s'"
  "GetCodeSize s a = (m, s') \<Longrightarrow> marks_none s s'" "Suicide a s = Inr (b, s') \<Longrightarrow> marks_none s s'" "marks_none s (CreateAccount a s)"
proof -
  obtain r s1 where r: "getStateObject s a = (r, s1)" by fastforce
  note m = getStateObject_marks [OF r]
  show "Exist s a = (b, s') \<Longrightarrow> marks_none s s'" "Empty s a = Inr (b, s') \<Longrightarrow> marks_none s s'" "get_field f d s a = (v, s') \<Longrightarrow> marks_none s s'"
    "HasSuicided s a = (b, s') \<Longrightarrow> marks_none s s'" "GetCode s a = (c, s') \<Longrightarrow> marks_none s s'" "GetState s a k = (h, s') \<Longrightarrow> marks_none s s'"
    "GetCodeSize s a = (m, s') \<Longrightarrow> marks_none s s'" "Suicide a s = Inr (b, s') \<Longrightarrow> marks_none s s'" "marks_none s (CreateAccount a s)"
    using m cached_live
    by (auto simp: r Exist_def Empty_def get_field_def HasSuicided_def GetCode_def GetState_def GetCodeSize_def Suicide_def CreateAccount_def createObject_def
        Let_def intro!: marks_intros split: option.splits prod.splits if_splits)
qed

lemma upd_obj_marks: "upd_obj a f s = Inr s' \<Longrightarrow> (\<And>ob. deleted (f ob) = deleted ob) \<Longrightarrow> marks_none s s'"
  using getStateObject_marks [of s a] by (cases "getStateObject s a") (auto simp: upd_obj_def intro!: marks_intros split: option.splits)

lemma entry_revert_marks:
  assumes "entry_revert e s = Inr s'" "entry_ok e"
  shows "marks_none s s'"
proof (cases e)
  case (createObjectChange a)
  then show ?thesis using assms(1) by (auto simp: marks_none_def split: if_splits)
next
  case (suicideChange a p b)
  then show ?thesis using assms(1) getStateObject_marks [of s a]
    by (cases "getStateObject s a") (auto intro!: marks_intros split: option.splits)
qed (use assms in \<open>auto simp: Let_def intro: upd_obj_marks intro!: marks_intros split: if_splits\<close>)

lemma revert_entries_marks: "revert_entries es s = Inr s' \<Longrightarrow> \<forall>e \<in> set es. entry_ok e \<Longrightarrow> marks_none s s'"
proof (induction es arbitrary: s)
  case (Cons e es)
  then obtain s1 where s1: "entry_revert e s = Inr s1" "revert_entries es (undirty e s1) = Inr s'" by auto
  have "marks_none s (undirty e s1)"
    using entry_revert_marks [OF s1(1)] Cons.prems(2) unfolding undirty_def by (intro marks_intros) simp
  then show ?case using Cons.IH [OF s1(2)] Cons.prems(2) marks_trans by auto
qed (simp add: marks_refl)

lemma RevertToSnapshot_marks:
  assumes "RevertToSnapshot i s = Inr s'" "state_ok s"
  shows "marks_none s s'"
proof -
  let ?es = "\<lambda>k. rev (drop k (entries (sdb_journal s)))"
  have "\<forall>e \<in> set (?es k). entry_ok e" for k using assms(2) by (auto simp: state_ok_def dest: in_set_dropD)
  then have "revert_entries (?es k) s = Inr u \<Longrightarrow> marks_none s u" for k u by (intro revert_entries_marks)
  then show ?thesis using assms(1)
    by (auto simp: RevertToSnapshot_def journal_revert_def Let_def intro!: marks_intros split: if_splits)
qed

lemma sdb_step_marks: "sdb_step s s' \<Longrightarrow> state_ok s \<Longrightarrow> marks_none s s'"
  by (induction rule: sdb_step.induct)
    (auto simp: GetBalance_def GetNonce_def GetLockedBalance_def GetDelegateTimestamp_def GetUnLockedBalance_def GetUnDelegateTimestamp_def
      GetCodeHash_def AddLog_def AddPreimage_def AddRefund_def Prepare_def Snapshot_def Let_def
      intro: read_marks via_marks RevertToSnapshot_marks intro!: marks_intros)

section \<open>Finalising and committing\<close>

definition objects_ok :: "bool \<Rightarrow> StateDB \<Rightarrow> bool" where
  "objects_ok del s \<longleftrightarrow> objs_ok s \<and> gone_ok del s"

lemma objects_okI:
  "(\<And>a ob. stateObjects s a = Some ob \<Longrightarrow> so_address ob = a \<and> obj_ok ob
     \<and> (deleted ob \<longrightarrow> not_present (sdb_trie s a) \<and> (suicided ob \<or> del \<and> so_empty (sdb_db s) ob = Inr True))) \<Longrightarrow> objects_ok del s"
  by (auto simp: objects_ok_def objs_ok_def gone_ok_def)

lemma objects_okD:
  assumes "objects_ok del s" "stateObjects s a = Some ob"
  shows "so_address ob = a" "obj_ok ob" "deleted ob \<Longrightarrow> not_present (sdb_trie s a)"
    "deleted ob \<Longrightarrow> suicided ob \<or> del \<and> so_empty (sdb_db s) ob = Inr True"
  using assms by (auto simp: objects_ok_def objs_ok_def gone_ok_def)

lemma so_empty_cong: "so_data ob = so_data ob' \<Longrightarrow> db_keccak d = db_keccak d' \<Longrightarrow> so_empty d ob = so_empty d' ob'"
  by (simp add: so_empty_def emptyCodeHash_def)

lemma so_empty_total: "obj_ok ob \<Longrightarrow> \<exists>b. so_empty d ob = Inr b"
  by (auto simp: obj_ok_def so_empty_def)

lemma objects_ok_clear: "objects_ok del s \<Longrightarrow> state_ok (clearJournalAndRefund s) \<and> objects_ok del (clearJournalAndRefund s)"
  by (simp add: objects_ok_def objs_ok_def gone_ok_def state_ok_def clearJournalAndRefund_def newJournal_def revs_ok_def)

lemma objects_ok_dirty: "objects_ok del (t\<lparr>stateObjectsDirty := D\<rparr>) = objects_ok del t"
  by (simp add: objects_ok_def objs_ok_def gone_ok_def)

lemma deleteStateObject_ok:
  assumes "objects_ok del s" "stateObjects s a = Some ob" "suicided ob \<or> del \<and> so_empty (sdb_db s) ob = Inr True"
  shows "objects_ok del (deleteStateObject ob s)"
proof (rule objects_okI)
  fix b x assume x: "stateObjects (deleteStateObject ob s) b = Some x"
  note o = objects_okD [OF assms(1,2)]
  have s: "stateObjects (deleteStateObject ob s) = (stateObjects s)(a \<mapsto> ob\<lparr>deleted := True\<rparr>)" "sdb_db (deleteStateObject ob s) = sdb_db s"
    "sdb_trie (deleteStateObject ob s) = fst (TryDelete (sdb_trie s) a)"
    by (auto simp: deleteStateObject_def Let_def o(1) setStateObject_def sdb_setError_def split: prod.splits)
  have e: "so_empty (sdb_db s) (ob\<lparr>deleted := True\<rparr>) = so_empty (sdb_db s) ob" by (rule so_empty_cong) simp_all
  have t: "not_present (fst (TryDelete (sdb_trie s) a) a)" "b \<noteq> a \<Longrightarrow> fst (TryDelete (sdb_trie s) a) b = sdb_trie s b"
    by (auto simp: TryDelete_def not_present_def split: slot.splits)
  show "so_address x = b \<and> obj_ok x \<and> (deleted x \<longrightarrow> not_present (sdb_trie (deleteStateObject ob s) b)
      \<and> (suicided x \<or> del \<and> so_empty (sdb_db (deleteStateObject ob s)) x = Inr True))"
  proof (cases "b = a")
    case True
    then show ?thesis using x o t assms(3) by (auto simp: s e obj_ok_def)
  next
    case False
    then show ?thesis using x t(2) objects_okD [OF assms(1), of b x] by (auto simp: s)
  qed
qed

text \<open>A live object is written back under its address.\<close>

lemma write_live_ok:
  assumes "objects_ok del s" "stateObjects s' = (stateObjects s)(a \<mapsto> ob)" "so_address ob = a" "obj_ok ob" "\<not> deleted ob"
    and "db_keccak (sdb_db s') = db_keccak (sdb_db s)" "\<And>b. b \<noteq> a \<Longrightarrow> sdb_trie s' b = sdb_trie s b"
  shows "objects_ok del s'"
proof (rule objects_okI)
  fix b x assume x: "stateObjects s' b = Some x"
  have e: "so_empty (sdb_db s') x = so_empty (sdb_db s) x" by (rule so_empty_cong) (simp_all add: assms(6))
  show "so_address x = b \<and> obj_ok x \<and> (deleted x \<longrightarrow> not_present (sdb_trie s' b) \<and> (suicided x \<or> del \<and> so_empty (sdb_db s') x = Inr True))"
    using x assms(2-5,7) objects_okD [OF assms(1), of b x] by (cases "b = a") (auto simp: e)
qed

lemma updateTrie_loop_keeps:
  "updateTrie_loop ks tr ob = (tr1, ob1) \<Longrightarrow> so_address ob1 = so_address ob \<and> deleted ob1 = deleted ob \<and> so_data ob1 = so_data ob"
proof (induction ks arbitrary: tr ob)
  case (Cons k ks)
  then show ?case by (cases "dirtyStorage ob k") (fastforce simp: Let_def so_setError_def split: if_splits prod.splits)+
qed simp

lemma updateTrie_keeps:
  assumes "updateTrie d ks ob = (tr1, ob1)"
  shows "so_address ob1 = so_address ob" "deleted ob1 = deleted ob" "so_data ob1 = so_data ob"
proof -
  obtain tr ob2 where t: "so_getTrie d ob = (tr, ob2)" by fastforce
  obtain tr3 ob3 where l: "updateTrie_loop ks tr ob2 = (tr3, ob3)" by fastforce
  have "so_address ob2 = so_address ob \<and> deleted ob2 = deleted ob \<and> so_data ob2 = so_data ob"
    using t by (auto simp: so_getTrie_def Let_def so_setError_def split: option.splits sum.splits if_splits)
  then show "so_address ob1 = so_address ob" "deleted ob1 = deleted ob" "so_data ob1 = so_data ob"
    using assms updateTrie_loop_keeps [OF l] by (auto simp: updateTrie_def t l)
qed

lemma updateRoot_keeps:
  shows "so_address (updateRoot d ks ob) = so_address ob" "deleted (updateRoot d ks ob) = deleted ob" "obj_ok ob \<Longrightarrow> obj_ok (updateRoot d ks ob)"
proof -
  obtain tr ob1 where u: "updateTrie d ks ob = (tr, ob1)" by fastforce
  note k = updateTrie_keeps [OF u]
  show "so_address (updateRoot d ks ob) = so_address ob" "deleted (updateRoot d ks ob) = deleted ob" "obj_ok ob \<Longrightarrow> obj_ok (updateRoot d ks ob)"
    by (simp_all add: updateRoot_def u k obj_ok_def)
qed

lemma CommitTrie_keeps:
  assumes "CommitTrie d ks ob = (err, ob1, d1)"
  shows "so_address ob1 = so_address ob" "deleted ob1 = deleted ob" "obj_ok ob \<Longrightarrow> obj_ok ob1" "db_keccak d1 = db_keccak d"
proof -
  obtain tr ob2 where u: "updateTrie d ks ob = (tr, ob2)" by fastforce
  note k = updateTrie_keeps [OF u]
  have "ob1 = ob2 \<and> d1 = d \<or> ob1 = ob2\<lparr>so_data := (so_data ob2)\<lparr>Root := db_storageRoot d tr\<rparr>\<rparr>
      \<and> d1 = d\<lparr>db_storages := (db_storages d)(db_storageRoot d tr \<mapsto> tr)\<rparr>"
    using assms by (simp add: CommitTrie_def u Let_def split: option.splits)
  then show "so_address ob1 = so_address ob" "deleted ob1 = deleted ob" "obj_ok ob \<Longrightarrow> obj_ok ob1" "db_keccak d1 = db_keccak d"
    by (elim disjE; simp add: k obj_ok_def)+
qed

lemma updateStateObject_parts:
  assumes "updateStateObject ob s = Inr s'"
  shows "stateObjects s' = stateObjects s" "sdb_db s' = sdb_db s" "b \<noteq> so_address ob \<Longrightarrow> sdb_trie s' b = sdb_trie s b"
  using assms by (auto simp: updateStateObject_def TryUpdate_def Let_def sdb_setError_def split: option.splits slot.splits prod.splits if_splits)

lemma Finalise_one_ok:
  assumes "objects_ok del s" "Finalise_one ks del a s = Inr s'"
  shows "objects_ok del s'"
proof (cases "stateObjects s a")
  case None
  then show ?thesis using assms by (simp add: Finalise_one_def)
next
  case (Some ob)
  note dirty = objects_ok_dirty
  note o = objects_okD [OF assms(1) Some]
  obtain g where g: "(if suicided ob then Inr True else if del then so_empty (sdb_db s) ob else Inr False) = Inr g"
    using assms(2) Some unfolding Finalise_one_def by (auto split: if_splits)
  show ?thesis
  proof (cases g)
    case True
    then have "s' = deleteStateObject ob s\<lparr>stateObjectsDirty := insert a (stateObjectsDirty (deleteStateObject ob s))\<rparr>"
      using assms(2) Some g by (simp add: Finalise_one_def)
    then show ?thesis using deleteStateObject_ok [OF assms(1) Some] g True by (auto simp: dirty split: if_splits)
  next
    case False
    let ?ob = "updateRoot (sdb_db s) (ks a) ob"
    obtain s1 where s1: "updateStateObject ?ob (setStateObject ?ob s) = Inr s1" "s' = s1\<lparr>stateObjectsDirty := insert a (stateObjectsDirty s1)\<rparr>"
      using assms(2) Some g False by (auto simp: Finalise_one_def Let_def)
    have "\<not> deleted ob" using o(4) g False by (auto split: if_splits)
    then have "objects_ok del s1" using updateStateObject_parts [OF s1(1)] o
      by (intro write_live_ok [OF assms(1), of _ a ?ob]) (auto simp: updateRoot_keeps setStateObject_def)
    then show ?thesis by (simp add: s1(2) dirty)
  qed
qed

lemma Finalise_ok:
  assumes "objects_ok del s" "Finalise order ks del s = Inr s'"
  shows "state_ok s'" "objects_ok del s'"
proof -
  have loop: "Finalise_loop ks del order s = Inr t \<Longrightarrow> objects_ok del s \<Longrightarrow> objects_ok del t" for t
  proof (induction order arbitrary: s)
    case (Cons a as)
    then obtain s1 where "Finalise_one ks del a s = Inr s1" "Finalise_loop ks del as s1 = Inr t" by auto
    then show ?case using Cons Finalise_one_ok by blast
  qed simp
  then show "state_ok s'" "objects_ok del s'" using assms objects_ok_clear by (auto simp: Finalise_def)
qed

lemma write_trie_ok:
  assumes "objects_ok del s" "so_address ob = a" "obj_ok ob" "\<not> deleted ob" "db_keccak d = db_keccak (sdb_db s)"
    and c: "CommitTrie d ks ob = (err, ob', d')"
    and s': "s' = setStateObject ob' (s\<lparr>sdb_db := d'\<rparr>)
      \<or> (\<exists>s3 D. updateStateObject ob' (setStateObject ob' (s\<lparr>sdb_db := d'\<rparr>)) = Inr s3 \<and> s' = s3\<lparr>stateObjectsDirty := D\<rparr>)"
  shows "objects_ok del s'"
proof -
  note k = CommitTrie_keeps [OF c]
  have w: "objects_ok del t" if "stateObjects t = (stateObjects s)(a \<mapsto> ob')" "sdb_db t = d'" "\<And>b. b \<noteq> a \<Longrightarrow> sdb_trie t b = sdb_trie s b" for t
    using assms(2-5) k that by (intro write_live_ok [OF assms(1), of _ a ob']) auto
  show ?thesis using s'
  proof (elim disjE exE conjE)
    fix s3 D assume s3: "updateStateObject ob' (setStateObject ob' (s\<lparr>sdb_db := d'\<rparr>)) = Inr s3" "s' = s3\<lparr>stateObjectsDirty := D\<rparr>"
    note u = updateStateObject_parts [OF s3(1)]
    have "objects_ok del s3" by (rule w) (simp_all add: u assms(2) k(1) setStateObject_def)
    then show ?thesis by (simp add: s3(2) objects_ok_dirty)
  qed (simp_all add: w assms(2) k(1) setStateObject_def)
qed

lemma Commit_one_ok:
  assumes "objects_ok del s" "Commit_one ks del a s = Inr (e, s')"
  shows "objects_ok del s'"
proof (cases "stateObjects s a")
  case None
  then show ?thesis using assms by (simp add: Commit_one_def)
next
  case (Some ob)
  note dirty = objects_ok_dirty
  note o = objects_okD [OF assms(1) Some]
  let ?dirty = "a \<in> stateObjectsDirty s"
  obtain g where g: "(if suicided ob then Inr True else if ?dirty \<and> del then so_empty (sdb_db s) ob else Inr False) = Inr g"
    using so_empty_total [OF o(2)] by metis
  consider (del) g | (live) "\<not> g" ?dirty | (clean) "\<not> g" "\<not> ?dirty" by blast
  then show ?thesis
  proof cases
    case del
    then have "s' = deleteStateObject ob s\<lparr>stateObjectsDirty := stateObjectsDirty (deleteStateObject ob s) - {a}\<rparr>"
      using assms(2) Some g by (simp add: Commit_one_def)
    then show ?thesis using deleteStateObject_ok [OF assms(1) Some] g del by (auto simp: dirty split: if_splits)
  next
    case clean
    then show ?thesis using assms Some g by (auto simp: Commit_one_def dirty split: if_splits)
  next
    case live
    define od where "od = (case so_code ob of
         Some code \<Rightarrow> (if dirtyCode ob then (ob\<lparr>dirtyCode := False\<rparr>, (sdb_db s)\<lparr>db_codes := (db_codes (sdb_db s))(BytesToHash (CodeHash (so_data ob)) \<mapsto> code)\<rparr>)
                       else (ob, sdb_db s))
       | None \<Rightarrow> (ob, sdb_db s))"
    obtain ob1 d1 where od: "od = (ob1, d1)" by fastforce
    obtain err ob2 d2 where c: "CommitTrie d1 (ks a) ob1 = (err, ob2, d2)" by (metis prod_cases3)
    have k1: "so_address ob1 = a" "deleted ob1 = deleted ob" "obj_ok ob1" "db_keccak d1 = db_keccak (sdb_db s)"
      using od o(1,2) unfolding od_def by (auto simp: obj_ok_def split: option.splits if_splits)
    have "\<not> deleted ob" using o(4) g live by (auto split: if_splits)
    moreover have "s' = setStateObject ob2 (s\<lparr>sdb_db := d2\<rparr>)
        \<or> (\<exists>s3 D. updateStateObject ob2 (setStateObject ob2 (s\<lparr>sdb_db := d2\<rparr>)) = Inr s3 \<and> s' = s3\<lparr>stateObjectsDirty := D\<rparr>)"
      using assms(2) unfolding Commit_one_def Some option.case Let_def g od_def [symmetric] od prod.case c using live
      by (auto split: option.splits)
    ultimately show ?thesis using k1 by (intro write_trie_ok [OF assms(1) k1(1,3) _ k1(4) c]) simp_all
  qed
qed

lemma Commit_ok:
  assumes "objects_ok del s" "Commit order ks del s = Inr (root, err, s')"
  shows "state_ok s'" "objects_ok del s'"
proof -
  have loop: "Commit_loop ks del order s = Inr (e, t) \<Longrightarrow> objects_ok del s \<Longrightarrow> objects_ok del t" for e t s
  proof (induction order arbitrary: s)
    case (Cons a as)
    then obtain e1 s1 where "Commit_one ks del a s = Inr (e1, s1)" "s1 = t \<or> Commit_loop ks del as s1 = Inr (e, t)"
      by (auto split: option.splits)
    then show ?case using Cons Commit_one_ok by blast
  qed simp
  have f: "objects_ok del (s\<lparr>stateObjectsDirty := D\<rparr>) = objects_ok del s" "objects_ok del (t\<lparr>sdb_db := (sdb_db t)\<lparr>db_accounts := A\<rparr>\<rparr>) = objects_ok del t" for t D A
    using so_empty_cong [of _ _ "(sdb_db t)\<lparr>db_accounts := A\<rparr>" "sdb_db t"] by (simp_all add: objects_ok_def objs_ok_def gone_ok_def)
  obtain e t where t: "Commit_loop ks del order (s\<lparr>stateObjectsDirty := stateObjectsDirty s \<union> dom (dirties (sdb_journal s))\<rparr>) = Inr (e, t)"
    using assms(2) by (auto simp: Commit_def)
  have "objects_ok del t" by (rule loop [OF t]) (simp add: f(1) assms(1))
  moreover have "s' = clearJournalAndRefund t \<or> (\<exists>A. s' = clearJournalAndRefund (t\<lparr>sdb_db := (sdb_db t)\<lparr>db_accounts := A\<rparr>\<rparr>))"
    using assms(2) t by (auto simp: Commit_def Let_def split: option.splits)
  ultimately show "state_ok s'" "objects_ok del s'" using objects_ok_clear f(2) by metis+
qed

section \<open>The other operations\<close>

lemma Reset_ok:
  assumes "Reset root s = (err, s')" "state_ok s" "objects_ok del s"
  shows "state_ok s' \<and> objects_ok del s'"
proof (cases "OpenTrie (sdb_db s) root")
  case (Inr tr)
  have "objects_ok del (s\<lparr>sdb_trie := tr, stateObjects := Map.empty, stateObjectsDirty := {}, sdb_thash := 0, sdb_bhash := 0, sdb_txIndex := 0,
      sdb_logs := Map.empty, sdb_logSize := 0, sdb_preimages := Map.empty\<rparr>)" by (rule objects_okI) simp
  then show ?thesis using assms(1) Inr objects_ok_clear by (auto simp: Reset_def)
qed (use assms in \<open>simp add: Reset_def\<close>)

lemma deepCopy_keeps:
  assumes "obj_ok ob"
  shows "so_address (deepCopy d ob) = so_address ob" "so_data (deepCopy d ob) = so_data ob" "deleted (deepCopy d ob) = deleted ob"
    "suicided (deepCopy d ob) = suicided ob"
  using assms by (simp_all add: deepCopy_def) (simp add: newObject_def obj_ok_def Let_def)

lemma Copy_ok:
  assumes "Copy s = Inr s'" "objects_ok del s"
  shows "state_ok s'" "objects_ok del s'"
proof -
  have parts: "sdb_db s' = sdb_db s" "sdb_trie s' = sdb_trie s" "sdb_journal s' = newJournal" "validRevisions s' = []"
    "stateObjects s' a = Some x \<Longrightarrow> \<exists>ob. stateObjects s a = Some ob \<and> x = deepCopy (sdb_db s) ob" for a x
    using assms(1) by (auto simp: Copy_def Let_def split: if_splits)
  show o: "objects_ok del s'"
  proof (rule objects_okI)
    fix a x assume "stateObjects s' a = Some x"
    then obtain ob where ob: "stateObjects s a = Some ob" "x = deepCopy (sdb_db s) ob" using parts(5) by blast
    note o = objects_okD [OF assms(2) ob(1)] and k = deepCopy_keeps [OF objects_okD(2) [OF assms(2) ob(1)], of "sdb_db s"]
    have "so_empty (sdb_db s') x = so_empty (sdb_db s) ob" by (rule so_empty_cong) (simp_all add: ob(2) k parts(1))
    then show "so_address x = a \<and> obj_ok x \<and> (deleted x \<longrightarrow> not_present (sdb_trie s' a) \<and> (suicided x \<or> del \<and> so_empty (sdb_db s') x = Inr True))"
      using o k by (auto simp: ob(2) parts(2) obj_ok_def)
  qed
  then show "state_ok s'" by (simp add: state_ok_def objects_ok_def parts newJournal_def revs_ok_def)
qed

lemma SetUnDelegateTimestamp_ok:
  assumes "state_ok s"
  shows "state_ok (SetUnDelegateTimestamp a t s)"
proof -
  obtain ob s1 where g: "GetOrNewStateObject s a = (ob, s1)" by fastforce
  note v = GetOrNewStateObject_view [OF g assms]
  have ob: "so_address ob = a" "\<not> deleted ob" "obj_ok ob" using obj_at_ok [OF _ v(2)] v(1) by (simp_all add: state_ok_def)
  then show ?thesis using v(1)
    by (auto simp: SetUnDelegateTimestamp_def g state_ok_def revs_ok_def objs_ok_def setStateObject_def so_setUnDelegateTimestamp_def obj_ok_def)
qed

section \<open>Reachable states\<close>

text \<open>Every operation that changes a state database. \<open>del\<close> is the flag that the finalisations and commits of the
  run share; with different flags an object that an earlier call deleted for being empty would be written again.\<close>

inductive sdb_life :: "bool \<Rightarrow> StateDB \<Rightarrow> StateDB \<Rightarrow> bool" for del where
  life_step: "sdb_step s s' \<Longrightarrow> sdb_life del s s'"
| life_undelegate: "SetUnDelegateTimestamp a t s = s' \<Longrightarrow> sdb_life del s s'"
| life_finalise: "Finalise order ks del s = Inr s' \<Longrightarrow> sdb_life del s s'"
| life_root: "IntermediateRoot order ks del s = Inr (root, s') \<Longrightarrow> sdb_life del s s'"
| life_commit: "Commit order ks del s = Inr (root, err, s') \<Longrightarrow> sdb_life del s s'"
| life_reset: "Reset root s = (err, s') \<Longrightarrow> sdb_life del s s'"
| life_copy: "Copy s = Inr s' \<Longrightarrow> sdb_life del s s'"

lemma sdb_life_ok:
  assumes "sdb_life del s s'" "state_ok s \<and> gone_ok del s"
  shows "state_ok s' \<and> gone_ok del s'"
proof -
  have o: "objects_ok del s" using assms(2) by (simp add: objects_ok_def state_ok_def)
  have g: "objects_ok del t \<Longrightarrow> gone_ok del t" for t by (simp add: objects_ok_def)
  show ?thesis using assms(1)
  proof cases
    case life_step
    then show ?thesis using assms(2) sdb_step_state_ok marks_gone_ok sdb_step_marks by blast
  next
    case life_undelegate
    then show ?thesis using assms(2) SetUnDelegateTimestamp_ok marks_gone_ok [OF via_marks(10)] by blast
  next
    case life_root
    then show ?thesis using Finalise_ok [OF o] g by (auto simp: IntermediateRoot_def)
  next
    case life_reset
    then show ?thesis using Reset_ok [OF _ _ o] assms(2) g by blast
  qed (use Finalise_ok [OF o] Commit_ok [OF o] Copy_ok [OF _ o] g in blast)+
qed

text \<open>C17: Every state reached from a freshly opened one by the operations of the interface, finalisations, commits, resets
  and copies included, satisfies the invariant: objects sit under their own address with no nil balance, the
  entries of the journal can be undone, the valid revisions are strictly increasing in identifier and ordered in journal
  index, and an object that is marked deleted is gone from the trie and stays one that every later finalisation deletes
  again: it committed suicide, or it is empty and empty objects are deleted. The finalisations and commits of a run
  share the flag \<open>deleteEmptyObjects\<close>.\<close>

theorem reachable_state_ok:
  assumes "New root d = Inr s0" "(sdb_life del)\<^sup>*\<^sup>* s0 s"
  shows "state_ok s \<and> gone_ok del s"
  using assms(2)
proof (induction rule: rtranclp_induct)
  case base
  then show ?case using New_state_ok [OF assms(1)] assms(1) by (auto simp: gone_ok_def New_def)
qed (rule sdb_life_ok)

theorem reachable_state_ok_witness:
  "\<exists>s1 s ob. AddBalance 7 0 small_state = Inr s1 \<and> Finalise [7] (\<lambda>_. []) True s1 = Inr s
     \<and> stateObjects s 7 = Some ob \<and> deleted ob \<and> state_ok s \<and> gone_ok True s"
proof -
  have "\<exists>s1 s ob. AddBalance 7 0 small_state = Inr s1 \<and> Finalise [7] (\<lambda>_. []) True s1 = Inr s \<and> stateObjects s 7 = Some ob \<and> deleted ob"
    by (simp add: small_state_def New_def OpenTrie_def AddBalance_def GetOrNewStateObject_def getStateObject_def createObject_def sdb_setError_def newObject_def
        emptyAccount_def so_AddBalance_def so_empty_def so_setNonce_def setStateObject_def jappend_def so_touch_def ripemd_def Finalise_def Finalise_one_def
        deleteStateObject_def TryDelete_def clearJournalAndRefund_def Let_def emptyCodeHash_def)
  then obtain s1 s ob where s: "AddBalance 7 0 small_state = Inr s1" "Finalise [7] (\<lambda>_. []) True s1 = Inr s" "stateObjects s 7 = Some ob" "deleted ob" by blast
  have "(sdb_life True)\<^sup>*\<^sup>* small_state s"
    using life_step [OF sdb_step.intros(17) [OF s(1)]] life_finalise [OF s(2)] by (meson r_into_rtranclp rtranclp_trans)
  with s show ?thesis using reachable_state_ok [OF New_small] by blast
qed

end
