(* ===== verification/Trie.thy ===== *)
theory Trie
  imports Prelude
begin

text \<open>
  The Merkle Patricia trie of \<open>common/mtp\<close>: \<open>node.go\<close>, \<open>util.go\<close> and \<open>trie.go\<close>. A node that
  is not loaded is its hash, and \<open>resolve\<close> (the node database with the decoder) maps a hash
  to the node it stands for, if it has one. Keys are lists of nibbles that end in the
  terminator 16. The cache flags of the nodes are left out: they only steer unloading.
  A chain of hashes in a corrupt database could be followed forever, so the recursions take
  fuel; on a well-formed trie a fuel of twice the key's length and two is enough.
\<close>

section \<open>Nodes and keys\<close>

datatype node = NilNode | valueNode bytes | shortNode "nat list" node | fullNode "node list" | hashNode hash

datatype trie_error = MissingNode hash "nat list" | TriePanic go_panic | OutOfFuel

type_synonym resolver = "hash \<Rightarrow> node option"

fun prefixLen :: "nat list \<Rightarrow> nat list \<Rightarrow> nat" where
  "prefixLen (x # xs) (y # ys) = (if x \<noteq> y then 0 else Suc (prefixLen xs ys))"
| "prefixLen _ _ = 0"

definition keybytesToHex :: "bytes \<Rightarrow> nat list" where
  "keybytesToHex str = concat (map (\<lambda>b. [unat b div 16, unat b mod 16]) str) @ [16]"

definition hasTerm :: "nat list \<Rightarrow> bool" where
  "hasTerm s \<longleftrightarrow> 0 < length s \<and> s ! (length s - 1) = 16"

fun decodeNibbles :: "nat list \<Rightarrow> bytes" where
  "decodeNibbles (a # b # r) = word_of_nat (a * 16 + b) # decodeNibbles r"
| "decodeNibbles _ = []"

definition hexToKeybytes :: "nat list \<Rightarrow> go_panic + bytes" where
  "hexToKeybytes hex =
     (let hex1 = (if hasTerm hex then take (length hex - 1) hex else hex)
      in if length hex1 mod 2 \<noteq> 0 then Inl (PanicMsg ''can't convert hex key of odd length'')
         else Inr (decodeNibbles hex1))"

text \<open>The compact encoding of a short node's key: a flag byte with the terminator and the
  parity, then the nibbles in pairs.\<close>

definition hexToCompact :: "nat list \<Rightarrow> bytes" where
  "hexToCompact hex =
     (let terminator = (if hasTerm hex then 1 else 0);
          hex1 = (if hasTerm hex then take (length hex - 1) hex else hex)
      in if length hex1 mod 2 = 1
         then word_of_nat (terminator * 32 + 16 + hd hex1) # decodeNibbles (tl hex1)
         else word_of_nat (terminator * 32) # decodeNibbles hex1)"

definition compactToHex :: "bytes \<Rightarrow> go_panic + nat list" where
  "compactToHex compact =
     (let base = butlast (keybytesToHex compact)
      in if base = [] then Inl IndexOutOfRange
         else (let base1 = (if hd base \<ge> 2 then base @ [16] else base)
               in Inr (drop (2 - hd base mod 2) base1)))"

section \<open>Lookup\<close>

definition resolveHash :: "resolver \<Rightarrow> hash \<Rightarrow> nat list \<Rightarrow> trie_error + node" where
  "resolveHash R h prefix = (case R h of None \<Rightarrow> Inl (MissingNode h prefix) | Some n \<Rightarrow> Inr n)"

definition resolve :: "resolver \<Rightarrow> node \<Rightarrow> nat list \<Rightarrow> trie_error + node" where
  "resolve R n prefix = (case n of hashNode h \<Rightarrow> resolveHash R h prefix | _ \<Rightarrow> Inr n)"

text \<open>The value, the node with what was loaded on the way, and whether anything was loaded.
  The source's position in the key is the length of the prefix already walked.\<close>

fun tryGet :: "nat \<Rightarrow> resolver \<Rightarrow> node \<Rightarrow> nat list \<Rightarrow> nat list \<Rightarrow> trie_error + (bytes option \<times> node \<times> bool)" where
  "tryGet 0 R n prefix key = Inl OutOfFuel"
| "tryGet (Suc f) R n prefix key =
     (case n of
        NilNode \<Rightarrow> Inr (None, NilNode, False)
      | valueNode v \<Rightarrow> Inr (Some v, n, False)
      | shortNode nKey nVal \<Rightarrow>
          (if length key < length nKey \<or> nKey \<noteq> take (length nKey) key then Inr (None, n, False)
           else rbind (tryGet f R nVal (prefix @ nKey) (drop (length nKey) key)) (\<lambda>(value, newnode, didResolve).
             Inr (value, if didResolve then shortNode nKey newnode else n, didResolve)))
      | fullNode cs \<Rightarrow>
          (case key of
             [] \<Rightarrow> Inl (TriePanic IndexOutOfRange)
           | i # rest \<Rightarrow>
               (if length cs \<le> i then Inl (TriePanic IndexOutOfRange)
                else rbind (tryGet f R (cs ! i) (prefix @ [i]) rest) (\<lambda>(value, newnode, didResolve).
                  Inr (value, if didResolve then fullNode (cs[i := newnode]) else n, didResolve))))
      | hashNode h \<Rightarrow>
          rbind (resolveHash R h prefix) (\<lambda>child.
          rbind (tryGet f R child prefix key) (\<lambda>(value, newnode, _). Inr (value, newnode, True))))"

section \<open>Insertion\<close>

definition emptyChildren :: "node list" where
  "emptyChildren = replicate 17 NilNode"

fun insert_node :: "nat \<Rightarrow> resolver \<Rightarrow> node \<Rightarrow> nat list \<Rightarrow> nat list \<Rightarrow> node \<Rightarrow> trie_error + (bool \<times> node)" where
  "insert_node 0 R n prefix key value = Inl OutOfFuel"
| "insert_node (Suc f) R n prefix key value =
     (if key = []
      then (case n of
              valueNode v \<Rightarrow>
                (case value of
                   valueNode w \<Rightarrow> Inr (v \<noteq> w, value)
                 | _ \<Rightarrow> Inl (TriePanic (PanicMsg ''interface conversion'')))
            | _ \<Rightarrow> Inr (True, value))
      else case n of
        shortNode nKey nVal \<Rightarrow>
          (let matchlen = prefixLen key nKey
           in if matchlen = length nKey
              then rbind (insert_node f R nVal (prefix @ take matchlen key) (drop matchlen key) value)
                     (\<lambda>(dirty, nn). if \<not> dirty then Inr (False, n) else Inr (True, shortNode nKey nn))
              else rbind (insert_node f R NilNode (prefix @ take (matchlen + 1) nKey) (drop (matchlen + 1) nKey) nVal)
                     (\<lambda>(_, old).
                   if length key \<le> matchlen then Inl (TriePanic IndexOutOfRange)
                   else rbind (insert_node f R NilNode (prefix @ take (matchlen + 1) key) (drop (matchlen + 1) key) value)
                     (\<lambda>(_, new).
                   let branch = fullNode (emptyChildren[nKey ! matchlen := old, key ! matchlen := new])
                   in if matchlen = 0 then Inr (True, branch)
                      else Inr (True, shortNode (take matchlen key) branch))))
      | fullNode cs \<Rightarrow>
          (if length cs \<le> hd key then Inl (TriePanic IndexOutOfRange)
           else rbind (insert_node f R (cs ! hd key) (prefix @ [hd key]) (tl key) value)
             (\<lambda>(dirty, nn). if \<not> dirty then Inr (False, n) else Inr (True, fullNode (cs[hd key := nn]))))
      | NilNode \<Rightarrow> Inr (True, shortNode key value)
      | hashNode h \<Rightarrow>
          rbind (resolveHash R h prefix) (\<lambda>rn.
          rbind (insert_node f R rn prefix key value) (\<lambda>(dirty, nn).
            if \<not> dirty then Inr (False, rn) else Inr (True, nn)))
      | valueNode _ \<Rightarrow> Inl (TriePanic (PanicMsg ''invalid node'')))"

section \<open>Deletion\<close>

text \<open>The loop that counts the children left: -1 for none, -2 for at least two.\<close>

fun child_pos :: "int \<Rightarrow> int \<Rightarrow> node list \<Rightarrow> int" where
  "child_pos pos i [] = pos"
| "child_pos pos i (cld # cs) =
     (if cld \<noteq> NilNode then (if pos = -1 then child_pos i (i + 1) cs else -2)
      else child_pos pos (i + 1) cs)"

fun delete_node :: "nat \<Rightarrow> resolver \<Rightarrow> node \<Rightarrow> nat list \<Rightarrow> nat list \<Rightarrow> trie_error + (bool \<times> node)" where
  "delete_node 0 R n prefix key = Inl OutOfFuel"
| "delete_node (Suc f) R n prefix key =
     (case n of
        shortNode nKey nVal \<Rightarrow>
          (let matchlen = prefixLen key nKey
           in if matchlen < length nKey then Inr (False, n)
              else if matchlen = length key then Inr (True, NilNode)
              else rbind (delete_node f R nVal (prefix @ take (length nKey) key) (drop (length nKey) key))
                (\<lambda>(dirty, child).
                   if \<not> dirty then Inr (False, n)
                   else case child of
                          shortNode cKey cVal \<Rightarrow> Inr (True, shortNode (nKey @ cKey) cVal)
                        | _ \<Rightarrow> Inr (True, shortNode nKey child)))
      | fullNode cs \<Rightarrow>
          (case key of
             [] \<Rightarrow> Inl (TriePanic IndexOutOfRange)
           | i # rest \<Rightarrow>
               (if length cs \<le> i then Inl (TriePanic IndexOutOfRange)
                else rbind (delete_node f R (cs ! i) (prefix @ [i]) rest) (\<lambda>(dirty, nn).
                  if \<not> dirty then Inr (False, n)
                  else let cs1 = cs[i := nn]; pos = child_pos (-1) 0 cs1
                       in if pos \<ge> 0
                          then (if pos \<noteq> 16
                                then rbind (resolve R (cs1 ! nat pos) prefix) (\<lambda>cnode.
                                   case cnode of
                                     shortNode cKey cVal \<Rightarrow> Inr (True, shortNode (nat pos # cKey) cVal)
                                   | _ \<Rightarrow> Inr (True, shortNode [nat pos] (cs1 ! nat pos)))
                                else Inr (True, shortNode [nat pos] (cs1 ! nat pos)))
                          else Inr (True, fullNode cs1))))
      | valueNode _ \<Rightarrow> Inr (True, NilNode)
      | NilNode \<Rightarrow> Inr (False, NilNode)
      | hashNode h \<Rightarrow>
          rbind (resolveHash R h prefix) (\<lambda>rn.
          rbind (delete_node f R rn prefix key) (\<lambda>(dirty, nn).
            if \<not> dirty then Inr (False, rn) else Inr (True, nn))))"

section \<open>The trie\<close>

record Trie =
  trie_root :: node
  trie_prefix :: "bytes option"

definition trie_key :: "Trie \<Rightarrow> bytes \<Rightarrow> nat list" where
  "trie_key t key = keybytesToHex (case trie_prefix t of None \<Rightarrow> key | Some p \<Rightarrow> p @ key)"

definition trie_fuel :: "nat list \<Rightarrow> nat" where
  "trie_fuel k = 2 * length k + 2"

definition Trie_TryGet :: "resolver \<Rightarrow> Trie \<Rightarrow> bytes \<Rightarrow> trie_error + (bytes option \<times> Trie)" where
  "Trie_TryGet R t key =
     (let k = trie_key t key
      in rbind (tryGet (trie_fuel k) R (trie_root t) [] k) (\<lambda>(value, newroot, didResolve).
           Inr (value, if didResolve then t\<lparr>trie_root := newroot\<rparr> else t)))"

definition Trie_TryDelete :: "resolver \<Rightarrow> Trie \<Rightarrow> bytes \<Rightarrow> trie_error + Trie" where
  "Trie_TryDelete R t key =
     (let k = trie_key t key
      in rbind (delete_node (trie_fuel k) R (trie_root t) [] k) (\<lambda>(_, n). Inr (t\<lparr>trie_root := n\<rparr>)))"

definition Trie_TryUpdate :: "resolver \<Rightarrow> Trie \<Rightarrow> bytes \<Rightarrow> bytes \<Rightarrow> trie_error + Trie" where
  "Trie_TryUpdate R t key value =
     (let k = trie_key t key
      in if value \<noteq> []
         then rbind (insert_node (trie_fuel k) R (trie_root t) [] k (valueNode value))
                (\<lambda>(_, n). Inr (t\<lparr>trie_root := n\<rparr>))
         else rbind (delete_node (trie_fuel k) R (trie_root t) [] k) (\<lambda>(_, n). Inr (t\<lparr>trie_root := n\<rparr>)))"

end
