(* ===== verification/TrieProps.thy ===== *)
theory TrieProps
  imports Trie
begin

text \<open>
  The correctness of the trie: what a node holds, when a node is in the canonical form the
  code relies on, and that lookup, insertion and deletion act on the contents as on a map,
  keep the canonical form, and neither panic nor run out of fuel.
\<close>

section \<open>Keys\<close>

text \<open>A terminated key: nibbles below 16, then the terminator.\<close>

fun tkey :: "nat list \<Rightarrow> bool" where
  "tkey [] \<longleftrightarrow> False"
| "tkey (x # xs) \<longleftrightarrow> (if x = 16 then xs = [] else x < 16 \<and> tkey xs)"

lemma tkey_append: "\<forall>x \<in> set p. x < 16 \<Longrightarrow> tkey (p @ r) = tkey r"
  by (induction p) auto

lemma tkey_prefix_free: "tkey p \<Longrightarrow> tkey (p @ r) \<Longrightarrow> r = []"
  by (induction p) (auto split: if_splits)

lemma tkey_not_low: "tkey (p @ r) \<Longrightarrow> \<forall>x \<in> set p. x < 16 \<Longrightarrow> r \<noteq> []"
  by (auto simp: tkey_append)

lemma tkey_drop: "tkey p \<Longrightarrow> m < length p \<Longrightarrow> p ! m \<noteq> 16 \<Longrightarrow> tkey (drop (Suc m) p) \<and> p ! m < 16"
proof (induction p arbitrary: m)
  case (Cons x xs)
  then show ?case by (cases m) (auto split: if_splits)
qed simp

lemma tkey_drop_last: "tkey p \<Longrightarrow> m < length p \<Longrightarrow> p ! m = 16 \<Longrightarrow> drop (Suc m) p = []"
proof (induction p arbitrary: m)
  case (Cons x xs)
  then show ?case by (cases m) (auto split: if_splits)
qed simp

lemma tkey_nth: "tkey p \<Longrightarrow> m < length p \<Longrightarrow> p ! m < 17"
  using tkey_drop [of p m] by (cases "p ! m = 16") auto

lemma tkey_take_low: "tkey p \<Longrightarrow> m < length p \<Longrightarrow> x \<in> set (take m p) \<Longrightarrow> x < 16"
proof (induction p arbitrary: m)
  case (Cons y ys)
  then show ?case by (cases m) (auto split: if_splits)
qed simp

lemma keybytesToHex_tkey: "tkey (keybytesToHex bs)"
proof -
  have "\<forall>x \<in> set (concat (map (\<lambda>b. [unat b div 16, unat b mod 16]) bs)). x < 16" for bs :: bytes
    using unat_byte by (auto intro!: less_mult_imp_div_less)
  then show ?thesis by (simp add: keybytesToHex_def tkey_append)
qed

lemma keybytesToHex_inj: "keybytesToHex a = keybytesToHex b \<longleftrightarrow> a = b"
proof -
  let ?f = "\<lambda>b :: byte. [unat b div 16, unat b mod 16]"
  have "concat (map ?f a) = concat (map ?f b) \<Longrightarrow> a = b"
  proof (induction a arbitrary: b)
    case Nil
    then show ?case by (cases b) auto
  next
    case (Cons x xs)
    then obtain y ys where b: "b = y # ys" by (cases b) auto
    have "unat x div 16 * 16 + unat x mod 16 = unat y div 16 * 16 + unat y mod 16"
      using Cons.prems b by simp
    then have "x = y" by (simp add: word_unat_eq_iff)
    then show ?case using Cons b by simp
  qed
  then show ?thesis by (auto simp: keybytesToHex_def)
qed

lemma prefixLen_le: "prefixLen a b \<le> length a" "prefixLen a b \<le> length b"
  by (induction a b rule: prefixLen.induct) auto

lemma prefixLen_take: "take (prefixLen a b) a = take (prefixLen a b) b"
  by (induction a b rule: prefixLen.induct) auto

lemma prefixLen_diff: "prefixLen a b < length a \<Longrightarrow> prefixLen a b < length b \<Longrightarrow> a ! prefixLen a b \<noteq> b ! prefixLen a b"
  by (induction a b rule: prefixLen.induct) auto

lemma prefixLen_full: "prefixLen a b = length b \<longleftrightarrow> (\<exists>r. a = b @ r)"
  by (induction a b rule: prefixLen.induct) auto

text \<open>Keys that diverge: the tails after the common part start with different nibbles.\<close>

lemma prefixLen_split:
  assumes "prefixLen k p \<noteq> length p" "tkey k" "tkey p \<or> (\<forall>x \<in> set p. x < 16)"
  defines "m \<equiv> prefixLen k p"
  shows "m < length k" "m < length p" "k ! m \<noteq> p ! m"
    "k = take m k @ k ! m # drop (Suc m) k" "p = take m k @ p ! m # drop (Suc m) p"
proof -
  show p: "m < length p" using assms(1) prefixLen_le(2) [of k p] by (simp add: m_def)
  show k: "m < length k"
  proof (rule ccontr)
    assume "\<not> m < length k"
    then have "k = take (length k) p"
      using prefixLen_le(1) [of k p] prefixLen_take [of k p] by (simp add: m_def)
    then obtain r where r: "p = k @ r" by (metis append_take_drop_id)
    from assms(3) show False
    proof
      assume "tkey p"
      then have "r = []" using r tkey_prefix_free [OF assms(2)] by simp
      then show False using r \<open>\<not> m < length k\<close> p by simp
    next
      assume "\<forall>x \<in> set p. x < 16"
      then have "\<forall>x \<in> set k. x < 16" using r by simp
      then show False using tkey_not_low [of k "[]"] assms(2) by simp
    qed
  qed
  show "k ! m \<noteq> p ! m" using prefixLen_diff k p by (simp add: m_def)
  show "k = take m k @ k ! m # drop (Suc m) k" using k by (simp add: id_take_nth_drop)
  show "p = take m k @ p ! m # drop (Suc m) p"
    using p prefixLen_take [of k p] by (metis id_take_nth_drop m_def)
qed

section \<open>Contents and canonical form\<close>

inductive holds :: "resolver \<Rightarrow> node \<Rightarrow> nat list \<Rightarrow> bytes \<Rightarrow> bool" for R where
  holds_value: "holds R (valueNode v) [] v"
| holds_short: "holds R c k v \<Longrightarrow> holds R (shortNode p c) (p @ k) v"
| holds_full: "i < length cs \<Longrightarrow> holds R (cs ! i) k v \<Longrightarrow> holds R (fullNode cs) (i # k) v"
| holds_hash: "R h = Some n \<Longrightarrow> holds R n k v \<Longrightarrow> holds R (hashNode h) k v"

inductive_simps holds_simps:
  "holds R NilNode k v" "holds R (valueNode w) k v" "holds R (shortNode p c) k v"
  "holds R (fullNode cs) k v" "holds R (hashNode h) k v"

declare holds_simps(1,2,3,5) [simp]

lemma holds_full_Cons [simp]: "holds R (fullNode cs) (i # k) v \<longleftrightarrow> i < length cs \<and> holds R (cs ! i) k v"
  by (auto simp: holds_simps(4))

lemma holds_full_Nil [simp]: "\<not> holds R (fullNode cs) [] v"
  by (auto simp: holds_simps(4))

lemma holds_unique: "holds R n k v \<Longrightarrow> holds R n k w \<Longrightarrow> v = w"
  by (induction arbitrary: w rule: holds.induct) auto

definition is_full :: "resolver \<Rightarrow> node \<Rightarrow> bool" where
  "is_full R n \<longleftrightarrow> (\<exists>cs. n = fullNode cs) \<or> (\<exists>h cs. n = hashNode h \<and> R h = Some (fullNode cs))"

definition two_left :: "node list \<Rightarrow> bool" where
  "two_left cs \<longleftrightarrow> (\<exists>i j. i < j \<and> j < 17 \<and> cs ! i \<noteq> NilNode \<and> cs ! j \<noteq> NilNode)"

inductive valid :: "resolver \<Rightarrow> node \<Rightarrow> bool" for R where
  valid_leaf: "tkey p \<Longrightarrow> v \<noteq> [] \<Longrightarrow> valid R (shortNode p (valueNode v))"
| valid_ext: "p \<noteq> [] \<Longrightarrow> \<forall>x \<in> set p. x < 16 \<Longrightarrow> is_full R c \<Longrightarrow> valid R c \<Longrightarrow> valid R (shortNode p c)"
| valid_full: "length cs = 17 \<Longrightarrow> \<forall>i < 16. cs ! i = NilNode \<or> valid R (cs ! i) \<Longrightarrow>
    cs ! 16 = NilNode \<or> (\<exists>v. v \<noteq> [] \<and> cs ! 16 = valueNode v) \<Longrightarrow> two_left cs \<Longrightarrow> valid R (fullNode cs)"
| valid_hash: "R h = Some n \<Longrightarrow> \<nexists>h'. n = hashNode h' \<Longrightarrow> valid R n \<Longrightarrow> valid R (hashNode h)"

inductive_simps valid_simps:
  "valid R NilNode" "valid R (valueNode w)" "valid R (shortNode p c)"
  "valid R (fullNode cs)" "valid R (hashNode h)"

declare valid_simps(1,2) [simp]

abbreviation ok_node :: "resolver \<Rightarrow> node \<Rightarrow> bool" where
  "ok_node R n \<equiv> n = NilNode \<or> valid R n"

section \<open>Insertion\<close>

definition graft :: "nat list \<Rightarrow> node \<Rightarrow> node" where
  "graft q x = (if q = [] then x else shortNode q x)"

lemma holds_graft: "holds R (graft q x) k w \<longleftrightarrow> (\<exists>k2. k = q @ k2 \<and> holds R x k2 w)"
  by (auto simp: graft_def)

lemma insert_nil:
  "insert_node f R NilNode pre q x = Inr (d, y) \<Longrightarrow> y = graft q x \<and> d"
  by (cases f) (auto simp: graft_def)

lemma insert_nil_total: "insert_node (Suc f) R NilNode pre q x = Inr (True, graft q x)"
  by (simp add: graft_def)

lemma graft_nonnil: "x \<noteq> NilNode \<Longrightarrow> graft q x \<noteq> NilNode"
  by (simp add: graft_def)

lemma branch_holds:
  assumes "a \<noteq> b" "a < 17" "b < 17"
  shows "holds R (fullNode (emptyChildren[a := x, b := y])) k w \<longleftrightarrow>
    (\<exists>k2. k = a # k2 \<and> holds R x k2 w) \<or> (\<exists>k2. k = b # k2 \<and> holds R y k2 w)"
  using assms by (cases k) (auto simp: emptyChildren_def nth_list_update split: if_splits)

definition child_ok :: "resolver \<Rightarrow> nat \<Rightarrow> node \<Rightarrow> bool" where
  "child_ok R i c \<longleftrightarrow> c = NilNode \<or> (if i = 16 then \<exists>v. v \<noteq> [] \<and> c = valueNode v else valid R c)"

lemma valid_full_iff:
  "valid R (fullNode cs) \<longleftrightarrow> length cs = 17 \<and> (\<forall>i < 17. child_ok R i (cs ! i)) \<and> two_left cs"
proof -
  have "(\<forall>i < 17. child_ok R i (cs ! i)) \<longleftrightarrow> (\<forall>i < 16. child_ok R i (cs ! i)) \<and> child_ok R 16 (cs ! 16)"
    by (metis less_SucE less_SucI lessI numeral_eq_Suc pred_numeral_simps(3) semiring_norm(26) semiring_norm(27) semiring_norm(28))
  then show ?thesis by (auto simp: valid_simps(4) child_ok_def)
qed

lemma branch_valid:
  assumes "a \<noteq> b" "a < 17" "b < 17" "child_ok R a x" "child_ok R b y" "x \<noteq> NilNode" "y \<noteq> NilNode"
  shows "valid R (fullNode (emptyChildren[a := x, b := y]))"
proof -
  have "two_left (emptyChildren[a := x, b := y])"
    unfolding two_left_def using assms
    by (intro exI [of _ "min a b"] exI [of _ "max a b"])
      (auto simp: emptyChildren_def nth_list_update min_def max_def)
  then show ?thesis using assms
    by (auto simp: valid_full_iff emptyChildren_def nth_list_update child_ok_def)
qed

lemma child_graft:
  assumes p: "m < length p" and v: "valid R (shortNode p c)"
  shows "child_ok R (p ! m) (graft (drop (Suc m) p) c) \<and> graft (drop (Suc m) p) c \<noteq> NilNode \<and> p ! m < 17"
  using v
proof (cases rule: valid.cases)
  case (valid_leaf v)
  then show ?thesis using p tkey_drop [of p m] tkey_drop_last [of p m]
    by (cases "p ! m = 16") (auto simp: child_ok_def graft_def valid_simps(3))
next
  case valid_ext
  then have "p ! m < 16" using p by simp
  then show ?thesis using valid_ext by (auto simp: child_ok_def graft_def valid_simps(3) dest: in_set_dropD)
qed

lemma take_short_valid:
  "tkey k \<Longrightarrow> m < length k \<Longrightarrow> m \<noteq> 0 \<Longrightarrow> valid R (fullNode cs) \<Longrightarrow> valid R (shortNode (take m k) (fullNode cs))"
  using tkey_take_low by (intro valid_ext) (auto simp: is_full_def)

lemma update_child_valid:
  assumes "valid R (fullNode cs)" "i < 17" "child_ok R i c" "c \<noteq> NilNode"
  shows "valid R (fullNode (cs[i := c]))"
proof -
  have "two_left cs" using assms(1) by (simp add: valid_full_iff)
  then have "two_left (cs[i := c])"
    unfolding two_left_def using assms by (metis nth_list_update_eq nth_list_update_neq valid_full_iff)
  then show ?thesis using assms by (auto simp: valid_full_iff nth_list_update)
qed

text \<open>What it means that a node is another one with the value of one key replaced.\<close>

definition updated :: "resolver \<Rightarrow> node \<Rightarrow> nat list \<Rightarrow> bytes option \<Rightarrow> node \<Rightarrow> bool" where
  "updated R n k r n' \<longleftrightarrow> (\<forall>k' w. holds R n' k' w \<longleftrightarrow> (if k' = k then r = Some w else holds R n k' w))"

lemma updated_short:
  "updated R c r v c' \<Longrightarrow> updated R (shortNode p c) (p @ r) v (shortNode p c')"
  by (auto simp: updated_def split: if_splits)

lemma updated_full:
  "length cs = 17 \<Longrightarrow> i < 17 \<Longrightarrow> updated R (cs ! i) r v c' \<Longrightarrow> updated R (fullNode cs) (i # r) v (fullNode (cs[i := c']))"
  unfolding updated_def by (intro allI, case_tac k') (auto simp: nth_list_update)

lemma updated_hash: "R h = Some n \<Longrightarrow> updated R n k v n' \<Longrightarrow> updated R (hashNode h) k v n'"
  by (auto simp: updated_def)

lemma insert_split:
  assumes k: "tkey k" and v: "v \<noteq> []" and n: "valid R (shortNode p c)" and m: "prefixLen k p \<noteq> length p"
  defines "m \<equiv> prefixLen k p"
  defines "br \<equiv> fullNode (emptyChildren[p ! m := graft (drop (Suc m) p) c, k ! m := graft (drop (Suc m) k) (valueNode v)])"
  shows "valid R br" "updated R (shortNode p c) k (Some v) (if m = 0 then br else shortNode (take m k) br)"
proof -
  have pk: "tkey p \<or> (\<forall>x \<in> set p. x < 16)" using n by (auto simp: valid_simps(3))
  note sp = prefixLen_split [OF m k pk, folded m_def]
  note old = child_graft [OF sp(2) n]
  have new: "child_ok R (k ! m) (graft (drop (Suc m) k) (valueNode v)) \<and> graft (drop (Suc m) k) (valueNode v) \<noteq> NilNode \<and> k ! m < 17"
    using child_graft [OF sp(1) valid_leaf [OF k v]] .
  show "valid R br" unfolding br_def using branch_valid old new sp(3) by metis
  have hb: "holds R br k2 w \<longleftrightarrow> (\<exists>r. k2 = p ! m # drop (Suc m) p @ r \<and> holds R c r w) \<or> (k2 = k ! m # drop (Suc m) k \<and> w = v)" for k2 w
    unfolding br_def using branch_holds [of "p ! m" "k ! m"] old new sp(3) by (auto simp: holds_graft)
  have "holds R (if m = 0 then br else shortNode (take m k) br) k' w \<longleftrightarrow> (\<exists>k2. k' = take m k @ k2 \<and> holds R br k2 w)" for k' w
    by auto
  also have "\<dots> k' w \<longleftrightarrow> (\<exists>r. k' = p @ r \<and> holds R c r w) \<or> (k' = k \<and> w = v)" for k' w
    unfolding hb using sp(4,5) by (metis append.assoc append_Cons)
  finally have h: "holds R (if m = 0 then br else shortNode (take m k) br) k' w \<longleftrightarrow> (\<exists>r. k' = p @ r \<and> holds R c r w) \<or> (k' = k \<and> w = v)" for k' w .
  have "\<nexists>r. k = p @ r" using m prefixLen_full by blast
  then show "updated R (shortNode p c) k (Some v) (if m = 0 then br else shortNode (take m k) br)"
    unfolding updated_def h by auto
qed

lemma valid_short_key:
  assumes "valid R (shortNode p c)" "tkey (p @ r)"
  shows "(r = [] \<and> (\<exists>v. v \<noteq> [] \<and> c = valueNode v) \<and> tkey p) \<or> (tkey r \<and> is_full R c \<and> valid R c \<and> p \<noteq> [] \<and> (\<forall>x \<in> set p. x < 16))"
  using assms tkey_prefix_free by (auto simp: valid_simps(3) tkey_append)

definition insert_spec :: "resolver \<Rightarrow> node \<Rightarrow> nat list \<Rightarrow> bytes \<Rightarrow> node \<Rightarrow> bool" where
  "insert_spec R n k v n' \<longleftrightarrow> valid R n' \<and> updated R n k (Some v) n' \<and> (is_full R n \<longrightarrow> is_full R n')"

lemma insert_value:
  "insert_node f R n pre [] (valueNode v) = Inr (d, n') \<Longrightarrow> n = NilNode \<or> (\<exists>w. n = valueNode w) \<Longrightarrow>
   n' = valueNode v \<and> (\<not> d \<longrightarrow> n = valueNode v)"
  by (cases f) (auto split: node.splits)

lemma insert_spec_refl:
  "valid R n \<Longrightarrow> holds R n k v \<Longrightarrow> insert_spec R n k v n"
  by (auto simp: insert_spec_def updated_def dest: holds_unique)

text \<open>An insertion that reports no change met the value it was to store, so keeping the old
  node is right.\<close>

definition insert_good :: "nat \<Rightarrow> resolver \<Rightarrow> bytes \<Rightarrow> bool" where
  "insert_good f R v \<longleftrightarrow> (\<forall>n pre k d n'. insert_node f R n pre k (valueNode v) = Inr (d, n') \<longrightarrow>
     ok_node R n \<longrightarrow> tkey k \<longrightarrow> insert_spec R n k v n' \<and> (\<not> d \<longrightarrow> holds R n k v))"

lemma insert_goodD:
  "insert_good f R v \<Longrightarrow> insert_node f R n pre k (valueNode v) = Inr (d, n') \<Longrightarrow> ok_node R n \<Longrightarrow> tkey k \<Longrightarrow>
   insert_spec R n k v n' \<and> (\<not> d \<longrightarrow> holds R n k v)"
  unfolding insert_good_def by blast

lemma insert_hash_case:
  assumes IH: "insert_good f R v" and ins: "insert_node (Suc f) R (hashNode h) pre k (valueNode v) = Inr (d, n')"
    and n: "valid R (hashNode h)" and k: "tkey k"
  shows "insert_spec R (hashNode h) k v n' \<and> (\<not> d \<longrightarrow> holds R (hashNode h) k v)"
proof -
  have kne: "k \<noteq> []" using k by auto
  obtain rn where rn: "R h = Some rn" "valid R rn" using n by (auto simp: valid_simps(5))
  obtain d1 nn where i: "insert_node f R rn pre k (valueNode v) = Inr (d1, nn)"
    and n': "n' = (if d1 then nn else rn)" "d = d1"
    using ins rn(1) kne by (auto simp: resolveHash_def split: if_splits)
  have ih: "insert_spec R rn k v nn" "\<not> d1 \<longrightarrow> holds R rn k v" using insert_goodD [OF IH i] rn k by auto
  then have "insert_spec R rn k v n'" using n' rn(2) insert_spec_refl by auto
  then have "insert_spec R (hashNode h) k v n'"
    using rn(1) updated_hash [where R = R and h = h, OF rn(1)] by (auto simp: insert_spec_def is_full_def)
  then show ?thesis using ih(2) n' rn(1) by auto
qed

lemma insert_full_case:
  assumes IH: "insert_good f R v" and ins: "insert_node (Suc f) R (fullNode cs) pre k (valueNode v) = Inr (d, n')"
    and n: "valid R (fullNode cs)" and key: "tkey k" and v: "v \<noteq> []"
  shows "insert_spec R (fullNode cs) k v n' \<and> (\<not> d \<longrightarrow> holds R (fullNode cs) k v)"
proof -
  obtain i r where k: "k = i # r" using key by (cases k) auto
  have cs: "length cs = 17" using n by (simp add: valid_full_iff)
  have i: "i < 17" "child_ok R i (cs ! i)" using key k n by (auto simp: valid_full_iff split: if_splits)
  obtain d1 nn where ins: "insert_node f R (cs ! i) (pre @ [i]) r (valueNode v) = Inr (d1, nn)"
    and n': "n' = (if d1 then fullNode (cs[i := nn]) else fullNode cs)" "d = d1"
    using ins k cs i by (auto split: if_splits)
  have c: "updated R (cs ! i) r (Some v) nn \<and> child_ok R i nn \<and> nn \<noteq> NilNode \<and> (\<not> d1 \<longrightarrow> holds R (cs ! i) r v)"
  proof (cases "i = 16")
    case True
    then have r: "r = []" and w: "cs ! i = NilNode \<or> (\<exists>w. cs ! i = valueNode w)"
      using key k i by (auto simp: child_ok_def)
    have "nn = valueNode v" "\<not> d1 \<longrightarrow> cs ! i = valueNode v" using insert_value [OF _ w] ins r by blast+
    then show ?thesis using True v r w by (auto simp: updated_def child_ok_def)
  next
    case False
    then have "tkey r" "ok_node R (cs ! i)" using key k i by (auto simp: child_ok_def split: if_splits)
    from insert_goodD [OF IH ins this(2,1)] show ?thesis using False by (auto simp: insert_spec_def child_ok_def)
  qed
  show ?thesis
  proof (cases d1)
    case True
    then show ?thesis using n' c k updated_full [OF cs i(1)] update_child_valid [OF n i(1)]
      by (auto simp: insert_spec_def is_full_def)
  next
    case False
    then have "holds R (fullNode cs) k v" using c k cs i by simp
    then show ?thesis using False n' insert_spec_refl n by auto
  qed
qed

lemma insert_short_case:
  assumes IH: "insert_good f R v" and ins: "insert_node (Suc f) R (shortNode p c) pre k (valueNode v) = Inr (d, n')"
    and n: "valid R (shortNode p c)" and key: "tkey k" and v: "v \<noteq> []" and k: "k = p @ r"
  shows "insert_spec R (shortNode p c) k v n' \<and> (\<not> d \<longrightarrow> holds R (shortNode p c) k v)"
proof -
  have m: "prefixLen k p = length p" "k \<noteq> []" using prefixLen_full k key by auto
  obtain d1 nn where ins: "insert_node f R c (pre @ p) r (valueNode v) = Inr (d1, nn)"
    and n': "n' = (if d1 then shortNode p nn else shortNode p c)" "d = d1"
    using ins m k by (auto simp: Let_def split: if_splits)
  have c: "updated R c r (Some v) nn \<and> valid R (shortNode p nn) \<and> (\<not> d1 \<longrightarrow> holds R c r v)"
    using valid_short_key [OF n key [unfolded k]]
  proof (elim disjE conjE)
    assume "r = []" "\<exists>v. v \<noteq> [] \<and> c = valueNode v" "tkey p"
    moreover from this have "nn = valueNode v" "\<not> d1 \<longrightarrow> c = valueNode v"
      using insert_value [of f R c "pre @ p" v d1 nn] ins by auto
    ultimately show ?thesis using v by (auto simp: updated_def intro!: valid_leaf)
  next
    assume "tkey r" "is_full R c" "valid R c" "p \<noteq> []" "\<forall>x \<in> set p. x < 16"
    then show ?thesis using insert_goodD [OF IH ins] by (auto simp: insert_spec_def intro!: valid_ext)
  qed
  show ?thesis
  proof (cases d1)
    case True
    then show ?thesis using n' c k updated_short by (auto simp: insert_spec_def is_full_def)
  next
    case False
    then have "holds R (shortNode p c) k v" using c k by simp
    then show ?thesis using False n' insert_spec_refl n by auto
  qed
qed

lemma insert_split_case:
  assumes ins: "insert_node (Suc f) R (shortNode p c) pre k (valueNode v) = Inr (d, n')"
    and n: "valid R (shortNode p c)" and key: "tkey k" and v: "v \<noteq> []" and m: "prefixLen k p \<noteq> length p"
  shows "insert_spec R (shortNode p c) k v n' \<and> d"
proof -
  define m where "m = prefixLen k p"
  define br where "br = fullNode (emptyChildren[p ! m := graft (drop (Suc m) p) c, k ! m := graft (drop (Suc m) k) (valueNode v)])"
  note sp = insert_split [OF key v n m, folded m_def, folded br_def]
  have l: "m < length k" using prefixLen_split(1) [OF m key] n by (auto simp: m_def valid_simps(3))
  have kne: "k \<noteq> []" using key by auto
  have "n' = (if m = 0 then br else shortNode (take m k) br) \<and> d"
    using ins m kne insert_nil by (fastforce simp: Let_def m_def br_def split: if_splits)
  then show ?thesis using sp take_short_valid [OF key l]
    by (auto simp: insert_spec_def is_full_def br_def)
qed

lemma insert_node_good: "v \<noteq> [] \<Longrightarrow> insert_good f R v"
proof (induction f)
  case 0
  then show ?case by (simp add: insert_good_def)
next
  case (Suc f)
  then have IH: "insert_good f R v" by simp
  show ?case
    unfolding insert_good_def
  proof (intro allI impI)
    fix n pre k d n'
    assume ins: "insert_node (Suc f) R n pre k (valueNode v) = Inr (d, n')" and n: "ok_node R n" and k: "tkey k"
    show "insert_spec R n k v n' \<and> (\<not> d \<longrightarrow> holds R n k v)"
    proof (cases n)
      case NilNode
      have "k \<noteq> []" using k by auto
      then show ?thesis using NilNode ins k Suc.prems
        by (auto simp: insert_spec_def updated_def is_full_def intro: valid_leaf)
    next
      case (shortNode p c)
      show ?thesis
      proof (cases "prefixLen k p = length p")
        case True
        then obtain r where "k = p @ r" using prefixLen_full by blast
        then show ?thesis using insert_short_case [OF IH] shortNode ins n k Suc.prems by blast
      qed (use insert_split_case shortNode ins n k Suc.prems in blast)
    qed (use IH insert_hash_case insert_full_case ins n k Suc.prems in auto)
  qed
qed

section \<open>Deletion\<close>

lemma child_pos_found: "q \<noteq> -1 \<Longrightarrow> child_pos q i cs = (if \<forall>x \<in> set cs. x = NilNode then q else -2)"
  by (induction cs arbitrary: i) auto

lemma child_pos_cases:
  assumes "0 \<le> i"
  shows "(child_pos (-1) i cs = -1 \<and> (\<forall>x \<in> set cs. x = NilNode))
    \<or> (\<exists>j < length cs. child_pos (-1) i cs = i + int j
         \<and> cs ! j \<noteq> NilNode \<and> (\<forall>l < length cs. l \<noteq> j \<longrightarrow> cs ! l = NilNode))
    \<or> (child_pos (-1) i cs = -2 \<and> (\<exists>a b. a < b \<and> b < length cs \<and> cs ! a \<noteq> NilNode \<and> cs ! b \<noteq> NilNode))"
  using assms
proof (induction cs arbitrary: i)
  case (Cons c cs)
  show ?case
  proof (cases "c = NilNode")
    case True
    consider "child_pos (-1) (i + 1) cs = -1" "\<forall>x \<in> set cs. x = NilNode"
      | j where "j < length cs" "child_pos (-1) (i + 1) cs = i + 1 + int j" "cs ! j \<noteq> NilNode"
          "\<forall>l < length cs. l \<noteq> j \<longrightarrow> cs ! l = NilNode"
      | a b where "child_pos (-1) (i + 1) cs = -2" "a < b" "b < length cs" "cs ! a \<noteq> NilNode" "cs ! b \<noteq> NilNode"
      using Cons.IH [of "i + 1"] Cons.prems by (auto split: if_splits)
    then show ?thesis
    proof cases
      case 2
      then have "\<forall>l < length (c # cs). l \<noteq> Suc j \<longrightarrow> (c # cs) ! l = NilNode"
        using True by (auto simp: nth_Cons split: nat.split)
      then show ?thesis using 2 True Cons.prems by (intro disjI2 disjI1 exI [of _ "Suc j"]) auto
    next
      case 3
      then show ?thesis using True by (intro disjI2 conjI exI [of _ "Suc a"] exI [of _ "Suc b"]) auto
    qed (use True in auto)
  next
    case False
    show ?thesis
    proof (cases "\<forall>x \<in> set cs. x = NilNode")
      case True
      then have "\<forall>l < length (c # cs). l \<noteq> 0 \<longrightarrow> (c # cs) ! l = NilNode"
        by (auto simp: nth_Cons split: nat.split)
      then show ?thesis using False True Cons.prems child_pos_found [of i "i + 1" cs]
        by (intro disjI2 disjI1 exI [of _ 0]) auto
    next
      case some: False
      then obtain b where "b < length cs" "cs ! b \<noteq> NilNode" by (auto simp: in_set_conv_nth)
      then show ?thesis using False some Cons.prems child_pos_found [of i "i + 1" cs]
        by (intro disjI2 conjI exI [of _ 0] exI [of _ "Suc b"]) auto
    qed
  qed
qed simp

lemma child_pos_spec:
  assumes "length cs = 17" "\<exists>x \<in> set cs. x \<noteq> NilNode"
  obtains (one) j where "j < 17" "child_pos (-1) 0 cs = int j" "cs ! j \<noteq> NilNode" "\<forall>l < 17. l \<noteq> j \<longrightarrow> cs ! l = NilNode"
    | (two) "child_pos (-1) 0 cs = -2" "two_left cs"
  using child_pos_cases [of 0 cs] assms unfolding two_left_def by auto

definition delete_spec :: "resolver \<Rightarrow> node \<Rightarrow> nat list \<Rightarrow> bool \<Rightarrow> node \<Rightarrow> bool" where
  "delete_spec R n k d n' \<longleftrightarrow> ok_node R n' \<and> updated R n k None n' \<and> (is_full R n \<longrightarrow> n' \<noteq> NilNode)
     \<and> (d \<longrightarrow> (\<nexists>h. n' = hashNode h)) \<and> (\<not> d \<longrightarrow> (\<forall>w. \<not> holds R n k w))"

definition delete_good :: "nat \<Rightarrow> resolver \<Rightarrow> bool" where
  "delete_good f R \<longleftrightarrow> (\<forall>n pre k d n'. delete_node f R n pre k = Inr (d, n') \<longrightarrow>
     ok_node R n \<longrightarrow> tkey k \<longrightarrow> delete_spec R n k d n')"

lemma delete_goodD:
  "delete_good f R \<Longrightarrow> delete_node f R n pre k = Inr (d, n') \<Longrightarrow> ok_node R n \<Longrightarrow> tkey k \<Longrightarrow> delete_spec R n k d n'"
  unfolding delete_good_def by blast

lemma updated_absent: "\<forall>w. \<not> holds R n k w \<Longrightarrow> updated R n k None n"
  by (auto simp: updated_def)

lemma delete_spec_absent: "valid R n \<Longrightarrow> \<forall>w. \<not> holds R n k w \<Longrightarrow> delete_spec R n k False n"
  by (auto simp: delete_spec_def updated_absent)

lemma delete_hash_case:
  assumes IH: "delete_good f R" and del: "delete_node (Suc f) R (hashNode h) pre k = Inr (d, n')"
    and n: "valid R (hashNode h)" and k: "tkey k"
  shows "delete_spec R (hashNode h) k d n'"
proof -
  obtain rn where rn: "R h = Some rn" "\<nexists>h'. rn = hashNode h'" "valid R rn"
    using n by (auto simp: valid_simps(5))
  obtain d1 nn where i: "delete_node f R rn pre k = Inr (d1, nn)"
    and n': "n' = (if d1 then nn else rn)" "d = d1"
    using del rn(1) by (auto simp: resolveHash_def split: if_splits)
  have ih: "delete_spec R rn k d1 nn" using delete_goodD [OF IH i _ k] rn(3) by simp
  have "delete_spec R rn k d n'"
    using ih n' delete_spec_absent [OF rn(3), of k] by (auto simp: delete_spec_def)
  then show ?thesis using rn(1,2) updated_hash [where R = R and h = h, OF rn(1)]
    by (auto simp: delete_spec_def is_full_def)
qed

lemma short_short: "holds R (shortNode (p @ q) x) k w = holds R (shortNode p (shortNode q x)) k w"
  by auto

lemma merge_valid:
  assumes "\<forall>x \<in> set p. x < 16" "valid R (shortNode q x)"
  shows "valid R (shortNode (p @ q) x)"
  using assms by (auto simp: valid_simps(3) tkey_append)

lemma delete_short_case:
  assumes IH: "delete_good f R" and del: "delete_node (Suc f) R (shortNode p c) pre k = Inr (d, n')"
    and n: "valid R (shortNode p c)" and key: "tkey k"
  shows "delete_spec R (shortNode p c) k d n'"
proof (cases "prefixLen k p = length p")
  case False
  then have "prefixLen k p < length p" using prefixLen_le(2) [of k p] by simp
  moreover have "\<forall>w. \<not> holds R (shortNode p c) k w" using False prefixLen_full [of k p] by auto
  ultimately show ?thesis using del delete_spec_absent [OF n] by (auto simp: Let_def)
next
  case True
  then obtain r where k: "k = p @ r" using prefixLen_full by blast
  from valid_short_key [OF n key [unfolded k]] show ?thesis
  proof (elim disjE conjE)
    assume "r = []" "\<exists>v. v \<noteq> [] \<and> c = valueNode v" "tkey p"
    then show ?thesis using del True k by (auto simp: delete_spec_def updated_def is_full_def Let_def)
  next
    assume r: "tkey r" and c: "is_full R c" "valid R c" and p: "p \<noteq> []" "\<forall>x \<in> set p. x < 16"
    have "r \<noteq> []" using r by auto
    then obtain d1 ch where rec: "delete_node f R c (pre @ p) r = Inr (d1, ch)"
      and n': "d = d1" "n' = (if \<not> d1 then shortNode p c
         else case ch of shortNode q x \<Rightarrow> shortNode (p @ q) x | _ \<Rightarrow> shortNode p ch)"
      using del True k by (auto simp: Let_def split: if_splits node.splits)
    have ih: "delete_spec R c r d1 ch" using delete_goodD [OF IH rec _ r] c by simp
    show ?thesis
    proof (cases d1)
      case False
      then have "\<forall>w. \<not> holds R (shortNode p c) k w" using ih k by (auto simp: delete_spec_def)
      then show ?thesis using n' False delete_spec_absent [OF n] by simp
    next
      case True
      have ch: "valid R ch" "\<nexists>h. ch = hashNode h" using ih True c by (auto simp: delete_spec_def)
      have u: "updated R (shortNode p c) k None (shortNode p ch)"
        using updated_short ih k by (simp add: delete_spec_def)
      have "valid R n' \<and> updated R (shortNode p c) k None n' \<and> (\<exists>q x. n' = shortNode q x)"
      proof (cases ch)
        case (shortNode q x)
        have "updated R (shortNode p c) k None (shortNode (p @ q) x)"
          using u unfolding updated_def shortNode short_short by assumption
        then show ?thesis using n' True merge_valid [OF p(2)] ch(1) shortNode by simp
      next
        case (fullNode cs)
        then show ?thesis using n' True u ch(1) valid_ext [OF p, of R ch] by (simp add: is_full_def)
      qed (use ch in auto)
      then show ?thesis using n' True by (auto simp: delete_spec_def is_full_def)
    qed
  qed
qed

text \<open>A full node with one child left, and the short node that replaces it.\<close>

lemma holds_single:
  assumes "length cs = 17" "j < 17" "\<forall>l < 17. l \<noteq> j \<longrightarrow> cs ! l = NilNode"
  shows "holds R (fullNode cs) k w = holds R (shortNode [j] (cs ! j)) k w"
proof (cases k)
  case (Cons i r)
  then show ?thesis using assms by (cases "i = j") auto
qed simp

lemma collapse_spec:
  assumes cs: "length cs = 17" "\<forall>i < 17. child_ok R i (cs ! i)" "j < 17" "cs ! j \<noteq> NilNode"
      "\<forall>l < 17. l \<noteq> j \<longrightarrow> cs ! l = NilNode"
    and n': "n' = (if j \<noteq> 16 then (case projr (resolve R (cs ! j) pre) of
        shortNode q x \<Rightarrow> shortNode (j # q) x | _ \<Rightarrow> shortNode [j] (cs ! j)) else shortNode [j] (cs ! j))"
  shows "valid R n' \<and> (\<exists>q x. n' = shortNode q x) \<and> (\<forall>k w. holds R n' k w = holds R (fullNode cs) k w)"
proof (cases "j = 16")
  case True
  then obtain v where v: "cs ! j = valueNode v" "v \<noteq> []" using cs(2) [rule_format, OF cs(3)] cs(4) by (auto simp: child_ok_def)
  then have "valid R (shortNode [j] (cs ! j))" using True by (auto intro!: valid_leaf)
  then show ?thesis using n' True holds_single [OF cs(1,3,5)] by auto
next
  case False
  then have j: "j < 16" and v: "valid R (cs ! j)" using cs by (auto simp: child_ok_def)
  obtain rn where rn: "resolve R (cs ! j) pre = Inr rn" "valid R rn" "\<nexists>h. rn = hashNode h"
    "\<forall>k w. holds R rn k w = holds R (cs ! j) k w" "(\<exists>ds. rn = fullNode ds) \<longrightarrow> is_full R (cs ! j)"
  proof (cases "cs ! j")
    case (hashNode h)
    then show thesis using v that by (auto simp: valid_simps(5) resolve_def resolveHash_def is_full_def)
  qed (use that v in \<open>auto simp: resolve_def is_full_def\<close>)
  show ?thesis
  proof (cases rn)
    case (shortNode q x)
    then have "n' = shortNode ([j] @ q) x" using n' False rn(1) by simp
    moreover have "valid R (shortNode ([j] @ q) x)" using merge_valid [of "[j]"] j rn(2) shortNode by simp
    moreover have "holds R (shortNode ([j] @ q) x) k w = holds R (shortNode [j] (cs ! j)) k w" for k w
      unfolding short_short using rn(4) shortNode by (auto simp: holds_simps(3) [of R _ "cs ! j"])
    ultimately show ?thesis using holds_single [OF cs(1,3,5)] by blast
  next
    case (fullNode ds)
    then have "n' = shortNode [j] (cs ! j)" using n' False rn(1) by simp
    moreover have "valid R (shortNode [j] (cs ! j))" using rn(5) fullNode j v by (intro valid_ext) auto
    ultimately show ?thesis using holds_single [OF cs(1,3,5)] by auto
  qed (use rn in auto)
qed

lemma delete_full_child:
  assumes IH: "delete_good f R" and del: "delete_node f R c pre r = Inr (d, c')"
    and i: "child_ok R i c" and key: "tkey (i # r)"
  shows "updated R c r None c' \<and> (d \<longrightarrow> child_ok R i c') \<and> (\<not> d \<longrightarrow> (\<forall>w. \<not> holds R c r w))"
proof (cases "i = 16")
  case True
  then have "r = []" "c = NilNode \<or> (\<exists>v. c = valueNode v)" using key i by (auto simp: child_ok_def)
  then show ?thesis using del by (cases f) (auto simp: updated_def child_ok_def)
next
  case False
  then have "tkey r" "ok_node R c" using key i by (auto simp: child_ok_def split: if_splits)
  from delete_goodD [OF IH del this(2,1)] show ?thesis using False by (auto simp: delete_spec_def child_ok_def)
qed

lemma two_left_update:
  assumes "two_left cs" "length cs = 17"
  shows "\<exists>x \<in> set (cs[i := c]). x \<noteq> NilNode"
proof -
  obtain a b where "a < b" "b < 17" "cs ! a \<noteq> NilNode" "cs ! b \<noteq> NilNode" using assms(1) by (auto simp: two_left_def)
  then have "\<exists>l < 17. l \<noteq> i \<and> cs ! l \<noteq> NilNode" by (metis less_trans nat_neq_iff)
  then obtain l where "l < 17" "cs[i := c] ! l \<noteq> NilNode" by (metis nth_list_update_neq)
  then show ?thesis using assms(2) by (metis length_list_update nth_mem)
qed

lemma resolve_total: "valid R c \<Longrightarrow> \<exists>n. resolve R c pre = Inr n"
  by (cases c) (auto simp: resolve_def resolveHash_def valid_simps(5))

text \<open>The reduction of a full node after one of its children has changed.\<close>

definition reduce_full :: "resolver \<Rightarrow> nat list \<Rightarrow> node list \<Rightarrow> node" where
  "reduce_full R pre cs1 =
     (let pos = child_pos (-1) 0 cs1
      in if pos \<ge> 0
         then (if nat pos \<noteq> 16 then (case projr (resolve R (cs1 ! nat pos) pre) of
                 shortNode q x \<Rightarrow> shortNode (nat pos # q) x | _ \<Rightarrow> shortNode [nat pos] (cs1 ! nat pos))
               else shortNode [nat pos] (cs1 ! nat pos))
         else fullNode cs1)"

lemma reduce_full_spec:
  assumes cs: "length cs = 17" "\<forall>i < 17. child_ok R i (cs ! i)" "\<exists>x \<in> set cs. x \<noteq> NilNode"
  shows "valid R (reduce_full R pre cs) \<and> (\<nexists>h. reduce_full R pre cs = hashNode h)
    \<and> (\<forall>k w. holds R (reduce_full R pre cs) k w = holds R (fullNode cs) k w)"
  using cs(1,3)
proof (cases rule: child_pos_spec)
  case (one j)
  then have "reduce_full R pre cs = (if j \<noteq> 16 then (case projr (resolve R (cs ! j) pre) of
      shortNode q x \<Rightarrow> shortNode (j # q) x | _ \<Rightarrow> shortNode [j] (cs ! j)) else shortNode [j] (cs ! j))"
    by (simp add: reduce_full_def Let_def split: node.split)
  from collapse_spec [OF cs(1,2) one(1,3,4) this] show ?thesis by auto
next
  case two
  then have "reduce_full R pre cs = fullNode cs" by (simp add: reduce_full_def)
  then show ?thesis using two cs by (simp add: valid_full_iff)
qed

lemma delete_full_step:
  assumes "delete_node (Suc f) R (fullNode cs) pre (i # r) = Inr (d, n')" "i < 17" "length cs = 17"
    and "\<forall>c'. delete_node f R (cs ! i) (pre @ [i]) r = Inr (True, c') \<longrightarrow> (\<forall>i' < 17. child_ok R i' (cs[i := c'] ! i'))"
  obtains (same) c' where "delete_node f R (cs ! i) (pre @ [i]) r = Inr (False, c')" "\<not> d" "n' = fullNode cs"
    | (changed) c' where "delete_node f R (cs ! i) (pre @ [i]) r = Inr (True, c')" "d" "n' = reduce_full R pre (cs[i := c'])"
proof -
  obtain d1 c' where c: "delete_node f R (cs ! i) (pre @ [i]) r = Inr (d1, c')" using assms(1-3) by auto
  show thesis
  proof (cases d1)
    case True
    let ?cs = "cs[i := c']" and ?pos = "child_pos (-1) 0 (cs[i := c'])"
    have len: "length ?cs = 17" using assms(3) by simp
    have res: "\<exists>n. resolve R (?cs ! nat ?pos) pre = Inr n" if "?pos \<ge> 0" "?pos \<noteq> 16"
    proof -
      have "\<exists>x \<in> set ?cs. x \<noteq> NilNode"
        using that child_pos_cases [of 0 ?cs] nth_mem [of _ ?cs] by auto
      with len show ?thesis
      proof (cases rule: child_pos_spec)
        case (one j)
        then have "j \<noteq> 16" using that(2) by simp
        moreover have "child_ok R j (?cs ! j)" using assms(4) c True one(1) by simp
        ultimately show ?thesis using one resolve_total by (auto simp: child_ok_def)
      qed (use that in auto)
    qed
    have "d \<and> n' = reduce_full R pre ?cs"
      using assms(1-3) c True res
      by (auto simp: reduce_full_def Let_def nat_eq_iff split: if_splits node.splits)
    then show thesis using changed [of c'] c True by simp
  qed (use assms(1-3) c same in auto)
qed

lemma delete_full_case:
  assumes IH: "delete_good f R" and del: "delete_node (Suc f) R (fullNode cs) pre k = Inr (d, n')"
    and n: "valid R (fullNode cs)" and key: "tkey k"
  shows "delete_spec R (fullNode cs) k d n'"
proof -
  obtain i r where k: "k = i # r" using key by (cases k) auto
  have cs: "length cs = 17" "\<forall>i < 17. child_ok R i (cs ! i)" "two_left cs" using n by (auto simp: valid_full_iff)
  have i: "i < 17" using key k by (auto split: if_splits)
  note ch = delete_full_child [OF IH _ _ key [unfolded k]]
  have ok: "\<forall>i' < 17. child_ok R i' (cs[i := c'] ! i')" if "delete_node f R (cs ! i) (pre @ [i]) r = Inr (True, c')" for c'
    using ch [OF that] cs i by (auto simp: nth_list_update)
  from del [unfolded k] i cs(1) show ?thesis
  proof (rule delete_full_step)
    show "\<forall>c'. delete_node f R (cs ! i) (pre @ [i]) r = Inr (True, c') \<longrightarrow> (\<forall>i' < 17. child_ok R i' (cs[i := c'] ! i'))"
      using ok by blast
  next
    fix c' assume same: "delete_node f R (cs ! i) (pre @ [i]) r = Inr (False, c')" "\<not> d" "n' = fullNode cs"
    have "\<forall>w. \<not> holds R (cs ! i) r w" using ch [OF same(1)] cs(2) i by simp
    then have "\<forall>w. \<not> holds R (fullNode cs) k w" using k by simp
    then show ?thesis using same delete_spec_absent [OF n] by simp
  next
    fix c' assume changed: "delete_node f R (cs ! i) (pre @ [i]) r = Inr (True, c')" "d"
      "n' = reduce_full R pre (cs[i := c'])"
    have u: "updated R (fullNode cs) k None (fullNode (cs[i := c']))"
      unfolding k using ch [OF changed(1)] cs i by (intro updated_full) auto
    have "length (cs[i := c']) = 17" using cs(1) by simp
    from reduce_full_spec [OF this ok [OF changed(1)] two_left_update [OF cs(3,1)], of pre]
    show ?thesis using changed(2,3) u by (auto simp: delete_spec_def updated_def)
  qed
qed

lemma delete_node_good: "delete_good f R"
proof (induction f)
  case 0
  then show ?case by (simp add: delete_good_def)
next
  case (Suc f)
  show ?case
    unfolding delete_good_def
  proof (intro allI impI)
    fix n pre k d n'
    assume del: "delete_node (Suc f) R n pre k = Inr (d, n')" and n: "ok_node R n" and k: "tkey k"
    show "delete_spec R n k d n'"
    proof (cases n)
      case NilNode
      then show ?thesis using del by (auto simp: delete_spec_def updated_def is_full_def)
    qed (use Suc delete_hash_case delete_full_case delete_short_case del n k in auto)
  qed
qed

section \<open>Lookup\<close>

text \<open>A lookup returns what the node holds, and the node it loads on the way holds the same.\<close>

definition get_spec :: "resolver \<Rightarrow> node \<Rightarrow> nat list \<Rightarrow> bytes option \<Rightarrow> node \<Rightarrow> bool" where
  "get_spec R n k r n' \<longleftrightarrow> (\<forall>w. r = Some w \<longleftrightarrow> holds R n k w) \<and> ok_node R n'
     \<and> (\<forall>k' w. holds R n' k' w \<longleftrightarrow> holds R n k' w) \<and> (n' = NilNode \<longleftrightarrow> n = NilNode) \<and> (is_full R n \<longrightarrow> is_full R n')"

definition get_good :: "nat \<Rightarrow> resolver \<Rightarrow> bool" where
  "get_good f R \<longleftrightarrow> (\<forall>n pre k r n' b. tryGet f R n pre k = Inr (r, n', b) \<longrightarrow>
     ok_node R n \<longrightarrow> tkey k \<longrightarrow> get_spec R n k r (if b then n' else n))"

lemma get_goodD:
  "get_good f R \<Longrightarrow> tryGet f R n pre k = Inr (r, n', b) \<Longrightarrow> ok_node R n \<Longrightarrow> tkey k \<Longrightarrow>
   get_spec R n k r (if b then n' else n)"
  unfolding get_good_def by blast

lemma get_short_case:
  assumes IH: "get_good f R" and get: "tryGet (Suc f) R (shortNode p c) pre k = Inr (r, n', b)"
    and n: "valid R (shortNode p c)" and key: "tkey k"
  shows "get_spec R (shortNode p c) k r (if b then n' else shortNode p c)"
proof (cases "\<exists>q. k = p @ q")
  case False
  then have "length k < length p \<or> p \<noteq> take (length p) k" by (metis append_take_drop_id)
  then show ?thesis using get n False by (auto simp: get_spec_def)
next
  case True
  then obtain q where k: "k = p @ q" by blast
  then obtain x where rec: "tryGet f R c (pre @ p) q = Inr (r, x, b)"
    and n': "b \<longrightarrow> n' = shortNode p x" using get by (auto split: if_splits)
  from valid_short_key [OF n key [unfolded k]] show ?thesis
  proof (elim disjE conjE)
    assume "q = []" "\<exists>v. v \<noteq> [] \<and> c = valueNode v" "tkey p"
    then show ?thesis using rec k n by (cases f) (auto simp: get_spec_def)
  next
    assume q: "tkey q" and c: "is_full R c" "valid R c" and p: "p \<noteq> []" "\<forall>x \<in> set p. x < 16"
    let ?c = "if b then x else c"
    have ih: "get_spec R c q r ?c" using get_goodD [OF IH rec _ q] c(2) by blast
    have cne: "c \<noteq> NilNode" using c(2) by auto
    have "valid R (shortNode p ?c)" using ih c cne by (intro valid_ext [OF p]) (auto simp: get_spec_def)
    moreover have "(if b then n' else shortNode p c) = shortNode p ?c" using n' by simp
    ultimately show ?thesis using ih k by (auto simp: get_spec_def is_full_def)
  qed
qed

lemma get_full_child:
  assumes IH: "get_good f R" and rec: "tryGet f R c pre q = Inr (r, x, b)"
    and c: "child_ok R i c" and key: "tkey (i # q)"
  shows "(\<forall>w. r = Some w \<longleftrightarrow> holds R c q w) \<and> (b \<longrightarrow> child_ok R i x \<and> (x = NilNode \<longleftrightarrow> c = NilNode)
    \<and> (\<forall>k' w. holds R x k' w \<longleftrightarrow> holds R c k' w))"
proof (cases "i = 16")
  case True
  then have "q = []" "c = NilNode \<or> (\<exists>v. c = valueNode v)" using key c by (auto simp: child_ok_def)
  then show ?thesis using rec c by (cases f) auto
next
  case False
  then have "tkey q" "ok_node R c" using key c by (auto simp: child_ok_def split: if_splits)
  from get_goodD [OF IH rec this(2,1)] show ?thesis using False by (auto simp: get_spec_def child_ok_def)
qed

lemma get_full_case:
  assumes IH: "get_good f R" and get: "tryGet (Suc f) R (fullNode cs) pre k = Inr (r, n', b)"
    and n: "valid R (fullNode cs)" and key: "tkey k"
  shows "get_spec R (fullNode cs) k r (if b then n' else fullNode cs)"
proof -
  obtain i q where k: "k = i # q" using key by (cases k) auto
  have cs: "length cs = 17" "\<forall>i < 17. child_ok R i (cs ! i)" "two_left cs" using n by (auto simp: valid_full_iff)
  have i: "i < 17" using key k by (auto split: if_splits)
  obtain x where rec: "tryGet f R (cs ! i) (pre @ [i]) q = Inr (r, x, b)"
    and n': "b \<longrightarrow> n' = fullNode (cs[i := x])" using get k cs(1) i by (auto split: if_splits)
  note ch = get_full_child [OF IH rec cs(2) [rule_format, OF i] key [unfolded k]]
  have b: "valid R (fullNode (cs[i := x])) \<and> (\<forall>k' w. holds R (fullNode (cs[i := x])) k' w = holds R (fullNode cs) k' w)" if b
  proof -
    have "two_left (cs[i := x])"
      using cs(1,3) ch that i unfolding two_left_def by (metis nth_list_update_eq nth_list_update_neq)
    moreover have "child_ok R j (cs[i := x] ! j)" if "j < 17" for j
      using cs(1,2) ch that \<open>b\<close> i by (cases "j = i") auto
    moreover have "holds R (fullNode (cs[i := x])) k' w = holds R (fullNode cs) k' w" for k' w
      using ch that cs(1) i by (cases k') (auto simp: nth_list_update)
    ultimately show ?thesis using cs(1) by (simp add: valid_full_iff)
  qed
  have "(\<forall>w. r = Some w \<longleftrightarrow> holds R (fullNode cs) k w)" using ch k cs(1) i by simp
  then show ?thesis using n n' b by (cases b) (auto simp: get_spec_def is_full_def)
qed

lemma get_hash_case:
  assumes IH: "get_good f R" and get: "tryGet (Suc f) R (hashNode h) pre k = Inr (r, n', b)"
    and n: "valid R (hashNode h)" and key: "tkey k"
  shows "get_spec R (hashNode h) k r (if b then n' else hashNode h)"
proof -
  obtain rn where rn: "R h = Some rn" "valid R rn" using n by (auto simp: valid_simps(5))
  obtain x b1 where rec: "tryGet f R rn pre k = Inr (r, x, b1)" and n': "n' = x" "b"
    using get rn(1) by (auto simp: resolveHash_def)
  have nr: "\<not> b1 \<longrightarrow> x = rn"
    using rec by (cases f; cases rn) (auto split: if_splits list.splits)
  have "get_spec R rn k r (if b1 then x else rn)" using get_goodD [OF IH rec _ key] rn(2) by blast
  then have "get_spec R rn k r x" using nr by (cases b1) auto
  moreover have "rn \<noteq> NilNode" using rn(2) by auto
  ultimately show ?thesis using n' rn by (auto simp: get_spec_def is_full_def)
qed

lemma tryGet_good: "get_good f R"
proof (induction f)
  case 0
  then show ?case by (simp add: get_good_def)
next
  case (Suc f)
  show ?case
    unfolding get_good_def
  proof (intro allI impI)
    fix n pre k r n' b
    assume get: "tryGet (Suc f) R n pre k = Inr (r, n', b)" and n: "ok_node R n" and k: "tkey k"
    show "get_spec R n k r (if b then n' else n)"
    proof (cases n)
      case NilNode
      then show ?thesis using get by (auto simp: get_spec_def is_full_def)
    next
      case (valueNode v)
      then show ?thesis using n by simp
    next
      case (shortNode p c)
      then show ?thesis using get_short_case [OF Suc] get n k by blast
    next
      case (fullNode cs)
      then show ?thesis using get_full_case [OF Suc] get n k by blast
    next
      case (hashNode h)
      then show ?thesis using get_hash_case [OF Suc] get n k by blast
    qed
  qed
qed

section \<open>Enough fuel\<close>

definition need :: "node \<Rightarrow> nat list \<Rightarrow> nat" where
  "need n k = 2 * length k + (case n of hashNode _ \<Rightarrow> 2 | _ \<Rightarrow> 1)"

lemma need_fuel: "need n k \<le> trie_fuel k"
  by (simp add: need_def trie_fuel_def split: node.split)

lemma need_child: "length r < length k \<Longrightarrow> need n' k \<le> Suc f \<Longrightarrow> need n r \<le> f"
  by (auto simp: need_def split: node.splits)

lemma need_pos: "need n k \<le> f \<Longrightarrow> \<exists>f'. f = Suc f'"
  by (cases f) (auto simp: need_def split: node.splits)

text \<open>A node together with the rest of a key: a value slot at the end of the key, or a
  canonical node with a terminated key.\<close>

definition sub_ok :: "resolver \<Rightarrow> node \<Rightarrow> nat list \<Rightarrow> bool" where
  "sub_ok R c q \<longleftrightarrow> (q = [] \<and> (c = NilNode \<or> (\<exists>v. c = valueNode v))) \<or> (ok_node R c \<and> tkey q)"

lemma sub_ok_short:
  assumes "sub_ok R (shortNode p c) (p @ q)"
  shows "sub_ok R c q" "length q < length (p @ q)"
  using assms valid_short_key [of R p c q] by (auto simp: sub_ok_def)

lemma sub_ok_full:
  assumes "sub_ok R (fullNode cs) k"
  obtains i q where "k = i # q" "i < length cs" "sub_ok R (cs ! i) q"
proof -
  obtain i q where k: "k = i # q" using assms by (cases k) (auto simp: sub_ok_def)
  have v: "length cs = 17" "\<forall>i < 17. child_ok R i (cs ! i)" and key: "tkey (i # q)"
    using assms k by (auto simp: sub_ok_def valid_full_iff)
  have i: "i < 17" using key by (simp split: if_splits)
  then have "sub_ok R (cs ! i) q"
    using key v(2) [rule_format, OF i] by (auto simp: sub_ok_def child_ok_def split: if_splits)
  then show thesis using that k i v(1) by simp
qed

lemma sub_ok_hash:
  assumes "sub_ok R (hashNode h) k" "need (hashNode h) k \<le> Suc f"
  obtains rn where "R h = Some rn" "sub_ok R rn k" "need rn k \<le> f"
proof -
  obtain rn where rn: "R h = Some rn" "\<nexists>h'. rn = hashNode h'" "valid R rn" "tkey k"
    using assms(1) by (auto simp: valid_simps(5) sub_ok_def)
  then have "need rn k \<le> f" using assms(2) by (cases rn) (auto simp: need_def)
  then show thesis using that rn by (auto simp: sub_ok_def)
qed

lemma tryGet_total:
  "need n k \<le> f \<Longrightarrow> sub_ok R n k \<Longrightarrow> \<exists>r. tryGet f R n pre k = Inr r"
proof (induction f arbitrary: n pre k)
  case (Suc f)
  show ?case
  proof (cases n)
    case (shortNode p c)
    show ?thesis
    proof (cases "length k < length p \<or> p \<noteq> take (length p) k")
      case False
      then obtain q where k: "k = p @ q" by (metis append_take_drop_id)
      obtain r where "tryGet f R c (pre @ p) q = Inr r"
        using Suc.IH [of c q] sub_ok_short need_child Suc.prems k shortNode by blast
      then show ?thesis using shortNode k by (auto split: prod.split)
    qed (use shortNode in auto)
  next
    case (fullNode cs)
    obtain i q where c: "k = i # q" "i < length cs" "sub_ok R (cs ! i) q"
      using Suc.prems(2) fullNode sub_ok_full by blast
    obtain r where "tryGet f R (cs ! i) (pre @ [i]) q = Inr r"
      using Suc.IH [OF need_child c(3)] Suc.prems(1) c(1) by force
    then show ?thesis using fullNode c by (auto split: prod.split)
  next
    case (hashNode h)
    obtain rn where "R h = Some rn" "sub_ok R rn k" "need rn k \<le> f"
      using sub_ok_hash Suc.prems hashNode by blast
    then show ?thesis using hashNode Suc.IH [of rn k pre] by (auto simp: resolveHash_def)
  qed auto
qed (auto simp: need_def split: node.splits)

lemma insert_node_total:
  "need n k \<le> f \<Longrightarrow> sub_ok R n k \<Longrightarrow> \<exists>r. insert_node f R n pre k (valueNode v) = Inr r"
proof (induction f arbitrary: n pre k)
  case (Suc f)
  show ?case
  proof (cases n)
    case (shortNode p c)
    have vn: "valid R (shortNode p c)" and k: "tkey k" "k \<noteq> []"
      using Suc.prems(2) shortNode by (auto simp: sub_ok_def)
    show ?thesis
    proof (cases "prefixLen k p = length p")
      case True
      then obtain q where k': "k = p @ q" using prefixLen_full by blast
      obtain r where "insert_node f R c (pre @ p) q (valueNode v) = Inr r"
        using Suc.IH [of c q] sub_ok_short need_child Suc.prems k' shortNode by blast
      then show ?thesis using shortNode k' True k by (auto simp: Let_def split: prod.split)
    next
      case False
      then have "prefixLen k p < length k" using prefixLen_split(1) k(1) vn by (auto simp: valid_simps(3))
      moreover obtain f' where "f = Suc f'"
        using Suc.prems(1) k(2) by (cases f) (auto simp: need_def split: node.splits)
      ultimately show ?thesis using shortNode False k insert_nil_total by (auto simp: Let_def)
    qed
  next
    case (fullNode cs)
    obtain i q where c: "k = i # q" "i < length cs" "sub_ok R (cs ! i) q"
      using Suc.prems(2) fullNode sub_ok_full by blast
    obtain r where "insert_node f R (cs ! i) (pre @ [i]) q (valueNode v) = Inr r"
      using Suc.IH [OF need_child c(3)] Suc.prems(1) c(1) by force
    then show ?thesis using fullNode c by (auto split: prod.split)
  next
    case (hashNode h)
    then have "k \<noteq> []" using Suc.prems(2) by (auto simp: sub_ok_def)
    moreover obtain rn where "R h = Some rn" "sub_ok R rn k" "need rn k \<le> f"
      using sub_ok_hash Suc.prems hashNode by blast
    ultimately show ?thesis using hashNode Suc.IH [of rn k pre] by (auto simp: resolveHash_def)
  next
    case (valueNode w)
    then show ?thesis using Suc.prems(2) by (auto simp: sub_ok_def)
  qed auto
qed (auto simp: need_def split: node.splits)

lemma delete_full_total:
  assumes "sub_ok R (fullNode cs) (i # q)" "i < length cs" "delete_node f R (cs ! i) (pre @ [i]) q = Inr (d, c')"
  shows "\<exists>r. delete_node (Suc f) R (fullNode cs) pre (i # q) = Inr r"
proof (cases "d \<and> child_pos (-1) 0 (cs[i := c']) \<ge> 0 \<and> child_pos (-1) 0 (cs[i := c']) \<noteq> 16")
  case True
  let ?cs = "cs[i := c']"
  have v: "valid R (fullNode cs)" and key: "tkey (i # q)" using assms(1) by (auto simp: sub_ok_def)
  then have cs: "length ?cs = 17" "\<exists>x \<in> set ?cs. x \<noteq> NilNode" "\<forall>j < 17. child_ok R j (cs ! j)"
    using two_left_update by (auto simp: valid_full_iff)
  have "child_ok R i c'"
    using delete_full_child [OF delete_node_good assms(3) _ key] cs assms(2) True by auto
  from cs(1,2) obtain n where "resolve R (?cs ! nat (child_pos (-1) 0 ?cs)) pre = Inr n"
  proof (cases rule: child_pos_spec)
    case (one j)
    then have "valid R (?cs ! j)"
      using True cs \<open>child_ok R i c'\<close> by (cases "j = i") (auto simp: child_ok_def)
    then show thesis using that resolve_total one(2) by fastforce
  qed (use True in auto)
  then show ?thesis using True assms(2,3) by (auto simp: Let_def split: node.split)
qed (use assms(2,3) in \<open>auto simp: Let_def\<close>)

lemma delete_node_total:
  "need n k \<le> f \<Longrightarrow> sub_ok R n k \<Longrightarrow> \<exists>r. delete_node f R n pre k = Inr r"
proof (induction f arbitrary: n pre k)
  case (Suc f)
  show ?case
  proof (cases n)
    case (shortNode p c)
    show ?thesis
    proof (cases "prefixLen k p = length p")
      case True
      then obtain q where k: "k = p @ q" using prefixLen_full by blast
      obtain r where "delete_node f R c (pre @ p) q = Inr r"
        using Suc.IH [of c q] sub_ok_short need_child Suc.prems k shortNode by blast
      then show ?thesis using shortNode k True by (auto simp: Let_def split: prod.split node.split)
    next
      case False
      then have "prefixLen k p < length p" using prefixLen_le(2) [of k p] by simp
      then show ?thesis using shortNode by (auto simp: Let_def)
    qed
  next
    case (fullNode cs)
    obtain i q where c: "k = i # q" "i < length cs" "sub_ok R (cs ! i) q"
      using Suc.prems(2) fullNode sub_ok_full by blast
    obtain d c' where "delete_node f R (cs ! i) (pre @ [i]) q = Inr (d, c')"
      using Suc.IH [OF need_child c(3)] Suc.prems(1) c(1) by force
    then show ?thesis using delete_full_total c(1,2) fullNode Suc.prems(2) by blast
  next
    case (hashNode h)
    obtain rn where "R h = Some rn" "sub_ok R rn k" "need rn k \<le> f"
      using sub_ok_hash Suc.prems hashNode by blast
    then show ?thesis using hashNode Suc.IH [of rn k pre] by (auto simp: resolveHash_def)
  qed auto
qed (auto simp: need_def split: node.splits)

section \<open>The trie as a map\<close>

text \<open>What a client of a store with errors relies on: an invariant under which no operation
  fails, and lookups that see exactly the last update of a key. An update with an empty
  value removes the key.\<close>

locale kv_store =
  fixes inv :: "'t \<Rightarrow> bool"
    and lookup :: "'t \<Rightarrow> bytes \<Rightarrow> bytes option"
    and get :: "'t \<Rightarrow> bytes \<Rightarrow> 'e + (bytes option \<times> 't)"
    and put :: "'t \<Rightarrow> bytes \<Rightarrow> bytes \<Rightarrow> 'e + 't"
    and del :: "'t \<Rightarrow> bytes \<Rightarrow> 'e + 't"
  assumes get_ok: "inv t \<Longrightarrow> \<exists>t'. get t k = Inr (lookup t k, t') \<and> inv t' \<and> lookup t' = lookup t"
    and put_ok: "inv t \<Longrightarrow> \<exists>t'. put t k v = Inr t' \<and> inv t' \<and> lookup t' = (lookup t)(k := if v = [] then None else Some v)"
    and del_ok: "inv t \<Longrightarrow> \<exists>t'. del t k = Inr t' \<and> inv t' \<and> lookup t' = (lookup t)(k := None)"
begin

fun put_all :: "'t \<Rightarrow> (bytes \<times> bytes) list \<Rightarrow> 'e + 't" where
  "put_all t [] = Inr t"
| "put_all t ((k, v) # kvs) = rbind (put t k v) (\<lambda>t'. put_all t' kvs)"

lemma get_put:
  assumes "inv t" "put t k v = Inr t'" "v \<noteq> []"
  shows "\<exists>t''. get t' k' = Inr (if k' = k then Some v else lookup t k', t'')"
proof -
  have t': "inv t'" "lookup t' = (lookup t)(k := Some v)" using put_ok [OF assms(1), of k v] assms(2,3) by auto
  from get_ok [OF t'(1), of k'] show ?thesis using t'(2) by auto
qed

text \<open>A batch of updates never fails, and each key ends with its last value in the batch.\<close>

lemma put_all_ok:
  "inv t \<Longrightarrow> \<exists>t'. put_all t kvs = Inr t' \<and> inv t' \<and>
     (\<forall>k. lookup t' k = (case map_of (rev kvs) k of
        None \<Rightarrow> lookup t k | Some v \<Rightarrow> if v = [] then None else Some v))"
proof (induction kvs arbitrary: t)
  case (Cons kv kvs)
  obtain k v where kv: "kv = (k, v)" by (cases kv)
  obtain t1 where t1: "put t k v = Inr t1" "inv t1" "lookup t1 = (lookup t)(k := if v = [] then None else Some v)"
    using put_ok [OF Cons.prems, of k v] by blast
  obtain t' where t': "put_all t1 kvs = Inr t'" "inv t'"
    "\<forall>k. lookup t' k = (case map_of (rev kvs) k of None \<Rightarrow> lookup t1 k | Some v \<Rightarrow> if v = [] then None else Some v)"
    using Cons.IH [OF t1(2)] by blast
  then show ?case using kv t1 by (auto simp: map_add_def split: option.splits)
qed simp

end

definition trie_ok :: "resolver \<Rightarrow> Trie \<Rightarrow> bool" where
  "trie_ok R t \<longleftrightarrow> ok_node R (trie_root t)"

definition trie_lookup :: "resolver \<Rightarrow> Trie \<Rightarrow> bytes \<Rightarrow> bytes option" where
  "trie_lookup R t key = (case Trie_TryGet R t key of Inr (v, _) \<Rightarrow> v | Inl _ \<Rightarrow> None)"

lemma trie_key_tkey [simp]: "tkey (trie_key t key)"
  by (simp add: trie_key_def keybytesToHex_tkey)

lemma trie_key_inj: "trie_key t a = trie_key t b \<longleftrightarrow> a = b"
  by (simp add: trie_key_def keybytesToHex_inj split: option.split)

lemma trie_sub_ok: "trie_ok R t \<Longrightarrow> sub_ok R (trie_root t) (trie_key t key)"
  by (simp add: trie_ok_def sub_ok_def)

lemma Trie_TryGet_spec:
  assumes ok: "trie_ok R t"
  shows "\<exists>v t'. Trie_TryGet R t key = Inr (v, t') \<and> (\<forall>w. v = Some w \<longleftrightarrow> holds R (trie_root t) (trie_key t key) w)
    \<and> trie_ok R t' \<and> trie_prefix t' = trie_prefix t \<and> (\<forall>k w. holds R (trie_root t') k w = holds R (trie_root t) k w)"
proof -
  let ?k = "trie_key t key" and ?n = "trie_root t"
  obtain v n' b where g: "tryGet (trie_fuel ?k) R ?n [] ?k = Inr (v, n', b)"
    using tryGet_total [OF need_fuel trie_sub_ok [OF ok]] by (metis prod_cases3)
  have s: "get_spec R ?n ?k v (if b then n' else ?n)"
    using get_goodD [OF tryGet_good g] ok by (simp add: trie_ok_def)
  then show ?thesis using g by (cases b) (auto simp: Trie_TryGet_def Let_def get_spec_def trie_ok_def)
qed

lemma trie_lookup_holds:
  assumes "trie_ok R t"
  shows "trie_lookup R t key = Some w \<longleftrightarrow> holds R (trie_root t) (trie_key t key) w"
  using Trie_TryGet_spec [OF assms, of key] by (auto simp: trie_lookup_def)

lemma trie_lookup_eqI:
  assumes "trie_ok R t" "trie_ok R t'" "trie_prefix t' = trie_prefix t" "updated R (trie_root t) (trie_key t k) r (trie_root t')"
  shows "trie_lookup R t' = (trie_lookup R t)(k := r)"
proof
  fix key
  have k: "trie_key t' key = trie_key t key" using assms(3) by (simp add: trie_key_def)
  have "trie_lookup R t' key = Some w \<longleftrightarrow> ((trie_lookup R t)(k := r)) key = Some w" for w
    using assms(4) trie_lookup_holds [OF assms(1)] trie_lookup_holds [OF assms(2)]
    by (auto simp: updated_def k trie_key_inj)
  then show "trie_lookup R t' key = ((trie_lookup R t)(k := r)) key" by (metis not_Some_eq)
qed

lemma Trie_TryDelete_spec:
  assumes ok: "trie_ok R t"
  shows "\<exists>t'. Trie_TryDelete R t k = Inr t' \<and> trie_ok R t' \<and> trie_lookup R t' = (trie_lookup R t)(k := None)"
proof -
  let ?k = "trie_key t k" and ?n = "trie_root t"
  obtain d n' where g: "delete_node (trie_fuel ?k) R ?n [] ?k = Inr (d, n')"
    using delete_node_total [OF need_fuel trie_sub_ok [OF ok]] by (metis prod.exhaust)
  have "delete_spec R ?n ?k d n'"
    using delete_goodD [OF delete_node_good g] ok by (simp add: trie_ok_def)
  then show ?thesis using g trie_lookup_eqI [OF ok, of "t\<lparr>trie_root := n'\<rparr>"]
    by (auto simp: Trie_TryDelete_def Let_def trie_ok_def delete_spec_def)
qed

lemma Trie_TryUpdate_spec:
  assumes ok: "trie_ok R t"
  shows "\<exists>t'. Trie_TryUpdate R t k v = Inr t' \<and> trie_ok R t'
    \<and> trie_lookup R t' = (trie_lookup R t)(k := if v = [] then None else Some v)"
proof (cases "v = []")
  case True
  then show ?thesis using Trie_TryDelete_spec [OF ok, of k] by (simp add: Trie_TryUpdate_def Trie_TryDelete_def)
next
  case False
  let ?k = "trie_key t k" and ?n = "trie_root t"
  obtain d n' where g: "insert_node (trie_fuel ?k) R ?n [] ?k (valueNode v) = Inr (d, n')"
    using insert_node_total [OF need_fuel trie_sub_ok [OF ok]] by (metis prod.exhaust)
  have "insert_spec R ?n ?k v n'"
    using insert_goodD [OF insert_node_good [OF False] g] ok by (simp add: trie_ok_def)
  then show ?thesis using g False trie_lookup_eqI [OF ok, of "t\<lparr>trie_root := n'\<rparr>"]
    by (auto simp: Trie_TryUpdate_def Let_def trie_ok_def insert_spec_def)
qed

interpretation mpt: kv_store "trie_ok R" "trie_lookup R" "Trie_TryGet R" "Trie_TryUpdate R" "Trie_TryDelete R"
  for R :: resolver
proof
  fix t k v
  assume ok: "trie_ok R t"
  show "\<exists>t'. Trie_TryUpdate R t k v = Inr t' \<and> trie_ok R t'
      \<and> trie_lookup R t' = (trie_lookup R t)(k := if v = [] then None else Some v)"
    by (rule Trie_TryUpdate_spec [OF ok])
  show "\<exists>t'. Trie_TryDelete R t k = Inr t' \<and> trie_ok R t' \<and> trie_lookup R t' = (trie_lookup R t)(k := None)"
    by (rule Trie_TryDelete_spec [OF ok])
  obtain u t' where g: "Trie_TryGet R t k = Inr (u, t')" "trie_ok R t'" "trie_prefix t' = trie_prefix t"
    "\<forall>k w. holds R (trie_root t') k w = holds R (trie_root t) k w"
    using Trie_TryGet_spec [OF ok, of k] by blast
  have "trie_lookup R t' key = Some w \<longleftrightarrow> trie_lookup R t key = Some w" for key w
    using trie_lookup_holds [OF ok] trie_lookup_holds [OF g(2)] g(3,4) by (simp add: trie_key_def)
  then have "trie_lookup R t' = trie_lookup R t" by (metis not_Some_eq ext)
  then show "\<exists>t'. Trie_TryGet R t k = Inr (trie_lookup R t k, t') \<and> trie_ok R t' \<and> trie_lookup R t' = trie_lookup R t"
    using g by (auto simp: trie_lookup_def)
qed

end
