(* ===== verification/TrieCanonical.thy ===== *)
theory TrieCanonical
  imports TrieProps
begin

text \<open>
  The canonical form is canonical: two loaded tries with the same contents are the same
  tree, so the root of a trie depends on what it stores and not on the order of the updates
  that built it. The theory also has the round trips of the key encodings.
\<close>

section \<open>Two canonical nodes with the same contents\<close>

abbreviation loaded :: resolver where
  "loaded \<equiv> (\<lambda>_. None)"

lemma valid_holds: "valid R n \<Longrightarrow> \<exists>k w. holds R n k w"
proof (induction rule: valid.induct)
  case (valid_full cs)
  from \<open>two_left cs\<close> obtain j where j: "j < 17" "cs ! j \<noteq> NilNode" by (auto simp: two_left_def)
  then have "\<exists>k w. holds R (cs ! j) k w"
  proof (cases "j = 16")
    case False
    then have "j < 16" using j by simp
    then show ?thesis using valid_full.IH j(2) by auto
  next
    case True
    then obtain v where "cs ! j = valueNode v" using valid_full.hyps j by auto
    then show ?thesis using holds_value by metis
  qed
  then obtain k w where "holds R (cs ! j) k w" by blast
  then have "holds R (fullNode cs) (j # k) w" using j valid_full by simp
  then show ?case by blast
qed auto

lemma child_holds: "child_ok R i c \<Longrightarrow> c \<noteq> NilNode \<Longrightarrow> \<exists>k w. holds R c k w"
  using valid_holds by (auto simp: child_ok_def split: if_splits)

lemma full_two_keys:
  assumes "valid R (fullNode cs)"
  obtains i j k l v w where "i \<noteq> j" "holds R (fullNode cs) (i # k) v" "holds R (fullNode cs) (j # l) w"
proof -
  have cs: "length cs = 17" "\<forall>i < 17. child_ok R i (cs ! i)" "two_left cs" using assms by (auto simp: valid_full_iff)
  obtain i j where ij: "i < j" "j < 17" "cs ! i \<noteq> NilNode" "cs ! j \<noteq> NilNode" using cs(3) by (auto simp: two_left_def)
  obtain k v where "holds R (cs ! i) k v" using child_holds cs(2) ij by (meson less_trans)
  moreover obtain l w where "holds R (cs ! j) l w" using child_holds cs(2) ij by meson
  ultimately show thesis using that [of i j k v l w] ij cs(1) by simp
qed

definition same_holds :: "node \<Rightarrow> node \<Rightarrow> bool" where
  "same_holds n n' \<longleftrightarrow> (\<forall>k w. holds loaded n k w = holds loaded n' k w)"

lemma same_holdsD: "same_holds n n' \<Longrightarrow> holds loaded n k w \<Longrightarrow> holds loaded n' k w"
  by (simp add: same_holds_def)

lemma same_holds_sym: "same_holds a b \<Longrightarrow> same_holds b a"
  by (simp add: same_holds_def)

lemma same_holds_short:
  "same_holds (shortNode p c) (shortNode p c') \<Longrightarrow> same_holds c c'"
  unfolding same_holds_def by (metis holds_short holds_simps(3) same_append_eq)

lemma full_not_behind_short:
  assumes "valid loaded (fullNode cs)" "same_holds (fullNode cs) (shortNode p c)" "p \<noteq> []"
  shows False
proof -
  obtain x xs where p: "p = x # xs" using assms(3) by (cases p) auto
  obtain i j k l v w where "i \<noteq> j" "holds loaded (fullNode cs) (i # k) v" "holds loaded (fullNode cs) (j # l) w"
    by (rule full_two_keys [OF assms(1)])
  then have "holds loaded (shortNode p c) (i # k) v" "holds loaded (shortNode p c) (j # l) w"
    using same_holdsD [OF assms(2)] by auto
  then show False using \<open>i \<noteq> j\<close> p by auto
qed

lemma leaf_not_ext:
  assumes "same_holds (shortNode p (valueNode v)) (shortNode q (fullNode cs))" "valid loaded (fullNode cs)"
  shows False
proof -
  obtain i j k l x y where "i \<noteq> j" "holds loaded (fullNode cs) (i # k) x" "holds loaded (fullNode cs) (j # l) y"
    by (rule full_two_keys [OF assms(2)])
  then have "holds loaded (shortNode q (fullNode cs)) (q @ i # k) x" "holds loaded (shortNode q (fullNode cs)) (q @ j # l) y"
    by (auto intro: holds_short)
  then have "holds loaded (shortNode p (valueNode v)) (q @ i # k) x" "holds loaded (shortNode p (valueNode v)) (q @ j # l) y"
    using same_holdsD [OF same_holds_sym [OF assms(1)]] by blast+
  then show False using \<open>i \<noteq> j\<close> by auto
qed

text \<open>The key of an extension is the longest common part of the keys behind it.\<close>

lemma ext_key_prefix:
  assumes "same_holds (shortNode p (fullNode cs)) (shortNode (p @ q) c)" "valid loaded (fullNode cs)"
  shows "q = []"
proof (rule ccontr)
  assume q: "q \<noteq> []"
  have "same_holds (shortNode p (fullNode cs)) (shortNode p (shortNode q c))"
    using assms(1) unfolding same_holds_def short_short .
  then show False using full_not_behind_short [OF assms(2) same_holds_short q] by blast
qed

lemma ext_key_unique:
  assumes s: "same_holds (shortNode p (fullNode cs)) (shortNode p' (fullNode cs'))"
    and v: "valid loaded (fullNode cs)" "valid loaded (fullNode cs')"
  shows "p = p'"
proof -
  obtain k w where "holds loaded (shortNode p (fullNode cs)) k w"
    using valid_holds [OF v(1)] by (auto intro: holds_short)
  with same_holdsD [OF s this] obtain a b where "p @ a = p' @ b" by (metis holds_simps(3))
  then consider q where "p' = p @ q" | q where "p = p' @ q" by (auto simp: append_eq_append_conv2)
  then show ?thesis
  proof cases
    case 1
    then show ?thesis using ext_key_prefix [of p cs q] s v(1) by simp
  next
    case 2
    have "same_holds (shortNode p' (fullNode cs')) (shortNode p (fullNode cs))"
      using s unfolding same_holds_def by simp
    then show ?thesis using ext_key_prefix [of p' cs' q] 2 v(2) by simp
  qed
qed

lemma is_full_loaded: "is_full loaded c \<longleftrightarrow> (\<exists>cs. c = fullNode cs)"
  by (simp add: is_full_def)

lemma valid_loaded_cases:
  assumes "valid loaded n"
  obtains (leaf) p v where "n = shortNode p (valueNode v)" "tkey p"
    | (ext) p cs where "n = shortNode p (fullNode cs)" "p \<noteq> []" "valid loaded (fullNode cs)"
    | (full) cs where "n = fullNode cs" "valid loaded (fullNode cs)"
proof (cases n)
  case (shortNode p c)
  then show thesis using assms leaf ext by (auto simp: valid_simps(3) is_full_loaded)
next
  case (hashNode h)
  then show thesis using assms by (simp add: valid_simps(5))
qed (use assms full in auto)

lemma leaf_unique:
  assumes "valid loaded n'" "same_holds (shortNode p (valueNode v)) n'" "tkey p"
  shows "n' = shortNode p (valueNode v)"
  using assms(1)
proof (cases rule: valid_loaded_cases)
  case (leaf q w)
  then have "holds loaded (shortNode q (valueNode w)) p v" using assms(2) by (auto simp: same_holds_def)
  then show ?thesis using leaf by simp
next
  case (ext q cs)
  then show ?thesis using leaf_not_ext assms(2) by blast
next
  case (full cs)
  have "p \<noteq> []" using assms(3) by auto
  then show ?thesis using full_not_behind_short [OF full(2)] assms(2) full(1) same_holds_sym by blast
qed

lemma full_unique:
  assumes v: "valid loaded (fullNode cs)" "valid loaded n'" and s: "same_holds (fullNode cs) n'"
    and IH: "\<And>i c. i < 16 \<Longrightarrow> valid loaded (cs ! i) \<Longrightarrow> valid loaded c \<Longrightarrow> same_holds (cs ! i) c \<Longrightarrow> cs ! i = c"
  shows "fullNode cs = n'"
  using v(2)
proof (cases rule: valid_loaded_cases)
  case (full ds)
  have cs: "length cs = 17" "\<forall>i < 17. child_ok loaded i (cs ! i)" using v(1) by (auto simp: valid_full_iff)
  have ds: "length ds = 17" "\<forall>i < 17. child_ok loaded i (ds ! i)" using full(2) by (auto simp: valid_full_iff)
  have "cs ! i = ds ! i" if i: "i < 17" for i
  proof -
    have "holds loaded (fullNode cs) (i # k) w = holds loaded (fullNode ds) (i # k) w" for k w
      using s full(1) unfolding same_holds_def by blast
    then have sh: "same_holds (cs ! i) (ds ! i)" using i cs(1) ds(1) by (simp add: same_holds_def)
    have c: "child_ok loaded i (cs ! i)" "child_ok loaded i (ds ! i)" using cs ds i by auto
    have nil: "cs ! i = NilNode \<longleftrightarrow> ds ! i = NilNode"
      using sh child_holds [OF c(1)] child_holds [OF c(2)] unfolding same_holds_def
      by (metis holds_simps(1))
    show ?thesis
    proof (cases "i = 16 \<or> cs ! i = NilNode")
      case True
      show ?thesis
      proof (cases "cs ! i = NilNode")
        case False
        then obtain v v' where v: "cs ! i = valueNode v" "ds ! i = valueNode v'"
          using True c nil by (auto simp: child_ok_def)
        then have "holds loaded (ds ! i) [] v" using same_holdsD [OF sh] by simp
        then show ?thesis using v by simp
      qed (use nil in simp)
    next
      case False
      then show ?thesis using IH [of i "ds ! i"] c nil sh i by (auto simp: child_ok_def)
    qed
  qed
  then have "cs = ds" using cs(1) ds(1) by (intro nth_equalityI) auto
  then show ?thesis using full by simp
next
  case (leaf p v)
  then have "p \<noteq> []" by auto
  then show ?thesis using full_not_behind_short [OF v(1)] s leaf by blast
next
  case (ext p ds)
  then show ?thesis using full_not_behind_short [OF v(1)] s by blast
qed

lemma canonical_unique:
  assumes "valid loaded n" "valid loaded n'" "same_holds n n'"
  shows "n = n'"
  using assms
proof (induction arbitrary: n' rule: valid.induct)
  case (valid_leaf p v)
  then show ?case using leaf_unique by blast
next
  case (valid_ext p c)
  obtain cs where c: "c = fullNode cs" using valid_ext by (auto simp: is_full_loaded)
  from valid_ext.prems(1) show ?case
  proof (cases rule: valid_loaded_cases)
    case (leaf q w)
    then show ?thesis using leaf_not_ext valid_ext.prems(2) same_holds_sym c valid_ext.hyps by blast
  next
    case (ext q ds)
    then have "p = q" using ext_key_unique valid_ext.prems(2) c valid_ext.hyps by blast
    moreover have "c = fullNode ds"
      using valid_ext.IH [OF ext(3)] same_holds_short valid_ext.prems(2) ext(1) calculation by blast
    ultimately show ?thesis using ext by simp
  next
    case (full ds)
    then show ?thesis using full_not_behind_short [OF full(2)] valid_ext same_holds_sym by blast
  qed
next
  case (valid_full cs)
  have v: "valid loaded (fullNode cs)" using valid_full by (intro valid.valid_full) auto
  show ?case by (rule full_unique [OF v valid_full.prems(1,2)]) (use valid_full in auto)
next
  case (valid_hash h n)
  then show ?case by simp
qed

section \<open>Tries built by updates\<close>

text \<open>The keys a trie holds are the encodings of byte strings under its prefix.\<close>

definition byte_keys :: "Trie \<Rightarrow> bool" where
  "byte_keys t \<longleftrightarrow> trie_ok loaded t \<and> (\<forall>k w. holds loaded (trie_root t) k w \<longrightarrow> (\<exists>key. k = trie_key t key))"

lemma byte_keys_update:
  assumes "byte_keys t" "Trie_TryUpdate loaded t key v = Inr t'"
  shows "byte_keys t'" "trie_prefix t' = trie_prefix t"
proof -
  have ok: "trie_ok loaded t" "ok_node loaded (trie_root t)" using assms(1) by (auto simp: byte_keys_def trie_ok_def)
  obtain r where u: "updated loaded (trie_root t) (trie_key t key) r (trie_root t')"
    and t': "trie_ok loaded t'" "trie_prefix t' = trie_prefix t"
  proof (cases "v = []")
    case True
    then obtain d n where "delete_node (trie_fuel (trie_key t key)) loaded (trie_root t) [] (trie_key t key) = Inr (d, n)"
      "t' = t\<lparr>trie_root := n\<rparr>" using assms(2) by (auto simp: Trie_TryUpdate_def Let_def)
    then show thesis using delete_goodD [OF delete_node_good _ ok(2)] that
      by (fastforce simp: delete_spec_def trie_ok_def)
  next
    case False
    then obtain d n where "insert_node (trie_fuel (trie_key t key)) loaded (trie_root t) [] (trie_key t key) (valueNode v) = Inr (d, n)"
      "t' = t\<lparr>trie_root := n\<rparr>" using assms(2) by (auto simp: Trie_TryUpdate_def Let_def)
    then show thesis using insert_goodD [OF insert_node_good [OF False] _ ok(2)] that
      by (fastforce simp: insert_spec_def trie_ok_def)
  qed
  have "trie_key t' x = trie_key t x" for x using t'(2) by (simp add: trie_key_def)
  then show "byte_keys t'" using u t'(1) assms(1) unfolding byte_keys_def updated_def by metis
  show "trie_prefix t' = trie_prefix t" by (rule t'(2))
qed

lemma byte_keys_put_all:
  "byte_keys t \<Longrightarrow> mpt.put_all loaded t kvs = Inr t' \<Longrightarrow> byte_keys t' \<and> trie_prefix t' = trie_prefix t"
proof (induction kvs arbitrary: t)
  case (Cons kv kvs)
  obtain k v where kv: "kv = (k, v)" by (cases kv)
  then obtain t1 where t1: "Trie_TryUpdate loaded t k v = Inr t1" "mpt.put_all loaded t1 kvs = Inr t'"
    using Cons.prems(2) by auto
  then show ?case using Cons.IH [of t1] byte_keys_update [OF Cons.prems(1) t1(1)] by simp
qed simp

lemma same_lookup_same_root:
  assumes b: "byte_keys t" "byte_keys t'" and p: "trie_prefix t' = trie_prefix t"
    and l: "trie_lookup loaded t' = trie_lookup loaded t"
  shows "t' = t"
proof -
  have ok: "trie_ok loaded t" "trie_ok loaded t'" using b by (auto simp: byte_keys_def)
  have k: "trie_key t' x = trie_key t x" for x using p by (simp add: trie_key_def)
  have "holds loaded (trie_root t') kk w = holds loaded (trie_root t) kk w" for kk w
    using b trie_lookup_holds [OF ok(1)] trie_lookup_holds [OF ok(2)] l unfolding byte_keys_def k by metis
  then have s: "same_holds (trie_root t') (trie_root t)" by (simp add: same_holds_def)
  have "trie_root t' = trie_root t"
  proof (cases "trie_root t' = NilNode \<or> trie_root t = NilNode")
    case True
    then have "\<not> (\<exists>k w. holds loaded (trie_root t') k w)" "\<not> (\<exists>k w. holds loaded (trie_root t) k w)"
      using s unfolding same_holds_def by (metis holds_simps(1))+
    then show ?thesis using ok valid_holds unfolding trie_ok_def by metis
  next
    case False
    then show ?thesis using canonical_unique s ok by (auto simp: trie_ok_def)
  qed
  then show ?thesis using p by simp
qed

section \<open>Round trips of the key encodings\<close>

lemma nibble_byte: "a < 16 \<Longrightarrow> b < 16 \<Longrightarrow> unat (word_of_nat (a * 16 + b) :: byte) = a * 16 + b"
  by (subst unat_of_nat) simp

lemma decodeNibbles_bytes:
  "decodeNibbles (concat (map (\<lambda>b. [unat b div 16, unat b mod 16]) bs)) = bs"
  by (induction bs) (simp_all add: word_unat_eq_iff)

lemma bytes_decodeNibbles:
  "\<forall>x \<in> set ns. x < 16 \<Longrightarrow> length ns mod 2 = 0 \<Longrightarrow>
   concat (map (\<lambda>b. [unat b div 16, unat b mod 16]) (decodeNibbles ns)) = ns"
proof (induction ns rule: decodeNibbles.induct)
  case (1 a b r)
  then show ?case using nibble_byte [of a b] by (simp add: mod_Suc split: if_splits)
qed (auto split: list.splits)

text \<open>A nibble key as the trie uses it: nibbles below 16 and at most one terminator, at the
  end.\<close>

definition nibble_key :: "nat list \<Rightarrow> bool" where
  "nibble_key h \<longleftrightarrow> (\<forall>x \<in> set h. x < 16) \<or> tkey h"

lemma hasTerm_snoc [simp]: "hasTerm (xs @ [x]) \<longleftrightarrow> x = 16"
  by (simp add: hasTerm_def)

lemma tkey_snoc: "tkey h \<Longrightarrow> \<exists>l. h = l @ [16] \<and> (\<forall>x \<in> set l. x < 16)"
proof (induction h)
  case (Cons x xs)
  show ?case
  proof (cases "x = 16")
    case True
    then show ?thesis using Cons.prems by auto
  next
    case False
    then obtain l where "xs = l @ [16]" "\<forall>x \<in> set l. x < 16" using Cons by auto
    then have "x # xs = (x # l) @ [16]" "\<forall>y \<in> set (x # l). y < 16" using False Cons.prems by auto
    then show ?thesis by blast
  qed
qed simp

lemma low_not_term: "\<forall>x \<in> set l. x < 16 \<Longrightarrow> \<not> hasTerm l"
  by (cases l rule: rev_cases) (auto simp: hasTerm_def)

lemma compact_low:
  assumes l: "\<forall>x \<in> set l. x < 16" and t: "t < 2"
  shows "compactToHex (if length l mod 2 = 1 then word_of_nat (t * 32 + 16 + hd l) # decodeNibbles (tl l)
           else word_of_nat (t * 32) # decodeNibbles l) = Inr (l @ (if t = 1 then [16] else []))"
proof (cases "length l mod 2 = 1")
  case True
  then obtain x r where l': "l = x # r" by (cases l) auto
  have x: "x < 16" and r: "\<forall>y \<in> set r. y < 16" "length r mod 2 = 0" using l True l' by (auto simp: mod_Suc split: if_splits)
  have u: "unat (word_of_nat (t * 32 + 16 + x) :: byte) = t * 32 + 16 + x" using x t by (subst unat_of_nat) simp
  have e: "t * 32 + 16 + x = x + (2 * t + 1) * 16" by simp
  have "(t * 32 + 16 + x) div 16 = 2 * t + 1" "(t * 32 + 16 + x) mod 16 = x"
    using x unfolding e by (simp_all only: div_mult_self1 mod_mult_self1) simp_all
  then show ?thesis using True l' t x u bytes_decodeNibbles [OF r]
    by (auto simp: compactToHex_def keybytesToHex_def butlast_append Let_def)
next
  case False
  have u: "unat (word_of_nat (t * 32) :: byte) = t * 32" using t by (subst unat_of_nat) simp
  have "length l mod 2 = 0" using False by simp
  then show ?thesis using False t u bytes_decodeNibbles [OF l]
    by (auto simp: compactToHex_def keybytesToHex_def butlast_append Let_def)
qed

section \<open>Properties\<close>

definition empty_trie :: Trie where
  "empty_trie = \<lparr>trie_root = NilNode, trie_prefix = None\<rparr>"

lemma empty_trie_ok: "trie_ok R empty_trie"
  by (simp add: trie_ok_def empty_trie_def)

lemma empty_trie_byte_keys: "byte_keys empty_trie"
  by (auto simp: byte_keys_def empty_trie_ok) (simp add: empty_trie_def)

text \<open>C16: On a canonical trie, whatever part of it is loaded, \<open>TryUpdate\<close> succeeds, keeps the
  canonical form, and a later \<open>TryGet\<close> returns the new value for that key (nothing, if the
  value was empty) and the old one for every other key.\<close>

theorem trie_get_after_update:
  assumes "trie_ok R t"
  shows "\<exists>t'. Trie_TryUpdate R t k v = Inr t' \<and> trie_ok R t' \<and>
    (\<forall>k'. \<exists>t''. Trie_TryGet R t' k' =
       Inr (if k' = k then (if v = [] then None else Some v) else trie_lookup R t k', t''))"
proof -
  obtain t' where t': "Trie_TryUpdate R t k v = Inr t'" "trie_ok R t'"
    "trie_lookup R t' = (trie_lookup R t)(k := if v = [] then None else Some v)"
    using mpt.put_ok [OF assms] by blast
  have "\<exists>t''. Trie_TryGet R t' k' = Inr (if k' = k then (if v = [] then None else Some v) else trie_lookup R t k', t'')" for k'
    using mpt.get_ok [OF t'(2), of k'] t'(3) by auto
  then show ?thesis using t' by blast
qed

theorem trie_get_after_update_witness:
  "\<exists>t'. Trie_TryUpdate loaded empty_trie [1, 2] [7] = Inr t' \<and> (\<exists>t''. Trie_TryGet loaded t' [1, 2] = Inr (Some [7], t''))"
proof -
  obtain t' where t': "Trie_TryUpdate loaded empty_trie [1, 2] [7] = Inr t'"
    "\<forall>k'. \<exists>t''. Trie_TryGet loaded t' k' =
       Inr (if k' = [1, 2] then (if [7 :: byte] = [] then None else Some [7]) else trie_lookup loaded empty_trie k', t'')"
    using trie_get_after_update [OF empty_trie_ok [of loaded], of "[1, 2]" "[7]"] by blast
  from t'(2) [rule_format, of "[1, 2]"] show ?thesis using t'(1) by auto
qed

text \<open>C33: On a canonical trie \<open>TryDelete\<close> succeeds, reduces the trie to canonical form again,
  and removes exactly the key.\<close>

theorem trie_delete_removes:
  assumes "trie_ok R t"
  shows "\<exists>t'. Trie_TryDelete R t k = Inr t' \<and> trie_ok R t' \<and> trie_lookup R t' = (trie_lookup R t)(k := None)"
  by (rule mpt.del_ok [OF assms])

theorem trie_delete_removes_witness:
  "\<exists>t1 t2 t'. Trie_TryUpdate loaded empty_trie [1] [7] = Inr t1 \<and> Trie_TryUpdate loaded t1 [1, 2] [8] = Inr t2 \<and> trie_lookup loaded t2 [1] = Some [7]
     \<and> Trie_TryDelete loaded t2 [1] = Inr t' \<and> trie_lookup loaded t' [1] = None \<and> trie_lookup loaded t' [1, 2] = Some [8]"
proof -
  obtain t1 where t1: "Trie_TryUpdate loaded empty_trie [1] [7] = Inr t1" "trie_ok loaded t1" "trie_lookup loaded t1 [1] = Some [7]"
    using mpt.put_ok [OF empty_trie_ok [of loaded], of "[1]" "[7]"] by auto
  obtain t2 where "Trie_TryUpdate loaded t1 [1, 2] [8] = Inr t2" "trie_ok loaded t2" "trie_lookup loaded t2 = (trie_lookup loaded t1)([1, 2] \<mapsto> [8])"
    using mpt.put_ok [OF t1(2), of "[1, 2]" "[8]"] by auto
  then show ?thesis using trie_delete_removes [of loaded t2 "[1]"] t1 by auto
qed

text \<open>C5: The tree of a loaded trie depends only on its contents: two batches of updates that
  leave every key with the same value build the same root from the empty trie, in whatever
  order the updates, overwrites and removals come.\<close>

theorem trie_history_independent:
  assumes "mpt.put_all loaded empty_trie kvs = Inr t" "mpt.put_all loaded empty_trie kvs' = Inr t'"
    and "\<And>k. (case map_of (rev kvs) k of None \<Rightarrow> [] | Some v \<Rightarrow> v) = (case map_of (rev kvs') k of None \<Rightarrow> [] | Some v \<Rightarrow> v)"
  shows "trie_root t' = trie_root t"
proof -
  have b: "byte_keys t" "byte_keys t'" "trie_prefix t' = trie_prefix t"
    using byte_keys_put_all [OF empty_trie_byte_keys] assms(1,2) by auto
  have none: "trie_lookup loaded empty_trie k = None" for k
    using trie_lookup_holds [OF empty_trie_ok [of loaded], of k] by (auto simp: empty_trie_def)
  have l: "trie_lookup loaded t k = (case map_of (rev kvs) k of None \<Rightarrow> None | Some v \<Rightarrow> if v = [] then None else Some v)"
    "trie_lookup loaded t' k = (case map_of (rev kvs') k of None \<Rightarrow> None | Some v \<Rightarrow> if v = [] then None else Some v)" for k
    using mpt.put_all_ok [OF empty_trie_ok [of loaded], of kvs] mpt.put_all_ok [OF empty_trie_ok [of loaded], of kvs'] assms(1,2) none
    by (auto split: option.split)
  have "trie_lookup loaded t' = trie_lookup loaded t"
    using assms(3) by (fastforce simp: l split: option.splits)
  then show ?thesis using same_lookup_same_root [OF b] by simp
qed

theorem trie_history_independent_witness:
  "\<exists>t t'. mpt.put_all loaded empty_trie [([1], [2]), ([3], [4])] = Inr t
     \<and> mpt.put_all loaded empty_trie [([3], [4]), ([1], [9]), ([1], [2])] = Inr t' \<and> trie_root t' = trie_root t"
proof -
  obtain t where t: "mpt.put_all loaded empty_trie [([1], [2]), ([3], [4])] = Inr t"
    using mpt.put_all_ok [OF empty_trie_ok [of loaded]] by blast
  obtain t' where t': "mpt.put_all loaded empty_trie [([3], [4]), ([1], [9]), ([1], [2])] = Inr t'"
    using mpt.put_all_ok [OF empty_trie_ok [of loaded]] by blast
  have "trie_root t' = trie_root t" by (rule trie_history_independent [OF t t']) simp
  then show ?thesis using t t' by blast
qed

text \<open>The compact encoding of a short node's key loses nothing: decoding it gives back the
  nibbles, with the terminator where there was one.\<close>

theorem compact_round_trip:
  assumes "nibble_key h"
  shows "compactToHex (hexToCompact h) = Inr h"
  using assms unfolding nibble_key_def
proof
  assume "\<forall>x \<in> set h. x < 16"
  then show ?thesis using compact_low [of h 0] low_not_term [of h] by (simp add: hexToCompact_def)
next
  assume "tkey h"
  then obtain l where l: "h = l @ [16]" "\<forall>x \<in> set l. x < 16" using tkey_snoc by blast
  then show ?thesis using compact_low [of l 1] by (auto simp: hexToCompact_def split: if_splits)
qed

theorem compact_round_trip_witness: "compactToHex (hexToCompact [1, 2, 3, 16]) = Inr [1, 2, 3, 16]"
  by (rule compact_round_trip) (simp add: nibble_key_def)

end
