(* ===== verification/BigMath.thy ===== *)
theory BigMath
  imports Prelude
begin

unbundle bit_operations_syntax

text \<open>
  Integer helpers: \<open>common/math/integer.go\<close>, \<open>common/math/big.go\<close> and the byte helpers of
  \<open>common/utils\<close>. A \<open>big.Int\<close> is an \<open>int\<close>; its little-endian 64-bit words are \<open>Bits\<close>.
\<close>

section \<open>Checked 64-bit arithmetic\<close>

definition MaxUint64 :: u64 where
  "MaxUint64 = - 1"

definition SafeSub :: "u64 \<Rightarrow> u64 \<Rightarrow> u64 \<times> bool" where
  "SafeSub x y = (x - y, x < y)"

definition SafeAdd :: "u64 \<Rightarrow> u64 \<Rightarrow> u64 \<times> bool" where
  "SafeAdd x y = (x + y, y > MaxUint64 - x)"

definition SafeMul :: "u64 \<Rightarrow> u64 \<Rightarrow> u64 \<times> bool" where
  "SafeMul x y = (if x = 0 \<or> y = 0 then (0, False) else (x * y, y > MaxUint64 div x))"

section \<open>Big integers\<close>

definition tt255 :: int where
  "tt255 = 2 ^ 255"

definition tt256 :: int where
  "tt256 = 2 ^ 256"

definition tt256m1 :: int where
  "tt256m1 = tt256 - 1"

function BitLen :: "int \<Rightarrow> nat" where
  "BitLen x = (if x = 0 then 0 else Suc (BitLen (\<bar>x\<bar> div 2)))"
  by auto
termination
  by (relation "measure (\<lambda>x. nat \<bar>x\<bar>)") auto

declare BitLen.simps [simp del]

function Bits :: "int \<Rightarrow> 64 word list" where
  "Bits x = (if x = 0 then [] else word_of_int \<bar>x\<bar> # Bits (\<bar>x\<bar> div 2 ^ 64))"
  by auto
termination
proof (relation "measure (\<lambda>x. nat \<bar>x\<bar>)")
  fix x :: int
  assume "x \<noteq> 0"
  moreover have "\<bar>x\<bar> div 2 ^ 64 < \<bar>x\<bar>" using calculation by (intro int_div_less_self) auto
  ultimately show "(\<bar>x\<bar> div 2 ^ 64, x) \<in> measure (\<lambda>x. nat \<bar>x\<bar>)" by auto
qed simp

declare Bits.simps [simp del]

definition Uint64 :: "int \<Rightarrow> u64" where
  "Uint64 x = word_of_int \<bar>x\<bar>"

definition Int64 :: "int \<Rightarrow> int" where
  "Int64 x = sint (if x < 0 then - Uint64 x else Uint64 x)"

definition BigMax :: "int \<Rightarrow> int \<Rightarrow> int" where
  "BigMax x y = (if x < y then y else x)"

definition BigMin :: "int \<Rightarrow> int \<Rightarrow> int" where
  "BigMin x y = (if x > y then y else x)"

definition U256 :: "int \<Rightarrow> int" where
  "U256 x = x AND tt256m1"

definition S256 :: "int \<Rightarrow> int" where
  "S256 x = (if x < tt255 then x else x - tt256)"

text \<open>\<open>FirstBitSet\<close>: the loop over the bits from \<open>i\<close>, with \<open>n\<close> of them left.\<close>

fun FirstBitSet_loop :: "int \<Rightarrow> nat \<Rightarrow> nat \<Rightarrow> nat" where
  "FirstBitSet_loop v i 0 = i"
| "FirstBitSet_loop v i (Suc n) = (if bit v i then i else FirstBitSet_loop v (Suc i) n)"

definition FirstBitSet :: "int \<Rightarrow> nat" where
  "FirstBitSet v = FirstBitSet_loop v 0 (BitLen v)"

text \<open>\<open>ReadBits\<close> fills the buffer from its end with the bytes of the words, lowest first.\<close>

definition word_bytes :: "64 word \<Rightarrow> bytes" where
  "word_bytes d = map (\<lambda>j. ucast (drop_bit (8 * j) d)) [0..<8]"

definition ReadBits :: "int \<Rightarrow> nat \<Rightarrow> bytes" where
  "ReadBits x n = rev (take n (concat (map word_bytes (Bits x)) @ replicate n 0))"

text \<open>\<open>big.Int.Bytes\<close> (shortest big-endian form) and \<open>SetBytes\<close>.\<close>

definition big_Bytes :: "int \<Rightarrow> bytes" where
  "big_Bytes x = ReadBits x ((BitLen x + 7) div 8)"

definition SetBytes :: "bytes \<Rightarrow> int" where
  "SetBytes bs = foldl (\<lambda>a b. a * 256 + uint b) 0 bs"

definition PaddedBigBytes :: "int \<Rightarrow> nat \<Rightarrow> bytes" where
  "PaddedBigBytes x n = (if BitLen x div 8 \<ge> n then big_Bytes x else ReadBits x n)"

definition bigEndianByteAt :: "int \<Rightarrow> nat \<Rightarrow> byte" where
  "bigEndianByteAt x n =
     (let words = Bits x; i = n div 8
      in if i \<ge> length words then 0 else ucast (drop_bit (8 * (n mod 8)) (words ! i)))"

definition Byte :: "int \<Rightarrow> nat \<Rightarrow> nat \<Rightarrow> byte" where
  "Byte x padlength n = (if n \<ge> padlength then 0 else bigEndianByteAt x (padlength - 1 - n))"

text \<open>\<open>Exp\<close>: the inner loop over the bits of a word and the outer one over the words. The
  second component is what the loop leaves in \<open>base\<close>, which it squares in place.\<close>

fun Exp_word :: "nat \<Rightarrow> 64 word \<Rightarrow> int \<Rightarrow> int \<Rightarrow> int \<times> int" where
  "Exp_word 0 w result base = (result, base)"
| "Exp_word (Suc n) w result base =
     Exp_word n (drop_bit 1 w) (if w AND 1 = 1 then U256 (result * base) else result) (U256 (base * base))"

fun Exp_words :: "64 word list \<Rightarrow> int \<Rightarrow> int \<Rightarrow> int \<times> int" where
  "Exp_words [] result base = (result, base)"
| "Exp_words (w # ws) result base =
     (let (r, b) = Exp_word 64 w result base in Exp_words ws r b)"

definition Exp :: "int \<Rightarrow> int \<Rightarrow> int \<times> int" where
  "Exp base exponent = Exp_words (Bits exponent) 1 base"

section \<open>Byte slices\<close>

definition RightPadBytes :: "bytes \<Rightarrow> int \<Rightarrow> bytes" where
  "RightPadBytes s l = (if l \<le> int (length s) then s else s @ replicate (nat l - length s) 0)"

definition LeftPadBytes :: "bytes \<Rightarrow> int \<Rightarrow> bytes" where
  "LeftPadBytes s l = (if l \<le> int (length s) then s else replicate (nat l - length s) 0 @ s)"

definition allZero :: "bytes \<Rightarrow> bool" where
  "allZero b = list_all (\<lambda>x. x = 0) b"

text \<open>\<open>BigToHash\<close> and \<open>BigToAddress\<close> keep the low 32 and 20 bytes of the absolute value.\<close>

definition BigToHash :: "int \<Rightarrow> hash" where
  "BigToHash x = word_of_int \<bar>x\<bar>"

definition BigToAddress :: "int \<Rightarrow> address" where
  "BigToAddress x = word_of_int \<bar>x\<bar>"

section \<open>Checked arithmetic is exact\<close>

lemma MaxUint64_unat: "unat MaxUint64 = 2 ^ 64 - 1"
  by (simp add: MaxUint64_def unsigned_minus_1_eq_mask mask_eq_exp_minus_1)

lemma SafeAdd_exact:
  "SafeAdd x y = (r, f) \<Longrightarrow> (f \<longleftrightarrow> 2 ^ 64 \<le> unat x + unat y) \<and> (\<not> f \<longrightarrow> unat r = unat x + unat y)"
proof -
  assume a: "SafeAdd x y = (r, f)"
  have "unat (MaxUint64 - x) = 2 ^ 64 - 1 - unat x"
    using unat_sub [of x MaxUint64] MaxUint64_unat by (simp add: MaxUint64_def)
  then have f: "f \<longleftrightarrow> 2 ^ 64 \<le> unat x + unat y"
    using a unat_u64 [of x] by (auto simp: SafeAdd_def word_less_nat_alt)
  then show ?thesis using a by (auto simp: SafeAdd_def unat_word_ariths)
qed

lemma SafeSub_exact:
  "SafeSub x y = (r, f) \<Longrightarrow> (f \<longleftrightarrow> unat x < unat y) \<and> (\<not> f \<longrightarrow> unat r = unat x - unat y)"
  by (auto simp: SafeSub_def word_less_nat_alt unat_sub_if_size)

lemma SafeMul_exact:
  "SafeMul x y = (r, f) \<Longrightarrow> (f \<longleftrightarrow> 2 ^ 64 \<le> unat x * unat y) \<and> (\<not> f \<longrightarrow> unat r = unat x * unat y)"
proof -
  assume a: "SafeMul x y = (r, f)"
  show ?thesis
  proof (cases "x = 0 \<or> y = 0")
    case True
    then show ?thesis using a by (auto simp: SafeMul_def)
  next
    case False
    then have x: "0 < unat x" by (simp add: unat_gt_0)
    have "f \<longleftrightarrow> (2 ^ 64 - 1) div unat x < unat y"
      using a False by (auto simp: SafeMul_def word_less_nat_alt unat_div MaxUint64_unat)
    also have "\<dots> \<longleftrightarrow> 2 ^ 64 - 1 < unat y * unat x" using x by (simp add: div_less_iff_less_mult)
    finally have f: "f \<longleftrightarrow> 2 ^ 64 \<le> unat x * unat y" by (auto simp: mult.commute)
    then show ?thesis using a False by (auto simp: SafeMul_def unat_word_ariths)
  qed
qed

section \<open>Words of a big integer\<close>

lemma U256_mod: "U256 x = x mod 2 ^ 256"
proof -
  have m: "tt256m1 = mask 256" by (simp add: tt256m1_def tt256_def mask_eq_exp_minus_1)
  show ?thesis unfolding U256_def m by (simp only: take_bit_eq_mask [symmetric] take_bit_eq_mod)
qed

lemma U256_word: "U256 x = uint (word_of_int x :: 256 word)"
  by (simp add: U256_mod unsigned_of_int take_bit_eq_mod)

lemma U256_range [simp]: "0 \<le> U256 x" "U256 x < 2 ^ 256"
  by (simp_all add: U256_mod)

lemma U256_idem: "0 \<le> x \<Longrightarrow> x < 2 ^ 256 \<Longrightarrow> U256 x = x"
  by (simp add: U256_mod)

lemma S256_sint:
  assumes "0 \<le> x" "x < 2 ^ 256"
  shows "S256 x = sint (word_of_int x :: 256 word)"
proof -
  have "sint (word_of_int x :: 256 word) = take_bit (Suc 255) x - 2 ^ Suc 255 * of_bool (bit x 255)"
    by (simp only: signed_of_int signed_take_bit_eq_take_bit_minus) simp
  moreover have "take_bit (Suc 255) x = x" using assms by (simp add: take_bit_eq_mod)
  moreover have "bit x 255 \<longleftrightarrow> 2 ^ 255 \<le> x"
  proof (cases "2 ^ 255 \<le> x")
    case True
    have "x div 2 ^ 255 = (x - 2 ^ 255) div 2 ^ 255 + 1" using True by simp
    moreover have "(x - 2 ^ 255) div 2 ^ 255 = 0" using True assms(2) by (intro div_pos_pos_trivial) auto
    ultimately show ?thesis using True by (simp only: bit_iff_odd) simp
  next
    case False
    then have "x div 2 ^ 255 = 0" using assms(1) by (intro div_pos_pos_trivial) auto
    then show ?thesis using False by (simp only: bit_iff_odd) simp
  qed
  ultimately show ?thesis by (simp add: S256_def tt255_def tt256_def)
qed

lemma word_bytes_digits:
  "word_bytes (word_of_int x) = map (\<lambda>j. word_of_int (x div 256 ^ j)) [0..<8]"
proof -
  have "(ucast (drop_bit (8 * j) (word_of_int x :: 64 word)) :: byte) = word_of_int (x div 256 ^ j)" if "j < 8" for j
  proof (rule bit_word_eqI)
    fix n :: nat
    assume n: "n < LENGTH(8)"
    have "(256 :: int) ^ j = 2 ^ (8 * j)" by (simp add: power_mult)
    then have "bit (x div 256 ^ j) n = bit x (8 * j + n)"
      by (simp add: drop_bit_eq_div [symmetric] bit_drop_bit_eq)
    then show "bit (ucast (drop_bit (8 * j) (word_of_int x :: 64 word)) :: byte) n = bit (word_of_int (x div 256 ^ j) :: byte) n"
      using n that by (simp add: bit_ucast_iff bit_drop_bit_eq bit_word_of_int_iff)
  qed
  then show ?thesis unfolding word_bytes_def by (intro map_cong) auto
qed

lemma Bits_digits:
  assumes "0 \<le> x"
  shows "concat (map word_bytes (Bits x)) = map (\<lambda>j. word_of_int (x div 256 ^ j)) [0..<8 * length (Bits x)]
    \<and> x < 256 ^ (8 * length (Bits x))"
  using assms
proof (induction x rule: Bits.induct)
  case (1 x)
  show ?case
  proof (cases "x = 0")
    case True
    then show ?thesis by (simp add: Bits.simps)
  next
    case False
    let ?y = "x div 2 ^ 64" and ?n = "length (Bits (x div 2 ^ 64))"
    have e: "(256 :: int) ^ 8 = 2 ^ 64" by simp
    have b: "Bits x = word_of_int x # Bits ?y" using False "1.prems" by (subst Bits.simps) simp
    have ih: "concat (map word_bytes (Bits ?y)) = map (\<lambda>j. word_of_int (?y div 256 ^ j)) [0..<8 * ?n]" "?y < 256 ^ (8 * ?n)"
      using "1.IH" False "1.prems" by (simp_all add: pos_imp_zdiv_nonneg_iff)
    have "map (\<lambda>j. word_of_int (?y div 256 ^ j)) [0..<8 * ?n] = map (\<lambda>j. (word_of_int (x div 256 ^ j) :: byte)) [8..<8 + 8 * ?n]"
    proof (rule nth_equalityI)
      fix i assume "i < length (map (\<lambda>j. word_of_int (?y div 256 ^ j) :: byte) [0..<8 * ?n])"
      moreover have "x div 2 ^ 64 div 256 ^ i = x div 256 ^ (8 + i)"
        unfolding power_add e by (simp add: zdiv_zmult2_eq)
      ultimately show "map (\<lambda>j. word_of_int (?y div 256 ^ j) :: byte) [0..<8 * ?n] ! i
          = map (\<lambda>j. word_of_int (x div 256 ^ j)) [8..<8 + 8 * ?n] ! i" by simp
    qed simp
    moreover have "x < 256 ^ (8 * length (Bits x))"
    proof -
      have "x < (?y + 1) * 2 ^ 64" using pos_mod_bound [of "2 ^ 64" x] by (simp add: minus_mod_eq_div_mult [symmetric] algebra_simps)
      also have "\<dots> \<le> 256 ^ (8 * ?n) * 2 ^ 64" using ih(2) by (intro mult_right_mono) auto
      finally show ?thesis by (simp add: b power_add mult.commute)
    qed
    ultimately show ?thesis using ih(1) b word_bytes_digits [of x] by (simp add: upt_add_eq_append [of 0 8, simplified])
  qed
qed

lemma ReadBits_digits:
  assumes "0 \<le> x"
  shows "ReadBits x n = map (\<lambda>i. word_of_int (x div 256 ^ (n - 1 - i))) [0..<n]"
proof -
  let ?m = "8 * length (Bits x)"
  have l: "take n (concat (map word_bytes (Bits x)) @ replicate n 0) = map (\<lambda>j. word_of_int (x div 256 ^ j)) [0..<n]"
  proof (rule nth_equalityI)
    fix i assume i: "i < length (take n (concat (map word_bytes (Bits x)) @ replicate n (0 :: byte)))"
    have "x div 256 ^ i = 0" if "?m \<le> i"
    proof -
      have "x < 256 ^ i" using Bits_digits [OF assms] power_increasing [OF that, of "256 :: int"] by linarith
      then show ?thesis using assms by simp
    qed
    then show "take n (concat (map word_bytes (Bits x)) @ replicate n 0) ! i = map (\<lambda>j. word_of_int (x div 256 ^ j)) [0..<n] ! i"
      using i Bits_digits [OF assms] by (auto simp: nth_append)
  qed (simp add: Bits_digits [OF assms])
  show ?thesis unfolding ReadBits_def l
    by (rule nth_equalityI) (auto simp: rev_nth)
qed

lemma ReadBits_Suc: "0 \<le> x \<Longrightarrow> ReadBits x (Suc n) = ReadBits (x div 256) n @ [word_of_int x]"
proof (rule nth_equalityI)
  fix i assume x: "0 \<le> x" and i: "i < length (ReadBits x (Suc n))"
  have q: "0 \<le> x div 256" using x by (simp add: pos_imp_zdiv_nonneg_iff)
  have "x div 256 div 256 ^ (n - 1 - i) = x div 256 ^ (n - i)" if "i < n"
  proof -
    have "n - i = Suc (n - 1 - i)" using that by simp
    then show ?thesis by (simp add: zdiv_zmult2_eq)
  qed
  then show "ReadBits x (Suc n) ! i = (ReadBits (x div 256) n @ [word_of_int x]) ! i"
    using i x q by (auto simp: ReadBits_digits nth_append less_Suc_eq)
qed (simp add: ReadBits_digits pos_imp_zdiv_nonneg_iff)

lemma SetBytes_snoc: "SetBytes (bs @ [b]) = SetBytes bs * 256 + uint b"
  by (simp add: SetBytes_def)

lemma SetBytes_ReadBits: "0 \<le> x \<Longrightarrow> SetBytes (ReadBits x n) = x mod 256 ^ n"
proof (induction n arbitrary: x)
  case 0
  then show ?case by (simp add: ReadBits_def SetBytes_def)
next
  case (Suc n)
  have "SetBytes (ReadBits x (Suc n)) = (x div 256) mod 256 ^ n * 256 + x mod 256"
    using Suc by (simp add: ReadBits_Suc SetBytes_snoc pos_imp_zdiv_nonneg_iff unsigned_of_int take_bit_eq_mod)
  also have "\<dots> = x mod 256 ^ Suc n" by (simp add: zmod_zmult2_eq)
  finally show ?case .
qed

section \<open>Exponentiation\<close>

lemma U256_mult: "U256 (U256 a * b) = U256 (a * b)" "U256 (a * U256 b) = U256 (a * b)"
  by (simp_all add: U256_mod mod_mult_left_eq mod_mult_right_eq)

lemma U256_U256 [simp]: "U256 (U256 x) = U256 x"
  by (simp add: U256_mod)

lemma U256_power: "U256 (U256 b ^ n) = U256 (b ^ n)"
  by (simp add: U256_mod power_mod)

lemma bit0_word: "(w :: 64 word) AND 1 = 1 \<longleftrightarrow> odd (uint w)"
proof -
  have "odd w \<longleftrightarrow> odd (uint w)" by (metis bit_0 bit_uint_iff len_gt_0)
  then show ?thesis by (simp add: and_one_eq odd_iff_mod_2_eq_one [symmetric])
qed

lemma uint_drop1: "uint (drop_bit 1 (w :: 64 word)) = uint w div 2"
  by (simp add: drop_bit_eq_div uint_div)

lemma Exp_word_value:
  "U256 r = r \<Longrightarrow> U256 b = b \<Longrightarrow>
   Exp_word n w r b = (U256 (r * b ^ nat (uint w mod 2 ^ n)), U256 (b ^ (2 ^ n)))"
proof (induction n arbitrary: w r b)
  case (Suc n)
  let ?u = "uint w" and ?r = "if w AND 1 = 1 then U256 (r * b) else r"
  define q where "q = nat ((?u div 2) mod 2 ^ n)"
  have "?u mod 2 ^ Suc n = 2 * ((?u div 2) mod 2 ^ n) + ?u mod 2"
    by (simp add: zmod_zmult2_eq)
  then have e: "nat (?u mod 2 ^ Suc n) = 2 * q + (if odd ?u then 1 else 0)"
    by (auto simp: q_def nat_add_distrib nat_mult_distrib odd_iff_mod_2_eq_one)
  have ih: "Exp_word n (drop_bit 1 w) ?r (U256 (b * b)) =
      (U256 (?r * U256 (b * b) ^ q), U256 (U256 (b * b) ^ (2 ^ n)))"
  proof -
    have "U256 ?r = ?r" using Suc.prems(1) by simp
    from Suc.IH [OF this U256_U256, of "drop_bit 1 w"] show ?thesis
      unfolding uint_drop1 q_def .
  qed
  have "U256 (?r * U256 (b * b) ^ q) = U256 (?r * (b * b) ^ q)"
    by (metis U256_mult(2) U256_power)
  also have "\<dots> = U256 (r * b ^ nat (?u mod 2 ^ Suc n))"
    unfolding e by (simp add: bit0_word U256_mult power_mult power2_eq_square mult.assoc)
  finally have r: "U256 (?r * U256 (b * b) ^ q) = U256 (r * b ^ nat (?u mod 2 ^ Suc n))" .
  have "U256 (U256 (b * b) ^ (2 ^ n)) = U256 (b ^ (2 ^ Suc n))"
  proof -
    have "(b * b) ^ (2 ^ n) = b ^ (2 ^ Suc n)" by (simp add: power_mult power2_eq_square)
    then show ?thesis by (metis U256_power)
  qed
  then show ?case using ih r by simp
qed simp

fun words_value :: "64 word list \<Rightarrow> int" where
  "words_value [] = 0"
| "words_value (w # ws) = uint w + 2 ^ 64 * words_value ws"

lemma words_value_nonneg: "0 \<le> words_value ws"
  by (induction ws) auto

lemma Bits_value: "0 \<le> x \<Longrightarrow> words_value (Bits x) = x"
proof (induction x rule: Bits.induct)
  case (1 x)
  then show ?case
  proof (cases "x = 0")
    case False
    then have "Bits x = word_of_int x # Bits (x div 2 ^ 64)" using "1.prems" by (subst Bits.simps) simp
    then show ?thesis using 1 False by (simp add: unsigned_of_int take_bit_eq_mod pos_imp_zdiv_nonneg_iff)
  qed (simp add: Bits.simps)
qed

lemma Exp_words_value:
  "U256 r = r \<Longrightarrow> U256 b = b \<Longrightarrow> fst (Exp_words ws r b) = U256 (r * b ^ nat (words_value ws))"
proof (induction ws arbitrary: r b)
  case (Cons w ws)
  have w: "nat (uint w mod 2 ^ 64) = nat (uint w)" using uint_lt2p [of w] by simp
  let ?r = "U256 (r * b ^ nat (uint w))" and ?b = "U256 (b ^ (2 ^ 64))"
  have "fst (Exp_words (w # ws) r b) = fst (Exp_words ws ?r ?b)"
    using Exp_word_value [OF Cons.prems, of 64 w] w by simp
  also have "\<dots> = U256 (?r * ?b ^ nat (words_value ws))" by (rule Cons.IH) simp_all
  also have "\<dots> = U256 (r * b ^ nat (uint w) * (b ^ (2 ^ 64)) ^ nat (words_value ws))"
    by (metis U256_mult U256_power)
  also have "\<dots> = U256 (r * b ^ nat (words_value (w # ws)))"
    by (simp add: nat_add_distrib nat_mult_distrib words_value_nonneg power_add power_mult mult.assoc)
  finally show ?case .
qed simp

lemma Exp_value: "0 \<le> b \<Longrightarrow> b < 2 ^ 256 \<Longrightarrow> 0 \<le> e \<Longrightarrow> fst (Exp b e) = U256 (b ^ nat e)"
  by (simp add: Exp_def Exp_words_value Bits_value U256_idem)

section \<open>Bit length and padding\<close>

lemma BitLen_less: "x < 2 ^ BitLen x"
proof (induction x rule: BitLen.induct)
  case (1 x)
  show ?case
  proof (cases "x = 0")
    case False
    have "\<bar>x\<bar> div 2 < 2 ^ BitLen (\<bar>x\<bar> div 2)" using 1 False by simp
    then have "\<bar>x\<bar> < 2 * 2 ^ BitLen (\<bar>x\<bar> div 2)" by linarith
    then show ?thesis using False by (subst BitLen.simps) auto
  qed (simp add: BitLen.simps)
qed

lemma BitLen_le: "0 \<le> x \<Longrightarrow> x < 2 ^ n \<Longrightarrow> BitLen x \<le> n"
proof (induction n arbitrary: x)
  case (Suc n)
  have "x div 2 < 2 ^ n" using Suc.prems by simp
  then have "BitLen (x div 2) \<le> n" using Suc by simp
  then show ?case using Suc.prems by (subst BitLen.simps) auto
qed (simp add: BitLen.simps)

lemma length_ReadBits [simp]: "length (ReadBits x n) = n"
  by (simp add: ReadBits_def)

lemma PaddedBigBytes_ReadBits:
  assumes "0 \<le> x" "x < 256 ^ n"
  shows "PaddedBigBytes x n = ReadBits x n"
proof -
  have "x < 2 ^ (8 * n)" using assms(2) by (simp add: power_mult)
  then have "BitLen x \<le> 8 * n" by (rule BitLen_le [OF assms(1)])
  then have "BitLen x = 8 * n" if "n \<le> BitLen x div 8" using that by linarith
  then show ?thesis by (auto simp: PaddedBigBytes_def big_Bytes_def)
qed

lemma SetBytes_big_Bytes: "0 \<le> x \<Longrightarrow> SetBytes (big_Bytes x) = x"
proof -
  assume x: "0 \<le> x"
  let ?n = "(BitLen x + 7) div 8"
  have "x < 2 ^ BitLen x" by (rule BitLen_less)
  also have "\<dots> \<le> (2 :: int) ^ (8 * ?n)" by (intro power_increasing) auto
  finally have "x < 256 ^ ?n" by (simp add: power_mult)
  then show ?thesis using x by (simp add: big_Bytes_def SetBytes_ReadBits)
qed

section \<open>Properties\<close>

text \<open>the checked 64-bit operations of \<open>common/math/integer.go\<close> return the wrapped result, and
  their flag is raised exactly when the mathematical result does not fit: no overflow of
  a sum or product and no underflow of a difference goes unnoticed, and none is reported
  without cause.\<close>

theorem checked_arithmetic_exact:
  "unat (fst (SafeAdd x y)) = (unat x + unat y) mod 2 ^ 64 \<and> snd (SafeAdd x y) = (2 ^ 64 \<le> unat x + unat y) \<and>
   unat (fst (SafeMul x y)) = (unat x * unat y) mod 2 ^ 64 \<and> snd (SafeMul x y) = (2 ^ 64 \<le> unat x * unat y) \<and>
   int (unat (fst (SafeSub x y))) = (int (unat x) - int (unat y)) mod 2 ^ 64 \<and> snd (SafeSub x y) = (unat x < unat y)"
proof -
  have "unat (fst (SafeAdd x y)) = (unat x + unat y) mod 2 ^ 64" by (simp add: SafeAdd_def unat_word_ariths)
  moreover have "unat (fst (SafeMul x y)) = (unat x * unat y) mod 2 ^ 64" by (auto simp: SafeMul_def unat_word_ariths)
  moreover have "int (unat (fst (SafeSub x y))) = (int (unat x) - int (unat y)) mod 2 ^ 64"
    by (simp add: SafeSub_def uint_word_ariths)
  ultimately show ?thesis
    by (intro conjI SafeAdd_exact [OF prod.collapse [symmetric], THEN conjunct1]
        SafeMul_exact [OF prod.collapse [symmetric], THEN conjunct1]
        SafeSub_exact [OF prod.collapse [symmetric], THEN conjunct1])
qed

text \<open>\<open>math.Exp\<close>, which squares and multiplies over the 64-bit words of the exponent, reducing
  modulo 2^256 at every step, computes the power modulo 2^256 for every 256-bit base and
  every exponent.\<close>

theorem Exp_is_power:
  "0 \<le> b \<Longrightarrow> b < 2 ^ 256 \<Longrightarrow> 0 \<le> e \<Longrightarrow> fst (Exp b e) = b ^ nat e mod 2 ^ 256"
  by (simp add: Exp_value U256_mod)

theorem Exp_is_power_witness: "fst (Exp 3 5) = 243"
  using Exp_is_power [of 3 5] by simp

text \<open>\<open>PaddedBigBytes\<close> and \<open>SetBytes\<close> round trip: an integer that fits into n bytes is written as
  exactly n bytes and read back unchanged.\<close>

theorem padded_round_trip:
  "0 \<le> x \<Longrightarrow> x < 256 ^ n \<Longrightarrow> length (PaddedBigBytes x n) = n \<and> SetBytes (PaddedBigBytes x n) = x"
  by (simp add: PaddedBigBytes_ReadBits SetBytes_ReadBits)

theorem padded_round_trip_witness:
  "length (PaddedBigBytes 1000 4) = 4 \<and> SetBytes (PaddedBigBytes 1000 4) = 1000"
  by (rule padded_round_trip) simp_all

end
