(* ===== verification/VMBase.thy ===== *)
theory VMBase
  imports BigMath
begin

unbundle bit_operations_syntax

text \<open>
  The data structures of the virtual machine: \<open>core/vm/stack.go\<close>, \<open>memory.go\<close>, \<open>contract.go\<close>,
  \<open>common.go\<close>, \<open>analysis.go\<close>, \<open>stack_table.go\<close>, \<open>memory_table.go\<close> and the constants of
  \<open>core/vm/gas.go\<close> and \<open>params/protocol.go\<close>. A stack is a list whose head is the top of the
  stack. Slicing and indexing check their bounds as Go does and panic outside them; a
  slice is bounded by its length. The pool of reusable big integers holds no observable
  value, every integer taken from it being overwritten, and is left out.
\<close>

section \<open>Errors\<close>

datatype vm_error =
    ErrOutOfGas
  | ErrCodeStoreOutOfGas
  | ErrDepth
  | ErrInsufficientBalance
  | ErrContractAddressCollision
  | errWriteProtection
  | errReturnDataOutOfBounds
  | errExecutionReverted
  | errMaxCodeSizeExceeded
  | errGasUintOverflow
  | errBadPairingInput
  | errCurvePoint
  | StackUnderflow nat nat
  | StackLimitReached nat
  | InvalidOpcode byte
  | InvalidJumpDestination byte int

section \<open>Constants\<close>

definition GasQuickStep :: u64 where "GasQuickStep = 2"
definition GasFastestStep :: u64 where "GasFastestStep = 3"
definition GasFastStep :: u64 where "GasFastStep = 5"
definition GasMidStep :: u64 where "GasMidStep = 8"
definition GasSlowStep :: u64 where "GasSlowStep = 10"
definition GasExtStep :: u64 where "GasExtStep = 20"

definition CallValueTransferGas :: u64 where "CallValueTransferGas = 9000"
definition CallNewAccountGas :: u64 where "CallNewAccountGas = 25000"
definition QuadCoeffDiv :: u64 where "QuadCoeffDiv = 512"
definition SstoreSetGas :: u64 where "SstoreSetGas = 20000"
definition LogDataGas :: u64 where "LogDataGas = 8"
definition CallStipend :: u64 where "CallStipend = 2300"
definition Sha3Gas :: u64 where "Sha3Gas = 30"
definition Sha3WordGas :: u64 where "Sha3WordGas = 6"
definition SstoreResetGas :: u64 where "SstoreResetGas = 5000"
definition SstoreClearGas :: u64 where "SstoreClearGas = 5000"
definition SstoreRefundGas :: u64 where "SstoreRefundGas = 15000"
definition JumpdestGas :: u64 where "JumpdestGas = 1"
definition CreateDataGas :: u64 where "CreateDataGas = 200"
definition CallCreateDepth :: int where "CallCreateDepth = 1024"
definition LogGas :: u64 where "LogGas = 375"
definition CopyGas :: u64 where "CopyGas = 3"
definition StackLimit :: nat where "StackLimit = 1024"
definition LogTopicGas :: u64 where "LogTopicGas = 375"
definition CreateGas :: u64 where "CreateGas = 32000"
definition SuicideRefundGas :: u64 where "SuicideRefundGas = 24000"
definition MemoryGas :: u64 where "MemoryGas = 3"
definition MaxCodeSize :: nat where "MaxCodeSize = 24576"

named_theorems gas_consts \<open>values of the gas constants\<close>

lemmas [gas_consts] = GasQuickStep_def GasFastestStep_def GasFastStep_def GasMidStep_def
  GasSlowStep_def GasExtStep_def CallValueTransferGas_def CallNewAccountGas_def QuadCoeffDiv_def
  SstoreSetGas_def LogDataGas_def CallStipend_def Sha3Gas_def Sha3WordGas_def SstoreResetGas_def
  SstoreClearGas_def SstoreRefundGas_def JumpdestGas_def CreateDataGas_def LogGas_def CopyGas_def
  LogTopicGas_def CreateGas_def SuicideRefundGas_def MemoryGas_def

record GasTable =
  gt_ExtcodeSize :: u64
  gt_ExtcodeCopy :: u64
  gt_Balance :: u64
  gt_SLoad :: u64
  gt_Calls :: u64
  gt_Suicide :: u64
  gt_ExpByte :: u64
  gt_CreateBySuicide :: u64

definition DefualtGasTable :: GasTable where
  "DefualtGasTable = \<lparr>gt_ExtcodeSize = 700, gt_ExtcodeCopy = 700, gt_Balance = 400, gt_SLoad = 200,
     gt_Calls = 700, gt_Suicide = 5000, gt_ExpByte = 50, gt_CreateBySuicide = 25000\<rparr>"

section \<open>Slices\<close>

text \<open>\<open>b[i:j]\<close> with signed bounds.\<close>

definition slice :: "bytes \<Rightarrow> int \<Rightarrow> int \<Rightarrow> go_panic + bytes" where
  "slice b i j =
     (if 0 \<le> i \<and> i \<le> j \<and> j \<le> int (length b) then Inr (take (nat (j - i)) (drop (nat i) b))
      else Inl SliceOutOfRange)"

text \<open>Wrapping of a signed 64-bit integer.\<close>

definition int64 :: "int \<Rightarrow> int" where
  "int64 x = sint (word_of_int x :: u64)"

section \<open>Stack\<close>

type_synonym stack = "int list"

definition push :: "int \<Rightarrow> stack \<Rightarrow> stack" where
  "push d st = d # st"

fun pop :: "stack \<Rightarrow> go_panic + (int \<times> stack)" where
  "pop [] = Inl IndexOutOfRange"
| "pop (x # st) = Inr (x, st)"

definition Back :: "stack \<Rightarrow> nat \<Rightarrow> go_panic + int" where
  "Back st n = (if n < length st then Inr (st ! n) else Inl IndexOutOfRange)"

definition peek :: "stack \<Rightarrow> go_panic + int" where
  "peek st = Back st 0"

definition swap :: "nat \<Rightarrow> stack \<Rightarrow> go_panic + stack" where
  "swap n st =
     (if 0 < n \<and> n \<le> length st then Inr (st[0 := st ! (n - 1), n - 1 := st ! 0])
      else Inl IndexOutOfRange)"

definition dup :: "nat \<Rightarrow> stack \<Rightarrow> go_panic + stack" where
  "dup n st = (if 0 < n \<and> n \<le> length st then Inr (push (st ! (n - 1)) st) else Inl IndexOutOfRange)"

definition require :: "nat \<Rightarrow> stack \<Rightarrow> vm_error option" where
  "require n st = (if length st < n then Some (StackUnderflow (length st) n) else None)"

definition makeStackFunc :: "nat \<Rightarrow> nat \<Rightarrow> stack \<Rightarrow> vm_error option" where
  "makeStackFunc pops pushes st =
     (case require pops st of
        Some err \<Rightarrow> Some err
      | None \<Rightarrow> if length st + pushes - pops > StackLimit then Some (StackLimitReached (length st)) else None)"

definition makeDupStackFunc :: "nat \<Rightarrow> stack \<Rightarrow> vm_error option" where
  "makeDupStackFunc n = makeStackFunc n (n + 1)"

definition makeSwapStackFunc :: "nat \<Rightarrow> stack \<Rightarrow> vm_error option" where
  "makeSwapStackFunc n = makeStackFunc n n"

section \<open>Memory\<close>

record Memory =
  store :: bytes
  lastGasCost :: u64

definition NewMemory :: Memory where
  "NewMemory = \<lparr>store = [], lastGasCost = 0\<rparr>"

text \<open>Go's \<open>copy(dst[i:j], src)\<close> within \<open>dst\<close>.\<close>

definition copy_into :: "bytes \<Rightarrow> nat \<Rightarrow> nat \<Rightarrow> bytes \<Rightarrow> bytes" where
  "copy_into dst i n src =
     (let k = min n (length src) in take i dst @ take k src @ drop (i + k) dst)"

definition mem_Set :: "u64 \<Rightarrow> u64 \<Rightarrow> bytes \<Rightarrow> Memory \<Rightarrow> go_panic + Memory" where
  "mem_Set offset sz value mem =
     (if unat sz > length (store mem) then Inl (PanicMsg ''INVALID memory: store empty'')
      else if sz > 0
      then (let e = offset + sz
            in if offset \<le> e \<and> unat e \<le> length (store mem)
               then Inr (mem\<lparr>store := copy_into (store mem) (unat offset) (unat sz) value\<rparr>)
               else Inl SliceOutOfRange)
      else Inr mem)"

definition Resize :: "u64 \<Rightarrow> Memory \<Rightarrow> Memory" where
  "Resize sz mem =
     (if length (store mem) < unat sz
      then mem\<lparr>store := store mem @ replicate (unat sz - length (store mem)) 0\<rparr> else mem)"

definition mem_Get :: "int \<Rightarrow> int \<Rightarrow> Memory \<Rightarrow> go_panic + bytes" where
  "mem_Get offset sz mem =
     (if sz = 0 then Inr []
      else if int (length (store mem)) > offset
      then (if sz < 0 then Inl (PanicMsg ''makeslice: len out of range'')
            else slice (store mem) offset (int64 (offset + sz)))
      else Inr [])"

definition GetPtr :: "int \<Rightarrow> int \<Rightarrow> Memory \<Rightarrow> go_panic + bytes" where
  "GetPtr offset sz mem =
     (if sz = 0 then Inr []
      else if int (length (store mem)) > offset then slice (store mem) offset (int64 (offset + sz))
      else Inr [])"

definition mem_Len :: "Memory \<Rightarrow> nat" where
  "mem_Len mem = length (store mem)"

section \<open>Helpers\<close>

definition calcMemSize :: "int \<Rightarrow> int \<Rightarrow> int" where
  "calcMemSize off l = (if l = 0 then 0 else off + l)"

definition getData :: "bytes \<Rightarrow> u64 \<Rightarrow> u64 \<Rightarrow> go_panic + bytes" where
  "getData data start sz =
     (let len = word_of_nat (length data);
          start1 = (if start > len then len else start);
          end0 = start1 + sz;
          end1 = (if end0 > len then len else end0)
      in rbind (slice data (uint start1) (uint end1)) (\<lambda>b. Inr (RightPadBytes b (sint sz))))"

definition getDataBig :: "bytes \<Rightarrow> int \<Rightarrow> int \<Rightarrow> go_panic + bytes" where
  "getDataBig data start sz =
     (let dlen = int (length data); s = BigMin start dlen; e = BigMin (s + sz) dlen
      in rbind (slice data (uint (Uint64 s)) (uint (Uint64 e))) (\<lambda>b.
           Inr (RightPadBytes b (sint (Uint64 sz)))))"

definition bigUint64 :: "int \<Rightarrow> u64 \<times> bool" where
  "bigUint64 v = (Uint64 v, BitLen v > 64)"

definition toWordSize :: "u64 \<Rightarrow> u64" where
  "toWordSize sz = (if sz > MaxUint64 - 31 then MaxUint64 div 32 + 1 else (sz + 31) div 32)"

section \<open>Jump destinations\<close>

definition JUMPDEST :: byte where "JUMPDEST = 0x5b"
definition PUSH1 :: byte where "PUSH1 = 0x60"
definition PUSH32 :: byte where "PUSH32 = 0x7f"

type_synonym bitvec = bytes
type_synonym destinations = "hash \<rightharpoonup> bitvec"

definition bits_or :: "nat \<Rightarrow> byte \<Rightarrow> bitvec \<Rightarrow> go_panic + bitvec" where
  "bits_or i m bits = (if i < length bits then Inr (bits[i := bits ! i OR m]) else Inl IndexOutOfRange)"

definition bitvec_set :: "nat \<Rightarrow> bitvec \<Rightarrow> go_panic + bitvec" where
  "bitvec_set pos bits = bits_or (pos div 8) (drop_bit (pos mod 8) 0x80) bits"

definition bitvec_set8 :: "nat \<Rightarrow> bitvec \<Rightarrow> go_panic + bitvec" where
  "bitvec_set8 pos bits =
     rbind (bits_or (pos div 8) (drop_bit (pos mod 8) 0xFF) bits)
       (bits_or (pos div 8 + 1) (NOT (drop_bit (pos mod 8) 0xFF)))"

text \<open>The index panic of \<open>codeSegment\<close> is told apart from the others.\<close>

definition bitvec_panic :: go_panic where
  "bitvec_panic = PanicMsg ''index out of range: bitvec''"

definition codeSegment :: "nat \<Rightarrow> bitvec \<Rightarrow> go_panic + bool" where
  "codeSegment pos bits =
     (if pos div 8 < length bits then Inr (bits ! (pos div 8) AND drop_bit (pos mod 8) 0x80 = 0)
      else Inl bitvec_panic)"

text \<open>The two inner loops of \<open>codeBitmap\<close>: eight bits at a time, then one by one.\<close>

fun set_bits :: "nat \<Rightarrow> nat \<Rightarrow> bitvec \<Rightarrow> go_panic + bitvec" where
  "set_bits numbits pc bits =
     (if numbits \<ge> 8 then rbind (bitvec_set8 pc bits) (set_bits (numbits - 8) (pc + 8))
      else if numbits > 0 then rbind (bitvec_set pc bits) (set_bits (numbits - 1) (pc + 1))
      else Inr bits)"

declare set_bits.simps [simp del]

function codeBitmap_loop :: "bytes \<Rightarrow> nat \<Rightarrow> bitvec \<Rightarrow> go_panic + bitvec" where
  "codeBitmap_loop code pc bits =
     (if pc < length code
      then (let op = code ! pc
            in if op \<ge> PUSH1 \<and> op \<le> PUSH32
               then (let numbits = unat (op - PUSH1 + 1)
                     in rbind (set_bits numbits (pc + 1) bits) (codeBitmap_loop code (pc + 1 + numbits)))
               else codeBitmap_loop code (pc + 1) bits)
      else Inr bits)"
  by pat_completeness auto
termination
  by (relation "measure (\<lambda>(code, pc, bits). length code - pc)") auto

declare codeBitmap_loop.simps [simp del]

definition codeBitmap :: "bytes \<Rightarrow> go_panic + bitvec" where
  "codeBitmap code = codeBitmap_loop code 0 (replicate (length code div 8 + 1 + 4) 0)"

definition has :: "destinations \<Rightarrow> hash \<Rightarrow> bytes \<Rightarrow> int \<Rightarrow> go_panic + (bool \<times> destinations)" where
  "has d codehash code dest =
     (let udest = Uint64 dest
      in if BitLen dest \<ge> 63 \<or> udest \<ge> word_of_nat (length code) then Inr (False, d)
         else rbind (case d codehash of Some m \<Rightarrow> Inr (m, d)
                     | None \<Rightarrow> rbind (codeBitmap code) (\<lambda>m. Inr (m, d(codehash \<mapsto> m)))) (\<lambda>(m, d1).
              if code ! unat udest = JUMPDEST
              then rbind (codeSegment (unat udest) m) (\<lambda>c. Inr (c, d1))
              else Inr (False, d1)))"

section \<open>Contracts\<close>

text \<open>What is read off a \<open>ContractRef\<close>: its address and, when it is a \<open>*Contract\<close>, the caller and
  the value that \<open>AsDelegate\<close> takes over.\<close>

record ContractRef =
  ref_Address :: address
  ref_contract :: "(address \<times> bigp) option"

definition AccountRef :: "address \<Rightarrow> ContractRef" where
  "AccountRef a = \<lparr>ref_Address = a, ref_contract = None\<rparr>"

record Contract =
  CallerAddress :: address
  c_caller :: ContractRef
  c_self :: address
  Code :: bytes
  c_CodeHash :: hash
  CodeAddr :: "address option"
  Input :: bytes
  Gas :: u64
  c_value :: bigp
  DelegateCall_flag :: bool

definition NewContract :: "ContractRef \<Rightarrow> ContractRef \<Rightarrow> bigp \<Rightarrow> u64 \<Rightarrow> Contract" where
  "NewContract caller object value gas =
     \<lparr>CallerAddress = ref_Address caller, c_caller = caller, c_self = ref_Address object, Code = [],
      c_CodeHash = 0, CodeAddr = None, Input = [], Gas = gas, c_value = value, DelegateCall_flag = False\<rparr>"

definition contract_ref :: "Contract \<Rightarrow> ContractRef" where
  "contract_ref c = \<lparr>ref_Address = c_self c, ref_contract = Some (CallerAddress c, c_value c)\<rparr>"

definition AsDelegate :: "Contract \<Rightarrow> go_panic + Contract" where
  "AsDelegate c =
     (case ref_contract (c_caller c) of
        None \<Rightarrow> Inl (PanicMsg ''interface conversion'')
      | Some (parentCaller, parentValue) \<Rightarrow>
          Inr (c\<lparr>DelegateCall_flag := True, CallerAddress := parentCaller, c_value := parentValue\<rparr>))"

definition GetByte :: "Contract \<Rightarrow> u64 \<Rightarrow> byte" where
  "GetByte c n = (if n < word_of_nat (length (Code c)) then Code c ! unat n else 0)"

definition GetOp :: "Contract \<Rightarrow> u64 \<Rightarrow> byte" where
  "GetOp c n = GetByte c n"

definition UseGas :: "u64 \<Rightarrow> Contract \<Rightarrow> bool \<times> Contract" where
  "UseGas gas c = (if Gas c < gas then (False, c) else (True, c\<lparr>Gas := Gas c - gas\<rparr>))"

definition SetCallCode :: "address \<Rightarrow> hash \<Rightarrow> bytes \<Rightarrow> Contract \<Rightarrow> Contract" where
  "SetCallCode addr h code c = c\<lparr>Code := code, c_CodeHash := h, CodeAddr := Some addr\<rparr>"

section \<open>Memory sizes\<close>

text \<open>\<open>core/vm/memory_table.go\<close>: the end of the memory an operation touches. \<open>mem_range i j\<close> is
  \<open>calcMemSize(stack.Back(i), stack.Back(j))\<close>.\<close>

definition mem_range :: "nat \<Rightarrow> nat \<Rightarrow> stack \<Rightarrow> go_panic + int" where
  "mem_range i j st = rbind (Back st i) (\<lambda>off. rbind (Back st j) (\<lambda>l. Inr (calcMemSize off l)))"

definition mem_fixed :: "int \<Rightarrow> stack \<Rightarrow> go_panic + int" where
  "mem_fixed l st = rbind (Back st 0) (\<lambda>off. Inr (calcMemSize off l))"

definition mem_max :: "(stack \<Rightarrow> go_panic + int) \<Rightarrow> (stack \<Rightarrow> go_panic + int) \<Rightarrow> stack \<Rightarrow> go_panic + int" where
  "mem_max f g st = rbind (f st) (\<lambda>x. rbind (g st) (\<lambda>y. Inr (BigMax x y)))"

definition memorySha3 :: "stack \<Rightarrow> go_panic + int" where "memorySha3 = mem_range 0 1"
definition memoryCallDataCopy :: "stack \<Rightarrow> go_panic + int" where "memoryCallDataCopy = mem_range 0 2"
definition memoryReturnDataCopy :: "stack \<Rightarrow> go_panic + int" where "memoryReturnDataCopy = mem_range 0 2"
definition memoryCodeCopy :: "stack \<Rightarrow> go_panic + int" where "memoryCodeCopy = mem_range 0 2"
definition memoryExtCodeCopy :: "stack \<Rightarrow> go_panic + int" where "memoryExtCodeCopy = mem_range 1 3"
definition memoryMLoad :: "stack \<Rightarrow> go_panic + int" where "memoryMLoad = mem_fixed 32"
definition memoryMStore8 :: "stack \<Rightarrow> go_panic + int" where "memoryMStore8 = mem_fixed 1"
definition memoryMStore :: "stack \<Rightarrow> go_panic + int" where "memoryMStore = mem_fixed 32"
definition memoryCreate :: "stack \<Rightarrow> go_panic + int" where "memoryCreate = mem_range 1 2"
definition memoryCall :: "stack \<Rightarrow> go_panic + int" where "memoryCall = mem_max (mem_range 5 6) (mem_range 3 4)"
definition memoryCallCode :: "stack \<Rightarrow> go_panic + int" where "memoryCallCode = mem_max (mem_range 5 6) (mem_range 3 4)"
definition memoryDelegateCall :: "stack \<Rightarrow> go_panic + int" where "memoryDelegateCall = mem_max (mem_range 4 5) (mem_range 2 3)"
definition memoryStaticCall :: "stack \<Rightarrow> go_panic + int" where "memoryStaticCall = mem_max (mem_range 4 5) (mem_range 2 3)"
definition memoryReturn :: "stack \<Rightarrow> go_panic + int" where "memoryReturn = mem_range 0 1"
definition memoryRevert :: "stack \<Rightarrow> go_panic + int" where "memoryRevert = mem_range 0 1"
definition memoryLog :: "stack \<Rightarrow> go_panic + int" where "memoryLog = mem_range 0 1"

end
