(* ===== verification/VMAnalysis.thy ===== *)
theory VMAnalysis
  imports VMBase
begin

unbundle bit_operations_syntax

text \<open>
  The jump destination analysis of \<open>core/vm/analysis.go\<close> is correct: the bit vector is long
  enough for every access, and a position is marked exactly when it is the operand of a
  push. The reference is \<open>code_starts\<close>, the positions at which an instruction starts.
\<close>

definition push_len :: "byte \<Rightarrow> nat" where
  "push_len op = (if op \<ge> PUSH1 \<and> op \<le> PUSH32 then unat (op - PUSH1 + 1) else 0)"

function code_starts :: "bytes \<Rightarrow> nat \<Rightarrow> nat list" where
  "code_starts code pc =
     (if pc < length code then pc # code_starts code (pc + 1 + push_len (code ! pc)) else [])"
  by pat_completeness auto
termination
  by (relation "measure (\<lambda>(code, pc). length code - pc)") auto

declare code_starts.simps [simp del]

definition valid_jumpdest :: "bytes \<Rightarrow> nat \<Rightarrow> bool" where
  "valid_jumpdest code pos \<longleftrightarrow> pos \<in> set (code_starts code 0) \<and> code ! pos = JUMPDEST"

text \<open>The bit of a position.\<close>

definition bit_at :: "bitvec \<Rightarrow> nat \<Rightarrow> bool" where
  "bit_at bits p \<longleftrightarrow> p div 8 < length bits \<and> bit (bits ! (p div 8)) (7 - p mod 8)"

lemma bit_0x80: "bit (drop_bit n (0x80 :: byte)) k \<longleftrightarrow> n + k = 7"
proof -
  have "bit (2 ^ 7 :: byte) m \<longleftrightarrow> m = 7" for m by (auto simp only: bit_exp_iff possible_bit_word) auto
  moreover have "(2 ^ 7 :: byte) = 0x80" by simp
  ultimately show ?thesis by (simp only: bit_drop_bit_eq o_apply)
qed

lemma bit_0xFF: "bit (drop_bit n (0xFF :: byte)) k \<longleftrightarrow> n + k < 8"
proof -
  have "(0xFF :: byte) = - 1" by simp
  then show ?thesis by (simp only: bit_drop_bit_eq bit_minus_1_iff) auto
qed

lemma bits_or_spec:
  assumes "i < length bits"
  shows "\<exists>bits'. bits_or i msk bits = Inr bits' \<and> length bits' = length bits \<and>
    (\<forall>p. bit_at bits' p \<longleftrightarrow> bit_at bits p \<or> (p div 8 = i \<and> bit msk (7 - p mod 8)))"
  using assms by (auto simp: bits_or_def bit_at_def bit_or_iff nth_list_update)

lemma bitvec_set_spec:
  assumes "pos < 8 * length bits"
  shows "\<exists>bits'. bitvec_set pos bits = Inr bits' \<and> length bits' = length bits \<and>
    (\<forall>p. bit_at bits' p \<longleftrightarrow> bit_at bits p \<or> p = pos)"
proof -
  have i: "pos div 8 < length bits" using assms by (simp add: div_less_iff_less_mult mult.commute)
  have e: "(p div 8 = pos div 8 \<and> pos mod 8 + (7 - p mod 8) = 7) \<longleftrightarrow> p = pos" for p :: nat
  proof -
    have "pos mod 8 + (7 - p mod 8) = 7 \<longleftrightarrow> p mod 8 = pos mod 8"
      using mod_less_divisor [of 8 p] mod_less_divisor [of 8 pos] by linarith
    then show ?thesis using div_mult_mod_eq [of p 8] div_mult_mod_eq [of pos 8] by metis
  qed
  show ?thesis
    using bits_or_spec [OF i, of "drop_bit (pos mod 8) 0x80"] unfolding bitvec_set_def bit_0x80 e .
qed

lemma bitvec_set8_spec:
  assumes "pos + 8 < 8 * length bits"
  shows "\<exists>bits'. bitvec_set8 pos bits = Inr bits' \<and> length bits' = length bits \<and>
    (\<forall>p. bit_at bits' p \<longleftrightarrow> bit_at bits p \<or> (pos \<le> p \<and> p < pos + 8))"
proof -
  let ?m = "drop_bit (pos mod 8) (0xFF :: byte)" and ?i = "pos div 8"
  have i: "?i < length bits" "?i + 1 < length bits" using assms by linarith+
  obtain b1 where b1: "bits_or ?i ?m bits = Inr b1" "length b1 = length bits"
    "\<forall>p. bit_at b1 p \<longleftrightarrow> bit_at bits p \<or> (p div 8 = ?i \<and> bit ?m (7 - p mod 8))"
    using bits_or_spec [OF i(1)] by blast
  obtain b2 where b2: "bits_or (?i + 1) (NOT ?m) b1 = Inr b2" "length b2 = length bits"
    "\<forall>p. bit_at b2 p \<longleftrightarrow> bit_at b1 p \<or> (p div 8 = ?i + 1 \<and> bit (NOT ?m) (7 - p mod 8))"
    using bits_or_spec [of "?i + 1" b1 "NOT ?m"] i(2) b1(2) by auto
  have e: "(p div 8 = ?i \<and> pos mod 8 + (7 - p mod 8) < 8) \<or> (p div 8 = ?i + 1 \<and> \<not> pos mod 8 + (7 - p mod 8) < 8)
      \<longleftrightarrow> pos \<le> p \<and> p < pos + 8" for p
    using mod_less_divisor [of 8 p] mod_less_divisor [of 8 pos] div_mult_mod_eq [of p 8] div_mult_mod_eq [of pos 8]
    by linarith
  have "bit (NOT ?m) (7 - p mod 8) \<longleftrightarrow> \<not> pos mod 8 + (7 - p mod 8) < 8" for p
    using diff_le_self [of 7 "p mod 8"] by (auto simp: bit_not_iff bit_0xFF simp del: diff_le_self)
  then have "\<forall>p. bit_at b2 p \<longleftrightarrow> bit_at bits p \<or> (pos \<le> p \<and> p < pos + 8)"
    using b1(3) b2(3) e by (simp add: bit_0xFF)
  then show ?thesis using b1(1) b2(1,2) by (simp add: bitvec_set8_def)
qed

lemma set_bits_spec:
  "pc + n < 8 * length bits \<Longrightarrow> \<exists>bits'. set_bits n pc bits = Inr bits' \<and> length bits' = length bits \<and>
    (\<forall>p. bit_at bits' p \<longleftrightarrow> bit_at bits p \<or> (pc \<le> p \<and> p < pc + n))"
proof (induction n arbitrary: pc bits rule: less_induct)
  case (less n)
  consider (eight) "n \<ge> 8" | (one) "0 < n" "n < 8" | (none) "n = 0" by linarith
  then show ?case
  proof cases
    case eight
    obtain b1 where b1: "bitvec_set8 pc bits = Inr b1" "length b1 = length bits"
      "\<forall>p. bit_at b1 p \<longleftrightarrow> bit_at bits p \<or> (pc \<le> p \<and> p < pc + 8)"
      using bitvec_set8_spec [of pc bits] less.prems eight by auto
    obtain b2 where b2: "set_bits (n - 8) (pc + 8) b1 = Inr b2" "length b2 = length b1"
      "\<forall>p. bit_at b2 p \<longleftrightarrow> bit_at b1 p \<or> (pc + 8 \<le> p \<and> p < pc + 8 + (n - 8))"
      using less.IH [of "n - 8" "pc + 8" b1] less.prems eight b1(2) by auto
    have "bit_at b2 p \<longleftrightarrow> bit_at bits p \<or> (pc \<le> p \<and> p < pc + n)" for p
    proof -
      have "(pc \<le> p \<and> p < pc + 8) \<or> (pc + 8 \<le> p \<and> p < pc + 8 + (n - 8)) \<longleftrightarrow> pc \<le> p \<and> p < pc + n"
        using eight by linarith
      then show ?thesis using b1(3) b2(3) by blast
    qed
    then show ?thesis using b1(1,2) b2(1,2) eight by (subst set_bits.simps) simp
  next
    case one
    obtain b1 where b1: "bitvec_set pc bits = Inr b1" "length b1 = length bits"
      "\<forall>p. bit_at b1 p \<longleftrightarrow> bit_at bits p \<or> p = pc"
      using bitvec_set_spec [of pc bits] less.prems by auto
    obtain b2 where b2: "set_bits (n - 1) (pc + 1) b1 = Inr b2" "length b2 = length b1"
      "\<forall>p. bit_at b2 p \<longleftrightarrow> bit_at b1 p \<or> (pc + 1 \<le> p \<and> p < pc + 1 + (n - 1))"
      using less.IH [of "n - 1" "pc + 1" b1] less.prems one b1(2) by auto
    have "bit_at b2 p \<longleftrightarrow> bit_at bits p \<or> (pc \<le> p \<and> p < pc + n)" for p
    proof -
      have "p = pc \<or> (pc + 1 \<le> p \<and> p < pc + 1 + (n - 1)) \<longleftrightarrow> pc \<le> p \<and> p < pc + n"
        using one by linarith
      then show ?thesis using b1(3) b2(3) by blast
    qed
    then show ?thesis using b1(1,2) b2(1,2) one by (subst set_bits.simps) simp
  next
    case none
    then show ?thesis by (subst set_bits.simps) auto
  qed
qed

lemma push_len_le: "push_len op \<le> 32"
proof (cases "op \<ge> PUSH1 \<and> op \<le> PUSH32")
  case True
  then have u: "unat op \<le> 127" "96 \<le> unat op" by (auto simp: PUSH1_def PUSH32_def word_le_nat_alt)
  then have "unat (op - 95) = unat op - 95" by (subst unat_sub) (auto simp: word_le_nat_alt)
  then show ?thesis using True u by (simp add: push_len_def PUSH1_def)
qed (auto simp: push_len_def)

lemma code_starts_ge: "p \<in> set (code_starts code pc) \<Longrightarrow> pc \<le> p"
proof (induction code pc rule: code_starts.induct)
  case (1 code pc)
  then show ?case by (cases "pc < length code") (auto simp: code_starts.simps [of code pc])
qed

lemma codeBitmap_loop_push:
  "codeBitmap_loop code pc bits =
     (if pc < length code
      then rbind (set_bits (push_len (code ! pc)) (pc + 1) bits) (codeBitmap_loop code (pc + 1 + push_len (code ! pc)))
      else Inr bits)"
  by (subst codeBitmap_loop.simps) (auto simp: push_len_def Let_def set_bits.simps [of 0])

lemma codeBitmap_loop_spec:
  "length code + 32 < 8 * length bits \<Longrightarrow> \<exists>bits'. codeBitmap_loop code pc bits = Inr bits' \<and>
     length bits' = length bits \<and>
     (\<forall>p < length code. bit_at bits' p \<longleftrightarrow> bit_at bits p \<or> (pc \<le> p \<and> p \<notin> set (code_starts code pc)))"
proof (induction code pc arbitrary: bits rule: code_starts.induct)
  case (1 code pc)
  show ?case
  proof (cases "pc < length code")
    case True
    let ?n = "push_len (code ! pc)"
    have "pc + 1 + ?n < 8 * length bits" using push_len_le [of "code ! pc"] True "1.prems" by linarith
    then obtain b1 where b1: "set_bits ?n (pc + 1) bits = Inr b1" "length b1 = length bits"
      "\<forall>p. bit_at b1 p \<longleftrightarrow> bit_at bits p \<or> (pc + 1 \<le> p \<and> p < pc + 1 + ?n)"
      using set_bits_spec by blast
    obtain b2 where b2: "codeBitmap_loop code (pc + 1 + ?n) b1 = Inr b2" "length b2 = length b1"
      "\<forall>p < length code. bit_at b2 p \<longleftrightarrow> bit_at b1 p \<or> (pc + 1 + ?n \<le> p \<and> p \<notin> set (code_starts code (pc + 1 + ?n)))"
      using "1.IH" [OF True, of b1] "1.prems" b1(2) by auto
    have "bit_at b2 p \<longleftrightarrow> bit_at bits p \<or> (pc \<le> p \<and> p \<notin> set (code_starts code pc))" if "p < length code" for p
      using b1(3) b2(3) that code_starts_ge [of p code "pc + 1 + ?n"] True
      by (auto simp: code_starts.simps [of code pc] not_less_eq_eq)
    then show ?thesis using True b1 b2 by (subst codeBitmap_loop_push) simp
  next
    case False
    then show ?thesis by (subst codeBitmap_loop_push) auto
  qed
qed

lemma codeBitmap_spec:
  "\<exists>bits. codeBitmap code = Inr bits \<and> length bits = length code div 8 + 5 \<and>
     (\<forall>p < length code. bit_at bits p \<longleftrightarrow> p \<notin> set (code_starts code 0))"
proof -
  let ?b = "replicate (length code div 8 + 1 + 4) (0 :: byte)"
  have "length code + 32 < 8 * length ?b" by simp
  moreover have "\<not> bit_at ?b p" for p by (auto simp: bit_at_def)
  ultimately show ?thesis using codeBitmap_loop_spec [of code ?b 0] by (simp add: codeBitmap_def add.commute)
qed

lemma codeSegment_bit_at: "pos div 8 < length bits \<Longrightarrow> codeSegment pos bits = Inr (\<not> bit_at bits pos)"
proof -
  assume i: "pos div 8 < length bits"
  have "bits ! (pos div 8) AND drop_bit (pos mod 8) 0x80 = 0 \<longleftrightarrow> \<not> bit (bits ! (pos div 8)) (7 - pos mod 8)"
  proof -
    have "w AND drop_bit (pos mod 8) 0x80 = 0 \<longleftrightarrow> \<not> bit w (7 - pos mod 8)" for w :: byte
    proof -
      have "bit (w AND drop_bit (pos mod 8) 0x80) k \<longleftrightarrow> k = 7 - pos mod 8 \<and> bit w k" for k
        using mod_less_divisor [of 8 pos] by (auto simp: bit_and_iff bit_0x80)
      then show ?thesis by (metis bit_0_eq bit_eqI bot_apply bot_bool_def)
    qed
    then show ?thesis .
  qed
  then show ?thesis using i by (simp add: codeSegment_def bit_at_def)
qed

section \<open>The cache of analysed codes\<close>

text \<open>A cache is sound for a code under its hash if what it holds there is that code's
  bit vector. This fails only if two codes share a hash.\<close>

definition cache_sound :: "destinations \<Rightarrow> hash \<Rightarrow> bytes \<Rightarrow> bool" where
  "cache_sound d h code \<longleftrightarrow> (\<forall>bits. d h = Some bits \<longrightarrow> codeBitmap code = Inr bits)"

lemma bitmap_segment:
  assumes "codeBitmap code = Inr bits" "p < length code"
  shows "codeSegment p bits = Inr (p \<in> set (code_starts code 0))"
proof -
  have "length bits = length code div 8 + 5" "bit_at bits p \<longleftrightarrow> p \<notin> set (code_starts code 0)"
    using codeBitmap_spec [of code] assms by auto
  moreover have "p div 8 \<le> length code div 8" using assms(2) by (intro div_le_mono) simp
  ultimately show ?thesis using codeSegment_bit_at [of p bits] by simp
qed

lemma code_starts_less: "p \<in> set (code_starts code pc) \<Longrightarrow> p < length code"
proof (induction code pc rule: code_starts.induct)
  case (1 code pc)
  then show ?case by (cases "pc < length code") (auto simp: code_starts.simps [of code pc])
qed

lemma has_sound:
  assumes c: "cache_sound d h code" and l: "length code < 2 ^ 62" and x: "0 \<le> x"
  shows "\<exists>d'. has d h code x = Inr (valid_jumpdest code (nat x), d') \<and> cache_sound d' h code
    \<and> (\<forall>h'. h' \<noteq> h \<longrightarrow> d' h' = d h')"
proof (cases "BitLen x \<ge> 63 \<or> Uint64 x \<ge> word_of_nat (length code)")
  case True
  have "\<not> nat x < length code"
  proof
    assume a: "nat x < length code"
    then have "nat x < 2 ^ 62" using l by linarith
    then have b: "x < 2 ^ 62" using x by (simp add: nat_less_iff)
    then have "BitLen x \<le> 62" using x by (intro BitLen_le) auto
    moreover have "unat (Uint64 x) = nat x" using x b by (simp add: Uint64_def unsigned_of_int take_bit_eq_mod)
    moreover have "unat (word_of_nat (length code) :: u64) = length code"
      using l by (subst unat_of_nat) simp
    ultimately show False using True a by (simp add: word_le_nat_alt)
  qed
  then have "\<not> valid_jumpdest code (nat x)" using code_starts_less by (auto simp: valid_jumpdest_def)
  then show ?thesis using True c by (auto simp: has_def)
next
  case False
  have u: "unat (Uint64 x) = nat x"
  proof -
    have "x < 2 ^ BitLen x" by (rule BitLen_less)
    also have "\<dots> \<le> (2 :: int) ^ 63" using False by (intro power_increasing) auto
    finally show ?thesis using x by (simp add: Uint64_def unsigned_of_int take_bit_eq_mod)
  qed
  moreover have "unat (word_of_nat (length code) :: u64) = length code" using l by (subst unat_of_nat) simp
  ultimately have lt: "nat x < length code" using False by (simp add: word_le_nat_alt)
  obtain bits where b: "codeBitmap code = Inr bits" using codeBitmap_spec [of code] by blast
  note seg = bitmap_segment [OF b lt]
  show ?thesis
  proof (cases "d h")
    case None
    then show ?thesis using False u b seg
      by (auto simp: has_def Let_def valid_jumpdest_def cache_sound_def)
  next
    case (Some bits')
    then have "bits' = bits" using c b by (simp add: cache_sound_def)
    then show ?thesis using Some False u b seg
      by (auto simp: has_def Let_def valid_jumpdest_def cache_sound_def)
  qed
qed

text \<open>Whatever the cache holds, the only panic of \<open>has\<close> is a bit vector that is too short.\<close>

lemma has_panics: "has d h code x = Inl p \<Longrightarrow> p = bitvec_panic"
proof -
  obtain bits where b: "codeBitmap code = Inr bits" using codeBitmap_spec [of code] by blast
  assume "has d h code x = Inl p"
  then show ?thesis using b
    by (auto simp: has_def Let_def codeSegment_def rbind_def split: if_splits option.splits)
qed

section \<open>Properties\<close>

text \<open>C25: The analysis never indexes outside its bit vector, and on a cache that holds the right
  vector for the running code a jump target is accepted exactly when an instruction of the
  code starts there, not an operand of a push, and this instruction is \<open>JUMPDEST\<close>. The cache
  stays right.\<close>

theorem jump_analysis_correct:
  "cache_sound d h code \<Longrightarrow> length code < 2 ^ 62 \<Longrightarrow> 0 \<le> x \<Longrightarrow>
   \<exists>d'. has d h code x = Inr (valid_jumpdest code (nat x), d') \<and> cache_sound d' h code"
  using has_sound [of d h code x] by blast

theorem jump_analysis_correct_witness:
  "\<exists>d'. has Map.empty 7 [0x60, 0x5b, 0x5b] 2 = Inr (True, d')"
proof -
  have "valid_jumpdest [0x60, 0x5b, 0x5b] 2"
    by (simp add: valid_jumpdest_def code_starts.simps push_len_def PUSH1_def PUSH32_def JUMPDEST_def)
  then show ?thesis
    using jump_analysis_correct [of Map.empty 7 "[0x60, 0x5b, 0x5b]" 2] by (auto simp: cache_sound_def)
qed

end
