(* ===== verification/VMArith.thy ===== *)
theory VMArith
  imports VMBase "HOL-Library.Signed_Division"
begin

unbundle bit_operations_syntax

text \<open>
  The operations of \<open>core/vm/instructions.go\<close> that only compute on the stack, and their
  agreement with arithmetic on 256-bit words. An operation that pops more than the stack
  holds panics.
\<close>

section \<open>Operations\<close>

definition bool_int :: "bool \<Rightarrow> int" where
  "bool_int b = (if b then 1 else 0)"

fun opAdd :: "stack \<Rightarrow> go_panic + stack" where
  "opAdd (x # y # st) = Inr (U256 (x + y) # st)"
| "opAdd _ = Inl IndexOutOfRange"

fun opSub :: "stack \<Rightarrow> go_panic + stack" where
  "opSub (x # y # st) = Inr (U256 (x - y) # st)"
| "opSub _ = Inl IndexOutOfRange"

fun opMul :: "stack \<Rightarrow> go_panic + stack" where
  "opMul (x # y # st) = Inr (U256 (x * y) # st)"
| "opMul _ = Inl IndexOutOfRange"

fun opDiv :: "stack \<Rightarrow> go_panic + stack" where
  "opDiv (x # y # st) = Inr ((if y \<noteq> 0 then U256 (x div y) else 0) # st)"
| "opDiv _ = Inl IndexOutOfRange"

fun opSdiv :: "stack \<Rightarrow> go_panic + stack" where
  "opSdiv (x0 # y0 # st) =
     (let x = S256 x0; y = S256 y0
      in Inr ((if y = 0 \<or> x = 0 then 0
               else if sgn x \<noteq> sgn y then U256 (- (\<bar>x\<bar> div \<bar>y\<bar>))
               else U256 (\<bar>x\<bar> div \<bar>y\<bar>)) # st))"
| "opSdiv _ = Inl IndexOutOfRange"

fun opMod :: "stack \<Rightarrow> go_panic + stack" where
  "opMod (x # y # st) = Inr ((if y = 0 then 0 else U256 (x mod y)) # st)"
| "opMod _ = Inl IndexOutOfRange"

fun opSmod :: "stack \<Rightarrow> go_panic + stack" where
  "opSmod (x0 # y0 # st) =
     (let x = S256 x0; y = S256 y0
      in Inr ((if y = 0 then 0
               else if x < 0 then U256 (- (\<bar>x\<bar> mod \<bar>y\<bar>))
               else U256 (\<bar>x\<bar> mod \<bar>y\<bar>)) # st))"
| "opSmod _ = Inl IndexOutOfRange"

fun opExp :: "stack \<Rightarrow> go_panic + stack" where
  "opExp (base # exponent # st) = Inr (fst (Exp base exponent) # st)"
| "opExp _ = Inl IndexOutOfRange"

fun opSignExtend :: "stack \<Rightarrow> go_panic + stack" where
  "opSignExtend [] = Inl IndexOutOfRange"
| "opSignExtend (b # st) =
     (if b < 31
      then (case st of
              [] \<Rightarrow> Inl IndexOutOfRange
            | num # st1 \<Rightarrow>
                (let n = unat (Uint64 b * 8 + 7); msk = push_bit n 1 - 1
                 in Inr (U256 (if bit num n then num OR NOT msk else num AND msk) # st1)))
      else Inr st)"

fun opNot :: "stack \<Rightarrow> go_panic + stack" where
  "opNot (x # st) = Inr (U256 (NOT x) # st)"
| "opNot _ = Inl IndexOutOfRange"

fun opLt :: "stack \<Rightarrow> go_panic + stack" where
  "opLt (x # y # st) = Inr (bool_int (x < y) # st)"
| "opLt _ = Inl IndexOutOfRange"

fun opGt :: "stack \<Rightarrow> go_panic + stack" where
  "opGt (x # y # st) = Inr (bool_int (x > y) # st)"
| "opGt _ = Inl IndexOutOfRange"

fun opSlt :: "stack \<Rightarrow> go_panic + stack" where
  "opSlt (x # y # st) =
     Inr ((if x \<ge> tt255 \<and> y < tt255 then 1
           else if x < tt255 \<and> y \<ge> tt255 then 0
           else bool_int (x < y)) # st)"
| "opSlt _ = Inl IndexOutOfRange"

fun opSgt :: "stack \<Rightarrow> go_panic + stack" where
  "opSgt (x # y # st) =
     Inr ((if x \<ge> tt255 \<and> y < tt255 then 0
           else if x < tt255 \<and> y \<ge> tt255 then 1
           else bool_int (x > y)) # st)"
| "opSgt _ = Inl IndexOutOfRange"

fun opEq :: "stack \<Rightarrow> go_panic + stack" where
  "opEq (x # y # st) = Inr (bool_int (x = y) # st)"
| "opEq _ = Inl IndexOutOfRange"

fun opIszero :: "stack \<Rightarrow> go_panic + stack" where
  "opIszero (x # st) = Inr ((if x > 0 then 0 else 1) # st)"
| "opIszero _ = Inl IndexOutOfRange"

fun opAnd :: "stack \<Rightarrow> go_panic + stack" where
  "opAnd (x # y # st) = Inr ((x AND y) # st)"
| "opAnd _ = Inl IndexOutOfRange"

fun opOr :: "stack \<Rightarrow> go_panic + stack" where
  "opOr (x # y # st) = Inr ((x OR y) # st)"
| "opOr _ = Inl IndexOutOfRange"

fun opXor :: "stack \<Rightarrow> go_panic + stack" where
  "opXor (x # y # st) = Inr ((x XOR y) # st)"
| "opXor _ = Inl IndexOutOfRange"

fun opByte :: "stack \<Rightarrow> go_panic + stack" where
  "opByte (th # val # st) = Inr ((if th < 32 then uint (Byte val 32 (nat (Int64 th))) else 0) # st)"
| "opByte _ = Inl IndexOutOfRange"

fun opAddmod :: "stack \<Rightarrow> go_panic + stack" where
  "opAddmod (x # y # z # st) = Inr ((if z > 0 then U256 ((x + y) mod z) else 0) # st)"
| "opAddmod _ = Inl IndexOutOfRange"

fun opMulmod :: "stack \<Rightarrow> go_panic + stack" where
  "opMulmod (x # y # z # st) = Inr ((if z > 0 then U256 ((x * y) mod z) else 0) # st)"
| "opMulmod _ = Inl IndexOutOfRange"

fun opSHL :: "stack \<Rightarrow> go_panic + stack" where
  "opSHL (x # y # st) =
     (let shift = U256 x; val = U256 y
      in Inr ((if shift \<ge> 256 then 0 else U256 (push_bit (unat (Uint64 shift)) val)) # st))"
| "opSHL _ = Inl IndexOutOfRange"

fun opSHR :: "stack \<Rightarrow> go_panic + stack" where
  "opSHR (x # y # st) =
     (let shift = U256 x; val = U256 y
      in Inr ((if shift \<ge> 256 then 0 else U256 (drop_bit (unat (Uint64 shift)) val)) # st))"
| "opSHR _ = Inl IndexOutOfRange"

fun opSAR :: "stack \<Rightarrow> go_panic + stack" where
  "opSAR (x # y # st) =
     (let shift = U256 x; val = S256 y
      in Inr ((if shift \<ge> 256 then U256 (if val > 0 then 0 else - 1)
               else U256 (drop_bit (unat (Uint64 shift)) val)) # st))"
| "opSAR _ = Inl IndexOutOfRange"

fun opPop :: "stack \<Rightarrow> go_panic + stack" where
  "opPop (x # st) = Inr st"
| "opPop _ = Inl IndexOutOfRange"

section \<open>Agreement with 256-bit words\<close>

named_theorems word_ops \<open>an operation on the representations of words\<close>

lemma U256_uint [simp]: "U256 (uint (x :: 256 word)) = uint x"
  by (simp add: U256_word)

lemma uint_less: "uint (x :: 256 word) < 2 ^ 256"
  using uint_lt2p [of x] by simp

lemma S256_uint: "S256 (uint (x :: 256 word)) = sint x"
  using S256_sint [of "uint x"] uint_less [of x] by simp

lemma U256_eq: "word_of_int x = (w :: 256 word) \<Longrightarrow> U256 x = uint w"
  by (simp add: U256_word)

lemma uint_zero_iff: "uint (x :: 256 word) = 0 \<longleftrightarrow> x = 0"
  by (simp add: unsigned_eq_0_iff)

lemma unat_less_uint: "unat x < n \<longleftrightarrow> uint x < int n"
  by (metis of_nat_less_iff of_nat_unat)

lemma opAdd_word [word_ops]: "opAdd (uint a # uint b # st) = Inr (uint (a + b :: 256 word) # st)"
  by (simp add: U256_word)

lemma opSub_word [word_ops]: "opSub (uint a # uint b # st) = Inr (uint (a - b :: 256 word) # st)"
  by (simp add: U256_word)

lemma opMul_word [word_ops]: "opMul (uint a # uint b # st) = Inr (uint (a * b :: 256 word) # st)"
  by (simp add: U256_word)

lemma opDiv_word [word_ops]: "opDiv (uint a # uint b # st) = Inr (uint (a div b :: 256 word) # st)"
proof -
  have "U256 (uint a div uint b) = uint (a div b)"
    using U256_uint [of "a div b"] by (simp add: uint_div_distrib)
  then show ?thesis by (auto simp: uint_div_distrib)
qed

lemma opMod_word [word_ops]:
  "opMod (uint a # uint b # st) = Inr (uint (if b = 0 then 0 else a mod b :: 256 word) # st)"
proof -
  have "U256 (uint a mod uint b) = uint (a mod b)"
    using U256_uint [of "a mod b"] by (simp add: uint_mod_distrib)
  then show ?thesis by (auto simp: uint_mod_distrib uint_zero_iff)
qed

lemma opAddmod_word [word_ops]:
  "opAddmod (uint a # uint b # uint c # st) =
     Inr ((if (c :: 256 word) = 0 then 0 else (uint a + uint b) mod uint c) # st)"
  and opMulmod_word [word_ops]:
  "opMulmod (uint a # uint b # uint c # st) =
     Inr ((if (c :: 256 word) = 0 then 0 else (uint a * uint b) mod uint c) # st)"
proof -
  have "U256 (z mod uint c) = z mod uint c" if "c \<noteq> 0" for z
  proof (rule U256_idem)
    have c: "0 < uint c" using that by (metis uint_0_iff uint_ge_0 order_less_le)
    then show "0 \<le> z mod uint c" by simp
    show "z mod uint c < 2 ^ 256" using pos_mod_bound [OF c, of z] uint_less [of c] by linarith
  qed
  moreover have "0 < uint c \<longleftrightarrow> c \<noteq> 0" by (metis uint_0_iff uint_ge_0 order_less_le)
  ultimately show "opAddmod (uint a # uint b # uint c # st) =
      Inr ((if c = 0 then 0 else (uint a + uint b) mod uint c) # st)"
    "opMulmod (uint a # uint b # uint c # st) =
      Inr ((if c = 0 then 0 else (uint a * uint b) mod uint c) # st)" by auto
qed

lemma opExp_word [word_ops]: "opExp (uint a # uint b # st) = Inr (uint (a ^ unat b :: 256 word) # st)"
proof -
  have "fst (Exp (uint a) (uint b)) = U256 (uint a ^ nat (uint b))"
    using uint_less [of a] by (intro Exp_value) auto
  also have "\<dots> = uint (a ^ unat b)" by (rule U256_eq) (simp add: of_int_power)
  finally show ?thesis by simp
qed

lemma opSdiv_word [word_ops]:
  "opSdiv (uint (a :: 256 word) # uint (b :: 256 word) # st) = Inr (uint (word_of_int (sint a sdiv sint b) :: 256 word) # st)"
proof -
  have "sint a sdiv sint b = (if sgn (sint a) \<noteq> sgn (sint b) then - (\<bar>sint a\<bar> div \<bar>sint b\<bar>) else \<bar>sint a\<bar> div \<bar>sint b\<bar>)"
    if "sint a \<noteq> 0" "sint b \<noteq> 0"
    using that by (auto simp: signed_divide_int_def sgn_if)
  then show ?thesis by (auto simp: S256_uint U256_word Let_def)
qed

lemma opSmod_word [word_ops]:
  "opSmod (uint (a :: 256 word) # uint (b :: 256 word) # st) =
     Inr (uint (if b = 0 then 0 else word_of_int (sint a smod sint b) :: 256 word) # st)"
proof -
  have m: "x smod y = (if x < 0 then - (\<bar>x\<bar> mod \<bar>y\<bar>) else \<bar>x\<bar> mod \<bar>y\<bar>)" if "y \<noteq> 0" for x y :: int
  proof -
    have "\<bar>x\<bar> mod \<bar>y\<bar> = \<bar>x\<bar> - (\<bar>x\<bar> div \<bar>y\<bar>) * \<bar>y\<bar>" by (simp add: minus_div_mult_eq_mod)
    then show ?thesis using that by (auto simp: signed_modulo_int_def signed_divide_int_def sgn_if algebra_simps)
  qed
  have "sint b = 0 \<longleftrightarrow> b = 0" by (simp add: signed_eq_0_iff)
  then show ?thesis by (auto simp: S256_uint U256_word Let_def m)
qed

lemma opCompare_word [word_ops]:
  "opLt (uint a # uint b # st) = Inr (bool_int ((a :: 256 word) < b) # st)"
  "opGt (uint a # uint b # st) = Inr (bool_int ((a :: 256 word) > b) # st)"
  "opEq (uint a # uint b # st) = Inr (bool_int ((a :: 256 word) = b) # st)"
  "opIszero (uint a # st) = Inr (bool_int ((a :: 256 word) = 0) # st)"
proof -
  have "0 < uint a \<longleftrightarrow> a \<noteq> 0" by (metis uint_0_iff uint_ge_0 order_less_le)
  then show "opIszero (uint a # st) = Inr (bool_int (a = 0) # st)" by (simp add: bool_int_def)
qed (simp_all add: word_less_def word_uint_eq_iff)

lemma opSigned_compare_word [word_ops]:
  "opSlt (uint a # uint b # st) = Inr (bool_int (sint (a :: 256 word) < sint (b :: 256 word)) # st)"
  "opSgt (uint a # uint b # st) = Inr (bool_int (sint (a :: 256 word) > sint (b :: 256 word)) # st)"
proof -
  have "sint x = (if uint x < tt255 then uint x else uint x - tt256)" for x :: "256 word"
    using S256_uint [of x] by (simp add: S256_def)
  note this [of a] this [of b]
  moreover have "0 \<le> uint a" "uint a < 2 * tt255" "0 \<le> uint b" "uint b < 2 * tt255" "tt256 = 2 * tt255"
    using uint_less [of a] uint_less [of b] by (simp_all add: tt256_def tt255_def)
  ultimately show "opSlt (uint a # uint b # st) = Inr (bool_int (sint a < sint b) # st)"
    "opSgt (uint a # uint b # st) = Inr (bool_int (sint a > sint b) # st)"
    unfolding bool_int_def opSlt.simps opSgt.simps by (smt (verit))+
qed

lemma opBitwise_word [word_ops]:
  "opAnd (uint a # uint b # st) = Inr (uint (a AND b :: 256 word) # st)"
  "opOr (uint a # uint b # st) = Inr (uint (a OR b :: 256 word) # st)"
  "opXor (uint a # uint b # st) = Inr (uint (a XOR b :: 256 word) # st)"
  "opNot (uint a # st) = Inr (uint (NOT a :: 256 word) # st)"
proof -
  have "word_of_int (NOT (uint a)) = NOT a"
    by (rule bit_word_eqI) (simp add: bit_word_of_int_iff bit_not_iff bit_uint_iff)
  then show "opNot (uint a # st) = Inr (uint (NOT a) # st)" by (simp add: U256_word)
qed (simp_all add: unsigned_and_eq unsigned_or_eq unsigned_xor_eq)

lemma Uint64_small: "0 \<le> x \<Longrightarrow> x < 2 ^ 64 \<Longrightarrow> uint (Uint64 x) = x \<and> unat (Uint64 x) = nat x"
  by (simp add: Uint64_def unsigned_of_int take_bit_eq_mod)

lemma opShift_word [word_ops]:
  "opSHL (uint a # uint b # st) = Inr (uint (push_bit (unat a) b :: 256 word) # st)"
  "opSHR (uint a # uint b # st) = Inr (uint (drop_bit (unat (a :: 256 word)) b :: 256 word) # st)"
proof -
  have big: "push_bit (unat a) b = 0 \<and> drop_bit (unat a) b = 0" if "256 \<le> uint a"
  proof -
    have "256 \<le> unat a" using that by (metis nat_le_iff nat_numeral of_nat_unat nat_int)
    then show ?thesis by (auto intro!: bit_word_eqI simp: bit_push_bit_iff bit_drop_bit_eq dest: bit_imp_le_length)
  qed
  have small: "unat (Uint64 (uint a)) = unat a" if "uint a < 256"
    using Uint64_small [of "uint a"] that by simp
  have "U256 (push_bit n (uint b)) = uint (push_bit n b)" for n
    by (rule U256_eq) (rule bit_word_eqI, auto simp: bit_word_of_int_iff bit_push_bit_iff bit_uint_iff)
  moreover have "U256 (drop_bit n (uint b)) = uint (drop_bit n b)" for n
    by (rule U256_eq) (rule bit_word_eqI, auto simp: bit_word_of_int_iff bit_drop_bit_eq bit_uint_iff dest: bit_imp_le_length)
  ultimately show "opSHL (uint a # uint b # st) = Inr (uint (push_bit (unat a) b) # st)"
    "opSHR (uint a # uint b # st) = Inr (uint (drop_bit (unat a) b) # st)"
    using big small by (auto simp: Let_def)
qed

lemma opSAR_word [word_ops]:
  "opSAR (uint a # uint (b :: 256 word) # st) =
     Inr (uint (if uint (a :: 256 word) \<ge> 256 \<and> b = 0 then - 1 else signed_drop_bit (unat a) b) # st)"
proof -
  have sb: "bit (sint b) n = bit b (min 255 n)" for n
    by (simp add: sint_uint bit_signed_take_bit_iff bit_uint_iff min_def)
  have sd: "word_of_int (drop_bit n (sint b)) = signed_drop_bit n b" for n
  proof (rule bit_word_eqI)
    fix k :: nat assume k: "k < LENGTH(256)"
    show "bit (word_of_int (drop_bit n (sint b)) :: 256 word) k = bit (signed_drop_bit n b) k"
    proof (cases "256 \<le> n + k")
      case True
      then have "256 - n \<le> k" by linarith
      with True k show ?thesis by (simp add: bit_word_of_int_iff bit_drop_bit_eq sb bit_signed_drop_bit_iff)
    next
      case False
      then have "\<not> 256 - n \<le> k" by linarith
      with False k show ?thesis by (simp add: bit_word_of_int_iff bit_drop_bit_eq sb bit_signed_drop_bit_iff)
    qed
  qed
  have big: "word_of_int (if sint b > 0 then 0 else - 1) = (if b = 0 then - 1 else signed_drop_bit (unat a) b)"
    if "256 \<le> uint a"
  proof -
    have n: "256 \<le> unat a" using that by (metis nat_le_iff nat_numeral of_nat_unat nat_int)
    have s: "sint b < 0 \<longleftrightarrow> bit b 255" using bit_last_iff [of b] by simp
    show ?thesis
    proof (cases "b = 0")
      case False
      then have "sint b \<noteq> 0" by (simp add: signed_eq_0_iff)
      then have "sint b > 0 \<longleftrightarrow> \<not> bit b 255" using s by linarith
      then show ?thesis using False n
        by (auto intro!: bit_word_eqI simp: bit_signed_drop_bit_iff)
    qed simp
  qed
  have small: "unat (Uint64 (uint a)) = unat a" if "uint a < 256"
    using Uint64_small [of "uint a"] that by simp
  show ?thesis
    by (auto simp: Let_def S256_uint U256_word sd big small)
qed

lemma opSignExtend_word [word_ops]:
  "opSignExtend (uint a # uint b # st) =
     Inr (uint (signed_take_bit (8 * unat (a :: 256 word) + 7) b :: 256 word) # st)"
proof (cases "uint a < 31")
  case True
  have u: "uint (Uint64 (uint a)) = uint a" "unat (Uint64 (uint a)) = unat a" and a: "unat a < 31"
    using Uint64_small [of "uint a"] True by (auto simp: unat_less_uint)
  let ?n = "8 * unat a + 7"
  have n: "unat (Uint64 (uint a) * 8 + 7) = ?n"
    using u(2) a by (simp add: unat_word_ariths)
  have msk: "push_bit ?n (1 :: int) - 1 = mask ?n" by (simp add: mask_eq_exp_minus_1 push_bit_eq_mult)
  have "word_of_int (if bit (uint b) ?n then uint b OR NOT (mask ?n) else uint b AND mask ?n) = signed_take_bit ?n b"
    using a by (intro bit_word_eqI)
      (auto simp: bit_word_of_int_iff bit_simps min_def)
  then show ?thesis using True unfolding opSignExtend.simps Let_def n msk by (simp only: U256_word list.case if_True)
next
  case False
  then have "31 \<le> unat a" by (metis not_less nat_le_iff nat_numeral of_nat_unat nat_int)
  then have "min (8 * unat a + 7) n = n" if "n < 256" for n using that by simp
  then have "signed_take_bit (8 * unat a + 7) b = b"
    by (intro bit_word_eqI) (simp add: bit_signed_take_bit_iff)
  then show ?thesis using False by simp
qed

lemma Bits_nth:
  assumes "0 \<le> x"
  shows "(i < length (Bits x) \<longrightarrow> Bits x ! i = word_of_int (x div 2 ^ (64 * i))) \<and>
    (length (Bits x) \<le> i \<longrightarrow> x div 2 ^ (64 * i) = 0)"
  using assms
proof (induction x arbitrary: i rule: Bits.induct)
  case (1 x)
  show ?case
  proof (cases "x = 0")
    case False
    then have b: "Bits x = word_of_int x # Bits (x div 2 ^ 64)" using "1.prems" by (subst Bits.simps) simp
    have q: "0 \<le> x div 2 ^ 64" using "1.prems" by (simp add: pos_imp_zdiv_nonneg_iff)
    show ?thesis
    proof (cases i)
      case (Suc j)
      have "x div 2 ^ (64 * i) = x div 2 ^ 64 div 2 ^ (64 * j)"
        unfolding Suc by (simp only: mult_Suc_right power_add zdiv_zmult2_eq zero_le_power zero_le_numeral)
      then show ?thesis using "1.IH" [OF False, of j] q "1.prems" b Suc by simp
    qed (simp add: b)
  qed (simp add: Bits.simps)
qed

lemma bigEndianByteAt_digit:
  assumes "0 \<le> x"
  shows "bigEndianByteAt x n = word_of_int (x div 256 ^ n)"
proof -
  have e: "x div 256 ^ n = drop_bit (8 * (n mod 8)) (x div 2 ^ (64 * (n div 8)))"
  proof -
    have "(256 :: int) ^ n = 2 ^ (64 * (n div 8)) * 2 ^ (8 * (n mod 8))"
    proof -
      have "8 * n = 64 * (n div 8) + 8 * (n mod 8)" using div_mult_mod_eq [of n 8] by linarith
      moreover have "(256 :: int) ^ n = 2 ^ (8 * n)" by (simp add: power_mult)
      ultimately show ?thesis by (simp only: power_add)
    qed
    then show ?thesis by (simp add: drop_bit_eq_div zdiv_zmult2_eq)
  qed
  show ?thesis
  proof (cases "n div 8 < length (Bits x)")
    case True
    let ?y = "x div 2 ^ (64 * (n div 8))"
    have "(ucast (drop_bit (8 * (n mod 8)) (word_of_int ?y :: 64 word)) :: byte) = word_of_int (drop_bit (8 * (n mod 8)) ?y)"
    proof (rule bit_word_eqI)
      fix k :: nat assume k: "k < LENGTH(8)"
      have "8 * (n mod 8) + k < 64" using k mod_less_divisor [of 8 n] by simp
      then show "bit (ucast (drop_bit (8 * (n mod 8)) (word_of_int ?y :: 64 word)) :: byte) k
          = bit (word_of_int (drop_bit (8 * (n mod 8)) ?y) :: byte) k"
        using k by (simp add: bit_ucast_iff bit_drop_bit_eq bit_word_of_int_iff)
    qed
    then show ?thesis using True Bits_nth [OF assms, of "n div 8"] e by (simp add: bigEndianByteAt_def Let_def)
  next
    case False
    then show ?thesis using Bits_nth [OF assms, of "n div 8"] e by (simp add: bigEndianByteAt_def Let_def)
  qed
qed

lemma opByte_word [word_ops]:
  "opByte (uint a # uint b # st) =
     Inr (uint (if uint (a :: 256 word) < 32 then drop_bit (8 * (31 - unat a)) b AND 0xFF else 0 :: 256 word) # st)"
proof (cases "uint a < 32")
  case True
  have a: "unat a < 32" using True by (simp add: unat_less_uint)
  have "Int64 (uint a) = uint a"
  proof -
    have "uint (Uint64 (uint a)) = uint a" using Uint64_small [of "uint a"] True by simp
    moreover have "signed_take_bit 63 (uint a) = uint a"
    proof (rule signed_take_bit_int_eq_self)
      show "- (2 ^ 63) \<le> uint a" by (rule order_trans [OF _ uint_ge_0]) simp
      show "uint a < 2 ^ 63" using True by simp
    qed
    ultimately show ?thesis by (simp add: Int64_def sint_uint)
  qed
  then have "Byte (uint b) 32 (nat (Int64 (uint a))) = word_of_int (uint b div 256 ^ (31 - unat a))"
    using a by (simp add: Byte_def bigEndianByteAt_digit)
  also have "uint (\<dots> :: byte) = (uint b div 256 ^ (31 - unat a)) mod 256"
    by (simp add: unsigned_of_int take_bit_eq_mod)
  also have "\<dots> = uint (drop_bit (8 * (31 - unat a)) b AND 0xFF)"
  proof -
    have "y mod 256 = y AND 0xFF" for y :: int
      using take_bit_eq_mask [of 8 y] by (simp add: take_bit_eq_mod mask_eq_exp_minus_1)
    moreover have "(256 :: int) ^ (31 - unat a) = 2 ^ (8 * (31 - unat a))" by (simp add: power_mult)
    moreover have "uint (drop_bit (8 * (31 - unat a)) b) = drop_bit (8 * (31 - unat a)) (uint b)"
      by (rule bit_eqI) (auto simp: bit_uint_iff bit_drop_bit_eq dest: bit_imp_le_length)
    ultimately show ?thesis
      by (simp add: unsigned_and_eq drop_bit_eq_div)
  qed
  finally show ?thesis using True by simp
qed simp

end
