(* ===== verification/VMPrecompiled.thy ===== *)
theory VMPrecompiled
  imports VMBase
begin

text \<open>
  The precompiled contracts, \<open>core/vm/contracts.go\<close>. Signature recovery, the hash functions and
  the arithmetic of the pairing curve are the operations of \<open>crypto_lib\<close>, with Keccak apart; a
  curve point is kept in its marshalled form.
\<close>

record crypto_lib =
  cl_EcrecoverToByte :: "bytes \<Rightarrow> bytes \<Rightarrow> bytes option"
  cl_Sum256 :: "bytes \<Rightarrow> bytes"
  cl_ripemd160 :: "bytes \<Rightarrow> bytes"
  cl_G1_Unmarshal :: "bytes \<Rightarrow> bytes option"
  cl_G2_Unmarshal :: "bytes \<Rightarrow> bytes option"
  cl_G1_Add :: "bytes \<Rightarrow> bytes \<Rightarrow> bytes"
  cl_G1_ScalarMult :: "bytes \<Rightarrow> int \<Rightarrow> bytes"
  cl_G1_Marshal :: "bytes \<Rightarrow> bytes"
  cl_PairingCheck :: "bytes list \<Rightarrow> bytes list \<Rightarrow> bool"

definition hash_bytes :: "hash \<Rightarrow> bytes" where
  "hash_bytes h = map (\<lambda>i. ucast (drop_bit (8 * (31 - i)) h)) [0..<32]"

type_synonym run_result = "go_panic + (bytes \<times> vm_error option)"

record PrecompiledContract =
  RequiredGas :: "bytes \<Rightarrow> go_panic + u64"
  pc_Run :: "bytes \<Rightarrow> run_result"

section \<open>Hashes and signatures\<close>

definition ecrecover_RequiredGas :: "bytes \<Rightarrow> go_panic + u64" where
  "ecrecover_RequiredGas input = Inr 3000"

definition ecrecover_Run :: "(bytes \<Rightarrow> hash) \<Rightarrow> crypto_lib \<Rightarrow> bytes \<Rightarrow> run_result" where
  "ecrecover_Run keccak cl input0 =
     (let input = RightPadBytes input0 128; v = input ! 63 - 27
      in if \<not> allZero (take 31 (drop 32 input)) then Inr ([], None)
         else case cl_EcrecoverToByte cl (take 32 input) (take 64 (drop 64 input) @ [v]) of
                None \<Rightarrow> Inr ([], None)
              | Some pubKey \<Rightarrow> rbind (slice pubKey 1 (int (length pubKey))) (\<lambda>p.
                  Inr (LeftPadBytes (drop 12 (hash_bytes (keccak p))) 32, None)))"

definition word_gas :: "bytes \<Rightarrow> u64 \<Rightarrow> u64 \<Rightarrow> u64" where
  "word_gas input per_word base = word_of_nat (length input + 31) div 32 * per_word + base"

definition sha256hash_RequiredGas :: "bytes \<Rightarrow> go_panic + u64" where
  "sha256hash_RequiredGas input = Inr (word_gas input 12 60)"

definition sha256hash_Run :: "crypto_lib \<Rightarrow> bytes \<Rightarrow> run_result" where
  "sha256hash_Run cl input = Inr (cl_Sum256 cl input, None)"

definition ripemd160hash_RequiredGas :: "bytes \<Rightarrow> go_panic + u64" where
  "ripemd160hash_RequiredGas input = Inr (word_gas input 120 600)"

definition ripemd160hash_Run :: "crypto_lib \<Rightarrow> bytes \<Rightarrow> run_result" where
  "ripemd160hash_Run cl input = Inr (LeftPadBytes (cl_ripemd160 cl input) 32, None)"

definition dataCopy_RequiredGas :: "bytes \<Rightarrow> go_panic + u64" where
  "dataCopy_RequiredGas input = Inr (word_gas input 3 15)"

definition dataCopy_Run :: "bytes \<Rightarrow> run_result" where
  "dataCopy_Run input = Inr (input, None)"

section \<open>Modular exponentiation\<close>

definition modexp_lengths :: "bytes \<Rightarrow> go_panic + (int \<times> int \<times> int)" where
  "modexp_lengths input =
     rbind (getData input 0 32) (\<lambda>b. rbind (getData input 32 32) (\<lambda>e. rbind (getData input 64 32) (\<lambda>m.
       Inr (SetBytes b, SetBytes e, SetBytes m))))"

definition modexp_complexity :: "int \<Rightarrow> int" where
  "modexp_complexity x =
     (if x \<le> 64 then x * x
      else if x \<le> 1024 then (x * x) div 4 + (96 * x - 3072)
      else (x * x) div 16 + (480 * x - 199680))"

definition bigModExp_RequiredGas :: "bytes \<Rightarrow> go_panic + u64" where
  "bigModExp_RequiredGas input0 = rbind (modexp_lengths input0) (\<lambda>(baseLen, expLen, modLen).
     let input = drop 96 input0
     in rbind (if int (length input) \<le> baseLen then Inr 0
               else rbind (getData input (Uint64 baseLen) (if expLen > 32 then 32 else Uint64 expLen))
                      (\<lambda>b. Inr (SetBytes b))) (\<lambda>expHead.
        let bitlen = BitLen expHead;
            msb = (if bitlen > 0 then int bitlen - 1 else 0);
            adjExpLen = (if expLen > 32 then 8 * (expLen - 32) else 0) + msb;
            gas = modexp_complexity (BigMax modLen baseLen) * BigMax adjExpLen 1 div 20
        in Inr (if BitLen gas > 64 then MaxUint64 else Uint64 gas)))"

definition bigModExp_Run :: "bytes \<Rightarrow> run_result" where
  "bigModExp_Run input0 = rbind (modexp_lengths input0) (\<lambda>(bl, el, ml).
     let baseLen = Uint64 bl; expLen = Uint64 el; modLen = Uint64 ml; input = drop 96 input0
     in if baseLen = 0 \<and> modLen = 0 then Inr ([], None)
        else rbind (getData input 0 baseLen) (\<lambda>b.
             rbind (getData input baseLen expLen) (\<lambda>e.
             rbind (getData input (baseLen + expLen) modLen) (\<lambda>m.
               let modulus = SetBytes m
               in Inr (if BitLen modulus = 0 then LeftPadBytes [] (sint modLen)
                       else LeftPadBytes (big_Bytes (SetBytes b ^ nat (SetBytes e) mod modulus)) (sint modLen),
                       None)))))"

section \<open>The pairing curve\<close>

definition newCurvePoint :: "crypto_lib \<Rightarrow> bytes \<Rightarrow> vm_error + bytes" where
  "newCurvePoint cl blob = (case cl_G1_Unmarshal cl blob of None \<Rightarrow> Inl errCurvePoint | Some p \<Rightarrow> Inr p)"

definition newTwistPoint :: "crypto_lib \<Rightarrow> bytes \<Rightarrow> vm_error + bytes" where
  "newTwistPoint cl blob = (case cl_G2_Unmarshal cl blob of None \<Rightarrow> Inl errCurvePoint | Some p \<Rightarrow> Inr p)"

definition run_value :: "vm_error + bytes \<Rightarrow> bytes \<times> vm_error option" where
  "run_value r = (case r of Inl e \<Rightarrow> ([], Some e) | Inr b \<Rightarrow> (b, None))"

definition bn256Add_RequiredGas :: "bytes \<Rightarrow> go_panic + u64" where
  "bn256Add_RequiredGas input = Inr 500"

definition bn256Add_Run :: "crypto_lib \<Rightarrow> bytes \<Rightarrow> run_result" where
  "bn256Add_Run cl input =
     rbind (getData input 0 64) (\<lambda>bx. rbind (getData input 64 64) (\<lambda>by.
       Inr (run_value (rbind (newCurvePoint cl bx) (\<lambda>x. rbind (newCurvePoint cl by) (\<lambda>y.
         Inr (cl_G1_Marshal cl (cl_G1_Add cl x y))))))))"

definition bn256ScalarMul_RequiredGas :: "bytes \<Rightarrow> go_panic + u64" where
  "bn256ScalarMul_RequiredGas input = Inr 40000"

definition bn256ScalarMul_Run :: "crypto_lib \<Rightarrow> bytes \<Rightarrow> run_result" where
  "bn256ScalarMul_Run cl input =
     rbind (getData input 0 64) (\<lambda>bp. rbind (getData input 64 32) (\<lambda>bk.
       Inr (run_value (rbind (newCurvePoint cl bp) (\<lambda>p.
         Inr (cl_G1_Marshal cl (cl_G1_ScalarMult cl p (SetBytes bk))))))))"

definition true32Byte :: bytes where
  "true32Byte = replicate 31 0 @ [1]"

definition false32Byte :: bytes where
  "false32Byte = replicate 32 0"

definition bn256Pairing_RequiredGas :: "bytes \<Rightarrow> go_panic + u64" where
  "bn256Pairing_RequiredGas input = Inr (100000 + word_of_nat (length input div 192) * 80000)"

function pairing_points :: "crypto_lib \<Rightarrow> bytes \<Rightarrow> vm_error + (bytes list \<times> bytes list)" where
  "pairing_points cl input =
     (if input = [] then Inr ([], [])
      else rbind (newCurvePoint cl (take 64 input)) (\<lambda>c.
           rbind (newTwistPoint cl (take 128 (drop 64 input))) (\<lambda>t.
           rbind (pairing_points cl (drop 192 input)) (\<lambda>(cs, ts). Inr (c # cs, t # ts)))))"
  by pat_completeness auto
termination
  by (relation "measure (\<lambda>(cl, input). length input)") auto

declare pairing_points.simps [simp del]

definition bn256Pairing_Run :: "crypto_lib \<Rightarrow> bytes \<Rightarrow> run_result" where
  "bn256Pairing_Run cl input =
     (if length input mod 192 > 0 then Inr ([], Some errBadPairingInput)
      else Inr (run_value (rbind (pairing_points cl input) (\<lambda>(cs, ts).
             Inr (if cl_PairingCheck cl cs ts then true32Byte else false32Byte)))))"

section \<open>The table\<close>

definition PrecompiledContractsByzantium :: "(bytes \<Rightarrow> hash) \<Rightarrow> crypto_lib \<Rightarrow> address \<Rightarrow> PrecompiledContract option" where
  "PrecompiledContractsByzantium keccak cl = map_of
     [(1, \<lparr>RequiredGas = ecrecover_RequiredGas, pc_Run = ecrecover_Run keccak cl\<rparr>),
      (2, \<lparr>RequiredGas = sha256hash_RequiredGas, pc_Run = sha256hash_Run cl\<rparr>),
      (3, \<lparr>RequiredGas = ripemd160hash_RequiredGas, pc_Run = ripemd160hash_Run cl\<rparr>),
      (4, \<lparr>RequiredGas = dataCopy_RequiredGas, pc_Run = dataCopy_Run\<rparr>),
      (5, \<lparr>RequiredGas = bigModExp_RequiredGas, pc_Run = bigModExp_Run\<rparr>),
      (6, \<lparr>RequiredGas = bn256Add_RequiredGas, pc_Run = bn256Add_Run cl\<rparr>),
      (7, \<lparr>RequiredGas = bn256ScalarMul_RequiredGas, pc_Run = bn256ScalarMul_Run cl\<rparr>),
      (8, \<lparr>RequiredGas = bn256Pairing_RequiredGas, pc_Run = bn256Pairing_Run cl\<rparr>)]"

definition RunPrecompiledContract ::
  "PrecompiledContract \<Rightarrow> bytes \<Rightarrow> Contract \<Rightarrow> go_panic + (bytes \<times> vm_error option \<times> Contract)" where
  "RunPrecompiledContract p input contract = rbind (RequiredGas p input) (\<lambda>gas.
     case UseGas gas contract of
       (True, contract1) \<Rightarrow> rbind (pc_Run p input) (\<lambda>(ret, err). Inr (ret, err, contract1))
     | (False, contract1) \<Rightarrow> Inr ([], Some ErrOutOfGas, contract1))"

end
