(* ===== verification/VMOps.thy ===== *)
theory VMOps
  imports VMArith VMPrecompiled State
begin

unbundle bit_operations_syntax

text \<open>
  The machine state of the interpreter and the operations that use it: the rest of
  \<open>core/vm/instructions.go\<close>, the gas functions of \<open>core/vm/gas_table.go\<close> and \<open>callGas\<close> of
  \<open>core/vm/gas.go\<close>. The mutable arguments of an \<open>executionFunc\<close> (program counter, machine,
  contract, memory and stack) are one \<open>frame\<close>; the calls an operation makes back into the
  machine are the argument \<open>calls\<close>. The maps of jump destinations that parent and child
  contracts share are one map of the machine.
\<close>

section \<open>Machine state\<close>

datatype vm_fail = VMPanic go_panic | NoFuel

definition lift_panic :: "go_panic + 'a \<Rightarrow> vm_fail + 'a" where
  "lift_panic r = (case r of Inl p \<Rightarrow> Inl (VMPanic p) | Inr x \<Rightarrow> Inr x)"

record Context =
  Origin :: address
  GasPrice :: int
  Coinbase :: address
  ctx_GasLimit :: u64
  BlockNumber :: int
  Time :: int
  Difficulty :: int
  GetHash :: "u64 \<Rightarrow> hash"

text \<open>The parts of the machine that a run does not change.\<close>

record vm_env =
  env_ctx :: Context
  env_crypto :: crypto_lib
  env_gasTable :: GasTable
  NoRecursion :: bool
  EnablePreimageRecording :: bool

record EVM =
  ev_StateDB :: StateDB
  ev_depth :: int
  ev_abort :: bool
  callGasTemp :: u64
  readOnly :: bool
  returnData :: bytes
  jumpdests :: destinations

record frame =
  fr_pc :: u64
  fr_evm :: EVM
  fr_contract :: Contract
  fr_mem :: Memory
  fr_stack :: stack

type_synonym call_result = "vm_fail + (bytes \<times> u64 \<times> vm_error option \<times> EVM)"
type_synonym create_result = "vm_fail + (bytes \<times> address \<times> u64 \<times> vm_error option \<times> EVM)"

record calls =
  do_Call :: "EVM \<Rightarrow> ContractRef \<Rightarrow> address \<Rightarrow> bytes \<Rightarrow> u64 \<Rightarrow> int \<Rightarrow> call_result"
  do_CallCode :: "EVM \<Rightarrow> ContractRef \<Rightarrow> address \<Rightarrow> bytes \<Rightarrow> u64 \<Rightarrow> int \<Rightarrow> call_result"
  do_DelegateCall :: "EVM \<Rightarrow> ContractRef \<Rightarrow> address \<Rightarrow> bytes \<Rightarrow> u64 \<Rightarrow> call_result"
  do_StaticCall :: "EVM \<Rightarrow> ContractRef \<Rightarrow> address \<Rightarrow> bytes \<Rightarrow> u64 \<Rightarrow> call_result"
  do_Create :: "EVM \<Rightarrow> ContractRef \<Rightarrow> bytes \<Rightarrow> u64 \<Rightarrow> int \<Rightarrow> create_result"

type_synonym exec_result = "vm_fail + (bytes \<times> vm_error option \<times> frame)"
type_synonym executionFunc = "calls \<Rightarrow> vm_env \<Rightarrow> frame \<Rightarrow> exec_result"

definition fr_state :: "frame \<Rightarrow> StateDB" where
  "fr_state f = ev_StateDB (fr_evm f)"

definition put_state :: "StateDB \<Rightarrow> frame \<Rightarrow> frame" where
  "put_state s f = f\<lparr>fr_evm := (fr_evm f)\<lparr>ev_StateDB := s\<rparr>\<rparr>"

definition self :: "frame \<Rightarrow> address" where
  "self f = c_self (fr_contract f)"

abbreviation ok :: "frame \<Rightarrow> exec_result" where
  "ok f \<equiv> Inr ([], None, f)"

abbreviation underflow :: "vm_fail + 'a" where
  "underflow \<equiv> Inl (VMPanic IndexOutOfRange)"

text \<open>The operations that only use the stack, and those that push a value of the frame.\<close>

definition stack_op :: "(stack \<Rightarrow> go_panic + stack) \<Rightarrow> executionFunc" where
  "stack_op g cs env f = rbind (lift_panic (g (fr_stack f))) (\<lambda>st. ok (f\<lparr>fr_stack := st\<rparr>))"

definition push_op :: "(vm_env \<Rightarrow> frame \<Rightarrow> int) \<Rightarrow> executionFunc" where
  "push_op g cs env f = ok (f\<lparr>fr_stack := push (g env f) (fr_stack f)\<rparr>)"

section \<open>Environment\<close>

definition opSha3 :: executionFunc where
  "opSha3 cs env f =
     (case fr_stack f of
        offset # sz # st \<Rightarrow>
          rbind (lift_panic (mem_Get (Int64 offset) (Int64 sz) (fr_mem f))) (\<lambda>data.
          let h = db_keccak (sdb_db (fr_state f)) data;
              f1 = (if EnablePreimageRecording env then put_state (AddPreimage h data (fr_state f)) f else f)
          in ok (f1\<lparr>fr_stack := push (uint h) st\<rparr>))
      | _ \<Rightarrow> underflow)"

definition opAddress :: executionFunc where
  "opAddress = push_op (\<lambda>env f. uint (self f))"

definition opBalance :: executionFunc where
  "opBalance cs env f =
     (case fr_stack f of
        slt # st \<Rightarrow>
          (let (b, s) = GetBalance (fr_state f) (BigToAddress slt)
           in rbind (lift_panic (deref b)) (\<lambda>v. ok ((put_state s f)\<lparr>fr_stack := v # st\<rparr>)))
      | _ \<Rightarrow> underflow)"

definition opOrigin :: executionFunc where
  "opOrigin = push_op (\<lambda>env f. uint (Origin (env_ctx env)))"

definition opCaller :: executionFunc where
  "opCaller = push_op (\<lambda>env f. uint (CallerAddress (fr_contract f)))"

definition opCallValue :: executionFunc where
  "opCallValue cs env f =
     rbind (lift_panic (deref (c_value (fr_contract f)))) (\<lambda>v. ok (f\<lparr>fr_stack := push v (fr_stack f)\<rparr>))"

definition opCallDataLoad :: executionFunc where
  "opCallDataLoad cs env f =
     (case fr_stack f of
        x # st \<Rightarrow>
          rbind (lift_panic (getDataBig (Input (fr_contract f)) x 32)) (\<lambda>b.
          ok (f\<lparr>fr_stack := push (SetBytes b) st\<rparr>))
      | _ \<Rightarrow> underflow)"

definition opCallDataSize :: executionFunc where
  "opCallDataSize = push_op (\<lambda>env f. int (length (Input (fr_contract f))))"

text \<open>\<open>memory.Set(memOffset.Uint64(), length.Uint64(), data)\<close>.\<close>

definition set_memory :: "int \<Rightarrow> int \<Rightarrow> bytes \<Rightarrow> frame \<Rightarrow> vm_fail + frame" where
  "set_memory off len data f =
     rbind (lift_panic (mem_Set (Uint64 off) (Uint64 len) data (fr_mem f))) (\<lambda>m. Inr (f\<lparr>fr_mem := m\<rparr>))"

definition copy_data :: "bytes \<Rightarrow> int \<Rightarrow> int \<Rightarrow> int \<Rightarrow> frame \<Rightarrow> exec_result" where
  "copy_data src memOffset dataOffset len f =
     rbind (lift_panic (getDataBig src dataOffset len)) (\<lambda>b.
     rbind (set_memory memOffset len b f) (\<lambda>f1. ok f1))"

definition opCallDataCopy :: executionFunc where
  "opCallDataCopy cs env f =
     (case fr_stack f of
        memOffset # dataOffset # len # st \<Rightarrow>
          copy_data (Input (fr_contract f)) memOffset dataOffset len (f\<lparr>fr_stack := st\<rparr>)
      | _ \<Rightarrow> underflow)"

definition opReturnDataSize :: executionFunc where
  "opReturnDataSize = push_op (\<lambda>env f. int (length (returnData (fr_evm f))))"

definition opReturnDataCopy :: executionFunc where
  "opReturnDataCopy cs env f =
     (case fr_stack f of
        memOffset # dataOffset # len # st \<Rightarrow>
          (let e = dataOffset + len; rd = returnData (fr_evm f); f1 = f\<lparr>fr_stack := st\<rparr>
           in if BitLen e > 64 \<or> word_of_nat (length rd) < Uint64 e
              then Inr ([], Some errReturnDataOutOfBounds, f1)
              else rbind (lift_panic (slice rd (uint (Uint64 dataOffset)) (uint (Uint64 e)))) (\<lambda>b.
                   rbind (set_memory memOffset len b f1) (\<lambda>f2. ok f2)))
      | _ \<Rightarrow> underflow)"

definition opExtCodeSize :: executionFunc where
  "opExtCodeSize cs env f =
     (case fr_stack f of
        slt # st \<Rightarrow>
          (let (n, s) = GetCodeSize (fr_state f) (BigToAddress slt)
           in ok ((put_state s f)\<lparr>fr_stack := int n # st\<rparr>))
      | _ \<Rightarrow> underflow)"

definition opCodeSize :: executionFunc where
  "opCodeSize = push_op (\<lambda>env f. int (length (Code (fr_contract f))))"

definition opCodeCopy :: executionFunc where
  "opCodeCopy cs env f =
     (case fr_stack f of
        memOffset # codeOffset # len # st \<Rightarrow>
          copy_data (Code (fr_contract f)) memOffset codeOffset len (f\<lparr>fr_stack := st\<rparr>)
      | _ \<Rightarrow> underflow)"

text \<open>A nil slice has no bytes.\<close>

definition bytes_of :: "bytes option \<Rightarrow> bytes" where
  "bytes_of b = (case b of None \<Rightarrow> [] | Some c \<Rightarrow> c)"

definition opExtCodeCopy :: executionFunc where
  "opExtCodeCopy cs env f =
     (case fr_stack f of
        a # memOffset # codeOffset # len # st \<Rightarrow>
          (let (c, s) = GetCode (fr_state f) (BigToAddress a)
           in copy_data (bytes_of c) memOffset codeOffset len ((put_state s f)\<lparr>fr_stack := st\<rparr>))
      | _ \<Rightarrow> underflow)"

definition opGasprice :: executionFunc where
  "opGasprice = push_op (\<lambda>env f. GasPrice (env_ctx env))"

definition opBlockhash :: executionFunc where
  "opBlockhash cs env f =
     (case fr_stack f of
        num # st \<Rightarrow>
          (let n = BlockNumber (env_ctx env) - 257
           in ok (f\<lparr>fr_stack := push (if num > n \<and> num < BlockNumber (env_ctx env)
                                      then uint (GetHash (env_ctx env) (Uint64 num)) else 0) st\<rparr>))
      | _ \<Rightarrow> underflow)"

definition opCoinbase :: executionFunc where
  "opCoinbase = push_op (\<lambda>env f. uint (Coinbase (env_ctx env)))"

definition opTimestamp :: executionFunc where
  "opTimestamp = push_op (\<lambda>env f. U256 (Time (env_ctx env)))"

definition opNumber :: executionFunc where
  "opNumber = push_op (\<lambda>env f. U256 (BlockNumber (env_ctx env)))"

definition opDifficulty :: executionFunc where
  "opDifficulty = push_op (\<lambda>env f. U256 (Difficulty (env_ctx env)))"

definition opGasLimit :: executionFunc where
  "opGasLimit = push_op (\<lambda>env f. U256 (uint (ctx_GasLimit (env_ctx env))))"

section \<open>Memory, storage and control\<close>

definition opMload :: executionFunc where
  "opMload cs env f =
     (case fr_stack f of
        offset # st \<Rightarrow>
          rbind (lift_panic (mem_Get (Int64 offset) 32 (fr_mem f))) (\<lambda>b.
          ok (f\<lparr>fr_stack := push (SetBytes b) st\<rparr>))
      | _ \<Rightarrow> underflow)"

definition opMstore :: executionFunc where
  "opMstore cs env f =
     (case fr_stack f of
        mStart # val # st \<Rightarrow>
          rbind (set_memory mStart 32 (PaddedBigBytes val 32) (f\<lparr>fr_stack := st\<rparr>)) (\<lambda>f1. ok f1)
      | _ \<Rightarrow> underflow)"

definition opMstore8 :: executionFunc where
  "opMstore8 cs env f =
     (case fr_stack f of
        o1 # v1 # st \<Rightarrow>
          (let off = Int64 o1; val = Int64 v1; mem = store (fr_mem f)
           in if 0 \<le> off \<and> off < int (length mem)
              then ok (f\<lparr>fr_stack := st,
                         fr_mem := (fr_mem f)\<lparr>store := mem[nat off := word_of_int (val AND 0xff)]\<rparr>\<rparr>)
              else underflow)
      | _ \<Rightarrow> underflow)"

definition opSload :: executionFunc where
  "opSload cs env f =
     (case fr_stack f of
        x # st \<Rightarrow>
          (let (v, s) = GetState (fr_state f) (self f) (BigToHash x)
           in ok ((put_state s f)\<lparr>fr_stack := push (uint v) st\<rparr>))
      | _ \<Rightarrow> underflow)"

definition opSstore :: executionFunc where
  "opSstore cs env f =
     (case fr_stack f of
        x # val # st \<Rightarrow>
          ok ((put_state (SetState (self f) (BigToHash x) (BigToHash val) (fr_state f)) f)\<lparr>fr_stack := st\<rparr>)
      | _ \<Rightarrow> underflow)"

definition jump_to :: "int \<Rightarrow> frame \<Rightarrow> exec_result" where
  "jump_to pos f =
     rbind (lift_panic (has (jumpdests (fr_evm f)) (c_CodeHash (fr_contract f)) (Code (fr_contract f)) pos))
       (\<lambda>(valid, d).
        let f1 = f\<lparr>fr_evm := (fr_evm f)\<lparr>jumpdests := d\<rparr>\<rparr>
        in if valid then ok (f1\<lparr>fr_pc := Uint64 pos\<rparr>)
           else Inr ([], Some (InvalidJumpDestination (GetOp (fr_contract f) (Uint64 pos)) pos), f1))"

definition opJump :: executionFunc where
  "opJump cs env f =
     (case fr_stack f of pos # st \<Rightarrow> jump_to pos (f\<lparr>fr_stack := st\<rparr>) | _ \<Rightarrow> underflow)"

definition opJumpi :: executionFunc where
  "opJumpi cs env f =
     (case fr_stack f of
        pos # cond # st \<Rightarrow>
          (let f1 = f\<lparr>fr_stack := st\<rparr>
           in if cond \<noteq> 0 then jump_to pos f1 else ok (f1\<lparr>fr_pc := fr_pc f1 + 1\<rparr>))
      | _ \<Rightarrow> underflow)"

definition opJumpdest :: executionFunc where
  "opJumpdest cs env f = ok f"

definition opPc :: executionFunc where
  "opPc = push_op (\<lambda>env f. uint (fr_pc f))"

definition opMsize :: executionFunc where
  "opMsize = push_op (\<lambda>env f. int (mem_Len (fr_mem f)))"

definition opGas :: executionFunc where
  "opGas = push_op (\<lambda>env f. uint (Gas (fr_contract f)))"

section \<open>Calls\<close>

definition add_gas :: "u64 \<Rightarrow> frame \<Rightarrow> frame" where
  "add_gas g f = f\<lparr>fr_contract := (fr_contract f)\<lparr>Gas := Gas (fr_contract f) + g\<rparr>\<rparr>"

definition opCreate :: executionFunc where
  "opCreate cs env f =
     (case fr_stack f of
        val # offset # sz # st \<Rightarrow>
          rbind (lift_panic (mem_Get (Int64 offset) (Int64 sz) (fr_mem f))) (\<lambda>input.
          let gas0 = Gas (fr_contract f);
              gas = gas0 - gas0 div 64;
              contract = snd (UseGas gas (fr_contract f))
          in rbind (do_Create cs (fr_evm f) (contract_ref contract) input gas val)
             (\<lambda>(res, addr, returnGas, suberr, evm1).
              let top = (if suberr \<noteq> None \<and> suberr \<noteq> Some ErrCodeStoreOutOfGas then 0 else uint addr);
                  f1 = add_gas returnGas (f\<lparr>fr_evm := evm1, fr_contract := contract, fr_stack := push top st\<rparr>)
              in Inr (if suberr = Some errExecutionReverted then res else [], None, f1)))
      | _ \<Rightarrow> underflow)"

text \<open>What the four call operations do with the result of the call.\<close>

definition finish_call ::
  "int \<Rightarrow> int \<Rightarrow> stack \<Rightarrow> frame \<Rightarrow> bytes \<times> u64 \<times> vm_error option \<times> EVM \<Rightarrow> exec_result" where
  "finish_call retOffset retSize st f r =
     (case r of (ret, returnGas, err, evm1) \<Rightarrow>
        let f1 = f\<lparr>fr_evm := evm1, fr_stack := push (if err \<noteq> None then 0 else 1) st\<rparr>
        in rbind (if err = None \<or> err = Some errExecutionReverted
                  then set_memory retOffset retSize ret f1 else Inr f1) (\<lambda>f2.
           Inr (ret, None, add_gas returnGas f2)))"

definition opCall :: executionFunc where
  "opCall cs env f =
     (case fr_stack f of
        _ # addr # value0 # inOffset # inSize # retOffset # retSize # st \<Rightarrow>
          (let gas0 = callGasTemp (fr_evm f); val = U256 value0
           in rbind (lift_panic (mem_Get (Int64 inOffset) (Int64 inSize) (fr_mem f))) (\<lambda>args.
              let gas = (if val \<noteq> 0 then gas0 + CallStipend else gas0)
              in rbind (do_Call cs (fr_evm f) (contract_ref (fr_contract f)) (BigToAddress addr) args gas val)
                   (finish_call retOffset retSize st f)))
      | _ \<Rightarrow> underflow)"

definition opCallCode :: executionFunc where
  "opCallCode cs env f =
     (case fr_stack f of
        _ # addr # value0 # inOffset # inSize # retOffset # retSize # st \<Rightarrow>
          (let gas0 = callGasTemp (fr_evm f); val = U256 value0
           in rbind (lift_panic (mem_Get (Int64 inOffset) (Int64 inSize) (fr_mem f))) (\<lambda>args.
              let gas = (if val \<noteq> 0 then gas0 + CallStipend else gas0)
              in rbind (do_CallCode cs (fr_evm f) (contract_ref (fr_contract f)) (BigToAddress addr) args gas val)
                   (finish_call retOffset retSize st f)))
      | _ \<Rightarrow> underflow)"

definition opDelegateCall :: executionFunc where
  "opDelegateCall cs env f =
     (case fr_stack f of
        _ # addr # inOffset # inSize # retOffset # retSize # st \<Rightarrow>
          rbind (lift_panic (mem_Get (Int64 inOffset) (Int64 inSize) (fr_mem f))) (\<lambda>args.
          rbind (do_DelegateCall cs (fr_evm f) (contract_ref (fr_contract f)) (BigToAddress addr) args
                   (callGasTemp (fr_evm f)))
            (finish_call retOffset retSize st f))
      | _ \<Rightarrow> underflow)"

definition opStaticCall :: executionFunc where
  "opStaticCall cs env f =
     (case fr_stack f of
        _ # addr # inOffset # inSize # retOffset # retSize # st \<Rightarrow>
          rbind (lift_panic (mem_Get (Int64 inOffset) (Int64 inSize) (fr_mem f))) (\<lambda>args.
          rbind (do_StaticCall cs (fr_evm f) (contract_ref (fr_contract f)) (BigToAddress addr) args
                   (callGasTemp (fr_evm f)))
            (finish_call retOffset retSize st f))
      | _ \<Rightarrow> underflow)"

section \<open>Halting, logs, pushes\<close>

definition return_memory :: executionFunc where
  "return_memory cs env f =
     (case fr_stack f of
        offset # sz # st \<Rightarrow>
          rbind (lift_panic (GetPtr (Int64 offset) (Int64 sz) (fr_mem f))) (\<lambda>ret.
          Inr (ret, None, f\<lparr>fr_stack := st\<rparr>))
      | _ \<Rightarrow> underflow)"

definition opReturn :: executionFunc where
  "opReturn = return_memory"

definition opRevert :: executionFunc where
  "opRevert = return_memory"

definition opStop :: executionFunc where
  "opStop cs env f = ok f"

definition opSuicide :: executionFunc where
  "opSuicide cs env f =
     (let (b, s1) = GetBalance (fr_state f) (self f)
      in case fr_stack f of
           a # st \<Rightarrow>
             rbind (lift_panic (deref b)) (\<lambda>balance.
             rbind (lift_panic (AddBalance (BigToAddress a) balance s1)) (\<lambda>s2.
             rbind (lift_panic (Suicide (self f) s2)) (\<lambda>(_, s3).
             ok ((put_state s3 f)\<lparr>fr_stack := st\<rparr>))))
         | _ \<Rightarrow> underflow)"

definition makeLog :: "nat \<Rightarrow> executionFunc" where
  "makeLog n cs env f =
     (case fr_stack f of
        mStart # mSize # st \<Rightarrow>
          (if length st < n then underflow
           else rbind (lift_panic (mem_Get (Int64 mStart) (Int64 mSize) (fr_mem f))) (\<lambda>d.
                ok ((put_state (AddLog \<lparr>log_Address = self f, log_Topics = map BigToHash (take n st), log_Data = d,
                                        log_BlockHeight = Uint64 (BlockNumber (env_ctx env)), log_BlockHash = 0,
                                        log_TransactionHash = 0, log_TransactionIndex = 0, log_LogIndex = 0\<rparr>
                                  (fr_state f)) f)\<lparr>fr_stack := drop n st\<rparr>)))
      | _ \<Rightarrow> underflow)"

definition makePush :: "u64 \<Rightarrow> nat \<Rightarrow> executionFunc" where
  "makePush sz pushByteSize cs env f =
     (let code = Code (fr_contract f);
          codeLen = int (length code);
          next_pc = sint (fr_pc f + 1);
          startMin = (if next_pc < codeLen then next_pc else codeLen);
          endMin = (if startMin + int pushByteSize < codeLen then startMin + int pushByteSize else codeLen)
      in rbind (lift_panic (slice code startMin endMin)) (\<lambda>b.
         ok (f\<lparr>fr_stack := push (SetBytes (RightPadBytes b (int pushByteSize))) (fr_stack f),
               fr_pc := fr_pc f + sz\<rparr>)))"

definition makeDup :: "nat \<Rightarrow> executionFunc" where
  "makeDup n = stack_op (dup n)"

definition makeSwap :: "nat \<Rightarrow> executionFunc" where
  "makeSwap n = stack_op (swap (n + 1))"

end
