(* ===== verification/VMGas.thy ===== *)
theory VMGas
  imports VMOps
begin

unbundle bit_operations_syntax

text \<open>
  The gas functions: \<open>core/vm/gas_table.go\<close> and \<open>callGas\<close> of \<open>core/vm/gas.go\<close>. A gas function
  returns the cost or an error, together with the frame it changed: the last memory cost,
  the gas set aside for a call and the refund counter.
\<close>

type_synonym gas_result = "go_panic + ((vm_error + u64) \<times> frame)"
type_synonym gasFunc = "vm_env \<Rightarrow> frame \<Rightarrow> u64 \<Rightarrow> gas_result"

definition memoryGasCost :: "Memory \<Rightarrow> u64 \<Rightarrow> (vm_error + u64) \<times> Memory" where
  "memoryGasCost mem newMemSize =
     (if newMemSize = 0 then (Inr 0, mem)
      else if newMemSize > 0xffffffffe0 then (Inl errGasUintOverflow, mem)
      else (let newMemSizeWords = toWordSize newMemSize; newMemSize1 = newMemSizeWords * 32
            in if newMemSize1 > word_of_nat (mem_Len mem)
               then (let square = newMemSizeWords * newMemSizeWords;
                         linCoef = newMemSizeWords * MemoryGas;
                         quadCoef = square div QuadCoeffDiv;
                         newTotalFee = linCoef + quadCoef;
                         fee = newTotalFee - lastGasCost mem
                     in (Inr fee, mem\<lparr>lastGasCost := newTotalFee\<rparr>))
               else (Inr 0, mem)))"

definition constGasFunc :: "u64 \<Rightarrow> gasFunc" where
  "constGasFunc gas env f memorySize = Inr (Inr gas, f)"

text \<open>An overflow of \<open>SafeAdd\<close> or \<open>SafeMul\<close> is \<open>errGasUintOverflow\<close>.\<close>

definition checked :: "u64 \<times> bool \<Rightarrow> vm_error + u64" where
  "checked r = (if snd r then Inl errGasUintOverflow else Inr (fst r))"

definition mem_gas :: "frame \<Rightarrow> u64 \<Rightarrow> (vm_error + u64) \<times> frame" where
  "mem_gas f memorySize =
     (let (g, mem) = memoryGasCost (fr_mem f) memorySize in (g, f\<lparr>fr_mem := mem\<rparr>))"

text \<open>Memory gas and a fixed price.\<close>

definition gas_mem_plus :: "u64 \<Rightarrow> gasFunc" where
  "gas_mem_plus base env f memorySize =
     (let (g, f1) = mem_gas f memorySize in Inr (rbind g (\<lambda>gas. checked (SafeAdd gas base)), f1))"

text \<open>Memory gas, a fixed price and a price per word of the length in \<open>stack.Back(n)\<close>.\<close>

definition gas_per_word :: "u64 \<Rightarrow> nat \<Rightarrow> u64 \<Rightarrow> gasFunc" where
  "gas_per_word base n price env f memorySize =
     (let (g, f1) = mem_gas f memorySize
      in case rbind g (\<lambda>gas. checked (SafeAdd gas base)) of
           Inl err \<Rightarrow> Inr (Inl err, f1)
         | Inr gas \<Rightarrow> rbind (Back (fr_stack f) n) (\<lambda>len.
             Inr (rbind (checked (bigUint64 len)) (\<lambda>words.
                  rbind (checked (SafeMul (toWordSize words) price)) (\<lambda>wordGas.
                  checked (SafeAdd gas wordGas))), f1)))"

definition gasCallDataCopy :: gasFunc where
  "gasCallDataCopy = gas_per_word GasFastestStep 2 CopyGas"

definition gasReturnDataCopy :: gasFunc where
  "gasReturnDataCopy = gas_per_word GasFastestStep 2 CopyGas"

definition gasSStore :: gasFunc where
  "gasSStore env f memorySize =
     rbind (Back (fr_stack f) 1) (\<lambda>y. rbind (Back (fr_stack f) 0) (\<lambda>x.
       let (val, s) = GetState (fr_state f) (self f) (BigToHash x); f1 = put_state s f
       in if val = 0 \<and> BigToHash y \<noteq> 0 then Inr (Inr SstoreSetGas, f1)
          else if val \<noteq> 0 \<and> BigToHash y = 0
          then Inr (Inr SstoreClearGas, put_state (AddRefund SstoreRefundGas s) f1)
          else Inr (Inr SstoreResetGas, f1)))"

definition makeGasLog :: "u64 \<Rightarrow> gasFunc" where
  "makeGasLog n env f memorySize =
     rbind (Back (fr_stack f) 1) (\<lambda>len.
       case checked (bigUint64 len) of
         Inl err \<Rightarrow> Inr (Inl err, f)
       | Inr requestedSize \<Rightarrow>
           (let (g, f1) = mem_gas f memorySize
            in Inr (rbind g (\<lambda>gas0.
                    rbind (checked (SafeAdd gas0 LogGas)) (\<lambda>gas1.
                    rbind (checked (SafeAdd gas1 (n * LogTopicGas))) (\<lambda>gas2.
                    rbind (checked (SafeMul requestedSize LogDataGas)) (\<lambda>memorySizeGas.
                    checked (SafeAdd gas2 memorySizeGas))))), f1)))"

definition gasSha3 :: gasFunc where
  "gasSha3 = gas_per_word Sha3Gas 1 Sha3WordGas"

definition gasCodeCopy :: gasFunc where
  "gasCodeCopy = gas_per_word GasFastestStep 2 CopyGas"

definition gasExtCodeCopy :: gasFunc where
  "gasExtCodeCopy env = gas_per_word (gt_ExtcodeCopy (env_gasTable env)) 3 CopyGas env"

definition gasMLoad :: gasFunc where
  "gasMLoad = gas_mem_plus GasFastestStep"

definition gasMStore8 :: gasFunc where
  "gasMStore8 = gas_mem_plus GasFastestStep"

definition gasMStore :: gasFunc where
  "gasMStore = gas_mem_plus GasFastestStep"

definition gasCreate :: gasFunc where
  "gasCreate = gas_mem_plus CreateGas"

definition gasBalance :: gasFunc where
  "gasBalance env f memorySize = Inr (Inr (gt_Balance (env_gasTable env)), f)"

definition gasExtCodeSize :: gasFunc where
  "gasExtCodeSize env f memorySize = Inr (Inr (gt_ExtcodeSize (env_gasTable env)), f)"

definition gasSLoad :: gasFunc where
  "gasSLoad env f memorySize = Inr (Inr (gt_SLoad (env_gasTable env)), f)"

definition gasExp :: gasFunc where
  "gasExp env f memorySize = rbind (Back (fr_stack f) 1) (\<lambda>e.
     let expByteLen = word_of_nat ((BitLen e + 7) div 8)
     in Inr (checked (SafeAdd (expByteLen * gt_ExpByte (env_gasTable env)) GasSlowStep), f))"

section \<open>Calls\<close>

definition callGas :: "GasTable \<Rightarrow> u64 \<Rightarrow> u64 \<Rightarrow> int \<Rightarrow> vm_error + u64" where
  "callGas gasTable availableGas base callCost =
     (let avail = availableGas - base; gas = avail - avail div 64
      in if gt_CreateBySuicide gasTable > 0 \<and> (BitLen callCost > 64 \<or> gas < Uint64 callCost) then Inr gas
         else if BitLen callCost > 64 then Inl errGasUintOverflow
         else Inr (Uint64 callCost))"

text \<open>The end of the gas functions of the calls: the gas of the call is set aside in
  \<open>callGasTemp\<close>, zero if \<open>callGas\<close> fails, and added to the cost.\<close>

definition call_gas :: "u64 \<Rightarrow> gasFunc" where
  "call_gas gas env f memorySize = rbind (Back (fr_stack f) 0) (\<lambda>callCost.
     let r = callGas (env_gasTable env) (Gas (fr_contract f)) gas callCost;
         temp = (case r of Inl _ \<Rightarrow> 0 | Inr g \<Rightarrow> g);
         f1 = f\<lparr>fr_evm := (fr_evm f)\<lparr>callGasTemp := temp\<rparr>\<rparr>
     in Inr (rbind r (\<lambda>t. checked (SafeAdd gas t)), f1))"

definition mem_then_call :: "u64 \<Rightarrow> gasFunc" where
  "mem_then_call gas0 env f memorySize =
     (let (g, f1) = mem_gas f memorySize
      in case rbind g (\<lambda>memoryGas. checked (SafeAdd gas0 memoryGas)) of
           Inl err \<Rightarrow> Inr (Inl err, f1)
         | Inr gas \<Rightarrow> call_gas gas env f1 memorySize)"

definition gasCall :: gasFunc where
  "gasCall env f memorySize =
     rbind (Back (fr_stack f) 2) (\<lambda>val. rbind (Back (fr_stack f) 1) (\<lambda>addr.
       let transfersValue = (val \<noteq> 0); address = BigToAddress addr; gas0 = gt_Calls (env_gasTable env)
       in rbind (if transfersValue then Empty (fr_state f) address else Inr (False, fr_state f)) (\<lambda>(e, s).
          let gas1 = (if transfersValue \<and> e then gas0 + CallNewAccountGas else gas0);
              gas2 = (if transfersValue then gas1 + CallValueTransferGas else gas1)
          in mem_then_call gas2 env (put_state s f) memorySize)))"

definition gasCallCode :: gasFunc where
  "gasCallCode env f memorySize = rbind (Back (fr_stack f) 2) (\<lambda>val.
     let gas0 = gt_Calls (env_gasTable env);
         gas1 = (if val \<noteq> 0 then gas0 + CallValueTransferGas else gas0)
     in mem_then_call gas1 env f memorySize)"

definition gasReturn :: gasFunc where
  "gasReturn env f memorySize = Inr (mem_gas f memorySize)"

definition gasRevert :: gasFunc where
  "gasRevert env f memorySize = Inr (mem_gas f memorySize)"

definition gasSuicide :: gasFunc where
  "gasSuicide env f memorySize = rbind (Back (fr_stack f) 0) (\<lambda>addr.
     let gt = env_gasTable env
     in rbind (Empty (fr_state f) (BigToAddress addr)) (\<lambda>(e, s1).
        rbind (if e then (let (b, s2) = GetBalance s1 (self f) in rbind (deref b) (\<lambda>v. Inr (v \<noteq> 0, s2)))
               else Inr (False, s1)) (\<lambda>(creates, s3).
        let gas = (if creates then gt_Suicide gt + gt_CreateBySuicide gt else gt_Suicide gt);
            (dead, s4) = HasSuicided s3 (self f);
            s5 = (if dead then s4 else AddRefund SuicideRefundGas s4)
        in Inr (Inr gas, put_state s5 f))))"

definition gasDelegateCall :: gasFunc where
  "gasDelegateCall env f memorySize = mem_then_call (gt_Calls (env_gasTable env)) env f memorySize"

definition gasStaticCall :: gasFunc where
  "gasStaticCall env f memorySize = mem_then_call (gt_Calls (env_gasTable env)) env f memorySize"

definition gasPush :: gasFunc where
  "gasPush = constGasFunc GasFastestStep"

definition gasSwap :: gasFunc where
  "gasSwap = constGasFunc GasFastestStep"

definition gasDup :: gasFunc where
  "gasDup = constGasFunc GasFastestStep"

end
