(* ===== verification/VMTable.thy ===== *)
theory VMTable
  imports VMGas
begin

text \<open>
  The instruction tables, \<open>core/vm/jump_table.go\<close>, with the opcodes of \<open>core/vm/opcodes.go\<close>. A
  table is a list of opcodes with their operations; an opcode that is not in it is not valid.
\<close>

record operation =
  execute :: executionFunc
  gasCost :: gasFunc
  validateStack :: "stack \<Rightarrow> vm_error option"
  memorySize :: "(stack \<Rightarrow> go_panic + int) option"
  halts :: bool
  jumps :: bool
  writes :: bool
  reverts :: bool
  returns :: bool

type_synonym instructionSet = "(byte \<times> operation) list"

definition mk_op :: "executionFunc \<Rightarrow> gasFunc \<Rightarrow> (stack \<Rightarrow> vm_error option) \<Rightarrow> operation" where
  "mk_op ex gc vs = \<lparr>execute = ex, gasCost = gc, validateStack = vs, memorySize = None,
     halts = False, jumps = False, writes = False, reverts = False, returns = False\<rparr>"

definition CALL :: byte where "CALL = 0xf1"

section \<open>Frontier\<close>

definition frontier_arithmetic :: instructionSet where
  "frontier_arithmetic =
     [(0x00, (mk_op opStop (constGasFunc 0) (makeStackFunc 0 0))\<lparr>halts := True\<rparr>),
      (0x01, mk_op (stack_op opAdd) (constGasFunc GasFastestStep) (makeStackFunc 2 1)),
      (0x02, mk_op (stack_op opMul) (constGasFunc GasFastStep) (makeStackFunc 2 1)),
      (0x03, mk_op (stack_op opSub) (constGasFunc GasFastestStep) (makeStackFunc 2 1)),
      (0x04, mk_op (stack_op opDiv) (constGasFunc GasFastStep) (makeStackFunc 2 1)),
      (0x05, mk_op (stack_op opSdiv) (constGasFunc GasFastStep) (makeStackFunc 2 1)),
      (0x06, mk_op (stack_op opMod) (constGasFunc GasFastStep) (makeStackFunc 2 1)),
      (0x07, mk_op (stack_op opSmod) (constGasFunc GasFastStep) (makeStackFunc 2 1)),
      (0x08, mk_op (stack_op opAddmod) (constGasFunc GasMidStep) (makeStackFunc 3 1)),
      (0x09, mk_op (stack_op opMulmod) (constGasFunc GasMidStep) (makeStackFunc 3 1)),
      (0x0a, mk_op (stack_op opExp) gasExp (makeStackFunc 2 1)),
      (0x0b, mk_op (stack_op opSignExtend) (constGasFunc GasFastStep) (makeStackFunc 2 1))]"

definition frontier_comparison :: instructionSet where
  "frontier_comparison =
     [(0x10, mk_op (stack_op opLt) (constGasFunc GasFastestStep) (makeStackFunc 2 1)),
      (0x11, mk_op (stack_op opGt) (constGasFunc GasFastestStep) (makeStackFunc 2 1)),
      (0x12, mk_op (stack_op opSlt) (constGasFunc GasFastestStep) (makeStackFunc 2 1)),
      (0x13, mk_op (stack_op opSgt) (constGasFunc GasFastestStep) (makeStackFunc 2 1)),
      (0x14, mk_op (stack_op opEq) (constGasFunc GasFastestStep) (makeStackFunc 2 1)),
      (0x15, mk_op (stack_op opIszero) (constGasFunc GasFastestStep) (makeStackFunc 1 1)),
      (0x16, mk_op (stack_op opAnd) (constGasFunc GasFastestStep) (makeStackFunc 2 1)),
      (0x17, mk_op (stack_op opOr) (constGasFunc GasFastestStep) (makeStackFunc 2 1)),
      (0x18, mk_op (stack_op opXor) (constGasFunc GasFastestStep) (makeStackFunc 2 1)),
      (0x19, mk_op (stack_op opNot) (constGasFunc GasFastestStep) (makeStackFunc 1 1)),
      (0x1a, mk_op (stack_op opByte) (constGasFunc GasFastestStep) (makeStackFunc 2 1))]"

definition frontier_environment :: instructionSet where
  "frontier_environment =
     [(0x20, (mk_op opSha3 gasSha3 (makeStackFunc 2 1))\<lparr>memorySize := Some memorySha3\<rparr>),
      (0x30, mk_op opAddress (constGasFunc GasQuickStep) (makeStackFunc 0 1)),
      (0x31, mk_op opBalance gasBalance (makeStackFunc 1 1)),
      (0x32, mk_op opOrigin (constGasFunc GasQuickStep) (makeStackFunc 0 1)),
      (0x33, mk_op opCaller (constGasFunc GasQuickStep) (makeStackFunc 0 1)),
      (0x34, mk_op opCallValue (constGasFunc GasQuickStep) (makeStackFunc 0 1)),
      (0x35, mk_op opCallDataLoad (constGasFunc GasFastestStep) (makeStackFunc 1 1)),
      (0x36, mk_op opCallDataSize (constGasFunc GasQuickStep) (makeStackFunc 0 1)),
      (0x37, (mk_op opCallDataCopy gasCallDataCopy (makeStackFunc 3 0))\<lparr>memorySize := Some memoryCallDataCopy\<rparr>),
      (0x38, mk_op opCodeSize (constGasFunc GasQuickStep) (makeStackFunc 0 1)),
      (0x39, (mk_op opCodeCopy gasCodeCopy (makeStackFunc 3 0))\<lparr>memorySize := Some memoryCodeCopy\<rparr>),
      (0x3a, mk_op opGasprice (constGasFunc GasQuickStep) (makeStackFunc 0 1)),
      (0x3b, mk_op opExtCodeSize gasExtCodeSize (makeStackFunc 1 1)),
      (0x3c, (mk_op opExtCodeCopy gasExtCodeCopy (makeStackFunc 4 0))\<lparr>memorySize := Some memoryExtCodeCopy\<rparr>)]"

definition frontier_block :: instructionSet where
  "frontier_block =
     [(0x40, mk_op opBlockhash (constGasFunc GasExtStep) (makeStackFunc 1 1)),
      (0x41, mk_op opCoinbase (constGasFunc GasQuickStep) (makeStackFunc 0 1)),
      (0x42, mk_op opTimestamp (constGasFunc GasQuickStep) (makeStackFunc 0 1)),
      (0x43, mk_op opNumber (constGasFunc GasQuickStep) (makeStackFunc 0 1)),
      (0x44, mk_op opDifficulty (constGasFunc GasQuickStep) (makeStackFunc 0 1)),
      (0x45, mk_op opGasLimit (constGasFunc GasQuickStep) (makeStackFunc 0 1))]"

definition frontier_storage :: instructionSet where
  "frontier_storage =
     [(0x50, mk_op (stack_op opPop) (constGasFunc GasQuickStep) (makeStackFunc 1 0)),
      (0x51, (mk_op opMload gasMLoad (makeStackFunc 1 1))\<lparr>memorySize := Some memoryMLoad\<rparr>),
      (0x52, (mk_op opMstore gasMStore (makeStackFunc 2 0))\<lparr>memorySize := Some memoryMStore\<rparr>),
      (0x53, (mk_op opMstore8 gasMStore8 (makeStackFunc 2 0))\<lparr>memorySize := Some memoryMStore8\<rparr>),
      (0x54, mk_op opSload gasSLoad (makeStackFunc 1 1)),
      (0x55, (mk_op opSstore gasSStore (makeStackFunc 2 0))\<lparr>writes := True\<rparr>),
      (0x56, (mk_op opJump (constGasFunc GasMidStep) (makeStackFunc 1 0))\<lparr>jumps := True\<rparr>),
      (0x57, (mk_op opJumpi (constGasFunc GasSlowStep) (makeStackFunc 2 0))\<lparr>jumps := True\<rparr>),
      (0x58, mk_op opPc (constGasFunc GasQuickStep) (makeStackFunc 0 1)),
      (0x59, mk_op opMsize (constGasFunc GasQuickStep) (makeStackFunc 0 1)),
      (0x5a, mk_op opGas (constGasFunc GasQuickStep) (makeStackFunc 0 1)),
      (0x5b, mk_op opJumpdest (constGasFunc JumpdestGas) (makeStackFunc 0 0))]"

definition frontier_push :: instructionSet where
  "frontier_push =
     map (\<lambda>n. (word_of_nat (0x5f + n), mk_op (makePush (word_of_nat n) n) gasPush (makeStackFunc 0 1))) [1..<33]"

definition frontier_dup :: instructionSet where
  "frontier_dup =
     map (\<lambda>n. (word_of_nat (0x7f + n), mk_op (makeDup n) gasDup (makeDupStackFunc n))) [1..<17]"

definition frontier_swap :: instructionSet where
  "frontier_swap =
     map (\<lambda>n. (word_of_nat (0x8f + n), mk_op (makeSwap n) gasSwap (makeSwapStackFunc (n + 1)))) [1..<17]"

definition frontier_log :: instructionSet where
  "frontier_log =
     map (\<lambda>n. (word_of_nat (0xa0 + n),
       (mk_op (makeLog n) (makeGasLog (word_of_nat n)) (makeStackFunc (n + 2) 0))
         \<lparr>memorySize := Some memoryLog, writes := True\<rparr>)) [0..<5]"

definition frontier_system :: instructionSet where
  "frontier_system =
     [(0xf0, (mk_op opCreate gasCreate (makeStackFunc 3 1))
               \<lparr>memorySize := Some memoryCreate, writes := True, returns := True\<rparr>),
      (0xf1, (mk_op opCall gasCall (makeStackFunc 7 1))\<lparr>memorySize := Some memoryCall, returns := True\<rparr>),
      (0xf2, (mk_op opCallCode gasCallCode (makeStackFunc 7 1))\<lparr>memorySize := Some memoryCall, returns := True\<rparr>),
      (0xf3, (mk_op opReturn gasReturn (makeStackFunc 2 0))\<lparr>memorySize := Some memoryReturn, halts := True\<rparr>),
      (0xff, (mk_op opSuicide gasSuicide (makeStackFunc 1 0))\<lparr>halts := True, writes := True\<rparr>)]"

definition NewFrontierInstructionSet :: instructionSet where
  "NewFrontierInstructionSet =
     frontier_arithmetic @ frontier_comparison @ frontier_environment @ frontier_block @ frontier_storage
     @ frontier_push @ frontier_dup @ frontier_swap @ frontier_log @ frontier_system"

section \<open>Later sets\<close>

definition NewHomesteadInstructionSet :: instructionSet where
  "NewHomesteadInstructionSet =
     (0xf4, (mk_op opDelegateCall gasDelegateCall (makeStackFunc 6 1))
              \<lparr>memorySize := Some memoryDelegateCall, returns := True\<rparr>) # NewFrontierInstructionSet"

definition NewByzantiumInstructionSet :: instructionSet where
  "NewByzantiumInstructionSet =
     [(0xfa, (mk_op opStaticCall gasStaticCall (makeStackFunc 6 1))
               \<lparr>memorySize := Some memoryStaticCall, returns := True\<rparr>),
      (0x3d, mk_op opReturnDataSize (constGasFunc GasQuickStep) (makeStackFunc 0 1)),
      (0x3e, (mk_op opReturnDataCopy gasReturnDataCopy (makeStackFunc 3 0))
               \<lparr>memorySize := Some memoryReturnDataCopy\<rparr>),
      (0xfd, (mk_op opRevert gasRevert (makeStackFunc 2 0))
               \<lparr>memorySize := Some memoryRevert, reverts := True, returns := True\<rparr>)]
     @ NewHomesteadInstructionSet"

definition NewConstantinopleInstructionSet :: instructionSet where
  "NewConstantinopleInstructionSet =
     [(0x1b, mk_op (stack_op opSHL) (constGasFunc GasFastestStep) (makeStackFunc 2 1)),
      (0x1c, mk_op (stack_op opSHR) (constGasFunc GasFastestStep) (makeStackFunc 2 1)),
      (0x1d, mk_op (stack_op opSAR) (constGasFunc GasFastestStep) (makeStackFunc 2 1))]
     @ NewByzantiumInstructionSet"

end
