(* ===== verification/VMInterp.thy ===== *)
theory VMInterp
  imports VMTable
begin

text \<open>
  The interpreter loop of \<open>core/vm/interpreter.go\<close>, the calls of \<open>core/vm/evm.go\<close> and the
  transfer functions of \<open>core/executor/evm.go\<close> that every context uses. The loop recurses
  through the calls an operation makes; the recursion is bounded by fuel, one unit for each
  operation on the way, and running out of it is the failure \<open>NoFuel\<close>. Tracing is left out.
\<close>

section \<open>One step of the interpreter\<close>

definition enforceRestrictions :: "byte \<Rightarrow> operation \<Rightarrow> frame \<Rightarrow> go_panic + vm_error option" where
  "enforceRestrictions op operation f =
     (if readOnly (fr_evm f)
      then if writes operation then Inr (Some errWriteProtection)
           else if op = CALL
           then rbind (Back (fr_stack f) 2) (\<lambda>v. Inr (if BitLen v > 0 then Some errWriteProtection else None))
           else Inr None
      else Inr None)"

text \<open>The memory size in bytes an operation needs, rounded up to words.\<close>

definition required_memory :: "operation \<Rightarrow> stack \<Rightarrow> go_panic + (vm_error + u64)" where
  "required_memory operation st =
     (case memorySize operation of
        None \<Rightarrow> Inr (Inr 0)
      | Some fn \<Rightarrow> rbind (fn st) (\<lambda>v.
          let (memSize, overflow) = bigUint64 v
          in if overflow then Inr (Inl errGasUintOverflow)
             else (let (ms, overflow1) = SafeMul (toWordSize memSize) 32
                   in Inr (if overflow1 then Inl errGasUintOverflow else Inr ms))))"

datatype step_result = Done bytes "vm_error option" frame | Continue frame

text \<open>Checks and payment: the operation to execute and the frame after paying for it and
  growing the memory, or the result of the run.\<close>

definition prepare :: "instructionSet \<Rightarrow> vm_env \<Rightarrow> frame \<Rightarrow> go_panic + (vm_error \<times> frame) + (operation \<times> frame)" where
  "prepare tbl env f =
     (let op = GetOp (fr_contract f) (fr_pc f)
      in case map_of tbl op of
           None \<Rightarrow> Inr (Inl (InvalidOpcode op, f))
         | Some operation \<Rightarrow>
             (case validateStack operation (fr_stack f) of
                Some err \<Rightarrow> Inr (Inl (err, f))
              | None \<Rightarrow>
                  rbind (enforceRestrictions op operation f) (\<lambda>restr.
                  case restr of
                    Some err \<Rightarrow> Inr (Inl (err, f))
                  | None \<Rightarrow>
                      rbind (required_memory operation (fr_stack f)) (\<lambda>ms.
                      case ms of
                        Inl err \<Rightarrow> Inr (Inl (err, f))
                      | Inr msize \<Rightarrow>
                          rbind (gasCost operation env f msize) (\<lambda>(cost, f1).
                          case cost of
                            Inl err \<Rightarrow> Inr (Inl (ErrOutOfGas, f1))
                          | Inr c \<Rightarrow>
                              (case UseGas c (fr_contract f1) of
                                 (False, contract) \<Rightarrow> Inr (Inl (ErrOutOfGas, f1))
                               | (True, contract) \<Rightarrow>
                                   Inr (Inr (operation,
                                     f1\<lparr>fr_contract := contract,
                                        fr_mem := (if msize > 0 then Resize msize (fr_mem f1) else fr_mem f1)\<rparr>))))))))"

definition finish_step :: "operation \<Rightarrow> bytes \<times> vm_error option \<times> frame \<Rightarrow> step_result" where
  "finish_step operation r =
     (case r of (res, err, f) \<Rightarrow>
        let f1 = (if returns operation then f\<lparr>fr_evm := (fr_evm f)\<lparr>returnData := res\<rparr>\<rparr> else f)
        in case err of
             Some e \<Rightarrow> Done [] (Some e) f1
           | None \<Rightarrow>
               if reverts operation then Done res (Some errExecutionReverted) f1
               else if halts operation then Done res None f1
               else if jumps operation then Continue f1
               else Continue (f1\<lparr>fr_pc := fr_pc f1 + 1\<rparr>))"

definition step :: "calls \<Rightarrow> instructionSet \<Rightarrow> vm_env \<Rightarrow> frame \<Rightarrow> vm_fail + step_result" where
  "step cs tbl env f =
     (if ev_abort (fr_evm f) then Inr (Done [] None f)
      else rbind (lift_panic (prepare tbl env f)) (\<lambda>r.
           case r of
             Inl (err, f1) \<Rightarrow> Inr (Done [] (Some err) f1)
           | Inr (operation, f1) \<Rightarrow>
               rbind (execute operation cs env f1) (\<lambda>x. Inr (finish_step operation x))))"

section \<open>Running a contract\<close>

type_synonym runner = "frame \<Rightarrow> exec_result"

definition Interpreter_Run ::
  "runner \<Rightarrow> EVM \<Rightarrow> Contract \<Rightarrow> bytes \<Rightarrow> vm_fail + (bytes \<times> vm_error option \<times> EVM \<times> Contract)" where
  "Interpreter_Run rec evm contract input =
     (let evm1 = evm\<lparr>ev_depth := ev_depth evm + 1, returnData := []\<rparr>
      in if Code contract = [] then Inr ([], None, evm1\<lparr>ev_depth := ev_depth evm1 - 1\<rparr>, contract)
         else rbind (rec \<lparr>fr_pc = 0, fr_evm = evm1, fr_contract = contract\<lparr>Input := input\<rparr>,
                          fr_mem = NewMemory, fr_stack = []\<rparr>) (\<lambda>(ret, err, f).
              Inr (ret, err, (fr_evm f)\<lparr>ev_depth := ev_depth (fr_evm f) - 1\<rparr>, fr_contract f)))"

definition precompiles :: "vm_env \<Rightarrow> EVM \<Rightarrow> address \<Rightarrow> PrecompiledContract option" where
  "precompiles env evm = PrecompiledContractsByzantium (db_keccak (sdb_db (ev_StateDB evm))) (env_crypto env)"

definition run ::
  "runner \<Rightarrow> vm_env \<Rightarrow> EVM \<Rightarrow> Contract \<Rightarrow> bytes \<Rightarrow> vm_fail + (bytes \<times> vm_error option \<times> EVM \<times> Contract)" where
  "run rec env evm contract input =
     (case Option.bind (CodeAddr contract) (precompiles env evm) of
        Some p \<Rightarrow> rbind (lift_panic (RunPrecompiledContract p input contract)) (\<lambda>(ret, err, contract1).
                    Inr (ret, err, evm, contract1))
      | None \<Rightarrow> Interpreter_Run rec evm contract input)"

section \<open>Calls\<close>

definition CanTransfer :: "StateDB \<Rightarrow> address \<Rightarrow> int \<Rightarrow> go_panic + (bool \<times> StateDB)" where
  "CanTransfer db addr amount =
     (let (b, s) = GetBalance db addr in rbind (deref b) (\<lambda>v. Inr (v \<ge> amount, s)))"

definition Transfer :: "address \<Rightarrow> address \<Rightarrow> int \<Rightarrow> StateDB \<Rightarrow> go_panic + StateDB" where
  "Transfer sender recipient amount db =
     rbind (SubBalance sender amount db) (\<lambda>s. AddBalance recipient amount s)"

text \<open>A contract called from outside starts with no analysed code.\<close>

definition new_jumpdests :: "ContractRef \<Rightarrow> EVM \<Rightarrow> EVM" where
  "new_jumpdests caller evm = (if ref_contract caller = None then evm\<lparr>jumpdests := Map.empty\<rparr> else evm)"

text \<open>The contract for the code at an address: \<open>SetCallCode(&addr, GetCodeHash(addr), GetCode(addr))\<close>.\<close>

definition load_code :: "address \<Rightarrow> Contract \<Rightarrow> StateDB \<Rightarrow> Contract \<times> StateDB" where
  "load_code addr contract s =
     (let (h, s1) = GetCodeHash s addr; (c, s2) = GetCode s1 addr
      in (SetCallCode addr h (bytes_of c) contract, s2))"

definition consume_unless_reverted :: "vm_error option \<Rightarrow> Contract \<Rightarrow> Contract" where
  "consume_unless_reverted err contract =
     (if err \<noteq> Some errExecutionReverted then snd (UseGas (Gas contract) contract) else contract)"

text \<open>The run of a prepared contract and what follows it in \<open>Call\<close>, \<open>CallCode\<close>, \<open>DelegateCall\<close> and
  \<open>StaticCall\<close>: an error reverts to the snapshot and, unless it is a revert, takes the gas.\<close>

definition run_and_settle ::
  "runner \<Rightarrow> vm_env \<Rightarrow> nat \<Rightarrow> EVM \<Rightarrow> Contract \<Rightarrow> bytes \<Rightarrow> call_result" where
  "run_and_settle rec env snapshot evm contract input =
     rbind (run rec env evm contract input) (\<lambda>(ret, err, evm1, contract1).
       if err = None then Inr (ret, Gas contract1, err, evm1)
       else rbind (lift_panic (RevertToSnapshot snapshot (ev_StateDB evm1))) (\<lambda>s.
            Inr (ret, Gas (consume_unless_reverted err contract1), err, evm1\<lparr>ev_StateDB := s\<rparr>)))"

definition Call ::
  "runner \<Rightarrow> vm_env \<Rightarrow> EVM \<Rightarrow> ContractRef \<Rightarrow> address \<Rightarrow> bytes \<Rightarrow> u64 \<Rightarrow> int \<Rightarrow> call_result" where
  "Call rec env evm caller addr input gas val =
     (if NoRecursion env \<and> ev_depth evm > 0 then Inr ([], gas, None, evm)
      else if ev_depth evm > CallCreateDepth then Inr ([], gas, Some ErrDepth, evm)
      else rbind (lift_panic (CanTransfer (ev_StateDB evm) (ref_Address caller) val)) (\<lambda>(can, s0).
        if \<not> can then Inr ([], gas, Some ErrInsufficientBalance, evm\<lparr>ev_StateDB := s0\<rparr>)
        else let (snapshot, s1) = Snapshot s0; (ex, s2) = Exist s1 addr
          in if \<not> ex \<and> precompiles env evm addr = None \<and> val = 0
             then Inr ([], gas, None, evm\<lparr>ev_StateDB := s2\<rparr>)
             else rbind (lift_panic (Transfer (ref_Address caller) addr val
                                       (if ex then s2 else CreateAccount addr s2))) (\<lambda>s3.
                  let contract0 = NewContract caller (AccountRef addr) (Some val) gas;
                      (contract, s4) = load_code addr contract0 s3
                  in run_and_settle rec env snapshot
                       (new_jumpdests caller (evm\<lparr>ev_StateDB := s4\<rparr>)) contract input)))"

definition CallCode ::
  "runner \<Rightarrow> vm_env \<Rightarrow> EVM \<Rightarrow> ContractRef \<Rightarrow> address \<Rightarrow> bytes \<Rightarrow> u64 \<Rightarrow> int \<Rightarrow> call_result" where
  "CallCode rec env evm caller addr input gas val =
     (if NoRecursion env \<and> ev_depth evm > 0 then Inr ([], gas, None, evm)
      else if ev_depth evm > CallCreateDepth then Inr ([], gas, Some ErrDepth, evm)
      else rbind (lift_panic (CanTransfer (ev_StateDB evm) (ref_Address caller) val)) (\<lambda>(can, s0).
        if \<not> can then Inr ([], gas, Some ErrInsufficientBalance, evm\<lparr>ev_StateDB := s0\<rparr>)
        else let (snapshot, s1) = Snapshot s0;
                 contract0 = NewContract caller (AccountRef (ref_Address caller)) (Some val) gas;
                 (contract, s2) = load_code addr contract0 s1
             in run_and_settle rec env snapshot (new_jumpdests caller (evm\<lparr>ev_StateDB := s2\<rparr>)) contract input))"

definition DelegateCall ::
  "runner \<Rightarrow> vm_env \<Rightarrow> EVM \<Rightarrow> ContractRef \<Rightarrow> address \<Rightarrow> bytes \<Rightarrow> u64 \<Rightarrow> call_result" where
  "DelegateCall rec env evm caller addr input gas =
     (if NoRecursion env \<and> ev_depth evm > 0 then Inr ([], gas, None, evm)
      else if ev_depth evm > CallCreateDepth then Inr ([], gas, Some ErrDepth, evm)
      else let (snapshot, s1) = Snapshot (ev_StateDB evm)
           in rbind (lift_panic (AsDelegate (NewContract caller (AccountRef (ref_Address caller)) None gas))) (\<lambda>contract0.
              let (contract, s2) = load_code addr contract0 s1
              in run_and_settle rec env snapshot (new_jumpdests caller (evm\<lparr>ev_StateDB := s2\<rparr>)) contract input))"

text \<open>The deferred function of \<open>StaticCall\<close> clears the flag only in the call that set it.\<close>

definition StaticCall ::
  "runner \<Rightarrow> vm_env \<Rightarrow> EVM \<Rightarrow> ContractRef \<Rightarrow> address \<Rightarrow> bytes \<Rightarrow> u64 \<Rightarrow> call_result" where
  "StaticCall rec env evm caller addr input gas =
     (if NoRecursion env \<and> ev_depth evm > 0 then Inr ([], gas, None, evm)
      else if ev_depth evm > CallCreateDepth then Inr ([], gas, Some ErrDepth, evm)
      else let outer = readOnly evm;
               (snapshot, s1) = Snapshot (ev_StateDB evm);
               contract0 = NewContract caller (AccountRef addr) (Some 0) gas;
               (contract, s2) = load_code addr contract0 s1
           in rbind (run_and_settle rec env snapshot
                       (new_jumpdests caller (evm\<lparr>ev_StateDB := s2, readOnly := True\<rparr>)) contract input)
              (\<lambda>(ret, left, err, evm1).
               Inr (ret, left, err, if outer then evm1 else evm1\<lparr>readOnly := False\<rparr>)))"

text \<open>\<open>crypto.CreateAddress\<close>: the low 20 bytes of the hash of the RLP list of address and nonce.\<close>

definition rlp_uint :: "nat \<Rightarrow> bytes" where
  "rlp_uint n =
     (if n = 0 then [0x80] else if n < 128 then [word_of_nat n]
      else (let b = big_Bytes (int n) in word_of_nat (0x80 + length b) # b))"

definition CreateAddress :: "(bytes \<Rightarrow> hash) \<Rightarrow> address \<Rightarrow> u64 \<Rightarrow> address" where
  "CreateAddress keccak b nonce =
     (let payload = (0x94 # address_bytes b) @ rlp_uint (unat nonce)
      in ucast (keccak (word_of_nat (0xc0 + length payload) # payload)))"

text \<open>What follows the run of the deployment code: the code is paid for and stored, and an error
  other than a code deposit that cannot be paid reverts the creation.\<close>

definition settle_create ::
  "nat \<Rightarrow> address \<Rightarrow> bytes \<times> vm_error option \<times> EVM \<times> Contract \<Rightarrow> create_result" where
  "settle_create snapshot contractAddr r =
     (case r of (ret, err, evm1, contract1) \<Rightarrow>
        let maxCodeSizeExceeded = (length ret > MaxCodeSize);
            deposit = UseGas (word_of_nat (length ret) * CreateDataGas) contract1;
            stores = (err = None \<and> \<not> maxCodeSizeExceeded);
            contract2 = (if stores then snd deposit else contract1);
            evm2 = (if stores \<and> fst deposit
                    then evm1\<lparr>ev_StateDB := SetCode contractAddr ret (ev_StateDB evm1)\<rparr> else evm1);
            err1 = (if stores \<and> \<not> fst deposit then Some ErrCodeStoreOutOfGas else err);
            err2 = (if maxCodeSizeExceeded \<and> err1 = None then Some errMaxCodeSizeExceeded else err1)
        in if maxCodeSizeExceeded \<or> (err1 \<noteq> None \<and> err1 \<noteq> Some ErrCodeStoreOutOfGas)
           then rbind (lift_panic (RevertToSnapshot snapshot (ev_StateDB evm2))) (\<lambda>s.
                Inr (ret, contractAddr, Gas (consume_unless_reverted err1 contract2), err2, evm2\<lparr>ev_StateDB := s\<rparr>))
           else Inr (ret, contractAddr, Gas contract2, err2, evm2))"

text \<open>The creation of the account at a free address and the run of the deployment code.\<close>

definition create_at ::
  "runner \<Rightarrow> vm_env \<Rightarrow> EVM \<Rightarrow> ContractRef \<Rightarrow> address \<Rightarrow> bytes \<Rightarrow> u64 \<Rightarrow> int \<Rightarrow> create_result" where
  "create_at rec env evm caller contractAddr code gas val =
     (let keccak = db_keccak (sdb_db (ev_StateDB evm));
          (snapshot, s1) = Snapshot (ev_StateDB evm);
          s2 = SetNonce contractAddr 1 (CreateAccount contractAddr s1)
      in rbind (lift_panic (Transfer (ref_Address caller) contractAddr val s2)) (\<lambda>s3.
         let contract = SetCallCode contractAddr (keccak code) code
                          (NewContract caller (AccountRef contractAddr) (Some val) gas);
             evm1 = new_jumpdests caller (evm\<lparr>ev_StateDB := s3\<rparr>)
         in if NoRecursion env \<and> ev_depth evm > 0 then Inr ([], contractAddr, gas, None, evm1)
            else rbind (run rec env evm1 contract []) (settle_create snapshot contractAddr)))"

definition Create :: "runner \<Rightarrow> vm_env \<Rightarrow> EVM \<Rightarrow> ContractRef \<Rightarrow> bytes \<Rightarrow> u64 \<Rightarrow> int \<Rightarrow> create_result" where
  "Create rec env evm caller code gas val =
     (if ev_depth evm > CallCreateDepth then Inr ([], 0, gas, Some ErrDepth, evm)
      else rbind (lift_panic (CanTransfer (ev_StateDB evm) (ref_Address caller) val)) (\<lambda>(can, s0).
        if \<not> can then Inr ([], 0, gas, Some ErrInsufficientBalance, evm\<lparr>ev_StateDB := s0\<rparr>)
        else let keccak = db_keccak (sdb_db (ev_StateDB evm));
                 (nonce, s1) = GetNonce s0 (ref_Address caller);
                 s2 = SetNonce (ref_Address caller) (nonce + 1) s1;
                 contractAddr = CreateAddress keccak (ref_Address caller) nonce;
                 (contractHash, s3) = GetCodeHash s2 contractAddr;
                 (n, s4) = GetNonce s3 contractAddr
             in if n \<noteq> 0 \<or> (contractHash \<noteq> 0 \<and> contractHash \<noteq> keccak [])
                then Inr ([], 0, 0, Some ErrContractAddressCollision, evm\<lparr>ev_StateDB := s4\<rparr>)
                else create_at rec env (evm\<lparr>ev_StateDB := s4\<rparr>) caller contractAddr code gas val))"

section \<open>The loop\<close>

definition evm_calls :: "runner \<Rightarrow> vm_env \<Rightarrow> calls" where
  "evm_calls rec env =
     \<lparr>do_Call = Call rec env, do_CallCode = CallCode rec env, do_DelegateCall = DelegateCall rec env,
      do_StaticCall = StaticCall rec env, do_Create = Create rec env\<rparr>"

definition loop_body :: "runner \<Rightarrow> instructionSet \<Rightarrow> vm_env \<Rightarrow> frame \<Rightarrow> exec_result" where
  "loop_body rec tbl env f =
     rbind (step (evm_calls rec env) tbl env f) (\<lambda>r.
       case r of Done ret err f1 \<Rightarrow> Inr (ret, err, f1) | Continue f1 \<Rightarrow> rec f1)"

primrec run_loop :: "nat \<Rightarrow> instructionSet \<Rightarrow> vm_env \<Rightarrow> frame \<Rightarrow> exec_result" where
  "run_loop 0 tbl env = (\<lambda>f. Inl NoFuel)"
| "run_loop (Suc n) tbl env = loop_body (run_loop n tbl env) tbl env"

definition Cancel :: "EVM \<Rightarrow> EVM" where
  "Cancel evm = evm\<lparr>ev_abort := True\<rparr>"

definition NewEVM :: "StateDB \<Rightarrow> EVM" where
  "NewEVM statedb = \<lparr>ev_StateDB = statedb, ev_depth = 0, ev_abort = False, callGasTemp = 0,
     readOnly = False, returnData = [], jumpdests = Map.empty\<rparr>"

end
