(* ===== verification/Transition.thy ===== *)
theory Transition
  imports VMInterp
begin

text \<open>
  Transactions (\<open>core/types/transaction.go\<close>), their intrinsic gas (\<open>core/txpool/utils.go\<close>), the gas
  pool of a block (\<open>common/utils/gaspool.go\<close>) and the state transition that executes a
  transaction (\<open>core/executor/stransition.go\<close>). The sender that a signature recovers to is the
  parameter \<open>sender\<close> of the definitions that need it.
\<close>

section \<open>Transactions\<close>

datatype TxType = Binary | LoginCandidate | LogoutCandidate | Delegate | UnDelegate | Redeem | UnknownType u64

text \<open>The recipients are a slice, \<open>None\<close> when it is nil.\<close>

record Transaction =
  tx_Type :: TxType
  tx_Nonce :: u64
  tx_GasPrice :: int
  tx_GasLimit :: u64
  tx_Tos :: "address list option"
  tx_Value :: int
  tx_Payload :: bytes
  tx_Signature :: bytes

record ChainConfig =
  MinDelegateState :: bigp
  MinDelegatePercent :: bigp
  MinDelegateDuration :: int
  cfg_MaxValidatorSize :: int
  MaxVotes :: int
  DelayDuration :: int

datatype tx_error = TooManyTos | TosOverMaxVotes | DelegateStateTooLow | TosNotRequired | ValueNotRequired | ErrInvalidType

definition tos :: "Transaction \<Rightarrow> address list" where
  "tos tx = (case tx_Tos tx of None \<Rightarrow> [] | Some l \<Rightarrow> l)"

definition Validate :: "ChainConfig \<Rightarrow> Transaction \<Rightarrow> tx_error option" where
  "Validate cfg tx =
     (case tx_Type tx of
        Binary \<Rightarrow> (if length (tos tx) > 1 then Some TooManyTos else None)
      | Delegate \<Rightarrow>
          (if int (length (tos tx)) > MaxVotes cfg then Some TosOverMaxVotes
           else case MinDelegateState cfg of
                  Some m \<Rightarrow> (if m > tx_Value tx then Some DelegateStateTooLow else None)
                | None \<Rightarrow> None)
      | UnDelegate \<Rightarrow> (if tos tx \<noteq> [] then Some TosNotRequired else None)
      | UnknownType _ \<Rightarrow> Some ErrInvalidType
      | _ \<Rightarrow> (if tos tx \<noteq> [] then Some TosNotRequired
              else if tx_Value tx \<noteq> 0 then Some ValueNotRequired else None))"

definition Cost :: "Transaction \<Rightarrow> int" where
  "Cost tx = tx_GasPrice tx * uint (tx_GasLimit tx) + tx_Value tx"

section \<open>Gas\<close>

datatype exec_error =
    ErrNonceTooHigh
  | ErrNonceTooLow
  | errInsufficientBalanceForGas
  | ErrGasLimitReached
  | PoolOutOfGas
  | VmError vm_error

definition TxGas :: u64 where "TxGas = 21000"
definition TxGasContractCreation :: u64 where "TxGasContractCreation = 53000"
definition TxDataZeroGas :: u64 where "TxDataZeroGas = 4"
definition TxDataNonZeroGas :: u64 where "TxDataNonZeroGas = 68"

definition IntrinsicGas :: "bytes \<Rightarrow> TxType \<Rightarrow> bool \<Rightarrow> exec_error + u64" where
  "IntrinsicGas data tp contractCreation =
     (if tp = Delegate \<or> tp = UnDelegate then Inr 0
      else let gas = (if contractCreation then TxGasContractCreation else TxGas)
        in if length data > 0
           then (let nz = word_of_nat (length (filter (\<lambda>b. b \<noteq> 0) data))
                 in if (MaxUint64 - gas) div TxDataNonZeroGas < nz then Inl PoolOutOfGas
                    else (let gas1 = gas + nz * TxDataNonZeroGas; z = word_of_nat (length data) - nz
                          in if (MaxUint64 - gas1) div TxDataZeroGas < z then Inl PoolOutOfGas
                             else Inr (gas1 + z * TxDataZeroGas)))
           else Inr gas)"

type_synonym GasPool = u64

definition AddGas :: "u64 \<Rightarrow> GasPool \<Rightarrow> go_panic + GasPool" where
  "AddGas amount gp =
     (if gp > MaxUint64 - amount then Inl (PanicMsg ''gas pool pushed above uint64'') else Inr (gp + amount))"

definition SubGas :: "u64 \<Rightarrow> GasPool \<Rightarrow> exec_error + GasPool" where
  "SubGas amount gp = (if gp < amount then Inl ErrGasLimitReached else Inr (gp - amount))"

section \<open>The state transition\<close>

record StateTransition =
  st_gp :: GasPool
  st_tx :: Transaction
  st_from :: address
  st_gas :: u64
  st_initialGas :: u64
  st_evm :: EVM

definition NewStateTransition ::
  "(Transaction \<Rightarrow> address) \<Rightarrow> address option \<Rightarrow> EVM \<Rightarrow> Transaction \<Rightarrow> GasPool \<Rightarrow> StateTransition" where
  "NewStateTransition sender txFrom evm tx gp =
     \<lparr>st_gp = gp, st_tx = tx, st_from = (case txFrom of None \<Rightarrow> sender tx | Some a \<Rightarrow> a),
      st_gas = 0, st_initialGas = 0, st_evm = evm\<rparr>"

definition st_state :: "StateTransition \<Rightarrow> StateDB" where
  "st_state st = ev_StateDB (st_evm st)"

definition put_st_state :: "StateDB \<Rightarrow> StateTransition \<Rightarrow> StateTransition" where
  "put_st_state s st = st\<lparr>st_evm := (st_evm st)\<lparr>ev_StateDB := s\<rparr>\<rparr>"

definition useGas :: "u64 \<Rightarrow> StateTransition \<Rightarrow> exec_error option \<times> StateTransition" where
  "useGas amount st =
     (if st_gas st < amount then (Some (VmError ErrOutOfGas), st)
      else (None, st\<lparr>st_gas := st_gas st - amount\<rparr>))"

definition buyGas :: "StateTransition \<Rightarrow> go_panic + (exec_error option \<times> StateTransition)" where
  "buyGas st =
     (let limit = tx_GasLimit (st_tx st);
          mgval = uint limit * tx_GasPrice (st_tx st);
          (b, s1) = GetBalance (st_state st) (st_from st);
          st1 = put_st_state s1 st
      in rbind (deref b) (\<lambda>balance.
         if balance < mgval then Inr (Some errInsufficientBalanceForGas, st1)
         else case SubGas limit (st_gp st1) of
                Inl err \<Rightarrow> Inr (Some err, st1)
              | Inr gp \<Rightarrow> rbind (SubBalance (st_from st) mgval s1) (\<lambda>s2.
                  Inr (None, put_st_state s2 (st1\<lparr>st_gp := gp, st_gas := st_gas st1 + limit, st_initialGas := limit\<rparr>)))))"

definition preCheck :: "StateTransition \<Rightarrow> go_panic + (exec_error option \<times> StateTransition)" where
  "preCheck st =
     (let (nonce, s1) = GetNonce (st_state st) (st_from st); st1 = put_st_state s1 st
      in if nonce < tx_Nonce (st_tx st) then Inr (Some ErrNonceTooHigh, st1)
         else if nonce > tx_Nonce (st_tx st) then Inr (Some ErrNonceTooLow, st1)
         else buyGas st1)"

definition gasUsed :: "StateTransition \<Rightarrow> u64" where
  "gasUsed st = st_initialGas st - st_gas st"

definition refundGas :: "StateTransition \<Rightarrow> go_panic + StateTransition" where
  "refundGas st =
     (let refund = (if gasUsed st div 2 > GetRefund (st_state st) then GetRefund (st_state st) else gasUsed st div 2);
          gas = st_gas st + refund;
          remaining = uint gas * tx_GasPrice (st_tx st)
      in rbind (AddBalance (st_from st) remaining (st_state st)) (\<lambda>s.
         rbind (AddGas gas (st_gp st)) (\<lambda>gp.
         Inr (put_st_state s (st\<lparr>st_gas := gas, st_gp := gp\<rparr>)))))"

text \<open>The message call or the contract creation of a transaction. A slice of recipients that is
  not nil but empty is indexed.\<close>

definition run_message :: "runner \<Rightarrow> vm_env \<Rightarrow> StateTransition \<Rightarrow> call_result" where
  "run_message rec env st =
     (let tx = st_tx st; caller = AccountRef (st_from st)
      in case tx_Tos tx of
           None \<Rightarrow> rbind (Create rec env (st_evm st) caller (tx_Payload tx) (st_gas st) (tx_Value tx))
                     (\<lambda>(ret, addr, left, vmerr, evm). Inr (ret, left, vmerr, evm))
         | Some l \<Rightarrow>
             (let (nonce, s1) = GetNonce (st_state st) (st_from st);
                  evm1 = (st_evm st)\<lparr>ev_StateDB := SetNonce (st_from st) (nonce + 1) s1\<rparr>
              in case l of
                   [] \<Rightarrow> Inl (VMPanic IndexOutOfRange)
                 | addr # _ \<Rightarrow> Call rec env evm1 caller addr (tx_Payload tx) (st_gas st) (tx_Value tx)))"

definition TransitionDb ::
  "runner \<Rightarrow> vm_env \<Rightarrow> StateTransition \<Rightarrow> vm_fail + (bytes \<times> u64 \<times> bool \<times> exec_error option \<times> StateTransition)" where
  "TransitionDb rec env st =
     rbind (lift_panic (preCheck st)) (\<lambda>(err, st1).
     case err of
       Some e \<Rightarrow> Inr ([], 0, False, Some e, st1)
     | None \<Rightarrow>
         (case IntrinsicGas (tx_Payload (st_tx st)) (tx_Type (st_tx st)) (tx_Tos (st_tx st) = None) of
            Inl e \<Rightarrow> Inr ([], 0, False, Some e, st1)
          | Inr gas \<Rightarrow>
              (case useGas gas st1 of
                 (Some e, st2) \<Rightarrow> Inr ([], 0, False, Some e, st2)
               | (None, st2) \<Rightarrow>
                   rbind (run_message rec env st2) (\<lambda>(ret, left, vmerr, evm).
                   let st3 = st2\<lparr>st_gas := left, st_evm := evm\<rparr>
                   in if vmerr = Some ErrInsufficientBalance
                      then Inr ([], 0, False, Some (VmError ErrInsufficientBalance), st3)
                      else rbind (lift_panic (refundGas st3)) (\<lambda>st4.
                           rbind (lift_panic (AddBalance (Coinbase (env_ctx env))
                                   (uint (gasUsed st4) * tx_GasPrice (st_tx st)) (st_state st4))) (\<lambda>s.
                           Inr (ret, gasUsed st4, vmerr \<noteq> None, None, put_st_state s st4)))))))"

definition ExecStateTransition ::
  "(Transaction \<Rightarrow> address) \<Rightarrow> runner \<Rightarrow> vm_env \<Rightarrow> address option \<Rightarrow> EVM \<Rightarrow> Transaction \<Rightarrow> GasPool \<Rightarrow>
   vm_fail + (bytes \<times> u64 \<times> bool \<times> exec_error option \<times> StateTransition)" where
  "ExecStateTransition sender rec env txFrom evm tx gp =
     TransitionDb rec env (NewStateTransition sender txFrom evm tx gp)"

end
