(* ===== verification/DposContext.thy ===== *)
theory DposContext
  imports State "HOL-Library.Product_Lexorder"
begin

text \<open>
  The context of the delegated proof of stake (\<open>core/types/dposcontext.go\<close>): candidates, votes and
  mint counts. Its five tries are ordered association lists, which is what lookup, update, delete
  and iteration see of a trie whose nodes are all in its database: keys come in byte order, which
  for addresses and numbers written big-endian is the order of the words. Values are kept decoded.
\<close>

section \<open>Tries as ordered lists\<close>

fun t_update :: "'k::linorder \<Rightarrow> 'v \<Rightarrow> ('k \<times> 'v) list \<Rightarrow> ('k \<times> 'v) list" where
  "t_update k v [] = [(k, v)]"
| "t_update k v ((k', v') # t) =
     (if k < k' then (k, v) # (k', v') # t else if k = k' then (k, v) # t else (k', v') # t_update k v t)"

definition t_delete :: "'k \<Rightarrow> ('k \<times> 'v) list \<Rightarrow> ('k \<times> 'v) list" where
  "t_delete k t = filter (\<lambda>e. fst e \<noteq> k) t"

definition t_sorted :: "('k::linorder \<times> 'v) list \<Rightarrow> bool" where
  "t_sorted t \<longleftrightarrow> sorted_wrt (<) (map fst t)"

text \<open>The entries whose two-part key starts with a given part.\<close>

definition t_prefix :: "'p \<Rightarrow> (('p \<times> 'k) \<times> 'v) list \<Rightarrow> (('p \<times> 'k) \<times> 'v) list" where
  "t_prefix p t = filter (\<lambda>e. fst (fst e) = p) t"

lemma t_update_get [simp]: "map_of (t_update k v t) = (map_of t)(k \<mapsto> v)" if "t_sorted t"
  using that
proof (induction t)
  case (Cons e t)
  obtain k' v' where e: "e = (k', v')" by fastforce
  have "t_sorted t" "\<forall>x \<in> set (map fst t). k' < x" using Cons.prems by (auto simp: t_sorted_def e)
  then show ?case using Cons.IH by (auto simp: e fun_eq_iff)
qed simp

lemma t_delete_get [simp]: "map_of (t_delete k t) = (map_of t)(k := None)"
  by (induction t) (auto simp: t_delete_def fun_eq_iff)

lemma t_update_keys: "set (map fst (t_update k v t)) = insert k (set (map fst t))"
  by (induction k v t rule: t_update.induct) (simp_all add: insert_commute)

lemma t_update_sorted [simp]: "t_sorted t \<Longrightarrow> t_sorted (t_update k v t)"
proof (induction t)
  case (Cons e t)
  obtain k' v' where e: "e = (k', v')" by fastforce
  have s: "t_sorted t" "\<forall>x \<in> set (map fst t). k' < x" using Cons.prems by (auto simp: t_sorted_def e)
  have "\<forall>x \<in> set (map fst (t_update k v t)). k' < x" if "k' < k" unfolding t_update_keys using that s(2) by auto
  then show ?case using Cons.IH [OF s(1)] s by (auto simp: t_sorted_def e)
qed (simp add: t_sorted_def)

lemma t_delete_sorted [simp]: "t_sorted t \<Longrightarrow> t_sorted (t_delete k t)"
  unfolding t_sorted_def t_delete_def sorted_wrt_map by (rule sorted_wrt_filter)

lemma t_sorted_distinct: "t_sorted t \<Longrightarrow> distinct (map fst t)"
  by (simp add: t_sorted_def strict_sorted_iff)

lemma t_prefix_iff: "t_sorted t \<Longrightarrow> ((p, k), v) \<in> set (t_prefix p t) \<longleftrightarrow> map_of t (p, k) = Some v"
  by (auto simp: t_prefix_def map_of_eq_Some_iff t_sorted_distinct)

section \<open>The context\<close>

record CandidateInfo =
  Addr :: address
  Weight :: u64
  DegradeTime :: u64

text \<open>The epoch trie holds the list of validators at its only key.\<close>

record DposContext =
  epochTrie :: "address list option"
  delegateTrie :: "((address \<times> address) \<times> address) list"
  voteTrie :: "(address \<times> address list) list"
  candidateTrie :: "(address \<times> CandidateInfo) list"
  mintCntTrie :: "((u64 \<times> address) \<times> u64) list"

datatype dpos_error = AlreadyCandidate address | InvalidCandidate address | DecodeError | NoValidators | NoCandidates

definition NewDposContext :: DposContext where
  "NewDposContext = \<lparr>epochTrie = None, delegateTrie = [], voteTrie = [], candidateTrie = [], mintCntTrie = []\<rparr>"

definition Dpos_Snapshot :: "DposContext \<Rightarrow> DposContext" where
  "Dpos_Snapshot d = d"

definition RevertToSnapShot :: "DposContext \<Rightarrow> DposContext \<Rightarrow> DposContext" where
  "RevertToSnapShot snapshot d = d\<lparr>epochTrie := epochTrie snapshot, delegateTrie := delegateTrie snapshot,
     candidateTrie := candidateTrie snapshot, voteTrie := voteTrie snapshot, mintCntTrie := mintCntTrie snapshot\<rparr>"

text \<open>The loop of \<open>KickoutCandidate\<close> over the delegators that the iterator saw when it was made. A
  missing vote is an empty input to the decoder.\<close>

fun kickout_delegators :: "address \<Rightarrow> address list \<Rightarrow> DposContext \<Rightarrow> dpos_error option \<times> DposContext" where
  "kickout_delegators candidate [] d = (None, d)"
| "kickout_delegators candidate (delegator # ds) d =
     (let d1 = d\<lparr>delegateTrie := t_delete (candidate, delegator) (delegateTrie d)\<rparr>
      in case map_of (voteTrie d1) delegator of
           None \<Rightarrow> (Some DecodeError, d1)
         | Some oldCandidateAddrs \<Rightarrow>
             (let newCandidateAddrs = filter (\<lambda>a. a \<noteq> candidate) oldCandidateAddrs
              in kickout_delegators candidate ds
                   (if newCandidateAddrs = [] then d1\<lparr>voteTrie := t_delete delegator (voteTrie d1)\<rparr>
                    else d1\<lparr>voteTrie := t_update delegator newCandidateAddrs (voteTrie d1)\<rparr>)))"

definition KickoutCandidate :: "address \<Rightarrow> DposContext \<Rightarrow> dpos_error option \<times> DposContext" where
  "KickoutCandidate candidate d =
     (case map_of (candidateTrie d) candidate of
        None \<Rightarrow> (None, d)
      | Some _ \<Rightarrow> kickout_delegators candidate (map snd (t_prefix candidate (delegateTrie d)))
                    (d\<lparr>candidateTrie := t_delete candidate (candidateTrie d)\<rparr>))"

definition BecomeCandidate :: "address \<Rightarrow> DposContext \<Rightarrow> dpos_error option \<times> DposContext" where
  "BecomeCandidate candidate d =
     (case map_of (candidateTrie d) candidate of
        Some _ \<Rightarrow> (Some (AlreadyCandidate candidate), d)
      | None \<Rightarrow> (None, d\<lparr>candidateTrie :=
          t_update candidate \<lparr>Addr = candidate, Weight = 100, DegradeTime = 0\<rparr> (candidateTrie d)\<rparr>))"

fun all_candidates :: "DposContext \<Rightarrow> address list \<Rightarrow> dpos_error option" where
  "all_candidates d [] = None"
| "all_candidates d (a # as) =
     (if map_of (candidateTrie d) a = None then Some (InvalidCandidate a) else all_candidates d as)"

definition delete_votes :: "address \<Rightarrow> address list \<Rightarrow> DposContext \<Rightarrow> DposContext" where
  "delete_votes delegator old d = fold (\<lambda>a d. d\<lparr>delegateTrie := t_delete (a, delegator) (delegateTrie d)\<rparr>) old d"

definition Dpos_Delegate :: "address \<Rightarrow> address list \<Rightarrow> DposContext \<Rightarrow> dpos_error option \<times> DposContext" where
  "Dpos_Delegate delegator candidateAddrs d =
     (case all_candidates d candidateAddrs of
        Some err \<Rightarrow> (Some err, d)
      | None \<Rightarrow>
          (let d1 = (case map_of (voteTrie d) delegator of None \<Rightarrow> d | Some old \<Rightarrow> delete_votes delegator old d);
               d2 = fold (\<lambda>a d. d\<lparr>delegateTrie := t_update (a, delegator) delegator (delegateTrie d)\<rparr>) candidateAddrs d1
           in (None, d2\<lparr>voteTrie := t_update delegator candidateAddrs (voteTrie d2)\<rparr>)))"

definition Dpos_UnDelegate :: "address \<Rightarrow> DposContext \<Rightarrow> dpos_error option \<times> DposContext" where
  "Dpos_UnDelegate delegator d =
     (case map_of (voteTrie d) delegator of
        None \<Rightarrow> (None, d)
      | Some old \<Rightarrow>
          (let d1 = delete_votes delegator old d
           in (None, d1\<lparr>voteTrie := t_delete delegator (voteTrie d1)\<rparr>)))"

definition GetCandidates :: "DposContext \<Rightarrow> CandidateInfo list" where
  "GetCandidates d = map snd (candidateTrie d)"

definition GetDelegators :: "address \<Rightarrow> DposContext \<Rightarrow> address list" where
  "GetDelegators candidate d = map snd (t_prefix candidate (delegateTrie d))"

definition GetCandidateAddrs :: "address \<Rightarrow> DposContext \<Rightarrow> dpos_error + address list" where
  "GetCandidateAddrs delegator d =
     (case map_of (voteTrie d) delegator of None \<Rightarrow> Inl DecodeError | Some as \<Rightarrow> Inr as)"

definition GetValidators :: "DposContext \<Rightarrow> dpos_error + address list" where
  "GetValidators d = (case epochTrie d of None \<Rightarrow> Inl DecodeError | Some vs \<Rightarrow> Inr vs)"

definition SetValidators :: "address list \<Rightarrow> DposContext \<Rightarrow> DposContext" where
  "SetValidators validators d = d\<lparr>epochTrie := Some validators\<rparr>"

definition IsDpos :: "DposContext \<Rightarrow> bool" where
  "IsDpos d = (case GetValidators d of Inl _ \<Rightarrow> False | Inr vs \<Rightarrow> length vs \<noteq> 1)"

section \<open>The invariant\<close>

text \<open>The delegate trie is the inverse of the vote trie, votes are for candidates only, and the
  weight of a candidate is a multiple of ten between 10 and 100.\<close>

definition weight_ok :: "CandidateInfo \<Rightarrow> bool" where
  "weight_ok c \<longleftrightarrow> Weight c \<in> {10, 20, 30, 40, 50, 60, 70, 80, 90, 100}"

definition votes_of :: "DposContext \<Rightarrow> address \<Rightarrow> address set" where
  "votes_of d delegator = (case map_of (voteTrie d) delegator of None \<Rightarrow> {} | Some as \<Rightarrow> set as)"

definition tries_sorted :: "DposContext \<Rightarrow> bool" where
  "tries_sorted d \<longleftrightarrow> t_sorted (delegateTrie d) \<and> t_sorted (voteTrie d) \<and> t_sorted (candidateTrie d) \<and> t_sorted (mintCntTrie d)"

definition candidates_ok :: "DposContext \<Rightarrow> bool" where
  "candidates_ok d \<longleftrightarrow> (\<forall>a c. map_of (candidateTrie d) a = Some c \<longrightarrow> Addr c = a \<and> weight_ok c)"

definition delegates_inverse :: "DposContext \<Rightarrow> bool" where
  "delegates_inverse d \<longleftrightarrow> (\<forall>c x. map_of (delegateTrie d) (c, x) = (if c \<in> votes_of d x then Some x else None))"

definition votes_valid :: "DposContext \<Rightarrow> bool" where
  "votes_valid d \<longleftrightarrow> (\<forall>x c. c \<in> votes_of d x \<longrightarrow> map_of (candidateTrie d) c \<noteq> None)"

definition dpos_ok :: "DposContext \<Rightarrow> bool" where
  "dpos_ok d \<longleftrightarrow> tries_sorted d \<and> candidates_ok d \<and> delegates_inverse d \<and> votes_valid d"

lemma dpos_okD:
  "dpos_ok d \<Longrightarrow> t_sorted (delegateTrie d)" "dpos_ok d \<Longrightarrow> t_sorted (voteTrie d)" "dpos_ok d \<Longrightarrow> t_sorted (candidateTrie d)"
  "dpos_ok d \<Longrightarrow> t_sorted (mintCntTrie d)"
  "dpos_ok d \<Longrightarrow> map_of (delegateTrie d) (c, x) = (if c \<in> votes_of d x then Some x else None)"
  "dpos_ok d \<Longrightarrow> c \<in> votes_of d x \<Longrightarrow> map_of (candidateTrie d) c \<noteq> None"
  by (simp_all add: dpos_ok_def tries_sorted_def delegates_inverse_def votes_valid_def)

lemma NewDposContext_ok: "dpos_ok NewDposContext"
  by (simp add: dpos_ok_def NewDposContext_def tries_sorted_def t_sorted_def candidates_ok_def delegates_inverse_def
      votes_valid_def votes_of_def)

lemma weight_ok_100: "weight_ok \<lparr>Addr = a, Weight = 100, DegradeTime = t\<rparr>"
  by (simp add: weight_ok_def)

lemma put_candidate_ok:
  assumes "dpos_ok d" "Addr ci = a" "weight_ok ci"
  defines "d' \<equiv> d\<lparr>candidateTrie := t_update a ci (candidateTrie d)\<rparr>"
  shows "dpos_ok d'" "votes_of d' = votes_of d" "map_of (candidateTrie d') = (map_of (candidateTrie d))(a \<mapsto> ci)"
proof -
  show v: "votes_of d' = votes_of d" by (simp add: votes_of_def fun_eq_iff d'_def)
  show m: "map_of (candidateTrie d') = (map_of (candidateTrie d))(a \<mapsto> ci)"
    using dpos_okD(3) [OF assms(1)] by (simp add: d'_def)
  have "candidates_ok d'" using assms(1-3) m by (auto simp: dpos_ok_def candidates_ok_def split: if_splits)
  moreover have "votes_valid d'" using dpos_okD(6) [OF assms(1)] v m by (auto simp: votes_valid_def)
  moreover have "tries_sorted d'" "delegates_inverse d'"
    using assms(1) v by (simp_all add: dpos_ok_def tries_sorted_def delegates_inverse_def) (simp_all add: d'_def)
  ultimately show "dpos_ok d'" by (simp add: dpos_ok_def)
qed

lemma BecomeCandidate_ok:
  assumes "dpos_ok d" "BecomeCandidate a d = (err, d')"
  shows "dpos_ok d'" "votes_of d' = votes_of d" "a \<in> dom (map_of (candidateTrie d'))"
    "err = (if a \<in> dom (map_of (candidateTrie d)) then Some (AlreadyCandidate a) else None)"
  using assms(2) put_candidate_ok [OF assms(1) _ weight_ok_100 [of a 0], of a] assms(1)
  by (auto simp: BecomeCandidate_def split: option.splits)

lemma all_candidates_None: "all_candidates d as = None \<longleftrightarrow> set as \<subseteq> dom (map_of (candidateTrie d))"
  by (induction as) auto

lemma delete_votes_fields [simp]:
  "voteTrie (delete_votes x old d) = voteTrie d" "candidateTrie (delete_votes x old d) = candidateTrie d"
  "mintCntTrie (delete_votes x old d) = mintCntTrie d" "epochTrie (delete_votes x old d) = epochTrie d"
  by (induction old arbitrary: d) (simp_all add: delete_votes_def)

lemma delete_votes_ok:
  "map_of (delegateTrie (delete_votes x old d)) (c, y) = (if y = x \<and> c \<in> set old then None else map_of (delegateTrie d) (c, y))"
  "t_sorted (delegateTrie d) \<Longrightarrow> t_sorted (delegateTrie (delete_votes x old d))"
  by (induction old arbitrary: d) (auto simp: delete_votes_def)

definition add_votes :: "address \<Rightarrow> address list \<Rightarrow> DposContext \<Rightarrow> DposContext" where
  "add_votes x as d = fold (\<lambda>a d. d\<lparr>delegateTrie := t_update (a, x) x (delegateTrie d)\<rparr>) as d"

lemma add_votes_fields [simp]:
  "voteTrie (add_votes x as d) = voteTrie d" "candidateTrie (add_votes x as d) = candidateTrie d"
  "mintCntTrie (add_votes x as d) = mintCntTrie d" "epochTrie (add_votes x as d) = epochTrie d"
  by (induction as arbitrary: d) (simp_all add: add_votes_def)

lemma add_votes_ok:
  "t_sorted (delegateTrie d) \<Longrightarrow> t_sorted (delegateTrie (add_votes x as d))"
  "t_sorted (delegateTrie d) \<Longrightarrow> map_of (delegateTrie (add_votes x as d)) (c, y) =
     (if y = x \<and> c \<in> set as then Some x else map_of (delegateTrie d) (c, y))"
  by (induction as arbitrary: d) (auto simp: add_votes_def)

lemma votes_of_update:
  "t_sorted (voteTrie d) \<Longrightarrow> votes_of (d\<lparr>voteTrie := t_update x as (voteTrie d)\<rparr>) = (votes_of d)(x := set as)"
  "votes_of (d\<lparr>voteTrie := t_delete x (voteTrie d)\<rparr>) = (votes_of d)(x := {})"
  by (auto simp: votes_of_def fun_eq_iff)

lemma votes_of_fields: "voteTrie d' = voteTrie d \<Longrightarrow> votes_of d' = votes_of d"
  by (simp add: votes_of_def fun_eq_iff)

lemma Delegate_ok:
  assumes "dpos_ok d" "Dpos_Delegate x as d = (err, d')"
  shows "dpos_ok d'" "candidateTrie d' = candidateTrie d"
    "err = None \<longleftrightarrow> set as \<subseteq> dom (map_of (candidateTrie d))"
    "err = None \<Longrightarrow> votes_of d' = (votes_of d)(x := set as)" "err \<noteq> None \<Longrightarrow> d' = d"
proof -
  define d1 where "d1 = (case map_of (voteTrie d) x of None \<Rightarrow> d | Some old \<Rightarrow> delete_votes x old d)"
  define d2 where "d2 = add_votes x as d1"
  have d1: "voteTrie d1 = voteTrie d" "candidateTrie d1 = candidateTrie d" "mintCntTrie d1 = mintCntTrie d"
      "t_sorted (delegateTrie d1)" "map_of (delegateTrie d1) (c, y) = (if y = x then None else map_of (delegateTrie d) (c, y))" for c y
    using dpos_okD [OF assms(1)]
    by (auto simp: d1_def delete_votes_ok votes_of_def split: option.split)
  have d2: "voteTrie d2 = voteTrie d" "candidateTrie d2 = candidateTrie d" "mintCntTrie d2 = mintCntTrie d"
      "t_sorted (delegateTrie d2)"
      "map_of (delegateTrie d2) (c, y) = (if y = x then (if c \<in> set as then Some x else None) else map_of (delegateTrie d) (c, y))" for c y
    using d1 by (auto simp: d2_def add_votes_ok)
  note v2 = votes_of_update(1) [of d2 x as] votes_of_fields [OF d2(1)]
  have r: "Dpos_Delegate x as d = (case all_candidates d as of Some e \<Rightarrow> (Some e, d)
      | None \<Rightarrow> (None, d2\<lparr>voteTrie := t_update x as (voteTrie d2)\<rparr>))"
    by (simp add: Dpos_Delegate_def d1_def d2_def add_votes_def Let_def split: option.split)
  have ok: "dpos_ok (d2\<lparr>voteTrie := t_update x as (voteTrie d2)\<rparr>)" if "set as \<subseteq> dom (map_of (candidateTrie d))"
    using assms(1) that v2 d2 by (auto simp: dpos_ok_def tries_sorted_def candidates_ok_def delegates_inverse_def votes_valid_def)
  show "dpos_ok d'" "candidateTrie d' = candidateTrie d" "err = None \<longleftrightarrow> set as \<subseteq> dom (map_of (candidateTrie d))"
    "err = None \<Longrightarrow> votes_of d' = (votes_of d)(x := set as)" "err \<noteq> None \<Longrightarrow> d' = d"
    using assms r ok d2 v2 dpos_okD(2) [OF assms(1)]
    by (auto simp: all_candidates_None [symmetric] split: option.splits)
qed

lemma UnDelegate_ok:
  assumes "dpos_ok d" "Dpos_UnDelegate x d = (err, d')"
  shows "dpos_ok d'" "err = None" "votes_of d' = (votes_of d)(x := {})" "candidateTrie d' = candidateTrie d"
proof -
  have v: "votes_of (d0\<lparr>voteTrie := t_delete x (voteTrie d0)\<rparr>) = (votes_of d)(x := {})" if "voteTrie d0 = voteTrie d" for d0
    using votes_of_update(2) [of x d0] votes_of_fields [OF that] by simp
  show "dpos_ok d'"
  proof (cases "map_of (voteTrie d) x")
    case None
    then show ?thesis using assms by (simp add: Dpos_UnDelegate_def)
  next
    case (Some old)
    then have "votes_of d x = set old" by (simp add: votes_of_def)
    then show ?thesis using assms Some v [of "delete_votes x old d"]
      by (auto simp: Dpos_UnDelegate_def Let_def dpos_ok_def tries_sorted_def candidates_ok_def delegates_inverse_def
          votes_valid_def delete_votes_ok)
  qed
  show "err = None" "votes_of d' = (votes_of d)(x := {})" "candidateTrie d' = candidateTrie d"
    using assms v by (auto simp: Dpos_UnDelegate_def Let_def votes_of_def fun_eq_iff split: option.splits)
qed

text \<open>The loop of \<open>KickoutCandidate\<close>: what is left to do are the delegators that still vote for the
  candidate.\<close>

definition kickout_inv :: "address \<Rightarrow> address list \<Rightarrow> DposContext \<Rightarrow> bool" where
  "kickout_inv c ds d \<longleftrightarrow> tries_sorted d \<and> candidates_ok d \<and> delegates_inverse d \<and> distinct ds
     \<and> (\<forall>x. c \<in> votes_of d x \<longleftrightarrow> x \<in> set ds) \<and> (\<forall>x a. a \<in> votes_of d x \<longrightarrow> a = c \<or> map_of (candidateTrie d) a \<noteq> None)"

lemma kickout_delegators_ok:
  assumes "kickout_inv c ds d"
  shows "\<exists>d'. kickout_delegators c ds d = (None, d') \<and> dpos_ok d' \<and> candidateTrie d' = candidateTrie d
    \<and> (\<forall>x. votes_of d' x = votes_of d x - {c})"
  using assms
proof (induction ds arbitrary: d)
  case Nil
  then show ?case by (auto simp: kickout_inv_def dpos_ok_def votes_valid_def)
next
  case (Cons x ds)
  define d1 where "d1 = d\<lparr>delegateTrie := t_delete (c, x) (delegateTrie d)\<rparr>"
  have "c \<in> votes_of d x" using Cons.prems by (auto simp: kickout_inv_def)
  then obtain old where old: "map_of (voteTrie d) x = Some old" "votes_of d x = set old"
    by (auto simp: votes_of_def split: option.splits)
  define new where "new = filter (\<lambda>a. a \<noteq> c) old"
  define d2 where "d2 = (if new = [] then d1\<lparr>voteTrie := t_delete x (voteTrie d1)\<rparr> else d1\<lparr>voteTrie := t_update x new (voteTrie d1)\<rparr>)"
  have s: "t_sorted (voteTrie d1)" using Cons.prems by (simp add: kickout_inv_def tries_sorted_def d1_def)
  have v: "votes_of d2 = (votes_of d)(x := votes_of d x - {c})"
    using votes_of_update(1) [OF s, of x new] votes_of_update(2) [of x d1] votes_of_fields [of d1 d] old(2)
    by (auto simp: d2_def d1_def new_def fun_eq_iff filter_empty_conv)
  have k: "kickout_inv c ds d2"
    using Cons.prems v by (auto simp: kickout_inv_def tries_sorted_def candidates_ok_def delegates_inverse_def d2_def d1_def)
  have "kickout_delegators c (x # ds) d = kickout_delegators c ds d2"
    by (simp add: d1_def d2_def new_def old(1) Let_def)
  moreover have "candidateTrie d2 = candidateTrie d" by (simp add: d2_def d1_def)
  ultimately show ?case using Cons.IH [OF k] v by (auto simp: fun_upd_apply)
qed

lemma GetDelegators_ok:
  assumes "dpos_ok d"
  shows "set (GetDelegators c d) = {x. c \<in> votes_of d x}" "distinct (GetDelegators c d)"
proof -
  note D = dpos_okD [OF assms]
  have pre: "((c', x), y) \<in> set (t_prefix c (delegateTrie d)) \<longleftrightarrow> c' = c \<and> y = x \<and> c \<in> votes_of d x" for c' x y
    using t_prefix_iff [OF D(1), of c x y] D(5) [of c x] by (auto simp: t_prefix_def split: if_splits)
  show "set (GetDelegators c d) = {x. c \<in> votes_of d x}"
    using pre by (force simp: GetDelegators_def)
  have "distinct (map fst (t_prefix c (delegateTrie d)))"
    using t_sorted_distinct [OF D(1)] by (simp add: t_prefix_def distinct_map_filter)
  moreover have "map fst (t_prefix c (delegateTrie d)) = map (Pair c) (GetDelegators c d)"
    unfolding GetDelegators_def map_map by (rule map_cong [OF refl]) (use pre in auto)
  ultimately show "distinct (GetDelegators c d)" by (simp add: distinct_map)
qed

lemma KickoutCandidate_ok:
  assumes "dpos_ok d"
  shows "\<exists>d'. KickoutCandidate c d = (None, d') \<and> dpos_ok d' \<and> map_of (candidateTrie d') = (map_of (candidateTrie d))(c := None)
    \<and> (\<forall>x. votes_of d' x = votes_of d x - {c})"
proof (cases "map_of (candidateTrie d) c")
  case None
  then have "votes_of d x - {c} = votes_of d x" for x using dpos_okD(6) [OF assms, of c x] by auto
  then show ?thesis using None assms by (simp add: KickoutCandidate_def fun_upd_idem)
next
  case (Some ci)
  define d1 where "d1 = d\<lparr>candidateTrie := t_delete c (candidateTrie d)\<rparr>"
  have v: "votes_of d1 = votes_of d" by (rule votes_of_fields) (simp add: d1_def)
  then have "kickout_inv c (GetDelegators c d) d1"
    using assms GetDelegators_ok [OF assms, of c]
    by (auto simp: kickout_inv_def dpos_ok_def tries_sorted_def candidates_ok_def delegates_inverse_def votes_valid_def d1_def)
  then show ?thesis using kickout_delegators_ok [of c "GetDelegators c d" d1] Some v
    by (auto simp: KickoutCandidate_def GetDelegators_def [symmetric] d1_def [symmetric]) (auto simp: d1_def)
qed

section \<open>The ballot the context implements\<close>

text \<open>The abstract ballot: the set of candidates and, for every delegator, the set of candidates it
  votes for.\<close>

definition ballot :: "DposContext \<Rightarrow> address set \<times> (address \<Rightarrow> address set)" where
  "ballot d = (dom (map_of (candidateTrie d)), votes_of d)"

text \<open>C8: The context implements a ballot. From a well-formed context, becoming a candidate adds one and
  fails for an existing one, leaving takes the candidate out of all votes, a delegation to
  candidates replaces the votes of the delegator and one to a stranger changes nothing, and an
  undelegation clears them; every operation keeps the context well formed, and the delegators
  listed for a candidate are exactly those who vote for it.\<close>

theorem dpos_refines_ballot:
  assumes "dpos_ok d" "ballot d = (C, V)"
  shows "(\<exists>d'. BecomeCandidate a d = (if a \<in> C then Some (AlreadyCandidate a) else None, d') \<and> dpos_ok d' \<and> ballot d' = (insert a C, V))
    \<and> (\<exists>d'. KickoutCandidate a d = (None, d') \<and> dpos_ok d' \<and> ballot d' = (C - {a}, \<lambda>x. V x - {a}))
    \<and> (if set as \<subseteq> C then \<exists>d'. Dpos_Delegate x as d = (None, d') \<and> dpos_ok d' \<and> ballot d' = (C, V(x := set as))
       else \<exists>err. Dpos_Delegate x as d = (Some err, d))
    \<and> (\<exists>d'. Dpos_UnDelegate x d = (None, d') \<and> dpos_ok d' \<and> ballot d' = (C, V(x := {})))
    \<and> set (GetDelegators a d) = {x. a \<in> V x} \<and> distinct (GetDelegators a d)"
proof (intro conjI)
  have b: "C = dom (map_of (candidateTrie d))" "V = votes_of d" using assms(2) by (simp_all add: ballot_def)
  show "\<exists>d'. BecomeCandidate a d = (if a \<in> C then Some (AlreadyCandidate a) else None, d') \<and> dpos_ok d' \<and> ballot d' = (insert a C, V)"
    using put_candidate_ok [OF assms(1) _ weight_ok_100 [of a 0], of a] assms(1)
    by (auto simp: BecomeCandidate_def ballot_def b split: option.split)
  show "\<exists>d'. KickoutCandidate a d = (None, d') \<and> dpos_ok d' \<and> ballot d' = (C - {a}, \<lambda>x. V x - {a})"
    using KickoutCandidate_ok [OF assms(1), of a] by (auto simp: ballot_def b intro!: ext)
  obtain err d' where r: "Dpos_Delegate x as d = (err, d')" by fastforce
  show "if set as \<subseteq> C then \<exists>d'. Dpos_Delegate x as d = (None, d') \<and> dpos_ok d' \<and> ballot d' = (C, V(x := set as))
      else \<exists>err. Dpos_Delegate x as d = (Some err, d)"
    using Delegate_ok [OF assms(1) r] r by (auto simp: ballot_def b)
  show "\<exists>d'. Dpos_UnDelegate x d = (None, d') \<and> dpos_ok d' \<and> ballot d' = (C, V(x := {}))"
    using UnDelegate_ok [OF assms(1), of x] by (cases "Dpos_UnDelegate x d") (auto simp: ballot_def b)
  show "set (GetDelegators a d) = {x. a \<in> V x}" "distinct (GetDelegators a d)" using GetDelegators_ok [OF assms(1), of a] by (simp_all add: b)
qed

theorem dpos_refines_ballot_witness:
  "ballot (snd (KickoutCandidate 1 (snd (Dpos_Delegate 9 [1, 2] (snd (BecomeCandidate 2 (snd (BecomeCandidate 1 NewDposContext))))))))
     = ({2}, \<lambda>x. if x = 9 then {2} else {})"
proof -
  have b0: "ballot NewDposContext = ({}, \<lambda>_. {})" by (simp add: ballot_def NewDposContext_def votes_of_def fun_eq_iff)
  obtain d1 where d1: "snd (BecomeCandidate 1 NewDposContext) = d1" "dpos_ok d1" "ballot d1 = ({1}, \<lambda>_. {})"
    using dpos_refines_ballot [OF NewDposContext_ok b0, of 1 "[]" 0] by auto
  obtain d2 where d2: "snd (BecomeCandidate 2 d1) = d2" "dpos_ok d2" "ballot d2 = ({1, 2}, \<lambda>_. {})"
    using dpos_refines_ballot [OF d1(2,3), of 2 "[]" 0] by (auto simp: insert_commute)
  obtain d3 where d3: "snd (Dpos_Delegate 9 [1, 2] d2) = d3" "dpos_ok d3" "ballot d3 = ({1, 2}, (\<lambda>_. {})(9 := {1, 2}))"
    using dpos_refines_ballot [OF d2(2,3), of 0 "[1, 2]" 9] by auto
  show ?thesis using dpos_refines_ballot [OF d3(2,3), of 1 "[]" 0] by (auto simp: d1 d2 d3 fun_eq_iff)
qed

end
