(* ===== verification/Executor.thy ===== *)
theory Executor
  imports Transition DposContext "HOL-Library.Signed_Division"
begin

text \<open>
  The executor (\<open>core/executor/executor.go\<close>): binary transactions go through the state transition,
  all others are messages of the delegated proof of stake, which move a balance between its free,
  its locked and its unlocked part and change the candidates and votes. Headers are those of
  \<open>core/types/block.go\<close>; what a header hashes to and who signed a transaction are parameters.
\<close>

section \<open>Headers\<close>

record DposContextProto =
  EpochHash :: hash
  DelegateHash :: hash
  CandidateHash :: hash
  VoteHash :: hash
  MintCntHash :: hash

record BlockHeader =
  PreviousHash :: hash
  Miner :: address
  StateRoot :: hash
  ActionsRoot :: hash
  TransactionsRoot :: hash
  ReceiptsRoot :: hash
  hd_DposContext :: DposContextProto
  LogsBloom :: bytes
  hd_Difficulty :: int
  Height :: int
  hd_GasLimit :: u64
  hd_GasUsed :: u64
  TimeStamp :: int
  ExtraData :: bytes
  hd_Nonce :: u64

section \<open>Time\<close>

text \<open>Instants and durations in nanoseconds; a duration is an \<open>int64\<close>, and the difference of two
  instants is capped at its ends.\<close>

definition second_ns :: int where "second_ns = 1000000000"

definition wrap_int64 :: "int \<Rightarrow> int" where
  "wrap_int64 x = signed_take_bit 63 x"

definition time_Unix :: "int \<Rightarrow> int \<Rightarrow> int" where
  "time_Unix sec nsec = sec * second_ns + nsec"

definition instant :: "int \<Rightarrow> int" where
  "instant ts = time_Unix (ts sdiv second_ns) (ts smod second_ns)"

definition time_Sub :: "int \<Rightarrow> int \<Rightarrow> int" where
  "time_Sub t u = max (- (2 ^ 63)) (min (2 ^ 63 - 1) (t - u))"

section \<open>Messages of the proof of stake\<close>

datatype apply_error =
    ExecErr exec_error
  | DposErr dpos_error
  | BalanceInsufficient
  | DelegateDurationInsufficient
  | LockedBalanceInsufficient
  | DurationInsufficient

type_synonym message_result = "go_panic + (bool \<times> apply_error option \<times> DposContext \<times> StateDB)"

text \<open>What follows an operation on the context. On an error the code calls
  \<open>dpossnapshot.RevertToSnapShot(dpossnapshot)\<close>, which changes the snapshot and not the context.\<close>

definition after_dpos_op ::
  "DposContext \<Rightarrow> nat \<Rightarrow> dpos_error option \<times> DposContext \<Rightarrow> StateDB \<Rightarrow> message_result" where
  "after_dpos_op dpossnapshot snapshot r s =
     (case r of
        (None, d) \<Rightarrow> Inr (False, None, d, s)
      | (Some err, d) \<Rightarrow>
          (let dpossnapshot1 = RevertToSnapShot dpossnapshot dpossnapshot
           in rbind (RevertToSnapshot snapshot s) (\<lambda>s1. Inr (True, Some (DposErr err), d, s1))))"

definition delegate_message ::
  "int \<Rightarrow> Transaction \<Rightarrow> address \<Rightarrow> nat \<Rightarrow> DposContext \<Rightarrow> DposContext \<Rightarrow> StateDB \<Rightarrow> message_result" where
  "delegate_message timestamp tx from snapshot dpossnapshot d s =
     (let value = tx_Value tx;
          finish = (\<lambda>s. after_dpos_op dpossnapshot snapshot (Dpos_Delegate from (tos tx) d) s)
      in if value > 0
         then (let (b, s1) = GetBalance s from
               in rbind (deref b) (\<lambda>balance.
                  if balance - value < 0 then Inr (True, Some BalanceInsufficient, d, s1)
                  else rbind (SubBalance from value s1) (\<lambda>s2.
                       let (l, s3) = GetLockedBalance s2 from
                       in rbind (deref l) (\<lambda>locked.
                          rbind (SetLockedBalance from (locked + value) s3) (\<lambda>s4.
                          rbind (SetDelegateTimestamp from timestamp s4) finish)))))
         else finish s)"

definition undelegate_message ::
  "ChainConfig \<Rightarrow> int \<Rightarrow> Transaction \<Rightarrow> address \<Rightarrow> nat \<Rightarrow> DposContext \<Rightarrow> DposContext \<Rightarrow> StateDB \<Rightarrow> message_result" where
  "undelegate_message cfg timestamp tx from snapshot dpossnapshot d s =
     (let value = tx_Value tx;
          finish = (\<lambda>s. let (l, s1) = GetLockedBalance s from
                   in rbind (deref l) (\<lambda>locked.
                      if locked = 0 then after_dpos_op dpossnapshot snapshot (Dpos_UnDelegate from d) s1
                      else Inr (False, None, d, s1)))
      in if value > 0
         then (let (ts, s1) = GetDelegateTimestamp s from
               in rbind (deref ts) (\<lambda>since.
                  if time_Sub (instant (Int64 timestamp)) (instant (Int64 since))
                       < wrap_int64 (60 * second_ns * MinDelegateDuration cfg)
                  then Inr (True, Some DelegateDurationInsufficient, d, s1)
                  else let (l, s2) = GetLockedBalance s1 from
                       in rbind (deref l) (\<lambda>locked.
                          if locked - value < 0 then Inr (True, Some LockedBalanceInsufficient, d, s2)
                          else rbind (SetLockedBalance from (locked - value) s2) (\<lambda>s3.
                               let (u, s4) = GetUnLockedBalance s3 from
                               in rbind (deref u) (\<lambda>unlocked.
                                  rbind (SetUnLockedBalance from (unlocked + value) s4) (\<lambda>s5.
                                  finish (SetUnDelegateTimestamp from timestamp s5)))))))
         else finish s)"

definition redeem_message ::
  "ChainConfig \<Rightarrow> int \<Rightarrow> address \<Rightarrow> DposContext \<Rightarrow> StateDB \<Rightarrow> message_result" where
  "redeem_message cfg timestamp from d s =
     (let (ts, s1) = GetUnDelegateTimestamp s from
      in rbind (deref ts) (\<lambda>since.
         if instant (Int64 timestamp) < instant (Int64 since) + wrap_int64 (DelayDuration cfg * second_ns)
         then Inr (True, Some DurationInsufficient, d, s1)
         else let (u, s2) = GetUnLockedBalance s1 from
              in rbind (deref u) (\<lambda>unlocked.
                 rbind (AddBalance from unlocked s2) (\<lambda>s3.
                 rbind (SetUnLockedBalance from 0 s3) (\<lambda>s4. Inr (False, None, d, s4))))))"

definition dpos_switch ::
  "ChainConfig \<Rightarrow> int \<Rightarrow> Transaction \<Rightarrow> address \<Rightarrow> nat \<Rightarrow> DposContext \<Rightarrow> DposContext \<Rightarrow> StateDB \<Rightarrow> message_result" where
  "dpos_switch cfg timestamp tx from snapshot dpossnapshot d s =
     (case tx_Type tx of
        LoginCandidate \<Rightarrow> after_dpos_op dpossnapshot snapshot (BecomeCandidate from d) s
      | LogoutCandidate \<Rightarrow> after_dpos_op dpossnapshot snapshot (KickoutCandidate from d) s
      | Delegate \<Rightarrow> delegate_message timestamp tx from snapshot dpossnapshot d s
      | UnDelegate \<Rightarrow> undelegate_message cfg timestamp tx from snapshot dpossnapshot d s
      | Redeem \<Rightarrow> redeem_message cfg timestamp from d s
      | _ \<Rightarrow> Inr (False, None, d, s))"

definition applyDposMessage ::
  "(Transaction \<Rightarrow> address) \<Rightarrow> ChainConfig \<Rightarrow> int \<Rightarrow> DposContext \<Rightarrow> Transaction \<Rightarrow> StateDB \<Rightarrow> GasPool \<Rightarrow>
   go_panic + (u64 \<times> bool \<times> apply_error option \<times> DposContext \<times> StateDB \<times> GasPool)" where
  "applyDposMessage sender cfg timestamp d tx s gp =
     (let gas = (case IntrinsicGas (tx_Payload tx) (tx_Type tx) False of Inl _ \<Rightarrow> 0 | Inr g \<Rightarrow> g);
          from = sender tx;
          feeval = uint gas * tx_GasPrice tx;
          (b, s1) = GetBalance s from
      in rbind (deref b) (\<lambda>balance.
         if balance < feeval then Inr (gas, True, Some (ExecErr errInsufficientBalanceForGas), d, s1, gp)
         else rbind (SubBalance from feeval s1) (\<lambda>s2.
              let s3 = SetNonce from (tx_Nonce tx + 1) s2
              in case SubGas gas gp of
                   Inl err \<Rightarrow> Inr (0, True, Some (ExecErr err), d, s3, gp)
                 | Inr gp1 \<Rightarrow>
                     (let (snapshot, s4) = Snapshot s3; dpossnapshot = Dpos_Snapshot d
                      in rbind (dpos_switch cfg timestamp tx from snapshot dpossnapshot d s4)
                         (\<lambda>(failed, err, d1, s5). Inr (gas, failed, err, d1, s5, gp1))))))"

section \<open>Transactions and actions\<close>

record Receipt =
  rc_State :: hash
  rc_Failed :: bool
  CumulativeGasUsed :: u64
  rc_Logs :: "Log list"
  TransactionHash :: hash
  ContractAddress :: address
  rc_GasUsed :: u64

text \<open>What \<open>GetHash\<close> of the context of a transaction walks: the headers of the ledger, from the parent
  of the block. The fuel bounds the number of headers on the way.\<close>

fun GetHash_loop :: "nat \<Rightarrow> (hash \<Rightarrow> BlockHeader option) \<Rightarrow> u64 \<Rightarrow> hash \<Rightarrow> hash" where
  "GetHash_loop 0 getHeader n h = 0"
| "GetHash_loop (Suc f) getHeader n h =
     (case getHeader h of
        None \<Rightarrow> 0
      | Some header \<Rightarrow>
          (if n = Uint64 (Height header) - 1 then PreviousHash header
           else GetHash_loop f getHeader n (PreviousHash header)))"

definition NewEVMContext ::
  "nat \<Rightarrow> (Transaction \<Rightarrow> address) \<Rightarrow> (hash \<Rightarrow> BlockHeader option) \<Rightarrow> Transaction \<Rightarrow> BlockHeader \<Rightarrow>
   address option \<Rightarrow> address option \<Rightarrow> Context" where
  "NewEVMContext fuel sender getHeader tx bheader author txFrom =
     \<lparr>Origin = (case txFrom of None \<Rightarrow> sender tx | Some a \<Rightarrow> a), GasPrice = tx_GasPrice tx,
      Coinbase = (case author of None \<Rightarrow> Miner bheader | Some a \<Rightarrow> a), ctx_GasLimit = hd_GasLimit bheader,
      BlockNumber = Height bheader, Time = TimeStamp bheader, Difficulty = hd_Difficulty bheader,
      GetHash = (\<lambda>n. GetHash_loop fuel getHeader n (PreviousHash bheader))\<rparr>"

text \<open>What the executor has besides: the chain configuration, the instruction set, the options and
  the crypto library of the machine, the ledger, and the hash and the sender of a transaction. The
  orders in which the maps of the state are walked are arguments of the operations that walk them.\<close>

record Executor =
  ex_config :: ChainConfig
  ex_table :: instructionSet
  ex_env :: vm_env
  ex_getHeader :: "hash \<Rightarrow> BlockHeader option"
  ex_sender :: "Transaction \<Rightarrow> address"
  ex_txHash :: "Transaction \<Rightarrow> hash"

definition tx_env :: "Executor \<Rightarrow> Transaction \<Rightarrow> BlockHeader \<Rightarrow> address option \<Rightarrow> address option \<Rightarrow> vm_env" where
  "tx_env e tx header author txFrom = (ex_env e)\<lparr>env_ctx :=
     NewEVMContext (nat (Height header)) (ex_sender e) (ex_getHeader e) tx header author txFrom\<rparr>"

text \<open>The outcome of a transaction before its receipt; the interpreter gets fuel for the gas limit.\<close>

definition run_transaction ::
  "Executor \<Rightarrow> address option \<Rightarrow> address option \<Rightarrow> DposContext \<Rightarrow> GasPool \<Rightarrow> StateDB \<Rightarrow> BlockHeader \<Rightarrow> Transaction \<Rightarrow>
   vm_fail + (bytes \<times> u64 \<times> bool \<times> apply_error option \<times> DposContext \<times> StateDB \<times> GasPool)" where
  "run_transaction e author txFrom d gp s header tx =
     (if tx_Type tx = Binary
      then (let env = tx_env e tx header author txFrom
            in rbind (ExecStateTransition (ex_sender e) (run_loop (Suc (unat (tx_GasLimit tx))) (ex_table e) env) env txFrom
                        (NewEVM s) tx gp) (\<lambda>(result, gas, failed, err, st).
               Inr (result, gas, failed, map_option ExecErr err, d, st_state st, st_gp st)))
      else rbind (lift_panic (applyDposMessage (ex_sender e) (ex_config e) (TimeStamp header) d tx s gp))
             (\<lambda>(gas, failed, vmerr, d1, s1, gp1). Inr ([], gas, failed,
                if vmerr = Some (ExecErr (VmError ErrInsufficientBalance)) then vmerr else None, d1, s1, gp1)))"

definition ExecTransaction ::
  "Executor \<Rightarrow> address list \<Rightarrow> (address \<Rightarrow> hash list) \<Rightarrow> address option \<Rightarrow> address option \<Rightarrow> DposContext \<Rightarrow> GasPool \<Rightarrow>
   StateDB \<Rightarrow> BlockHeader \<Rightarrow> Transaction \<Rightarrow> u64 \<Rightarrow>
   vm_fail + ((apply_error + bytes \<times> Receipt \<times> u64) \<times> u64 \<times> DposContext \<times> StateDB \<times> GasPool)" where
  "ExecTransaction e order ks author txFrom d gp s header tx usedGas =
     rbind (run_transaction e author txFrom d gp s header tx) (\<lambda>(result, gas, failed, err, d1, s1, gp1).
     case err of
       Some x \<Rightarrow> Inr (Inl x, usedGas, d1, s1, gp1)
     | None \<Rightarrow>
         rbind (lift_panic (IntermediateRoot order ks True s1)) (\<lambda>(root, s2).
         let usedGas1 = usedGas + gas;
             receipt = \<lparr>rc_State = root, rc_Failed = failed, CumulativeGasUsed = usedGas1,
               rc_Logs = GetLogs s2 (ex_txHash e tx), TransactionHash = ex_txHash e tx,
               ContractAddress = (if tx_Tos tx = None
                 then CreateAddress (db_keccak (sdb_db s2)) (case txFrom of None \<Rightarrow> ex_sender e tx | Some a \<Rightarrow> a) (tx_Nonce tx)
                 else 0), rc_GasUsed = gas\<rparr>
         in Inr (Inr (result, receipt, gas), usedGas1, d1, s2, gp1)))"

fun ExecActions :: "address list \<Rightarrow> StateDB \<Rightarrow> go_panic + StateDB" where
  "ExecActions [] s = Inr s"
| "ExecActions (sender # as) s =
     (let (lb, s1) = GetUnLockedBalance s sender
      in rbind (deref lb) (\<lambda>v.
         rbind (AddBalance sender v s1) (\<lambda>s2.
         rbind (SetUnLockedBalance sender 0 s2) (\<lambda>s3. ExecActions as s3))))"

end
