(* ===== verification/Epoch.thy ===== *)
theory Epoch
  imports Executor "HOL-Library.List_Lexorder" "HOL-Library.Char_ord"
begin

text \<open>
  The epochs of the delegated proof of stake (\<open>consensus/dpos/epochcontext.go\<close>): who mints when, the count of the votes
  and the election of the validators of the next epoch, the mint counts and the weights. The options are positive numbers whose products fit 64
  bits, so the arithmetic on times is that of integers. The generator of random numbers, the hash of
  a header and the database are parameters.
\<close>

section \<open>Options and times\<close>

record dpos_option =
  BlockInterval :: int
  BlockRepeat :: int
  MaxValidatorSize :: int
  MinStartQuantity :: int
  DelayEpcho :: int
  MaxConfirmedNum :: int

definition default_Option :: dpos_option where
  "default_Option = \<lparr>BlockInterval = 500000000, BlockRepeat = 12, MaxValidatorSize = 3,
     MinStartQuantity = 1000000 * 1000000000000000000, DelayEpcho = 2, MaxConfirmedNum = 72\<rparr>"

definition consensusSize :: "dpos_option \<Rightarrow> int" where
  "consensusSize opt = MaxValidatorSize opt * 2 sdiv 3 + 1"

definition epochInterval :: "dpos_option \<Rightarrow> int" where
  "epochInterval opt = BlockInterval opt * BlockRepeat opt * MaxValidatorSize opt"

definition opt_ok :: "dpos_option \<Rightarrow> bool" where
  "opt_ok opt \<longleftrightarrow> 0 < BlockInterval opt \<and> 0 < BlockRepeat opt \<and> 0 < MaxValidatorSize opt \<and> epochInterval opt < 2 ^ 63"

definition Slot :: "dpos_option \<Rightarrow> int \<Rightarrow> int" where
  "Slot opt now = (now + BlockInterval opt sdiv 10) sdiv BlockInterval opt * BlockInterval opt"

section \<open>Looking up the validator of a time\<close>

datatype epoch_error =
    DposE dpos_error
  | FailedLookup
  | NoValidatorToKickout
  | NotACandidate
  | NoVotesCandidates
  | ErrInvalidMintBlockTime
  | ErrInvalidBlockValidator
  | ErrTooMuchUnconfirmedBlock
  | ErrNilBlockHeader
  | ErrUnknownBlock
  | ErrUnknownAncestor
  | ErrMismatchSignerAndValidator
  | errMissingSignature
  | RecoverErr
  | SignErr
  | DbErr
  | StateErr dberr

definition lookupValidator :: "dpos_option \<Rightarrow> DposContext \<Rightarrow> int \<Rightarrow> go_panic + (epoch_error + address)" where
  "lookupValidator opt d now =
     (let offset = now smod epochInterval opt sdiv (BlockInterval opt * BlockRepeat opt)
      in case GetValidators d of
           Inl err \<Rightarrow> Inr (Inl (DposE err))
         | Inr validators \<Rightarrow>
             (let validatorSize = int (length validators); index = (\<lambda>i. if 0 \<le> i \<and> i < validatorSize
                    then Inr (Inr (validators ! nat i)) else Inl IndexOutOfRange)
              in if validatorSize = 0 then Inr (Inl FailedLookup)
                 else if \<not> IsDpos d then index (offset smod validatorSize)
                 else if offset \<ge> validatorSize then Inr (Inr 0)
                 else index offset))"

section \<open>Counting votes\<close>

text \<open>The delegators of one candidate: the sum so far, the candidate's score and its own share.\<close>

fun count_delegators ::
  "address \<Rightarrow> address list \<Rightarrow> StateDB \<Rightarrow> int \<Rightarrow> int \<Rightarrow> int \<Rightarrow> go_panic + (int \<times> int \<times> int \<times> StateDB)" where
  "count_delegators candidate [] s votes_total score selfscore = Inr (votes_total, score, selfscore, s)"
| "count_delegators candidate (delegator # ds) s votes_total score selfscore =
     (let (w, s1) = GetLockedBalance s delegator
      in rbind (deref w) (\<lambda>weight.
         count_delegators candidate ds s1 (votes_total + weight) (score + weight)
           (if delegator = candidate then selfscore + weight else selfscore)))"

fun count_candidates ::
  "ChainConfig \<Rightarrow> DposContext \<Rightarrow> CandidateInfo list \<Rightarrow> StateDB \<Rightarrow> (address \<rightharpoonup> int) \<Rightarrow> int \<Rightarrow>
   go_panic + ((address \<rightharpoonup> int) \<times> int \<times> StateDB)" where
  "count_candidates cfg d [] s votes votes_total = Inr (votes, votes_total, s)"
| "count_candidates cfg d (c # cs) s votes votes_total =
     (let delegators = GetDelegators (Addr c) d
      in if delegators = [] then count_candidates cfg d cs s (votes(Addr c \<mapsto> 0)) votes_total
         else rbind (count_delegators (Addr c) delegators s votes_total (case votes (Addr c) of None \<Rightarrow> 0 | Some v \<Rightarrow> v) 0)
                (\<lambda>(votes_total1, score, selfscore, s1).
                 let capped = (case MinDelegatePercent cfg of
                                 Some p \<Rightarrow> (if selfscore + p < score then selfscore else score)
                               | None \<Rightarrow> score)
                 in count_candidates cfg d cs s1 (votes(Addr c \<mapsto> capped * sint (Weight c))) votes_total1))"

definition CountVotes ::
  "ChainConfig \<Rightarrow> DposContext \<Rightarrow> StateDB \<Rightarrow> go_panic + (epoch_error + (address \<rightharpoonup> int) \<times> int \<times> StateDB)" where
  "CountVotes cfg d s =
     (case GetCandidates d of
        [] \<Rightarrow> Inr (Inl NoVotesCandidates)
      | cs \<Rightarrow> rbind (count_candidates cfg d cs s Map.empty 0) (\<lambda>r. Inr (Inr r)))"

section \<open>Degrading and upgrading\<close>

text \<open>The list \<open>needKickoutValidators\<close> of the source is never added to, so the function returns before
  it removes a candidate.\<close>

fun degrade_loop ::
  "dpos_option \<Rightarrow> int \<Rightarrow> int \<Rightarrow> int \<Rightarrow> address list \<Rightarrow> DposContext \<Rightarrow> epoch_error option \<times> DposContext" where
  "degrade_loop opt timestamp epoch epochDuration [] d = (None, d)"
| "degrade_loop opt timestamp epoch epochDuration (validator # vs) d =
     (let cnt = (case map_of (mintCntTrie d) (word_of_int epoch, validator) of None \<Rightarrow> 0 | Some c \<Rightarrow> sint c)
      in case map_of (candidateTrie d) validator of
           None \<Rightarrow> (Some NotACandidate, d)
         | Some ci \<Rightarrow>
             (let ci1 = (if cnt < epochDuration sdiv BlockInterval opt sdiv MaxValidatorSize opt sdiv 2
                         then (if Weight ci > 10 then ci\<lparr>Weight := Weight ci - 10, DegradeTime := word_of_int timestamp\<rparr> else ci)
                         else (if Weight ci < 100 then ci\<lparr>Weight := Weight ci + 10, DegradeTime := word_of_int timestamp\<rparr> else ci))
              in degrade_loop opt timestamp epoch epochDuration vs
                   (d\<lparr>candidateTrie := t_update validator ci1 (candidateTrie d)\<rparr>)))"

definition kickoutValidator ::
  "dpos_option \<Rightarrow> int \<Rightarrow> int \<Rightarrow> int \<Rightarrow> DposContext \<Rightarrow> epoch_error option \<times> DposContext" where
  "kickoutValidator opt timeOfFirstBlock timestamp epoch d =
     (case GetValidators d of
        Inl err \<Rightarrow> (Some (DposE err), d)
      | Inr validators \<Rightarrow>
          (if validators = [] then (Some NoValidatorToKickout, d)
           else degrade_loop opt timestamp epoch
                  (if timestamp - timeOfFirstBlock < epochInterval opt then timestamp - timeOfFirstBlock else epochInterval opt)
                  validators d))"

section \<open>Elections\<close>

text \<open>The hexadecimal form of an address, with the letters in upper case where the hash of the lower
  case form says so.\<close>

definition hex_digit :: "nat \<Rightarrow> char" where
  "hex_digit n = (if n < 10 then char_of (n + 48) else char_of (n + 87))"

definition hex_of :: "address \<Rightarrow> string" where
  "hex_of a = map (\<lambda>i. hex_digit (unat (drop_bit (4 * (39 - i)) a) mod 16)) [0..<40]"

definition Hex :: "(bytes \<Rightarrow> hash) \<Rightarrow> address \<Rightarrow> string" where
  "Hex keccak a =
     (let unchecksummed = hex_of a; hash = keccak (map (\<lambda>c. of_nat (of_char c)) unchecksummed)
      in ''0x'' @ map (\<lambda>i. let c = unchecksummed ! i; nibble = unat (drop_bit (4 * (63 - i)) hash) mod 16
                          in if c > CHR ''9'' \<and> nibble > 7 then char_of (of_char c - (32 :: nat)) else c) [0..<40])"

definition addr_less :: "(address \<Rightarrow> string) \<Rightarrow> address \<times> int \<Rightarrow> address \<times> int \<Rightarrow> bool" where
  "addr_less str p q = (if snd p < snd q then False else if snd p > snd q then True else str (fst p) < str (fst q))"

fun insert_sorted :: "('a \<Rightarrow> 'a \<Rightarrow> bool) \<Rightarrow> 'a \<Rightarrow> 'a list \<Rightarrow> 'a list" where
  "insert_sorted lt x [] = [x]"
| "insert_sorted lt x (y # ys) = (if lt y x then y # insert_sorted lt x ys else x # y # ys)"

text \<open>\<open>sort.Sort\<close>: any sorting does, since the order is total on what is sorted.\<close>

definition sort_Sort :: "('a \<Rightarrow> 'a \<Rightarrow> bool) \<Rightarrow> 'a list \<Rightarrow> 'a list" where
  "sort_Sort lt xs = foldr (insert_sorted lt) xs []"

definition swap_at :: "nat \<Rightarrow> nat \<Rightarrow> 'a list \<Rightarrow> 'a list" where
  "swap_at i j xs = xs[i := xs ! j, j := xs ! i]"

text \<open>\<open>rnd k n\<close> is the \<open>k\<close>-th number that the generator draws, below \<open>n\<close>.\<close>

fun shuffle :: "(nat \<Rightarrow> nat \<Rightarrow> nat) \<Rightarrow> nat \<Rightarrow> nat \<Rightarrow> 'a list \<Rightarrow> 'a list" where
  "shuffle rnd k 0 xs = xs"
| "shuffle rnd k (Suc i) xs = shuffle rnd (Suc k) i (swap_at (Suc i) (rnd k (Suc (Suc i))) xs)"

definition elect ::
  "dpos_option \<Rightarrow> (address \<Rightarrow> string) \<Rightarrow> (nat \<Rightarrow> nat \<Rightarrow> nat) \<Rightarrow> (address \<times> int) list \<Rightarrow> address list" where
  "elect opt str rnd votes =
     (let candidates = sort_Sort (addr_less str) votes;
          chosen = (if int (length candidates) > MaxValidatorSize opt then take (nat (MaxValidatorSize opt)) candidates else candidates)
      in map fst (shuffle rnd 0 (length chosen - 1) chosen))"

text \<open>The turns of the loop of \<open>tryElect\<close>. \<open>minted\<close> counts the entries that the iterator over the mint
  counts of the last epoch still has; \<open>keys\<close> lists the keys of the map of votes in the order in
  which the map is walked, and \<open>rng seed\<close> is the generator for a seed.\<close>

record elect_env =
  el_opt :: dpos_option
  el_cfg :: ChainConfig
  el_str :: "address \<Rightarrow> string"
  el_rng :: "int \<Rightarrow> nat \<Rightarrow> nat \<Rightarrow> nat"
  el_keys :: "(address \<rightharpoonup> int) \<Rightarrow> address list"
  el_timeOfFirstBlock :: int

function elect_loop ::
  "elect_env \<Rightarrow> int \<Rightarrow> int \<Rightarrow> bool \<Rightarrow> int \<Rightarrow> int \<Rightarrow> int \<Rightarrow> nat \<Rightarrow> DposContext \<Rightarrow> StateDB \<Rightarrow>
   go_panic + (epoch_error option \<times> DposContext \<times> StateDB)" where
  "elect_loop e seed timestamp prevEpochIsGenesis prevEpoch currentEpoch i minted d s =
     (if \<not> i < currentEpoch then Inr (None, d, s)
      else let kick = \<not> prevEpochIsGenesis \<and> minted > 0;
               (err, d1) = (if kick then kickoutValidator (el_opt e) (el_timeOfFirstBlock e) timestamp prevEpoch d else (None, d))
           in if err \<noteq> None then Inr (err, d1, s)
              else rbind (CountVotes (el_cfg e) d1 s) (\<lambda>r.
                   case r of
                     Inl err \<Rightarrow> Inr (Some err, d1, s)
                   | Inr (votes, votes_total, s1) \<Rightarrow>
                       (let keys = el_keys e votes
                        in if int (length keys) < consensusSize (el_opt e) \<or> votes_total < MinStartQuantity (el_opt e)
                           then Inr (None, d1, s1)
                           else elect_loop e seed timestamp prevEpochIsGenesis prevEpoch currentEpoch (i + 1) (minted - 1)
                                  (SetValidators (elect (el_opt e) (el_str e) (el_rng e (seed + i)) (map (\<lambda>a. (a, the (votes a))) keys)) d1)
                                  s1)))"
  by pat_completeness auto
termination
  by (relation "measure (\<lambda>(e, seed, timestamp, g, p, currentEpoch, i, minted, d, s). nat (currentEpoch - i))") auto

declare elect_loop.simps [simp del]

definition tryElect ::
  "elect_env \<Rightarrow> int \<Rightarrow> int \<Rightarrow> int \<Rightarrow> int \<Rightarrow> DposContext \<Rightarrow> StateDB \<Rightarrow> go_panic + (epoch_error option \<times> DposContext \<times> StateDB)" where
  "tryElect e seed genesisTime parentTime timestamp d s =
     (let interval = epochInterval (el_opt e);
          genesisEpoch = Int64 genesisTime sdiv interval;
          prevEpoch0 = Int64 parentTime sdiv interval;
          currentEpoch = timestamp sdiv interval;
          prevEpochIsGenesis = (prevEpoch0 = genesisEpoch);
          prevEpoch = (if prevEpochIsGenesis \<and> prevEpoch0 < currentEpoch then currentEpoch - 1 else prevEpoch0);
          minted = length (t_prefix (word_of_int prevEpoch) (mintCntTrie d))
      in elect_loop e seed timestamp prevEpochIsGenesis prevEpoch currentEpoch prevEpoch minted d s)"

section \<open>Mint counts\<close>

definition updateMintCnt :: "dpos_option \<Rightarrow> int \<Rightarrow> int \<Rightarrow> address \<Rightarrow> DposContext \<Rightarrow> DposContext" where
  "updateMintCnt opt parentBlockTime currentBlockTime validator d =
     (let currentEpoch = parentBlockTime sdiv epochInterval opt;
          newEpoch = currentBlockTime sdiv epochInterval opt;
          key = (word_of_int currentEpoch, validator);
          cnt = (if currentEpoch = newEpoch \<and> (\<exists>e \<in> set (mintCntTrie d). word_of_int currentEpoch \<le> fst (fst e))
                 then (case map_of (mintCntTrie d) key of None \<Rightarrow> 1 | Some c \<Rightarrow> sint c + 1)
                 else 1)
      in d\<lparr>mintCntTrie := t_update (word_of_int newEpoch, validator) (word_of_int cnt) (mintCntTrie d)\<rparr>)"

end
