(* ===== verification/VMSafeBase.thy ===== *)
theory VMSafeBase
  imports VMInterp VMAnalysis
begin

unbundle bit_operations_syntax

text \<open>
  Total correctness of code that may panic, and the facts about the stack, the memory and the
  gas functions that need nothing of the state database: operations on a stack of
  sufficient height return, memory that was paid for is accessed within its bounds, and every
  operation that does not end the run costs gas.
\<close>

section \<open>Code that returns\<close>

definition tot :: "'e + 'a \<Rightarrow> ('a \<Rightarrow> bool) \<Rightarrow> bool" where
  "tot m Q \<longleftrightarrow> (\<exists>x. m = Inr x \<and> Q x)"

text \<open>The machine may also stop on the index panic of the jump analysis, which needs two codes
  with the same hash.\<close>

definition safe :: "vm_fail + 'a \<Rightarrow> ('a \<Rightarrow> bool) \<Rightarrow> bool" where
  "safe m Q \<longleftrightarrow> (case m of Inl e \<Rightarrow> e = VMPanic bitvec_panic | Inr x \<Rightarrow> Q x)"

lemma tot_simps [simp]: "tot (Inr x) Q = Q x" "\<not> tot (Inl e) Q"
  by (simp_all add: tot_def)

lemma tot_rbind: "tot (rbind m f) Q \<longleftrightarrow> tot m (\<lambda>x. tot (f x) Q)"
  by (cases m) auto

lemma tot_mono: "tot m P \<Longrightarrow> (\<And>x. P x \<Longrightarrow> Q x) \<Longrightarrow> tot m Q"
  by (auto simp: tot_def)

lemma safe_simps [simp]: "safe (Inr x) Q = Q x" "safe (Inl e) Q \<longleftrightarrow> e = VMPanic bitvec_panic"
  by (simp_all add: safe_def)

lemma safe_rbind: "safe (rbind m f) Q \<longleftrightarrow> safe m (\<lambda>x. safe (f x) Q)"
  by (cases m) auto

lemma safe_mono: "safe m P \<Longrightarrow> (\<And>x. P x \<Longrightarrow> Q x) \<Longrightarrow> safe m Q"
  by (auto simp: safe_def split: sum.splits)

lemma safe_lift: "tot m Q \<Longrightarrow> safe (lift_panic m) Q"
  by (auto simp: tot_def lift_panic_def)

lemma safe_bind: "safe m P \<Longrightarrow> (\<And>x. P x \<Longrightarrow> safe (f x) Q) \<Longrightarrow> safe (rbind m f) Q"
  by (simp add: safe_rbind safe_mono)

lemma tot_bind: "tot m P \<Longrightarrow> (\<And>x. P x \<Longrightarrow> tot (f x) Q) \<Longrightarrow> tot (rbind m f) Q"
  by (simp add: tot_rbind tot_mono)

lemma safe_lift_bind: "tot m P \<Longrightarrow> (\<And>x. P x \<Longrightarrow> safe (f x) Q) \<Longrightarrow> safe (rbind (lift_panic m) f) Q"
  by (rule safe_bind [OF safe_lift])

section \<open>Stacks\<close>

definition nonneg :: "stack \<Rightarrow> bool" where
  "nonneg st \<longleftrightarrow> (\<forall>x \<in> set st. 0 \<le> x)"

lemma nonneg_simps [simp]: "nonneg []" "nonneg (x # st) \<longleftrightarrow> 0 \<le> x \<and> nonneg st"
  by (auto simp: nonneg_def)

lemma nonneg_take_drop: "nonneg st \<Longrightarrow> nonneg (drop n st)"
  by (auto simp: nonneg_def dest: in_set_dropD)

lemma Back_ok: "n < length st \<Longrightarrow> tot (Back st n) (\<lambda>x. x = st ! n)"
  by (simp add: Back_def)

lemma makeStackFunc_None: "makeStackFunc n k st = None \<longleftrightarrow> n \<le> length st \<and> length st + k - n \<le> StackLimit"
  by (auto simp: makeStackFunc_def require_def)

lemma length_ge:
  "1 \<le> length st \<Longrightarrow> \<exists>a r. st = a # r"
  "2 \<le> length st \<Longrightarrow> \<exists>a b r. st = a # b # r"
  "3 \<le> length st \<Longrightarrow> \<exists>a b c r. st = a # b # c # r"
  "4 \<le> length st \<Longrightarrow> \<exists>a b c d r. st = a # b # c # d # r"
  by (auto simp: numeral_eq_Suc Suc_le_length_iff)

lemma length_ge6: "6 \<le> length st \<Longrightarrow> \<exists>a b c d e f r. st = a # b # c # d # e # f # r"
  by (auto simp: numeral_eq_Suc Suc_le_length_iff)

lemma length_ge7: "7 \<le> length st \<Longrightarrow> \<exists>a b c d e f g r. st = a # b # c # d # e # f # g # r"
  by (auto simp: numeral_eq_Suc Suc_le_length_iff)

text \<open>A stack operation that needs \<open>n\<close> elements.\<close>

definition stack_fun_ok :: "nat \<Rightarrow> (stack \<Rightarrow> go_panic + stack) \<Rightarrow> bool" where
  "stack_fun_ok n g \<longleftrightarrow> (\<forall>st. n \<le> length st \<longrightarrow> nonneg st \<longrightarrow> tot (g st) nonneg)"

lemma bool_int_nonneg [simp]: "0 \<le> bool_int b"
  by (simp add: bool_int_def)

lemma Exp_word_nonneg: "0 \<le> r \<Longrightarrow> 0 \<le> fst (Exp_word n w r b)"
  by (induction n arbitrary: w r b) auto

lemma Exp_words_nonneg: "0 \<le> r \<Longrightarrow> 0 \<le> fst (Exp_words ws r b)"
  by (induction ws arbitrary: r b) (auto simp: split_beta Exp_word_nonneg)

lemma arith_stack_fun_ok:
  "stack_fun_ok 2 opAdd" "stack_fun_ok 2 opMul" "stack_fun_ok 2 opSub" "stack_fun_ok 2 opDiv"
  "stack_fun_ok 2 opSdiv" "stack_fun_ok 2 opMod" "stack_fun_ok 2 opSmod" "stack_fun_ok 3 opAddmod"
  "stack_fun_ok 3 opMulmod" "stack_fun_ok 2 opExp"
  by (auto simp: stack_fun_ok_def Let_def Exp_def Exp_words_nonneg dest!: length_ge)

lemma bit_stack_fun_ok:
  "stack_fun_ok 2 opSignExtend" "stack_fun_ok 2 opLt" "stack_fun_ok 2 opGt" "stack_fun_ok 2 opSlt"
  "stack_fun_ok 2 opSgt" "stack_fun_ok 2 opEq" "stack_fun_ok 1 opIszero" "stack_fun_ok 2 opAnd"
  "stack_fun_ok 2 opOr" "stack_fun_ok 2 opXor" "stack_fun_ok 1 opNot" "stack_fun_ok 2 opByte"
  "stack_fun_ok 2 opSHL" "stack_fun_ok 2 opSHR" "stack_fun_ok 2 opSAR" "stack_fun_ok 1 opPop"
  by (auto simp: stack_fun_ok_def Let_def dest!: length_ge length_ge(1) [unfolded One_nat_def])

lemma dup_ok: "0 < n \<Longrightarrow> stack_fun_ok n (dup n)"
  by (auto simp: stack_fun_ok_def dup_def push_def nonneg_def)

lemma swap_ok: "0 < n \<Longrightarrow> stack_fun_ok n (swap n)"
proof -
  assume n: "0 < n"
  have "nonneg (st[0 := st ! (n - 1), n - 1 := st ! 0])" if "nonneg st" "n \<le> length st" for st
  proof -
    have "set (st[0 := st ! (n - 1), n - 1 := st ! 0]) \<subseteq> set st"
    proof -
      have "st ! (n - 1) \<in> set st" "st ! 0 \<in> set st" using that n by (auto intro!: nth_mem)
      then show ?thesis using set_update_subsetI [of st "set st"] set_update_subsetI [of "st[0 := st ! (n - 1)]" "set st"] by auto
    qed
    then show ?thesis using that(1) by (auto simp: nonneg_def)
  qed
  then show ?thesis using n by (auto simp: stack_fun_ok_def swap_def)
qed

section \<open>Memory\<close>

text \<open>Memory the operation has paid for: a range of positive length lies inside.\<close>

definition covers :: "Memory \<Rightarrow> int \<Rightarrow> int \<Rightarrow> bool" where
  "covers mem off l \<longleftrightarrow> 0 \<le> off \<and> 0 \<le> l \<and>
     (l = 0 \<or> (off + l \<le> int (length (store mem)) \<and> off + l < 2 ^ 41))"

lemma Uint64_uint: "0 \<le> v \<Longrightarrow> v < 2 ^ 64 \<Longrightarrow> uint (Uint64 v) = v"
  by (simp add: Uint64_def uint_word_of_int)

lemma Uint64_unat: "0 \<le> v \<Longrightarrow> v < 2 ^ 64 \<Longrightarrow> unat (Uint64 v) = nat v"
  using Uint64_uint [of v] by (simp add: unat_eq_nat_uint)

lemma int64_small: "0 \<le> x \<Longrightarrow> x < 2 ^ 63 \<Longrightarrow> int64 x = x"
  by (simp add: int64_def sint_uint uint_word_of_int signed_take_bit_int_eq_self)

lemma Int64_small: "0 \<le> x \<Longrightarrow> x < 2 ^ 63 \<Longrightarrow> Int64 x = x"
  by (simp add: Int64_def sint_uint Uint64_uint signed_take_bit_int_eq_self)

lemma slice_ok:
  "0 \<le> i \<Longrightarrow> i \<le> j \<Longrightarrow> j \<le> int (length b) \<Longrightarrow> tot (slice b i j) (\<lambda>r. length r = nat (j - i))"
  by (auto simp: slice_def)

lemma covers_Int64:
  assumes "covers mem off l" "l \<noteq> 0"
  shows "Int64 off = off" "Int64 l = l" "int64 (off + l) = off + l"
  using assms by (auto simp: covers_def intro!: Int64_small int64_small)

lemma Int64_0 [simp]: "Int64 0 = 0"
  by (rule Int64_small) simp_all

lemma mem_Get_ok:
  "covers mem off l \<Longrightarrow> tot (mem_Get (Int64 off) (Int64 l) mem) (\<lambda>b. length b = nat l \<and> length b < 2 ^ 62)"
  using covers_Int64 [of mem off l] slice_ok [of off "off + l" "store mem"]
  by (cases "l = 0") (auto simp: mem_Get_def covers_def tot_def)

lemma GetPtr_ok:
  "covers mem off l \<Longrightarrow> tot (GetPtr (Int64 off) (Int64 l) mem) (\<lambda>b. length b = nat l \<and> length b < 2 ^ 62)"
  using covers_Int64 [of mem off l] slice_ok [of off "off + l" "store mem"]
  by (cases "l = 0") (auto simp: GetPtr_def covers_def tot_def)

lemma mem_Set_ok:
  assumes "covers mem off l"
  shows "tot (mem_Set (Uint64 off) (Uint64 l) b mem) (\<lambda>m. length (store m) = length (store mem) \<and> lastGasCost m = lastGasCost mem)"
proof (cases "l = 0")
  case True
  then show ?thesis by (simp add: mem_Set_def Uint64_def)
next
  case False
  then have r: "0 \<le> off" "0 < l" "off + l \<le> int (length (store mem))" "off + l < 2 ^ 41"
    using assms by (auto simp: covers_def)
  have u: "unat (Uint64 off) = nat off" "unat (Uint64 l) = nat l" "unat (Uint64 off + Uint64 l) = nat (off + l)"
    using r by (simp_all add: Uint64_uint unat_eq_nat_uint uint_word_ariths)
  then show ?thesis using r
    by (auto simp: mem_Set_def Let_def copy_into_def word_le_nat_alt word_gt_0_no word_less_nat_alt min_def)
qed

lemma getDataBig_ok:
  "length data < 2 ^ 62 \<Longrightarrow> 0 \<le> start \<Longrightarrow> 0 \<le> l \<Longrightarrow> tot (getDataBig data start l) (\<lambda>b. True)"
proof -
  assume d: "length data < 2 ^ 62" and s: "0 \<le> start" "0 \<le> l"
  define i where "i = BigMin start (int (length data))"
  define j where "j = BigMin (i + l) (int (length data))"
  have "0 \<le> i" "i \<le> j" "j \<le> int (length data)" "int (length data) < 2 ^ 62"
    using s d by (auto simp: i_def j_def BigMin_def)
  then show ?thesis
    using slice_ok [of i j data]
    by (auto simp: getDataBig_def Let_def tot_rbind Uint64_uint i_def [symmetric] j_def [symmetric] tot_def)
qed

lemma toWordSize_bound:
  assumes "unat w \<le> 2 ^ 64 - 32"
  shows "unat (toWordSize w) = (unat w + 31) div 32"
proof -
  have "\<not> w > MaxUint64 - 31"
    using assms by (simp add: word_less_nat_alt MaxUint64_def)
  moreover have "unat (w + 31) = unat w + 31"
    using assms by (subst unat_add_lem [THEN iffD1]) simp_all
  ultimately show ?thesis by (simp add: toWordSize_def unat_div)
qed

text \<open>What the interpreter computes as the memory size of an operation is zero or covers the
  range.\<close>

lemma required_memory_ok:
  assumes "required_memory opn st = Inr (Inr ms)" "memorySize opn = Some fn" "fn st = Inr v" "0 \<le> v"
  shows "v \<le> int (unat ms)"
proof -
  have v: "v < 2 ^ 64" and sm: "SafeMul (toWordSize (Uint64 v)) 32 = (ms, False)"
    using assms BitLen_less [of v] power_increasing [of "BitLen v" 64 "2 :: int"]
    by (auto simp: required_memory_def bigUint64_def Let_def split: prod.splits if_splits)
  have uv: "unat (Uint64 v) = nat v" using v assms(4) by (simp add: Uint64_uint unat_eq_nat_uint)
  have m: "unat ms = unat (toWordSize (Uint64 v)) * 32" "unat (toWordSize (Uint64 v)) * 32 < 2 ^ 64"
    using SafeMul_exact [OF sm] by simp_all
  have "unat (Uint64 v) \<le> 2 ^ 64 - 32"
  proof (rule ccontr)
    assume "\<not> unat (Uint64 v) \<le> 2 ^ 64 - 32"
    then have "Uint64 v > MaxUint64 - 31" by (simp add: word_less_nat_alt MaxUint64_def)
    then have "toWordSize (Uint64 v) = 0x800000000000000" by (simp add: toWordSize_def MaxUint64_def)
    then show False using m(2) by simp
  qed
  then show ?thesis using m(1) toWordSize_bound [of "Uint64 v"] uv assms(4) by simp
qed

section \<open>Precompiled contracts\<close>

text \<open>A recovered public key is never empty: \<open>crypto.EcrecoverToByte\<close> returns 65 bytes.\<close>

definition crypto_ok :: "crypto_lib \<Rightarrow> bool" where
  "crypto_ok cl \<longleftrightarrow> (\<forall>h sig p. cl_EcrecoverToByte cl h sig = Some p \<longrightarrow> length p = 65)"

lemma getData_ok:
  assumes d: "length data < 2 ^ 62" and z: "unat sz \<le> 3 * 2 ^ 62"
  shows "tot (getData data start sz) (\<lambda>b. True)"
proof -
  define len where "len = (word_of_nat (length data) :: u64)"
  have len: "unat len = length data" unfolding len_def using d by (subst unat_of_nat) simp
  define i where "i = (if start > len then len else start)"
  have i: "unat i \<le> length data" using len by (auto simp: i_def word_less_nat_alt)
  have e: "unat (i + sz) = unat i + unat sz"
    using i d z by (subst unat_add_lem [THEN iffD1]) simp_all
  define j where "j = (if i + sz > len then len else i + sz)"
  have j: "unat i \<le> unat j" "unat j \<le> length data"
    using i e len by (auto simp: j_def word_less_nat_alt)
  have "0 \<le> uint i" "uint i \<le> uint j" "uint j \<le> int (length data)"
    using j by (simp_all only: uint_nat of_nat_0_le_iff of_nat_le_iff)
  then obtain b where "slice data (uint i) (uint j) = Inr b"
    using slice_ok [of "uint i" "uint j" data] by (auto simp: tot_def)
  then show ?thesis
    by (auto simp: getData_def Let_def len_def [symmetric] i_def [symmetric] j_def split: if_splits)
qed

lemma modexp_complexity_ge: "0 \<le> x \<Longrightarrow> x \<le> modexp_complexity x" "1024 < x \<Longrightarrow> 64 * x \<le> modexp_complexity x"
proof -
  assume "0 \<le> x"
  moreover have "x \<le> x * x" if "1 \<le> x" using that mult_left_mono [of 1 x x] by simp
  moreover have "0 \<le> x * x div 4" "0 \<le> x * x div 16" by (simp_all add: pos_imp_zdiv_nonneg_iff)
  ultimately show "x \<le> modexp_complexity x" by (cases "x = 0") (auto simp: modexp_complexity_def)
next
  assume x: "1024 < x"
  then have "1024 * x \<le> x * x" by (simp add: mult_right_mono)
  then have "64 * x \<le> x * x div 16" using zdiv_mono1 [of "1024 * x" "x * x" 16] by simp
  then show "64 * x \<le> modexp_complexity x" using x by (simp add: modexp_complexity_def)
qed

text \<open>Lengths that can be paid for are far from wrapping around.\<close>

lemma modexp_gas_bounds:
  assumes "0 \<le> bl" "0 \<le> ml" "bl \<noteq> 0 \<or> ml \<noteq> 0" "0 \<le> msb"
    and gas: "modexp_complexity (BigMax ml bl) * BigMax ((if 32 < el then 8 * (el - 32) else 0) + msb) 1 div 20 < 2 ^ 62"
  shows "bl < 2 ^ 62" "ml < 2 ^ 62" "el \<le> 11 * 2 ^ 60"
proof -
  define x where "x = BigMax ml bl"
  define e where "e = BigMax ((if 32 < el then 8 * (el - 32) else 0) + msb) 1"
  have x: "1 \<le> x" "bl \<le> x" "ml \<le> x" using assms(1-3) by (auto simp: x_def BigMax_def)
  have e: "1 \<le> e" "8 * (el - 32) \<le> e" using assms(4) by (auto simp: e_def BigMax_def)
  have c: "x \<le> modexp_complexity x" using modexp_complexity_ge(1) x by simp
  have "modexp_complexity x * e < 20 * 2 ^ 62" using gas unfolding x_def e_def by simp
  moreover have "modexp_complexity x \<le> modexp_complexity x * e"
    using mult_left_mono [of 1 e "modexp_complexity x"] c x e by simp
  moreover have "e \<le> modexp_complexity x * e"
    using mult_right_mono [of 1 "modexp_complexity x" e] c x e by simp
  ultimately have b: "modexp_complexity x < 20 * 2 ^ 62" "e < 20 * 2 ^ 62" by linarith+
  have "x < 2 ^ 62" using b(1) modexp_complexity_ge(2) [of x] by (cases "1024 < x") simp_all
  then show "bl < 2 ^ 62" "ml < 2 ^ 62" using x by simp_all
  show "el \<le> 11 * 2 ^ 60" using e b(2) by simp
qed

text \<open>A precompiled contract that is called with enough gas returns.\<close>

definition precompiled_ok :: "PrecompiledContract \<Rightarrow> bool" where
  "precompiled_ok p \<longleftrightarrow> (\<forall>input. length input < 2 ^ 62 \<longrightarrow>
     tot (RequiredGas p input) (\<lambda>g. unat g < 2 ^ 62 \<longrightarrow> tot (pc_Run p input) (\<lambda>_. True)))"

lemma hash_precompiled_ok:
  "crypto_ok cl \<Longrightarrow> precompiled_ok \<lparr>RequiredGas = ecrecover_RequiredGas, pc_Run = ecrecover_Run keccak cl\<rparr>"
  "precompiled_ok \<lparr>RequiredGas = sha256hash_RequiredGas, pc_Run = sha256hash_Run cl\<rparr>"
  "precompiled_ok \<lparr>RequiredGas = ripemd160hash_RequiredGas, pc_Run = ripemd160hash_Run cl\<rparr>"
  "precompiled_ok \<lparr>RequiredGas = dataCopy_RequiredGas, pc_Run = dataCopy_Run\<rparr>"
  by (auto simp: precompiled_ok_def ecrecover_RequiredGas_def sha256hash_RequiredGas_def sha256hash_Run_def
      ripemd160hash_RequiredGas_def ripemd160hash_Run_def dataCopy_RequiredGas_def dataCopy_Run_def
      ecrecover_Run_def Let_def slice_def crypto_ok_def split: option.split)

lemma curve_precompiled_ok:
  "precompiled_ok \<lparr>RequiredGas = bn256Add_RequiredGas, pc_Run = bn256Add_Run cl\<rparr>"
  "precompiled_ok \<lparr>RequiredGas = bn256ScalarMul_RequiredGas, pc_Run = bn256ScalarMul_Run cl\<rparr>"
  "precompiled_ok \<lparr>RequiredGas = bn256Pairing_RequiredGas, pc_Run = bn256Pairing_Run cl\<rparr>"
  by (auto simp: precompiled_ok_def bn256Add_RequiredGas_def bn256Add_Run_def bn256ScalarMul_RequiredGas_def
      bn256ScalarMul_Run_def bn256Pairing_RequiredGas_def bn256Pairing_Run_def tot_rbind
      intro!: tot_mono [OF getData_ok])

lemma SetBytes_nonneg [simp]: "0 \<le> SetBytes bs"
  by (induction bs rule: rev_induct) (simp_all add: SetBytes_snoc, simp add: SetBytes_def)

lemma modexp_lengths_ok:
  "length input < 2 ^ 62 \<Longrightarrow> tot (modexp_lengths input) (\<lambda>(b, e, m). 0 \<le> b \<and> 0 \<le> e \<and> 0 \<le> m)"
  by (auto simp: modexp_lengths_def tot_rbind SetBytes_nonneg intro!: tot_mono [OF getData_ok])

lemma bigModExp_Run_ok:
  assumes l: "modexp_lengths input = Inr (bl, el, ml)" "0 \<le> bl" "0 \<le> el" "0 \<le> ml" and len: "length input < 2 ^ 62"
    and b: "Uint64 bl \<noteq> 0 \<or> Uint64 ml \<noteq> 0 \<Longrightarrow> bl < 2 ^ 62 \<and> ml < 2 ^ 62 \<and> el \<le> 11 * 2 ^ 60"
  shows "tot (bigModExp_Run input) (\<lambda>_. True)"
proof (cases "Uint64 bl = 0 \<and> Uint64 ml = 0")
  case True
  then show ?thesis by (simp add: bigModExp_Run_def l)
next
  case False
  have d: "length (drop 96 input) < 2 ^ 62" using len by simp
  have "bl < 2 ^ 62" "ml < 2 ^ 62" "el \<le> 11 * 2 ^ 60" using b False by blast+
  then have "unat (Uint64 bl) \<le> 3 * 2 ^ 62" "unat (Uint64 ml) \<le> 3 * 2 ^ 62" "unat (Uint64 el) \<le> 3 * 2 ^ 62"
    using l(2-4) by (simp_all add: Uint64_unat)
  then show ?thesis using False
    by (auto simp: bigModExp_Run_def l Let_def tot_rbind intro!: tot_mono [OF getData_ok [OF d]])
qed

definition modexp_gas :: "int \<Rightarrow> int \<Rightarrow> int \<Rightarrow> nat \<Rightarrow> int" where
  "modexp_gas bl el ml bitlen = modexp_complexity (BigMax ml bl) *
     BigMax ((if el > 32 then 8 * (el - 32) else 0) + (if bitlen > 0 then int bitlen - 1 else 0)) 1 div 20"

lemma bigModExp_RequiredGas_ok:
  assumes l: "modexp_lengths input = Inr (bl, el, ml)" "0 \<le> el" and len: "length input < 2 ^ 62"
  shows "\<exists>n. bigModExp_RequiredGas input =
    Inr (if BitLen (modexp_gas bl el ml n) > 64 then MaxUint64 else Uint64 (modexp_gas bl el ml n))"
proof -
  have d: "length (drop 96 input) < 2 ^ 62" using len by simp
  have "unat (if el > 32 then 32 else Uint64 el) \<le> 3 * 2 ^ 62"
    using l(2) by (cases "el > 32") (simp_all add: Uint64_unat)
  then obtain r where "getData (drop 96 input) (Uint64 bl) (if el > 32 then 32 else Uint64 el) = Inr r"
    using getData_ok [OF d] by (auto simp: tot_def)
  then obtain h where h: "(if int (length (drop 96 input)) \<le> bl then Inr 0
      else rbind (getData (drop 96 input) (Uint64 bl) (if el > 32 then 32 else Uint64 el)) (\<lambda>b. Inr (SetBytes b))) = Inr h"
    by (cases "int (length (drop 96 input)) \<le> bl") simp_all
  show ?thesis
    unfolding bigModExp_RequiredGas_def l rbind_simps prod.case Let_def h modexp_gas_def by blast
qed

lemma modexp_gas_payable:
  assumes g: "unat (if BitLen (modexp_gas bl el ml n) > 64 then MaxUint64 else Uint64 (modexp_gas bl el ml n)) < 2 ^ 62"
    and nz: "bl \<noteq> 0 \<or> ml \<noteq> 0" and nn: "0 \<le> bl" "0 \<le> ml"
  shows "bl < 2 ^ 62 \<and> ml < 2 ^ 62 \<and> el \<le> 11 * 2 ^ 60"
proof -
  define gas where "gas = modexp_gas bl el ml n"
  have b: "\<not> BitLen gas > 64" using g by (auto simp: MaxUint64_unat gas_def)
  have "0 \<le> modexp_complexity (BigMax ml bl)"
    using modexp_complexity_ge(1) [of bl] modexp_complexity_ge(1) [of ml] nn by (simp add: BigMax_def)
  then have g0: "0 \<le> gas"
    by (auto simp: gas_def modexp_gas_def pos_imp_zdiv_nonneg_iff BigMax_def intro!: mult_nonneg_nonneg)
  have "gas < 2 ^ 64"
    using BitLen_less [of gas] power_increasing [of "BitLen gas" 64 "2 :: int"] b by simp
  then have "gas < 2 ^ 62" using g g0 b by (simp add: Uint64_unat gas_def [symmetric])
  moreover have "0 \<le> (if n > 0 then int n - 1 else 0)" by simp
  ultimately show ?thesis using modexp_gas_bounds [OF nn nz] unfolding gas_def modexp_gas_def by blast
qed

lemma bigModExp_ok: "precompiled_ok \<lparr>RequiredGas = bigModExp_RequiredGas, pc_Run = bigModExp_Run\<rparr>"
proof -
  have "tot (bigModExp_RequiredGas input) (\<lambda>g. unat g < 2 ^ 62 \<longrightarrow> tot (bigModExp_Run input) (\<lambda>_. True))"
    if len: "length input < 2 ^ 62" for input
  proof -
    obtain bl el ml where l: "modexp_lengths input = Inr (bl, el, ml)" "0 \<le> bl" "0 \<le> el" "0 \<le> ml"
      using modexp_lengths_ok [OF len] by (auto simp: tot_def)
    have z: "Uint64 bl \<noteq> 0 \<or> Uint64 ml \<noteq> 0 \<Longrightarrow> bl \<noteq> 0 \<or> ml \<noteq> 0" by (auto simp: Uint64_def)
    obtain n where "bigModExp_RequiredGas input =
        Inr (if BitLen (modexp_gas bl el ml n) > 64 then MaxUint64 else Uint64 (modexp_gas bl el ml n))"
      using bigModExp_RequiredGas_ok [OF l(1,3) len] by blast
    then show ?thesis
      using bigModExp_Run_ok [OF l len] modexp_gas_payable [OF _ z l(2,4), of el n] by (auto simp del: tot_simps simp: tot_def)
  qed
  then show ?thesis by (simp add: precompiled_ok_def)
qed

lemma precompiles_ok: "crypto_ok cl \<Longrightarrow> PrecompiledContractsByzantium keccak cl a = Some p \<Longrightarrow> precompiled_ok p"
  unfolding PrecompiledContractsByzantium_def
  by (drule map_of_SomeD) (auto intro: hash_precompiled_ok curve_precompiled_ok bigModExp_ok)

lemma RunPrecompiledContract_ok:
  assumes "precompiled_ok p" "length input < 2 ^ 62" "unat (Gas c) < 2 ^ 62"
  shows "tot (RunPrecompiledContract p input c) (\<lambda>(ret, err, c1). Gas c1 \<le> Gas c)"
proof -
  obtain g where g: "RequiredGas p input = Inr g" "unat g < 2 ^ 62 \<longrightarrow> tot (pc_Run p input) (\<lambda>_. True)"
    using assms by (auto simp: precompiled_ok_def tot_def)
  show ?thesis
  proof (cases "Gas c < g")
    case True
    then show ?thesis using g(1) by (simp add: RunPrecompiledContract_def UseGas_def)
  next
    case False
    then have "unat g < 2 ^ 62" using assms(3) by (simp add: word_less_nat_alt)
    then obtain r e where "pc_Run p input = Inr (r, e)" using g(2) by (auto simp: tot_def)
    then show ?thesis using g(1) False
      by (auto simp: RunPrecompiledContract_def UseGas_def word_sub_le_iff not_less)
  qed
qed

section \<open>Gas\<close>

text \<open>What a gas function leaves alone, and the memory sizes it accepts.\<close>

definition gas_frame :: "frame \<Rightarrow> frame \<Rightarrow> bool" where
  "gas_frame f f1 \<longleftrightarrow> fr_pc f1 = fr_pc f \<and> fr_contract f1 = fr_contract f \<and> fr_stack f1 = fr_stack f
     \<and> store (fr_mem f1) = store (fr_mem f)
     \<and> fr_evm f1 = (fr_evm f)\<lparr>ev_StateDB := fr_state f1, callGasTemp := callGasTemp (fr_evm f1)\<rparr>"

definition mem_paid :: "u64 \<Rightarrow> bool" where
  "mem_paid ms \<longleftrightarrow> unat ms \<le> 0xffffffffe0"

lemma mem_paid_0 [simp]: "mem_paid 0"
  by (simp add: mem_paid_def)

lemma memoryGasCost_ok:
  "memoryGasCost mem ms = (g, mem1) \<Longrightarrow> store mem1 = store mem \<and> (\<forall>c. g = Inr c \<longrightarrow> mem_paid ms)"
  by (auto simp: memoryGasCost_def Let_def mem_paid_def word_less_nat_alt split: if_splits)

lemma mem_gas_ok:
  "mem_gas f ms = (g, f1) \<Longrightarrow> gas_frame f f1 \<and> fr_evm f1 = fr_evm f \<and> (\<forall>c. g = Inr c \<longrightarrow> mem_paid ms)"
  by (auto simp: mem_gas_def gas_frame_def fr_state_def split: prod.splits dest: memoryGasCost_ok)

lemma checked_SafeAdd: "checked (SafeAdd x y) = Inr c \<Longrightarrow> unat c = unat x + unat y"
  using SafeAdd_exact [OF prod.collapse [symmetric], of x y] by (auto simp: checked_def split: if_splits)

text \<open>A gas function of an operation with \<open>n\<close> operands that leaves the machine alone and
  charges at least \<open>least\<close>; one that does not depend on the memory size gets zero there.\<close>

definition gas_ok :: "bool \<Rightarrow> nat \<Rightarrow> nat \<Rightarrow> gasFunc \<Rightarrow> bool" where
  "gas_ok mem n least g \<longleftrightarrow> (\<forall>env f ms. env_gasTable env = DefualtGasTable \<longrightarrow> n \<le> length (fr_stack f) \<longrightarrow>
     (mem \<or> ms = 0) \<longrightarrow> tot (g env f ms) (\<lambda>(cost, f1). gas_frame f f1 \<and> fr_evm f1 = fr_evm f
       \<and> (\<forall>c. cost = Inr c \<longrightarrow> mem_paid ms \<and> least \<le> unat c)))"

lemma gas_frame_refl [simp]: "gas_frame f f"
  by (simp add: gas_frame_def fr_state_def)

lemma constGasFunc_ok: "least \<le> unat c \<Longrightarrow> gas_ok False n least (constGasFunc c)"
  by (simp add: gas_ok_def constGasFunc_def)

lemma gas_mem_plus_ok: "least \<le> unat base \<Longrightarrow> gas_ok True n least (gas_mem_plus base)"
  by (auto simp: gas_ok_def gas_mem_plus_def split: prod.splits dest!: mem_gas_ok checked_SafeAdd)

lemma gas_per_word_ok: "least \<le> unat base \<Longrightarrow> k < n \<Longrightarrow> gas_ok True n least (gas_per_word base k price)"
  by (auto simp: gas_ok_def gas_per_word_def Back_def split: prod.splits sum.splits
      dest!: mem_gas_ok checked_SafeAdd)

lemma table_gas_ok:
  "gas_ok False n 1 gasBalance" "gas_ok False n 1 gasExtCodeSize" "gas_ok False n 1 gasSLoad"
  by (simp_all add: gas_ok_def gasBalance_def gasExtCodeSize_def gasSLoad_def DefualtGasTable_def)

lemma gasExp_ok: "gas_ok False 2 1 gasExp"
  by (auto simp: gas_ok_def gasExp_def Back_def Let_def gas_consts dest!: checked_SafeAdd)

lemma gasExtCodeCopy_ok: "gas_ok True 4 1 gasExtCodeCopy"
  using gas_per_word_ok [of 1 "gt_ExtcodeCopy DefualtGasTable" 3 4 CopyGas]
  by (simp add: gas_ok_def gasExtCodeCopy_def) (simp add: DefualtGasTable_def)

lemma makeGasLog_ok: "2 \<le> n \<Longrightarrow> gas_ok True n 1 (makeGasLog k)"
  by (auto simp: gas_ok_def makeGasLog_def Back_def gas_consts split: prod.splits sum.splits
      dest!: mem_gas_ok checked_SafeAdd)

lemma return_gas_ok: "gas_ok True n 0 gasReturn" "gas_ok True n 0 gasRevert"
  by (auto simp: gas_ok_def gasReturn_def gasRevert_def tot_def dest!: mem_gas_ok split: prod.splits)

lemma plain_gas_ok:
  "gas_ok True 3 1 gasCallDataCopy" "gas_ok True 3 1 gasReturnDataCopy" "gas_ok True 3 1 gasCodeCopy"
  "gas_ok True 2 1 gasSha3" "gas_ok True n 1 gasMLoad" "gas_ok True n 1 gasMStore8" "gas_ok True n 1 gasMStore"
  "gas_ok True n 32000 gasCreate" "gas_ok False n 1 gasPush" "gas_ok False n 1 gasSwap" "gas_ok False n 1 gasDup"
  by (auto simp: gasCallDataCopy_def gasReturnDataCopy_def gasCodeCopy_def gasSha3_def gasMLoad_def gasMStore8_def
      gasMStore_def gasCreate_def gasPush_def gasSwap_def gasDup_def gas_consts
      intro!: gas_per_word_ok gas_mem_plus_ok constGasFunc_ok)

text \<open>The gas of a call: what is set aside for the callee is part of the price.\<close>

lemma mem_then_call_ok:
  assumes "0 < length (fr_stack f)"
  shows "tot (mem_then_call base env f ms) (\<lambda>(cost, f1). gas_frame f f1 \<and> fr_state f1 = fr_state f
    \<and> (\<forall>c. cost = Inr c \<longrightarrow> mem_paid ms \<and> unat base + unat (callGasTemp (fr_evm f1)) \<le> unat c))"
proof -
  obtain g f1 where m: "mem_gas f ms = (g, f1)" by fastforce
  note mg = mem_gas_ok [OF m]
  have st: "0 < length (fr_stack f1)" using assms mg by (simp add: gas_frame_def)
  show ?thesis
  proof (cases "rbind g (\<lambda>memoryGas. checked (SafeAdd base memoryGas))")
    case (Inl e)
    then show ?thesis using mg by (simp add: mem_then_call_def m fr_state_def)
  next
    case (Inr gas)
    then have "mem_paid ms" "unat base \<le> unat gas"
      using mg by (auto dest!: checked_SafeAdd)
    then show ?thesis using mg st Inr
      by (auto simp: mem_then_call_def m call_gas_def Back_def Let_def gas_frame_def fr_state_def
          split: sum.splits dest!: checked_SafeAdd)
  qed
qed

end
