(* ===== verification/StateViews.thy ===== *)
theory StateViews
  imports StateProps
begin

text \<open>
  What each operation of the state database does to the observable accounts, and the relation
  \<open>vm_rel\<close> between states that a run of the virtual machine moves along: a sequence of
  operations of the interface that keeps the invariant, keeps balances from going negative,
  only adds revisions, and under a write protection leaves every account as it was.
\<close>

section \<open>Reads\<close>

definition quiet :: "StateDB \<Rightarrow> StateDB \<Rightarrow> bool" where
  "quiet s s' \<longleftrightarrow> objs_ok s' \<and> same_frame s' s \<and> accounts_of s' = accounts_of s
     \<and> sdb_journal s' = sdb_journal s"

lemma quiet_refl: "objs_ok s \<Longrightarrow> quiet s s"
  by (simp add: quiet_def same_frame_def)

lemma quiet_trans: "quiet s t \<Longrightarrow> quiet t u \<Longrightarrow> quiet s u"
  by (auto simp: quiet_def intro: same_frame_trans)

lemma getStateObject_quiet:
  "getStateObject s a = (r, s') \<Longrightarrow> objs_ok s \<Longrightarrow> quiet s s'"
  using getStateObject_props [of s a r s'] accounts_of_same [of s' s] by (simp add: quiet_def same_frame_def)

lemma cache_quiet:
  assumes ok: "objs_ok s" and at: "obj_at s a = Some ob"
    and ob1: "view_of (sdb_db s) ob1 = view_of (sdb_db s) ob" "so_address ob1 = so_address ob"
      "deleted ob1 = deleted ob" "so_data ob1 = so_data ob"
  shows "quiet s (setStateObject ob1 s)"
proof -
  have o: "so_address ob1 = a" "obj_ok ob1" "\<not> deleted ob1"
    using obj_at_ok [OF ok at] ob1(2,3) obj_ok_data [OF ob1(4)] by auto
  then have "accounts_of (setStateObject ob1 s) = accounts_of s"
    using ob1(1) at by (simp add: accounts_of_set accounts_of_def [of s a] fun_upd_idem)
  then show ?thesis using objs_ok_set [OF ok] o ok by (simp add: quiet_def)
qed

lemma reads_quiet:
  assumes ok: "objs_ok s"
  shows "Exist s a = (b, s') \<Longrightarrow> quiet s s'"
    "Empty s a = Inr (b, s') \<Longrightarrow> quiet s s'"
    "HasSuicided s a = (b, s') \<Longrightarrow> quiet s s'"
    "get_field f d s a = (v, s') \<Longrightarrow> quiet s s'"
  using getStateObject_quiet [of s a] ok
  by (cases "getStateObject s a"; auto simp: Exist_def Empty_def HasSuicided_def get_field_def split: option.splits)+

lemma GetCode_quiet:
  assumes ok: "objs_ok s" and r: "GetCode s a = (c, s')"
  shows "quiet s s'" "c = (case accounts_of s a of None \<Rightarrow> None | Some v \<Rightarrow> av_code v)"
proof -
  obtain x s1 where g: "getStateObject s a = (x, s1)" by fastforce
  note p = getStateObject_props [OF g ok] and l = getStateObject_quiet [OF g ok]
  have "quiet s s' \<and> c = (case accounts_of s a of None \<Rightarrow> None | Some v \<Rightarrow> av_code v)"
  proof (cases x)
    case (Some ob)
    obtain c' ob1 where c: "so_Code (sdb_db s1) ob = (c', ob1)" by fastforce
    have "quiet s1 (setStateObject ob1 s1)"
      using cache_quiet [OF p(3) _ so_Code_view(1-4) [OF c]] p(1,2) Some by simp
    moreover have "accounts_of s a = Some (view_of (sdb_db s1) ob)"
      using p(4) p(1) [symmetric] Some by (simp add: accounts_of_def same_frame_def)
    ultimately show ?thesis using quiet_trans [OF l] r g Some c
      by (simp add: GetCode_def view_of_def)
  next
    case None
    then show ?thesis using r g l p(1) by (simp add: GetCode_def accounts_of_def)
  qed
  then show "quiet s s'" "c = (case accounts_of s a of None \<Rightarrow> None | Some v \<Rightarrow> av_code v)" by auto
qed

lemma GetState_quiet:
  assumes ok: "objs_ok s" and r: "GetState s a k = (v, s')"
  shows "quiet s s'"
proof -
  obtain x s1 where g: "getStateObject s a = (x, s1)" by fastforce
  note p = getStateObject_props [OF g ok] and l = getStateObject_quiet [OF g ok]
  show ?thesis
  proof (cases x)
    case (Some ob)
    obtain v' ob1 where c: "so_GetState (sdb_db s1) k ob = (v', ob1)" by fastforce
    have "quiet s1 (setStateObject ob1 s1)"
      using cache_quiet [OF p(3) _ so_GetState_view(1-4) [OF c]] p(1,2) Some by simp
    then show ?thesis using quiet_trans [OF l] r g Some c by (simp add: GetState_def)
  qed (use r g l in \<open>simp add: GetState_def\<close>)
qed

lemma GetCodeSize_quiet:
  assumes ok: "objs_ok s" and r: "GetCodeSize s a = (v, s')"
  shows "quiet s s'"
proof -
  obtain x s1 where g: "getStateObject s a = (x, s1)" by fastforce
  note l = getStateObject_quiet [OF g ok]
  have "s' = s1 \<or> (\<exists>e. s' = sdb_setError e s1)"
    using r g by (auto simp: GetCodeSize_def Let_def split: option.splits prod.splits if_splits)
  moreover have "quiet s1 (sdb_setError e s1)" for e
    using l by (auto simp: quiet_def sdb_setError_def same_frame_def)
  ultimately show ?thesis using l quiet_trans by blast
qed

lemma quiet_observe: "quiet s s' \<Longrightarrow> observe s' = observe s"
  by (simp add: quiet_def same_frame_def observe_def GetLogs_def fun_eq_iff)

section \<open>Writes\<close>

lemma SetNonce_accounts:
  assumes ok: "state_ok s"
  shows "accounts_of (SetNonce a n s) =
    (accounts_of s)(a \<mapsto> (account_or_new s a)\<lparr>av_data := (av_data (account_or_new s a))\<lparr>Nonce := n\<rparr>\<rparr>)"
proof -
  obtain ob s1 where g: "GetOrNewStateObject s a = (ob, s1)" by fastforce
  note v = GetOrNewStateObject_view [OF g ok]
  have "SetNonce a n s = setStateObject (so_setNonce n ob) (jappend (nonceChange (so_address ob) (Nonce (so_data ob))) s1)"
    using g by (simp add: SetNonce_def so_SetNonce_def)
  then show ?thesis using write_back_accounts [OF g ok, of "so_setNonce n ob"] v(4) [symmetric]
    by (simp add: so_setters_view) (simp add: so_setNonce_def)
qed

lemma SetCode_accounts:
  assumes ok: "state_ok s"
  shows "accounts_of (SetCode a c s) = (accounts_of s)(a \<mapsto> (account_or_new s a)
    \<lparr>av_code := Some c, av_data := (av_data (account_or_new s a))\<lparr>CodeHash := Some (db_keccak (sdb_db s) c)\<rparr>\<rparr>)"
proof -
  obtain ob s1 where g: "GetOrNewStateObject s a = (ob, s1)" by fastforce
  note v = GetOrNewStateObject_view [OF g ok]
  obtain p ob1 where c: "so_Code (sdb_db s) ob = (p, ob1)" by fastforce
  note q = so_Code_view [OF c]
  let ?ob = "so_setCode (db_keccak (sdb_db s) c) (Some c) ob1"
  have "view_of (sdb_db s) ?ob = (view_of (sdb_db s) ob1)
      \<lparr>av_code := Some c, av_data := (so_data ob1)\<lparr>CodeHash := Some (db_keccak (sdb_db s) c)\<rparr>\<rparr>"
    by (simp add: view_of_alt so_setCode_def code_of_def)
  then have "view_of (sdb_db s) ?ob = (account_or_new s a)
      \<lparr>av_code := Some c, av_data := (av_data (account_or_new s a))\<lparr>CodeHash := Some (db_keccak (sdb_db s) c)\<rparr>\<rparr>"
    using q(1,4) v(4) [symmetric] by simp
  moreover have "SetCode a c s = setStateObject ?ob (jappend (codeChange (so_address ob) p (CodeHash (so_data ob1))) s1)"
    using g c v(3) by (simp add: SetCode_def so_SetCode_def)
  ultimately show ?thesis using write_back_accounts [OF g ok, of ?ob] q(2,3) by (simp add: so_setCode_def)
qed

lemma accounts_balance:
  assumes "state_ok s" "accounts_of s a = Some v"
  obtains b where "Balance (av_data v) = Some b"
  using account_or_new_ok [OF assms(1), of a] assms(2) by (auto simp: account_or_new_def)

lemma Suicide_accounts:
  assumes ok: "state_ok s"
  shows "\<exists>b s'. Suicide a s = Inr (b, s') \<and> (accounts_of s' =
    (case accounts_of s a of None \<Rightarrow> accounts_of s
     | Some v \<Rightarrow> (accounts_of s)(a \<mapsto> with_balance (v\<lparr>av_suicided := True\<rparr>) 0)))"
proof -
  have oks: "objs_ok s" using ok by (simp add: state_ok_def)
  obtain x s1 where g: "getStateObject s a = (x, s1)" by fastforce
  note p = getStateObject_props [OF g oks]
  have acc: "accounts_of s1 = accounts_of s" "sdb_db s1 = sdb_db s"
    using getStateObject_quiet [OF g oks] by (simp_all add: quiet_def same_frame_def)
  show ?thesis
  proof (cases x)
    case None
    then show ?thesis using g p(1) acc by (auto simp: Suicide_def accounts_of_def)
  next
    case (Some ob)
    have o: "so_address ob = a" "obj_ok ob" "\<not> deleted ob" using obj_at_ok [OF oks] p(1) Some by auto
    obtain b where b: "Balance (so_data ob) = Some b" using o by (auto simp: obj_ok_def)
    let ?ob = "so_setBalance (Some 0) (markSuicided ob)"
    have "view_of (sdb_db s) ?ob = with_balance ((view_of (sdb_db s) ob)\<lparr>av_suicided := True\<rparr>) 0"
      by (simp add: view_of_alt setter_defs with_balance_def markSuicided_def)
    moreover have "accounts_of s a = Some (view_of (sdb_db s) ob)" using p(1) [symmetric] Some by (simp add: accounts_of_def)
    ultimately show ?thesis using Some g b o acc
      by (auto simp: Suicide_def accounts_of_set setter_defs markSuicided_def)
  qed
qed

lemma CreateAccount_accounts:
  assumes ok: "state_ok s"
  shows "\<exists>b. Balance (av_data (account_or_new s a)) = Some b \<and> accounts_of (CreateAccount a s) =
    (accounts_of s)(a \<mapsto> with_balance (view_of (sdb_db s) (newObject (sdb_db s) a emptyAccount)) b)"
proof -
  have oks: "objs_ok s" using ok by (simp add: state_ok_def)
  obtain x s1 where g: "getStateObject s a = (x, s1)" by fastforce
  note p = getStateObject_props [OF g oks]
  have acc: "accounts_of s1 = accounts_of s" "sdb_db s1 = sdb_db s"
    using getStateObject_quiet [OF g oks] by (simp_all add: quiet_def same_frame_def)
  let ?n = "newObject (sdb_db s) a emptyAccount"
  have n: "so_setNonce 0 ?n = ?n" "so_address ?n = a" "\<not> deleted ?n"
    by (simp_all add: so_setNonce_def newObject_def emptyAccount_def Let_def)
  have nb: "Balance (so_data ?n) = Some 0" by (simp add: newObject_def emptyAccount_def Let_def)
  show ?thesis
  proof (cases x)
    case None
    then have "accounts_of s a = None" using p(1) by (simp add: accounts_of_def)
    then show ?thesis using None g n nb acc
      by (simp add: CreateAccount_def createObject_def Let_def account_or_new_def accounts_of_set with_balance_self)
  next
    case (Some q)
    have o: "obj_ok q" using obj_at_ok [OF oks] p(1) Some by auto
    then obtain b where b: "Balance (so_data q) = Some b" by (auto simp: obj_ok_def)
    have "accounts_of s a = Some (view_of (sdb_db s) q)" using p(1) [symmetric] Some by (simp add: accounts_of_def)
    moreover have "CreateAccount a s = setStateObject (so_setBalance (Some b) ?n) (jappend (resetObjectChange q) s1)"
      using Some g n b acc(2) by (simp add: CreateAccount_def createObject_def Let_def setStateObject_def setter_defs)
    moreover have "so_address (so_setBalance (Some b) ?n) = a" "\<not> deleted (so_setBalance (Some b) ?n)"
      using n by (simp_all add: so_setBalance_def)
    ultimately show ?thesis using b acc
      by (simp add: account_or_new_def accounts_of_set so_setters_view with_balance_def)
  qed
qed

lemma other_accounts:
  "accounts_of (AddLog l s) = accounts_of s"
  "accounts_of (AddPreimage h c s) = accounts_of s"
  "accounts_of (AddRefund g s) = accounts_of s"
  by (simp_all add: AddLog_def AddPreimage_def AddRefund_def Let_def)

section \<open>Fields that creation leaves alone\<close>

lemma createObject_frame:
  "createObject s a = (ob, prev, s') \<Longrightarrow> objs_ok s \<Longrightarrow> same_frame s' s"
proof -
  assume c: "createObject s a = (ob, prev, s')" and ok: "objs_ok s"
  obtain r t where g: "getStateObject s a = (r, t)" by fastforce
  have "same_frame s' t" using c g by (auto simp: createObject_def Let_def setStateObject_def jappend_def same_frame_def split: option.splits)
  then show ?thesis using getStateObject_props(4) [OF g ok] by (rule same_frame_trans)
qed

lemma GetOrNewStateObject_frame:
  "GetOrNewStateObject s a = (ob, s') \<Longrightarrow> objs_ok s \<Longrightarrow> same_frame s' s"
proof -
  assume c: "GetOrNewStateObject s a = (ob, s')" and ok: "objs_ok s"
  obtain r t where g: "getStateObject s a = (r, t)" by fastforce
  note p = getStateObject_props(3,4) [OF g ok]
  have "s' = t \<or> (\<exists>o' q. createObject t a = (o', q, s'))"
    using c g by (auto simp: GetOrNewStateObject_def split: option.splits prod.splits if_splits)
  then show ?thesis using createObject_frame [OF _ p(1)] p(2) same_frame_trans by blast
qed

lemma CreateAccount_frame: "objs_ok s \<Longrightarrow> same_frame (CreateAccount a s) s"
proof -
  assume ok: "objs_ok s"
  obtain ob q t where c: "createObject s a = (ob, q, t)" by (metis prod_cases3)
  have "same_frame (CreateAccount a s) t" using c by (auto simp: CreateAccount_def same_frame_def setStateObject_def split: option.splits)
  then show ?thesis using createObject_frame [OF c ok] by (rule same_frame_trans)
qed

lemma zero_transfer_frame:
  assumes ok: "objs_ok s"
  shows "AddBalance a 0 s = Inr s' \<Longrightarrow> same_frame s' s" "SubBalance a 0 s = Inr s' \<Longrightarrow> same_frame s' s"
proof -
  obtain ob t where g: "GetOrNewStateObject s a = (ob, t)" by fastforce
  note f = GetOrNewStateObject_frame [OF g ok]
  have "same_frame (so_touch ob t) t" by (simp add: so_touch_def Let_def same_frame_def jappend_def)
  then have "same_frame (so_touch ob t) s" using f by (rule same_frame_trans)
  then show "AddBalance a 0 s = Inr s' \<Longrightarrow> same_frame s' s"
    using g f by (auto simp: AddBalance_def so_AddBalance_def split: if_splits)
  show "SubBalance a 0 s = Inr s' \<Longrightarrow> same_frame s' s"
    using g f by (auto simp: SubBalance_def so_SubBalance_def)
qed

section \<open>The contract the virtual machine relies on\<close>

text \<open>
  What \<open>core/vm\<close> uses of its \<open>StateDB\<close> interface: states that are \<open>good\<close>, the relation \<open>raw\<close>
  between the states before and after (with a flag for a write-protected run), the balances,
  and \<open>keep\<close> for what no observer can tell apart.
\<close>

locale statedb =
  fixes good :: "StateDB \<Rightarrow> bool"
    and raw :: "bool \<Rightarrow> StateDB \<Rightarrow> StateDB \<Rightarrow> bool"
    and keep :: "StateDB \<Rightarrow> StateDB \<Rightarrow> bool"
    and bal :: "StateDB \<Rightarrow> address \<Rightarrow> int"
  assumes keep_refl: "good s \<Longrightarrow> keep s s"
    and raw_trans: "raw ro s t \<Longrightarrow> raw ro t u \<Longrightarrow> raw ro s u"
    and keep_trans: "keep s t \<Longrightarrow> keep t u \<Longrightarrow> keep s u"
    and raw_good: "raw ro s t \<Longrightarrow> good t"
    and raw_weaken: "raw True s t \<Longrightarrow> raw ro s t"
    and raw_protected: "raw True s t \<Longrightarrow> bal t = bal s"
    and keep_raw: "keep s t \<Longrightarrow> raw True s t"
    and bal_nonneg: "good s \<Longrightarrow> 0 \<le> bal s a"
    and GetBalance_law: "good s \<Longrightarrow> GetBalance s a = (p, s') \<Longrightarrow> p = Some (bal s a) \<and> keep s s'"
    and GetNonce_law: "good s \<Longrightarrow> GetNonce s a = (n, s') \<Longrightarrow> keep s s'"
    and GetCodeHash_law: "good s \<Longrightarrow> GetCodeHash s a = (h, s') \<Longrightarrow> keep s s'"
    and GetCode_law: "good s \<Longrightarrow> GetCode s a = (c, s') \<Longrightarrow> keep s s' \<and> (\<forall>code. c = Some code \<longrightarrow> length code < 2 ^ 62)"
    and GetCodeSize_law: "good s \<Longrightarrow> GetCodeSize s a = (k, s') \<Longrightarrow> keep s s'"
    and GetState_law: "good s \<Longrightarrow> GetState s a x = (w, s') \<Longrightarrow> keep s s'"
    and HasSuicided_law: "good s \<Longrightarrow> HasSuicided s a = (b, s') \<Longrightarrow> keep s s'"
    and Exist_raw: "good s \<Longrightarrow> Exist s a = (b, s') \<Longrightarrow> keep s s' \<and> (\<not> b \<longrightarrow> raw True s' (CreateAccount a s'))"
    and Empty_law: "good s \<Longrightarrow> \<exists>b s'. Empty s a = Inr (b, s') \<and> keep s s'"
    and Snapshot_law: "good s \<Longrightarrow> Snapshot s = (i, s') \<Longrightarrow> keep s s'"
    and AddPreimage_raw: "good s \<Longrightarrow> raw True s (AddPreimage h pre s)"
    and AddRefund_raw: "good s \<Longrightarrow> raw False s (AddRefund n s) \<and> bal (AddRefund n s) = bal s"
    and AddLog_raw: "good s \<Longrightarrow> raw False s (AddLog l s) \<and> bal (AddLog l s) = bal s"
    and SetState_raw: "good s \<Longrightarrow> raw False s (SetState a x w s) \<and> bal (SetState a x w s) = bal s"
    and SetNonce_raw: "good s \<Longrightarrow> raw False s (SetNonce a n s) \<and> bal (SetNonce a n s) = bal s"
    and SetCode_raw: "good s \<Longrightarrow> length code < 2 ^ 62 \<Longrightarrow> raw False s (SetCode a code s) \<and> bal (SetCode a code s) = bal s"
    and CreateAccount_raw: "good s \<Longrightarrow> raw False s (CreateAccount a s) \<and> bal (CreateAccount a s) = bal s"
    and Suicide_raw: "good s \<Longrightarrow> \<exists>b s'. Suicide a s = Inr (b, s') \<and> raw False s s' \<and> bal s' = (bal s)(a := 0)"
    and SubBalance_raw: "good s \<Longrightarrow> 0 \<le> v \<Longrightarrow> v \<le> bal s a \<Longrightarrow> 
      \<exists>s'. SubBalance a v s = Inr s' \<and> raw (v = 0) s s' \<and> bal s' = (bal s)(a := bal s a - v)"
    and AddBalance_raw: "good s \<Longrightarrow> 0 \<le> v \<Longrightarrow>
      \<exists>s'. AddBalance a v s = Inr s' \<and> raw (v = 0) s s' \<and> bal s' = (bal s)(a := bal s a + v)"
    and Revert_raw: "good s \<Longrightarrow> Snapshot s = (i, s1) \<Longrightarrow> raw ro s1 s2 \<Longrightarrow>
      \<exists>s3. RevertToSnapshot i s2 = Inr s3 \<and> keep s s3"
begin

text \<open>
  All that a client needs besides is \<open>rel\<close>: such a run that also creates no money. The sum over
  all addresses is finite, since addresses are 160-bit words.
\<close>

definition total :: "StateDB \<Rightarrow> int" where
  "total s = sum (bal s) UNIV"

definition rel :: "bool \<Rightarrow> StateDB \<Rightarrow> StateDB \<Rightarrow> bool" where
  "rel ro s t \<longleftrightarrow> raw ro s t \<and> total t \<le> total s"

lemma total_upd: "bal t = (bal s)(a := x) \<Longrightarrow> total t = total s - bal s a + x"
proof -
  assume "bal t = (bal s)(a := x)"
  then have "total t = x + sum (bal s) (UNIV - {a})" "total s = bal s a + sum (bal s) (UNIV - {a})"
    by (simp_all add: total_def sum.remove [of UNIV a])
  then show ?thesis by simp
qed

lemma keep_bal: "keep s t \<Longrightarrow> bal t = bal s"
  by (rule raw_protected, rule keep_raw)

lemma rel_same: "raw ro s t \<and> bal t = bal s \<Longrightarrow> rel ro s t"
  by (simp add: rel_def total_def)

lemma rel_protected: "raw True s t \<Longrightarrow> rel ro s t"
  by (rule rel_same) (simp add: raw_weaken raw_protected)

lemma raw_any: "raw ro s t \<Longrightarrow> raw False s t"
  by (cases ro) (auto intro: raw_weaken)

lemma rel_trans: "rel ro s t \<Longrightarrow> rel ro t u \<Longrightarrow> rel ro s u"
  by (auto simp: rel_def intro: raw_trans)

lemma rel_good: "rel ro s t \<Longrightarrow> good t"
  by (auto simp: rel_def intro: raw_good)

lemma rel_weaken: "rel True s t \<Longrightarrow> rel ro s t"
  by (auto simp: rel_def intro: raw_weaken)

lemma keep_rel: "keep s t \<Longrightarrow> rel True s t"
  by (rule rel_protected, rule keep_raw)

lemma Exist_law: "good s \<Longrightarrow> Exist s a = (b, s') \<Longrightarrow> keep s s' \<and> (\<not> b \<longrightarrow> rel True s' (CreateAccount a s'))"
  using Exist_raw rel_protected by blast

lemmas AddPreimage_law = AddPreimage_raw [THEN rel_protected, where ro = True]
lemmas AddRefund_law = AddRefund_raw [THEN rel_same]
lemmas AddLog_law = AddLog_raw [THEN rel_same]
lemmas SetState_law = SetState_raw [THEN rel_same]
lemmas SetCode_law = SetCode_raw [THEN rel_same]

lemma SetNonce_law: "good s \<Longrightarrow> rel False s (SetNonce a n s) \<and> bal (SetNonce a n s) = bal s"
  using SetNonce_raw rel_same by blast

lemma CreateAccount_law: "good s \<Longrightarrow> rel False s (CreateAccount a s) \<and> bal (CreateAccount a s) = bal s"
  using CreateAccount_raw rel_same by blast

lemma Revert_law: "good s \<Longrightarrow> Snapshot s = (i, s1) \<Longrightarrow> rel ro s1 s2 \<Longrightarrow> \<exists>s3. RevertToSnapshot i s2 = Inr s3 \<and> keep s s3"
  using Revert_raw by (auto simp: rel_def)

text \<open>Taking is a run of its own, giving is one only after as much was taken.\<close>

lemma SubBalance_law:
  "good s \<Longrightarrow> 0 \<le> v \<Longrightarrow> v \<le> bal s a \<Longrightarrow>
   \<exists>s'. SubBalance a v s = Inr s' \<and> rel (v = 0) s s' \<and> bal s' = (bal s)(a := bal s a - v)"
proof -
  assume "good s" "0 \<le> v" "v \<le> bal s a"
  then obtain s' where s': "SubBalance a v s = Inr s'" "raw (v = 0) s s'" "bal s' = (bal s)(a := bal s a - v)"
    using SubBalance_raw by blast
  then show ?thesis using total_upd [OF s'(3)] \<open>0 \<le> v\<close> by (simp add: rel_def)
qed

lemma AddBalance_law:
  assumes "rel ro s t" "0 \<le> v" "v = 0 \<or> \<not> ro" "total t + v \<le> total s"
  shows "\<exists>u. AddBalance a v t = Inr u \<and> rel ro s u \<and> bal u = (bal t)(a := bal t a + v) \<and> total u = total t + v"
proof -
  obtain u where u: "AddBalance a v t = Inr u" "raw (v = 0) t u" "bal u = (bal t)(a := bal t a + v)"
    using AddBalance_raw [OF rel_good [OF assms(1)] assms(2)] by blast
  have "raw ro t u" using u(2) assms(3) raw_weaken [of t u] by (cases "v = 0"; cases ro) auto
  then show ?thesis using u assms(1,4) raw_trans [of ro s t u] total_upd [OF u(3)] by (auto simp: rel_def)
qed

text \<open>Giving away what one has and then losing it.\<close>

lemma give_Suicide_law:
  assumes "good s"
  shows "\<exists>t d u. AddBalance b (bal s a) s = Inr t \<and> Suicide a t = Inr (d, u) \<and> rel False s u"
proof -
  obtain t where t: "AddBalance b (bal s a) s = Inr t" "raw False s t" "bal t = (bal s)(b := bal s b + bal s a)"
    using AddBalance_raw [OF assms bal_nonneg [OF assms], of b a] raw_any by blast
  obtain d u where u: "Suicide a t = Inr (d, u)" "raw False t u" "bal u = (bal t)(a := 0)"
    using Suicide_raw [OF raw_good [OF t(2)]] by blast
  have "total u \<le> total s"
    using total_upd [OF t(3)] total_upd [OF u(3)] t(3) bal_nonneg [OF assms, of a] by (simp split: if_splits)
  then show ?thesis using t(1) u(1) raw_trans [OF t(2) u(2)] by (auto simp: rel_def)
qed

end

section \<open>The state database honours it\<close>

definition acct_ok :: "account_view \<Rightarrow> bool" where
  "acct_ok v \<longleftrightarrow> (\<exists>b. Balance (av_data v) = Some b \<and> 0 \<le> b) \<and> (\<forall>c. av_code v = Some c \<longrightarrow> length c < 2 ^ 62)"

definition vm_good :: "StateDB \<Rightarrow> bool" where
  "vm_good s \<longleftrightarrow> state_ok s \<and> (\<forall>a v. accounts_of s a = Some v \<longrightarrow> acct_ok v)"

definition balance_of :: "StateDB \<Rightarrow> address \<Rightarrow> int" where
  "balance_of s a = the (Balance (av_data (account_or_new s a)))"

definition untouched :: "StateDB \<Rightarrow> StateDB \<Rightarrow> bool" where
  "untouched s s' \<longleftrightarrow> account_or_new s' = account_or_new s \<and> sdb_refund s' = sdb_refund s \<and> GetLogs s' = GetLogs s"

definition vm_rel :: "bool \<Rightarrow> StateDB \<Rightarrow> StateDB \<Rightarrow> bool" where
  "vm_rel ro s s' \<longleftrightarrow> vm_good s \<and> vm_good s' \<and> sdb_step\<^sup>*\<^sup>* s s' \<and> sdb_db s' = sdb_db s
     \<and> (\<exists>rs. validRevisions s' = validRevisions s @ rs) \<and> (ro \<longrightarrow> untouched s s')"

definition vm_keep :: "StateDB \<Rightarrow> StateDB \<Rightarrow> bool" where
  "vm_keep s s' \<longleftrightarrow> vm_rel True s s' \<and> observe s' = observe s"

lemma vm_good_objs: "vm_good s \<Longrightarrow> objs_ok s"
  by (simp add: vm_good_def state_ok_def)

lemma account_or_new_alt:
  "account_or_new s = (\<lambda>a. case accounts_of s a of Some v \<Rightarrow> v
     | None \<Rightarrow> view_of (sdb_db s) (newObject (sdb_db s) a emptyAccount))"
  by (simp add: account_or_new_def fun_eq_iff)

lemma account_or_new_same:
  "accounts_of s' = accounts_of s \<Longrightarrow> sdb_db s' = sdb_db s \<Longrightarrow> account_or_new s' = account_or_new s"
  by (simp add: account_or_new_alt fun_eq_iff split: option.split)

lemma new_view_ok: "acct_ok (view_of d (newObject d a emptyAccount))"
  by (simp add: acct_ok_def view_of_alt code_of_def newObject_def emptyAccount_def Let_def)

lemma account_or_new_acct_ok: "vm_good s \<Longrightarrow> acct_ok (account_or_new s a)"
  by (auto simp: vm_good_def account_or_new_def new_view_ok split: option.split)

lemma balance_of_ok: "vm_good s \<Longrightarrow> Balance (av_data (account_or_new s a)) = Some (balance_of s a) \<and> 0 \<le> balance_of s a"
  using account_or_new_acct_ok [of s a] by (auto simp: acct_ok_def balance_of_def)

lemma with_balance_ok: "acct_ok w \<Longrightarrow> 0 \<le> b \<Longrightarrow> acct_ok (with_balance w b)"
  by (auto simp: acct_ok_def with_balance_def)

lemma vm_rel_logged:
  assumes "vm_good s" "logged s s'" "sdb_step s s'" "\<forall>a v. accounts_of s' a = Some v \<longrightarrow> acct_ok v"
    "ro \<longrightarrow> untouched s s'"
  shows "vm_rel ro s s'"
  using assms logged_state_ok [of s s']
  by (auto simp: vm_rel_def vm_good_def logged_def keeps_def)

lemma vm_keep_quiet:
  assumes "vm_good s" "quiet s s'" "sdb_step s s'"
  shows "vm_keep s s'"
proof -
  have "logged s s'"
    using assms(1,2) vm_good_objs [OF assms(1)] by (intro logged_unseen) (simp_all add: quiet_def)
  moreover have "untouched s s'"
  proof -
    have "sdb_db s' = sdb_db s" "accounts_of s' = accounts_of s" "sdb_refund s' = sdb_refund s" "sdb_logs s' = sdb_logs s"
      using assms(2) by (simp_all add: quiet_def same_frame_def)
    then show ?thesis using account_or_new_same [of s' s] by (simp add: untouched_def GetLogs_def fun_eq_iff)
  qed
  ultimately show ?thesis
    using assms quiet_observe [OF assms(2)] by (auto simp: vm_keep_def vm_good_def quiet_def intro!: vm_rel_logged)
qed

lemma vm_rel_update:
  assumes "vm_good s" "logged s s'" "sdb_step s s'" "accounts_of s' = (accounts_of s)(a \<mapsto> w)" "acct_ok w"
  shows "vm_rel False s s'"
  using assms by (intro vm_rel_logged) (auto simp: vm_good_def)

lemma account_or_new_update:
  "accounts_of s' = (accounts_of s)(a \<mapsto> w) \<Longrightarrow> sdb_db s' = sdb_db s \<Longrightarrow> account_or_new s' = (account_or_new s)(a := w)"
  by (simp add: account_or_new_alt fun_eq_iff split: option.split)

lemma vm_rel_same_balance:
  assumes "vm_good s" "logged s s'" "sdb_step s s'" "accounts_of s' = (accounts_of s)(a \<mapsto> w)" "acct_ok w"
    and "Balance (av_data w) = Balance (av_data (account_or_new s a))"
  shows "vm_rel False s s' \<and> balance_of s' = balance_of s"
  using vm_rel_update [OF assms(1-5)] account_or_new_update [OF assms(4)] assms(6)
  by (simp add: vm_rel_def balance_of_def fun_eq_iff)

lemma vm_rel_trans: "vm_rel ro s t \<Longrightarrow> vm_rel ro t u \<Longrightarrow> vm_rel ro s u"
  by (auto simp: vm_rel_def untouched_def)

lemma vm_keep_observe: "vm_keep s s' \<Longrightarrow> observe s' = observe s"
  by (simp add: vm_keep_def)

lemma SetNonce_vm:
  assumes "vm_good s"
  shows "vm_rel False s (SetNonce a n s) \<and> balance_of (SetNonce a n s) = balance_of s"
proof -
  have ok: "state_ok s" "objs_ok s" using assms vm_good_objs by (simp_all add: vm_good_def)
  show ?thesis
    using account_or_new_acct_ok [OF assms, of a]
    by (intro vm_rel_same_balance [OF assms via_logged(4) [OF ok(2)] sdb_step.intros(20) [OF refl] SetNonce_accounts [OF ok(1)]])
      (simp_all add: acct_ok_def)
qed

lemma CreateAccount_vm:
  assumes "vm_good s"
  shows "vm_rel False s (CreateAccount a s) \<and> balance_of (CreateAccount a s) = balance_of s"
    and "accounts_of s a = None \<Longrightarrow> vm_rel True s (CreateAccount a s)"
proof -
  have ok: "state_ok s" "objs_ok s" using assms vm_good_objs by (simp_all add: vm_good_def)
  let ?n = "view_of (sdb_db s) (newObject (sdb_db s) a emptyAccount)"
  obtain b where b: "Balance (av_data (account_or_new s a)) = Some b"
    and acc: "accounts_of (CreateAccount a s) = (accounts_of s)(a \<mapsto> with_balance ?n b)"
    using CreateAccount_accounts [OF ok(1), of a] by blast
  have "acct_ok (with_balance ?n b)"
    using balance_of_ok [OF assms, of a] b by (intro with_balance_ok new_view_ok) auto
  then have r: "vm_rel False s (CreateAccount a s)"
    by (rule vm_rel_update [OF assms CreateAccount_logged [OF ok(2)] sdb_step.intros(27) [OF refl] acc])
  then have new: "account_or_new (CreateAccount a s) = (account_or_new s)(a := with_balance ?n b)"
    using account_or_new_update [OF acc] by (simp add: vm_rel_def)
  then show "vm_rel False s (CreateAccount a s) \<and> balance_of (CreateAccount a s) = balance_of s"
    using r b by (simp add: balance_of_def with_balance_def fun_eq_iff)
  assume "accounts_of s a = None"
  then have "account_or_new s a = ?n" by (simp add: account_or_new_def)
  then have "account_or_new (CreateAccount a s) = account_or_new s" using new b by (simp add: with_balance_self fun_upd_idem)
  moreover have "sdb_refund (CreateAccount a s) = sdb_refund s \<and> GetLogs (CreateAccount a s) = GetLogs s"
    using CreateAccount_frame [OF ok(2), of a] by (auto simp: same_frame_def GetLogs_def fun_eq_iff)
  ultimately show "vm_rel True s (CreateAccount a s)" using r by (simp add: vm_rel_def untouched_def)
qed

lemma balance_vm:
  assumes "vm_good s" "0 \<le> v"
  shows "v \<le> balance_of s a \<Longrightarrow> \<exists>s'. SubBalance a v s = Inr s' \<and> vm_rel (v = 0) s s'
      \<and> balance_of s' = (balance_of s)(a := balance_of s a - v)"
    "\<exists>s'. AddBalance a v s = Inr s' \<and> vm_rel (v = 0) s s'
      \<and> balance_of s' = (balance_of s)(a := balance_of s a + v)"
proof -
  have ok: "state_ok s" "objs_ok s" using assms vm_good_objs by (simp_all add: vm_good_def)
  note b = balance_of_ok [OF assms(1), of a, THEN conjunct1]
  have *: "vm_rel (v = 0) s s' \<and> balance_of s' = (balance_of s)(a := x)"
    if l: "logged s s'" and st: "sdb_step s s'" and f: "v = 0 \<Longrightarrow> same_frame s' s"
      and acc: "accounts_of s' = (accounts_of s)(a \<mapsto> with_balance (account_or_new s a) x)"
      and x: "0 \<le> x" "v = 0 \<Longrightarrow> x = balance_of s a" for s' x
  proof -
    have "acct_ok (with_balance (account_or_new s a) x)"
      using x(1) assms(1) by (intro with_balance_ok account_or_new_acct_ok)
    then have r: "vm_rel False s s'" using vm_rel_update [OF assms(1) l st acc] by blast
    moreover from r have "balance_of s' = (balance_of s)(a := x)"
      using account_or_new_update [OF acc] by (simp add: vm_rel_def balance_of_def with_balance_def fun_eq_iff)
    moreover have "untouched s s'" if "v = 0"
    proof -
      have "account_or_new s' = account_or_new s"
        using account_or_new_update [OF acc] r x(2) [OF that] b by (simp add: vm_rel_def with_balance_self fun_upd_idem)
      then show ?thesis using f [OF that] by (auto simp: untouched_def same_frame_def GetLogs_def fun_eq_iff)
    qed
    ultimately show ?thesis by (simp add: vm_rel_def)
  qed
  show "\<exists>s'. SubBalance a v s = Inr s' \<and> vm_rel (v = 0) s s'
      \<and> balance_of s' = (balance_of s)(a := balance_of s a - v)" if "v \<le> balance_of s a"
  proof -
    obtain s' where s': "SubBalance a v s = Inr s'"
      "accounts_of s' = (accounts_of s)(a \<mapsto> with_balance (account_or_new s a) (balance_of s a - v))"
      using SubBalance_accounts [OF ok(1) b] by blast
    have "vm_rel (v = 0) s s' \<and> balance_of s' = (balance_of s)(a := balance_of s a - v)"
      using * [OF via_logged(2) [OF ok(2) s'(1)] sdb_step.intros(18) [OF s'(1)] _ s'(2)] s'(1) that
        zero_transfer_frame(2) [OF ok(2), of a s'] by auto
    then show ?thesis using s'(1) by blast
  qed
  obtain s' where s': "AddBalance a v s = Inr s'"
    "accounts_of s' = (accounts_of s)(a \<mapsto> with_balance (account_or_new s a) (balance_of s a + v))"
    using AddBalance_accounts [OF ok(1) b] by blast
  have "vm_rel (v = 0) s s' \<and> balance_of s' = (balance_of s)(a := balance_of s a + v)"
    using * [OF via_logged(1) [OF ok(2) s'(1)] sdb_step.intros(17) [OF s'(1)] _ s'(2)] s'(1)
      zero_transfer_frame(1) [OF ok(2), of a s'] assms(2) balance_of_ok [OF assms(1), of a]
    by auto
  then show "\<exists>s'. AddBalance a v s = Inr s' \<and> vm_rel (v = 0) s s'
      \<and> balance_of s' = (balance_of s)(a := balance_of s a + v)" using s'(1) by blast
qed

lemma writes_vm:
  assumes "vm_good s"
  shows "vm_rel False s (SetState a x w s) \<and> balance_of (SetState a x w s) = balance_of s"
    "length code < 2 ^ 62 \<Longrightarrow> vm_rel False s (SetCode a code s) \<and> balance_of (SetCode a code s) = balance_of s"
    "\<exists>b s'. Suicide a s = Inr (b, s') \<and> vm_rel False s s' \<and> balance_of s' = (balance_of s)(a := 0)"
    "vm_rel False s (AddLog l s) \<and> balance_of (AddLog l s) = balance_of s"
    "vm_rel False s (AddRefund g s) \<and> balance_of (AddRefund g s) = balance_of s"
    "vm_rel True s (AddPreimage h c s)"
proof -
  have ok: "state_ok s" "objs_ok s" using assms vm_good_objs by (simp_all add: vm_good_def)
  note n = account_or_new_acct_ok [OF assms, of a]
  show "vm_rel False s (SetState a x w s) \<and> balance_of (SetState a x w s) = balance_of s"
    using n by (intro vm_rel_same_balance [OF assms via_logged(6) [OF ok(2)] sdb_step.intros(22) [OF refl] SetState_accounts(2) [OF ok(1)]])
      (simp_all add: acct_ok_def)
  show "vm_rel False s (SetCode a code s) \<and> balance_of (SetCode a code s) = balance_of s" if "length code < 2 ^ 62"
    using n that by (intro vm_rel_same_balance [OF assms via_logged(5) [OF ok(2)] sdb_step.intros(21) [OF refl] SetCode_accounts [OF ok(1)]])
      (simp_all add: acct_ok_def)
  show "\<exists>b s'. Suicide a s = Inr (b, s') \<and> vm_rel False s s' \<and> balance_of s' = (balance_of s)(a := 0)"
  proof -
    obtain b s' where s': "Suicide a s = Inr (b, s')" "accounts_of s' =
        (case accounts_of s a of None \<Rightarrow> accounts_of s
         | Some v \<Rightarrow> (accounts_of s)(a \<mapsto> with_balance (v\<lparr>av_suicided := True\<rparr>) 0))"
      using Suicide_accounts [OF ok(1), of a] by blast
    have all: "\<forall>a v. accounts_of s' a = Some v \<longrightarrow> acct_ok v"
    proof (cases "accounts_of s a")
      case None
      then show ?thesis using s'(2) assms by (simp add: vm_good_def)
    next
      case (Some v)
      then have "acct_ok v" using assms by (simp add: vm_good_def)
      then have "acct_ok (with_balance (v\<lparr>av_suicided := True\<rparr>) 0)"
        by (intro with_balance_ok) (simp_all add: acct_ok_def)
      then show ?thesis using s'(2) assms Some by (simp add: vm_good_def)
    qed
    have r: "vm_rel False s s'"
      by (rule vm_rel_logged [OF assms Suicide_logged [OF ok(2) s'(1)] sdb_step.intros(26) [OF s'(1)] all]) simp
    then have "sdb_db s' = sdb_db s" by (simp add: vm_rel_def)
    then have "balance_of s' = (balance_of s)(a := 0)" using s'(2)
      by (cases "accounts_of s a") (auto simp: balance_of_def account_or_new_alt fun_eq_iff with_balance_def view_of_alt
          newObject_def emptyAccount_def Let_def split: option.splits)
    then show ?thesis using r s'(1) by blast
  qed
  have same: "balance_of (AddLog l s) = balance_of s" "balance_of (AddRefund g s) = balance_of s"
    using account_or_new_same [of "AddLog l s" s] account_or_new_same [of "AddRefund g s" s]
    by (simp_all add: other_accounts balance_of_def fun_eq_iff AddLog_def AddRefund_def Let_def)
  show "vm_rel False s (AddLog l s) \<and> balance_of (AddLog l s) = balance_of s"
    "vm_rel False s (AddRefund g s) \<and> balance_of (AddRefund g s) = balance_of s"
    using same assms vm_rel_logged [OF assms AddLog_logged [OF ok(2)] sdb_step.intros(14) [OF refl]]
      vm_rel_logged [OF assms AddRefund_logged [OF ok(2)] sdb_step.intros(16) [OF refl]]
    by (simp_all add: other_accounts vm_good_def)
  have "untouched s (AddPreimage h c s)"
    using account_or_new_same [of "AddPreimage h c s" s]
    by (auto simp: untouched_def other_accounts GetLogs_def fun_eq_iff) (simp_all add: AddPreimage_def jappend_def)
  then show "vm_rel True s (AddPreimage h c s)"
    using assms vm_rel_logged [OF assms AddPreimage_logged [OF ok(2)] sdb_step.intros(15) [OF refl]]
    by (simp add: other_accounts vm_good_def)
qed

lemma Snapshot_vm: "vm_good s \<Longrightarrow> Snapshot s = (i, s') \<Longrightarrow> vm_keep s s'"
proof -
  assume g: "vm_good s" and s': "Snapshot s = (i, s')"
  have "accounts_of s' = accounts_of s" "observe s' = observe s" "sdb_db s' = sdb_db s"
    "sdb_refund s' = sdb_refund s" "GetLogs s' = GetLogs s" "\<exists>r. validRevisions s' = validRevisions s @ r"
    using s' by (auto simp: Snapshot_def observe_def)
  moreover have "state_ok s'" using Snapshot_state_ok [OF s'] g by (simp add: vm_good_def)
  moreover have "sdb_step\<^sup>*\<^sup>* s s'" by (rule r_into_rtranclp) (rule sdb_Snapshot [OF s'])
  ultimately show ?thesis using g account_or_new_same [of s' s]
    by (simp add: vm_keep_def vm_rel_def vm_good_def untouched_def)
qed

text \<open>Reverting to a snapshot after any run drops exactly the later revisions.\<close>

lemma Revert_vm:
  assumes g: "vm_good s" and s1: "Snapshot s = (i, s1)" and r: "vm_rel ro s1 s2"
  shows "\<exists>s3. RevertToSnapshot i s2 = Inr s3 \<and> vm_keep s s3"
proof -
  have ok: "state_ok s" "state_ok s2" using g r by (auto simp: vm_good_def vm_rel_def)
  have vr: "validRevisions s1 = validRevisions s @ [\<lparr>rev_id = i, rev_journalIndex = journal_length (sdb_journal s)\<rparr>]"
    using s1 by (auto simp: Snapshot_def)
  then obtain rs where rs: "validRevisions s2 = validRevisions s @ \<lparr>rev_id = i, rev_journalIndex = journal_length (sdb_journal s)\<rparr> # rs"
    using r by (auto simp: vm_rel_def)
  have "snap_inv i s s2" using snap_inv_steps [OF _ snap_inv_start [OF s1 ok(1)]] r by (simp add: vm_rel_def)
  then obtain s3 where s3: "RevertToSnapshot i s2 = Inr s3" "eqv s3 s"
    using snap_inv_revertible [of i s s2] rs by auto
  have v3: "validRevisions s3 = validRevisions s"
    using s3(1) ok(2)
  proof (cases rule: RevertToSnapshot_cases)
    case (1 idx u)
    have "idx = length (validRevisions s)"
    proof (rule ccontr)
      have d: "\<forall>j k. j < k \<longrightarrow> k < length (validRevisions s2) \<longrightarrow> rev_id (validRevisions s2 ! j) < rev_id (validRevisions s2 ! k)"
        using ok(2) by (auto simp: state_ok_def revs_ok_def sorted_wrt_iff_nth_less)
      assume "idx \<noteq> length (validRevisions s)"
      moreover have "rev_id (validRevisions s2 ! length (validRevisions s)) = i" "length (validRevisions s) < length (validRevisions s2)"
        using rs by auto
      ultimately show False using d 1(1,2) by (metis less_irrefl nat_neq_iff)
    qed
    then show ?thesis using 1(8) rs by simp
  qed
  have obs: "observe s3 = observe s" "sdb_db s3 = sdb_db s" using s3(2) by (auto simp: eqv_def)
  then have acc: "accounts_of s3 = accounts_of s" "sdb_refund s3 = sdb_refund s" "GetLogs s3 = GetLogs s"
    by (auto simp: observe_def)
  have "sdb_step\<^sup>*\<^sup>* s s3"
  proof -
    note sdb_Snapshot [OF s1] sdb_Revert [OF s3(1)]
    moreover have "sdb_step\<^sup>*\<^sup>* s1 s2" using r by (simp add: vm_rel_def)
    ultimately show ?thesis by (meson converse_rtranclp_into_rtranclp rtranclp.rtrancl_into_rtrancl)
  qed
  moreover have "state_ok s3" by (rule RevertToSnapshot_state_ok [OF s3(1) ok(2)])
  ultimately have "vm_keep s s3" using g obs acc v3 account_or_new_same [of s3 s]
    by (simp add: vm_keep_def vm_rel_def vm_good_def untouched_def)
  then show ?thesis using s3(1) by blast
qed

lemma GetBalance_vm: "vm_good s \<Longrightarrow> GetBalance s a = (p, s') \<Longrightarrow> p = Some (balance_of s a) \<and> vm_keep s s'"
proof -
  assume g: "vm_good s" and r: "GetBalance s a = (p, s')"
  have "p = Balance (av_data (account_or_new s a))"
    using GetBalance_account_or_new [of s a] r g by (simp add: vm_good_def)
  then show ?thesis using balance_of_ok [OF g, of a]
      vm_keep_quiet [OF g reads_quiet(4) [OF vm_good_objs [OF g] r [unfolded GetBalance_def]] sdb_step.intros(3) [OF r]]
    by simp
qed

lemma Exist_vm:
  assumes g: "vm_good s" and r: "Exist s a = (b, s')"
  shows "vm_keep s s' \<and> (\<not> b \<longrightarrow> vm_rel True s' (CreateAccount a s'))"
proof -
  have k: "vm_keep s s'" 
    by (rule vm_keep_quiet [OF g reads_quiet(1) [OF vm_good_objs [OF g] r] sdb_step.intros(1) [OF r]])
  obtain x t where gs: "getStateObject s a = (x, t)" by fastforce
  note q = getStateObject_props [OF gs vm_good_objs [OF g]]
  have "accounts_of s' a = None" if "\<not> b"
    using that r gs q(1,2) by (simp add: Exist_def accounts_of_def)
  then show ?thesis using k CreateAccount_vm(2) [of s' a] by (auto simp: vm_keep_def vm_rel_def)
qed

lemma Empty_vm: "vm_good s \<Longrightarrow> \<exists>b s'. Empty s a = Inr (b, s') \<and> vm_keep s s'"
proof -
  assume g: "vm_good s"
  obtain x t where gs: "getStateObject s a = (x, t)" by fastforce
  note q = getStateObject_props [OF gs vm_good_objs [OF g]]
  have "\<exists>b s'. Empty s a = Inr (b, s')"
  proof (cases x)
    case (Some ob)
    then have "obj_ok ob" using obj_at_ok [OF vm_good_objs [OF g], of a ob] q(1) by simp
    then obtain c where "Balance (so_data ob) = Some c" by (auto simp: obj_ok_def)
    then show ?thesis using gs Some by (auto simp: Empty_def so_empty_def)
  qed (use gs in \<open>auto simp: Empty_def\<close>)
  then show ?thesis using vm_keep_quiet [OF g reads_quiet(2) [OF vm_good_objs [OF g]]] sdb_step.intros(2) by blast
qed

interpretation vm: statedb vm_good vm_rel vm_keep balance_of
proof
  show "vm_keep s s" if "vm_good s" for s
    using that by (auto simp: vm_keep_def vm_rel_def untouched_def)
  show "vm_rel ro s u" if "vm_rel ro s t" "vm_rel ro t u" for ro s t u using that by (rule vm_rel_trans)
  show "vm_keep s u" if "vm_keep s t" "vm_keep t u" for s t u
    using that vm_rel_trans by (auto simp: vm_keep_def)
  show "vm_good t" if "vm_rel ro s t" for ro s t using that by (simp add: vm_rel_def)
  show "vm_rel ro s t" if "vm_rel True s t" for ro s t using that by (simp add: vm_rel_def)
  show "vm_rel True s t" if "vm_keep s t" for s t using that by (simp add: vm_keep_def)
  show "balance_of t = balance_of s" if "vm_rel True s t" for s t
    using that by (simp add: vm_rel_def untouched_def balance_of_def fun_eq_iff)
  show "0 \<le> balance_of s a" if "vm_good s" for s a using balance_of_ok [OF that, of a] by simp
  show "p = Some (balance_of s a) \<and> vm_keep s s'" if "vm_good s" "GetBalance s a = (p, s')" for s a p s'
    using that by (rule GetBalance_vm)
  show "vm_keep s s'" if g: "vm_good s" and r: "GetNonce s a = (n, s')" for s a n s'
    by (rule vm_keep_quiet [OF g reads_quiet(4) [OF vm_good_objs [OF g] r [unfolded GetNonce_def]] sdb_step.intros(4) [OF r]])
  show "vm_keep s s'" if g: "vm_good s" and r: "GetCodeHash s a = (h, s')" for s a h s'
    by (rule vm_keep_quiet [OF g reads_quiet(4) [OF vm_good_objs [OF g] r [unfolded GetCodeHash_def]] sdb_step.intros(9) [OF r]])
  show "vm_keep s s' \<and> (\<forall>code. c = Some code \<longrightarrow> length code < 2 ^ 62)" if g: "vm_good s" and r: "GetCode s a = (c, s')" for s a c s'
    using vm_keep_quiet [OF g GetCode_quiet(1) [OF vm_good_objs [OF g] r] sdb_step.intros(10) [OF r]]
      GetCode_quiet(2) [OF vm_good_objs [OF g] r] g
    by (auto simp: vm_good_def acct_ok_def split: option.splits)
  show "vm_keep s s'" if g: "vm_good s" and r: "GetCodeSize s a = (k, s')" for s a k s'
    by (rule vm_keep_quiet [OF g GetCodeSize_quiet [OF vm_good_objs [OF g] r] sdb_step.intros(11) [OF r]])
  show "vm_keep s s'" if g: "vm_good s" and r: "GetState s a x = (w, s')" for s a x w s'
    by (rule vm_keep_quiet [OF g GetState_quiet [OF vm_good_objs [OF g] r] sdb_step.intros(12) [OF r]])
  show "vm_keep s s'" if g: "vm_good s" and r: "HasSuicided s a = (b, s')" for s a b s'
    by (rule vm_keep_quiet [OF g reads_quiet(3) [OF vm_good_objs [OF g] r] sdb_step.intros(13) [OF r]])
qed (fact Exist_vm Empty_vm Snapshot_vm writes_vm SetNonce_vm CreateAccount_vm(1) balance_vm Revert_vm)+

end
