(* ===== verification/VMSafe.thy ===== *)
theory VMSafe
  imports VMSafeBase StateViews
begin

text \<open>
  The interpreter is safe: on a well-formed frame every operation of the instruction tables
  returns and keeps the frame well formed, gas strictly decreases with every operation that
  does not end the run, and therefore the loop ends without a panic. Everything is proved from
  the contract \<open>statedb\<close> of the state database.
\<close>

definition contract_ok :: "Contract \<Rightarrow> bool" where
  "contract_ok c \<longleftrightarrow> (\<exists>v. c_value c = Some v \<and> 0 \<le> v) \<and> length (Code c) < 2 ^ 62 \<and> length (Input c) < 2 ^ 62
     \<and> unat (Gas c) < 2 ^ 62"

definition env_ok :: "vm_env \<Rightarrow> bool" where
  "env_ok env \<longleftrightarrow> 0 \<le> GasPrice (env_ctx env) \<and> env_gasTable env = DefualtGasTable \<and> crypto_ok (env_crypto env)"

text \<open>The frame after paying and growing the memory.\<close>

definition pay :: "u64 \<Rightarrow> u64 \<Rightarrow> frame \<Rightarrow> frame" where
  "pay c ms f = f\<lparr>fr_contract := (fr_contract f)\<lparr>Gas := Gas (fr_contract f) - c\<rparr>,
     fr_mem := (if ms > 0 then Resize ms (fr_mem f) else fr_mem f)\<rparr>"

text \<open>The memory a size function asks for is there.\<close>

definition mem_ready :: "(stack \<Rightarrow> go_panic + int) option \<Rightarrow> frame \<Rightarrow> bool" where
  "mem_ready memf f \<longleftrightarrow> (\<forall>fn v. memf = Some fn \<longrightarrow> fn (fr_stack f) = Inr v \<longrightarrow>
     v \<le> int (length (store (fr_mem f))) \<and> v < 2 ^ 41)"

lemma sint_nonneg: "unat (w :: u64) < 2 ^ 63 \<Longrightarrow> 0 \<le> sint w"
proof -
  assume "unat w < 2 ^ 63"
  then have "int (unat w) < int (2 ^ 63)" by (simp only: of_nat_less_iff)
  then have "uint w < 2 ^ 63" by simp
  then have "sint w = uint w"
    unfolding sint_uint by (intro signed_take_bit_int_eq_self order_trans [OF _ uint_ge_0]) simp_all
  then show ?thesis using uint_ge_0 [of w] by (simp only:)
qed

lemma Resize_length: "length (store (Resize ms mem)) = max (length (store mem)) (unat ms)"
  by (simp add: Resize_def)

lemma mem_range_eq: "i < length st \<Longrightarrow> j < length st \<Longrightarrow> mem_range i j st = Inr (calcMemSize (st ! i) (st ! j))"
  by (simp add: mem_range_def Back_def)

lemma mem_max_eq: "f st = Inr x \<Longrightarrow> g st = Inr y \<Longrightarrow> mem_max f g st = Inr (BigMax x y)"
  by (simp add: mem_max_def)

lemma nonneg_nth: "nonneg st \<Longrightarrow> i < length st \<Longrightarrow> 0 \<le> st ! i"
  by (simp add: nonneg_def)

lemma covers_range:
  "calcMemSize off l \<le> v \<Longrightarrow> v \<le> int (length (store mem)) \<Longrightarrow> v < 2 ^ 41 \<Longrightarrow> 0 \<le> off \<Longrightarrow> 0 \<le> l \<Longrightarrow> covers mem off l"
  by (auto simp: covers_def calcMemSize_def split: if_splits)

lemma calcMemSize_nonneg [simp]: "0 \<le> off \<Longrightarrow> 0 \<le> l \<Longrightarrow> 0 \<le> calcMemSize off l"
  by (simp add: calcMemSize_def)

context statedb
begin

definition frame_ok :: "frame \<Rightarrow> bool" where
  "frame_ok f \<longleftrightarrow> good (fr_state f) \<and> nonneg (fr_stack f) \<and> contract_ok (fr_contract f)"

definition evm_le :: "EVM \<Rightarrow> EVM \<Rightarrow> bool" where
  "evm_le e e' \<longleftrightarrow> rel (readOnly e) (ev_StateDB e) (ev_StateDB e') \<and> readOnly e' = readOnly e
     \<and> ev_depth e' = ev_depth e \<and> ev_abort e' = ev_abort e"

definition frame_le :: "frame \<Rightarrow> frame \<Rightarrow> bool" where
  "frame_le f f' \<longleftrightarrow> frame_ok f' \<and> evm_le (fr_evm f) (fr_evm f')
     \<and> fr_contract f' = (fr_contract f)\<lparr>Gas := Gas (fr_contract f')\<rparr> \<and> Gas (fr_contract f') \<le> Gas (fr_contract f)"

lemma rel_refl: "good s \<Longrightarrow> rel ro s s"
  by (rule rel_weaken, rule keep_rel, rule keep_refl)

lemma keep_rel_any: "keep s t \<Longrightarrow> rel ro s t"
  by (rule rel_weaken, rule keep_rel)

lemma keep_good: "keep s t \<Longrightarrow> good t"
  by (rule rel_good, rule keep_rel)

lemma rel_False: "rel ro s t \<Longrightarrow> rel False s t"
  by (cases ro) (auto intro: rel_weaken)

lemma evm_le_refl: "good (ev_StateDB e) \<Longrightarrow> evm_le e e"
  by (simp add: evm_le_def rel_refl)

lemma evm_le_trans: "evm_le a b \<Longrightarrow> evm_le b c \<Longrightarrow> evm_le a c"
  by (auto simp: evm_le_def intro: rel_trans)

lemma frame_le_refl: "frame_ok f \<Longrightarrow> frame_le f f"
  by (simp add: frame_le_def evm_le_refl frame_ok_def fr_state_def)

lemma frame_le_ok: "frame_le f g \<Longrightarrow> frame_ok g"
  by (simp add: frame_le_def)

lemma frame_le_trans: "frame_le f g \<Longrightarrow> frame_le g h \<Longrightarrow> frame_le f h"
  by (auto simp: frame_le_def intro: evm_le_trans order_trans) (metis Contract.surjective Contract.update_convs(8))

text \<open>A frame that changes only in the program counter, the stack, the memory, the state and
  the parts of the machine that do not matter here.\<close>

lemma frame_leI:
  "frame_ok f \<Longrightarrow> fr_contract f' = fr_contract f \<Longrightarrow> nonneg (fr_stack f') \<Longrightarrow>
   rel (readOnly (fr_evm f)) (fr_state f) (fr_state f') \<Longrightarrow> readOnly (fr_evm f') = readOnly (fr_evm f) \<Longrightarrow>
   ev_depth (fr_evm f') = ev_depth (fr_evm f) \<Longrightarrow> ev_abort (fr_evm f') = ev_abort (fr_evm f) \<Longrightarrow> frame_le f f'"
  by (auto simp: frame_le_def frame_ok_def evm_le_def fr_state_def intro: rel_good)

lemma gas_frame_le:
  "frame_ok f \<Longrightarrow> gas_frame f f1 \<Longrightarrow> rel (readOnly (fr_evm f)) (fr_state f) (fr_state f1) \<Longrightarrow> frame_le f f1"
  by (rule frame_leI) (auto simp: gas_frame_def frame_ok_def, (metis EVM.ext_inject EVM.surjective EVM.update_convs)+)

section \<open>Execution of one operation\<close>

definition exec_ok :: "nat \<Rightarrow> bool \<Rightarrow> (stack \<Rightarrow> go_panic + int) option \<Rightarrow> executionFunc \<Rightarrow> bool" where
  "exec_ok n w memf ex \<longleftrightarrow> (\<forall>cs env f. env_ok env \<longrightarrow> frame_ok f \<longrightarrow> n \<le> length (fr_stack f) \<longrightarrow>
     (w \<longrightarrow> \<not> readOnly (fr_evm f)) \<longrightarrow> mem_ready memf f \<longrightarrow> safe (ex cs env f) (\<lambda>(res, err, f'). frame_le f f'))"

lemma stack_op_ok: "stack_fun_ok n g \<Longrightarrow> exec_ok n w memf (stack_op g)"
  by (auto simp: exec_ok_def stack_op_def stack_fun_ok_def frame_ok_def fr_state_def rel_refl
      intro!: safe_lift_bind frame_leI)

lemma push_op_ok: "(\<And>env f. env_ok env \<Longrightarrow> frame_ok f \<Longrightarrow> 0 \<le> g env f) \<Longrightarrow> exec_ok n w memf (push_op g)"
  by (auto simp: exec_ok_def push_op_def push_def fr_state_def intro!: frame_leI)
    (auto simp: frame_ok_def rel_refl fr_state_def)

lemma push_ops_ok:
  "exec_ok n w memf opAddress" "exec_ok n w memf opOrigin" "exec_ok n w memf opCaller"
  "exec_ok n w memf opCallDataSize" "exec_ok n w memf opReturnDataSize" "exec_ok n w memf opCodeSize"
  "exec_ok n w memf opGasprice" "exec_ok n w memf opCoinbase" "exec_ok n w memf opTimestamp"
  "exec_ok n w memf opNumber" "exec_ok n w memf opDifficulty" "exec_ok n w memf opGasLimit"
  "exec_ok n w memf opPc" "exec_ok n w memf opMsize" "exec_ok n w memf opGas"
  unfolding opAddress_def opOrigin_def opCaller_def opCallDataSize_def opReturnDataSize_def opCodeSize_def
    opGasprice_def opCoinbase_def opTimestamp_def opNumber_def opDifficulty_def opGasLimit_def opPc_def
    opMsize_def opGas_def
  by (rule push_op_ok, simp add: env_ok_def)+

lemma frame_okD:
  "frame_ok f \<Longrightarrow> good (fr_state f)" "frame_ok f \<Longrightarrow> nonneg (fr_stack f)" "frame_ok f \<Longrightarrow> contract_ok (fr_contract f)"
  by (simp_all add: frame_ok_def)

lemma put_state_simps [simp]:
  "fr_state (put_state s f) = s" "fr_stack (put_state s f) = fr_stack f" "fr_contract (put_state s f) = fr_contract f"
  "fr_mem (put_state s f) = fr_mem f" "fr_pc (put_state s f) = fr_pc f" "readOnly (fr_evm (put_state s f)) = readOnly (fr_evm f)"
  "ev_depth (fr_evm (put_state s f)) = ev_depth (fr_evm f)" "ev_abort (fr_evm (put_state s f)) = ev_abort (fr_evm f)"
  "self (put_state s f) = self f" "callGasTemp (fr_evm (put_state s f)) = callGasTemp (fr_evm f)"
  by (simp_all add: put_state_def fr_state_def self_def)

lemma fr_state_upd [simp]:
  "fr_state (f\<lparr>fr_stack := st\<rparr>) = fr_state f" "fr_state (f\<lparr>fr_mem := m\<rparr>) = fr_state f"
  "fr_state (f\<lparr>fr_pc := pc\<rparr>) = fr_state f" "fr_state (f\<lparr>fr_contract := c\<rparr>) = fr_state f"
  by (simp_all add: fr_state_def)

lemma exec_okI:
  assumes "\<And>cs env f. env_ok env \<Longrightarrow> frame_ok f \<Longrightarrow> n \<le> length (fr_stack f) \<Longrightarrow> (w \<Longrightarrow> \<not> readOnly (fr_evm f)) \<Longrightarrow>
     mem_ready memf f \<Longrightarrow> safe (ex cs env f) (\<lambda>(res, err, f'). frame_le f f')"
  shows "exec_ok n w memf ex"
  using assms by (simp add: exec_ok_def)

text \<open>The operands of an operation are at the top of the stack and not negative.\<close>

lemma operands:
  assumes "frame_ok f"
  shows "1 \<le> length (fr_stack f) \<Longrightarrow> \<exists>a st. fr_stack f = a # st \<and> 0 \<le> a \<and> nonneg st"
    "2 \<le> length (fr_stack f) \<Longrightarrow> \<exists>a b st. fr_stack f = a # b # st \<and> 0 \<le> a \<and> 0 \<le> b \<and> nonneg st"
    "3 \<le> length (fr_stack f) \<Longrightarrow> \<exists>a b c st. fr_stack f = a # b # c # st \<and> 0 \<le> a \<and> 0 \<le> b \<and> 0 \<le> c \<and> nonneg st"
    "4 \<le> length (fr_stack f) \<Longrightarrow>
      \<exists>a b c d st. fr_stack f = a # b # c # d # st \<and> 0 \<le> a \<and> 0 \<le> b \<and> 0 \<le> c \<and> 0 \<le> d \<and> nonneg st"
  using frame_okD(2) [OF assms] by (auto dest!: length_ge length_ge(1) [unfolded One_nat_def])

lemma state_le:
  "frame_ok f \<Longrightarrow> nonneg st \<Longrightarrow> rel (readOnly (fr_evm f)) (fr_state f) s \<Longrightarrow> frame_le f ((put_state s f)\<lparr>fr_stack := st\<rparr>)"
  by (rule frame_leI) simp_all

lemma stack_le: "frame_ok f \<Longrightarrow> nonneg st \<Longrightarrow> frame_le f (f\<lparr>fr_stack := st\<rparr>)"
  by (rule frame_leI) (simp_all add: rel_refl frame_okD)

lemma mem_le: "frame_ok f \<Longrightarrow> frame_le f (f\<lparr>fr_mem := m\<rparr>)"
  by (rule frame_leI) (simp_all add: rel_refl frame_okD)

text \<open>Operations that read the state.\<close>

lemma opBalance_ok: "exec_ok 1 w memf opBalance"
proof (rule exec_okI)
  fix cs env f assume f: "frame_ok f" "1 \<le> length (fr_stack f)"
  then obtain x st where st: "fr_stack f = x # st" "nonneg st" using operands(1) by blast
  obtain p s where g: "GetBalance (fr_state f) (BigToAddress x) = (p, s)" by fastforce
  then have "p = Some (bal (fr_state f) (BigToAddress x))" "keep (fr_state f) s"
    using GetBalance_law f frame_okD(1) by blast+
  then show "safe (opBalance cs env f) (\<lambda>(res, err, f'). frame_le f f')"
    using f st bal_nonneg [OF frame_okD(1) [OF f(1)]]
    by (auto simp: opBalance_def g deref_def lift_panic_def intro!: state_le keep_rel_any)
qed

lemma opSload_ok: "exec_ok 1 w memf opSload"
proof (rule exec_okI)
  fix cs env f assume f: "frame_ok f" "1 \<le> length (fr_stack f)"
  then obtain x st where st: "fr_stack f = x # st" "nonneg st" using operands(1) by blast
  obtain v s where g: "GetState (fr_state f) (self f) (BigToHash x) = (v, s)" by fastforce
  then have "keep (fr_state f) s" using GetState_law f frame_okD(1) by blast
  then show "safe (opSload cs env f) (\<lambda>(res, err, f'). frame_le f f')"
    using f st by (auto simp: opSload_def g push_def intro!: state_le keep_rel_any)
qed

lemma opExtCodeSize_ok: "exec_ok 1 w memf opExtCodeSize"
proof (rule exec_okI)
  fix cs env f assume f: "frame_ok f" "1 \<le> length (fr_stack f)"
  then obtain x st where st: "fr_stack f = x # st" "nonneg st" using operands(1) by blast
  obtain v s where g: "GetCodeSize (fr_state f) (BigToAddress x) = (v, s)" by fastforce
  then have "keep (fr_state f) s" using GetCodeSize_law f frame_okD(1) by blast
  then show "safe (opExtCodeSize cs env f) (\<lambda>(res, err, f'). frame_le f f')"
    using f st by (auto simp: opExtCodeSize_def g intro!: state_le keep_rel_any)
qed

text \<open>Operations on memory.\<close>

lemma mem_ready_range:
  "mem_ready (Some (mem_range i j)) f \<Longrightarrow> frame_ok f \<Longrightarrow> i < length (fr_stack f) \<Longrightarrow> j < length (fr_stack f) \<Longrightarrow>
   covers (fr_mem f) (fr_stack f ! i) (fr_stack f ! j)"
  by (auto simp: mem_ready_def mem_range_eq nonneg_nth frame_okD intro: covers_range [OF order_refl])

lemma mem_ready_fixed:
  "mem_ready (Some (mem_fixed l)) f \<Longrightarrow> frame_ok f \<Longrightarrow> 0 < length (fr_stack f) \<Longrightarrow> 0 \<le> l \<Longrightarrow>
   covers (fr_mem f) (fr_stack f ! 0) l"
  using nonneg_nth [of "fr_stack f" 0]
  by (auto simp: mem_ready_def mem_fixed_def Back_def frame_okD intro: covers_range [OF order_refl])

lemma opSha3_ok: "exec_ok 2 w (Some memorySha3) opSha3"
proof (rule exec_okI)
  fix cs env f assume f: "frame_ok f" "2 \<le> length (fr_stack f)" "mem_ready (Some memorySha3) f"
  then obtain off l st where st: "fr_stack f = off # l # st" "nonneg st" using operands(2) by blast
  have "covers (fr_mem f) off l"
    using mem_ready_range [of 0 1 f] f st by (simp add: memorySha3_def)
  then show "safe (opSha3 cs env f) (\<lambda>(res, err, f'). frame_le f f')"
    unfolding opSha3_def st(1) list.case
    by (intro safe_lift_bind [OF mem_Get_ok])
      (auto simp: Let_def push_def f st intro!: state_le stack_le rel_weaken [OF AddPreimage_law] frame_okD(1))
qed

lemma opMload_ok: "exec_ok 1 w (Some memoryMLoad) opMload"
proof (rule exec_okI)
  fix cs env f assume f: "frame_ok f" "1 \<le> length (fr_stack f)" "mem_ready (Some memoryMLoad) f"
  then obtain off st where st: "fr_stack f = off # st" "nonneg st" using operands(1) by blast
  have "covers (fr_mem f) off 32"
    using mem_ready_fixed [of 32 f] f st by (simp add: memoryMLoad_def)
  moreover have "Int64 32 = 32" by (rule Int64_small) simp_all
  ultimately show "safe (opMload cs env f) (\<lambda>(res, err, f'). frame_le f f')"
    using mem_Get_ok [of "fr_mem f" off 32] unfolding opMload_def st(1) list.case
    by (intro safe_lift_bind [of _ "\<lambda>_. True"]) (auto simp: push_def f st tot_def intro!: stack_le)
qed

lemma set_memory_ok:
  "frame_ok f \<Longrightarrow> covers (fr_mem f) off l \<Longrightarrow> safe (set_memory off l b f) (\<lambda>f'. \<exists>m. f' = f\<lparr>fr_mem := m\<rparr>)"
  unfolding set_memory_def by (rule safe_lift_bind [OF mem_Set_ok]) auto

lemma set_memory_le:
  "frame_ok f \<Longrightarrow> covers (fr_mem f) off l \<Longrightarrow> safe (set_memory off l b f) (frame_le f)"
  using set_memory_ok [of f off l b] by (auto intro: safe_mono mem_le)

lemma opMstore_ok: "exec_ok 2 w (Some memoryMStore) opMstore"
proof (rule exec_okI)
  fix cs env f assume f: "frame_ok f" "2 \<le> length (fr_stack f)" "mem_ready (Some memoryMStore) f"
  then obtain off v st where st: "fr_stack f = off # v # st" "nonneg st" using operands(2) by blast
  have g: "frame_le f (f\<lparr>fr_stack := st\<rparr>)" using f st by (intro stack_le)
  have "covers (fr_mem (f\<lparr>fr_stack := st\<rparr>)) off 32"
    using mem_ready_fixed [of 32 f] f st by (simp add: memoryMStore_def)
  then show "safe (opMstore cs env f) (\<lambda>(res, err, f'). frame_le f f')"
    using g unfolding opMstore_def st(1) list.case
    by (intro safe_bind [OF set_memory_le]) (auto intro: frame_le_ok [OF g] frame_le_trans [OF g])
qed

lemma opMstore8_ok: "exec_ok 2 w (Some memoryMStore8) opMstore8"
proof (rule exec_okI)
  fix cs env f assume f: "frame_ok f" "2 \<le> length (fr_stack f)" "mem_ready (Some memoryMStore8) f"
  then obtain off v st where st: "fr_stack f = off # v # st" "nonneg st" using operands(2) by blast
  have c: "covers (fr_mem f) off 1"
    using mem_ready_fixed [of 1 f] f st by (simp add: memoryMStore8_def)
  then have "Int64 off = off" using covers_Int64(1) by simp
  then show "safe (opMstore8 cs env f) (\<lambda>(res, err, f'). frame_le f f')"
    using c f st by (auto simp: opMstore8_def covers_def Let_def rel_refl frame_okD intro!: frame_leI)
qed

text \<open>Copying: the data is read within its bounds and written to memory that was paid for.\<close>

lemma copy_data_ok:
  assumes "frame_le f f1" "length src < 2 ^ 62" "0 \<le> off" "0 \<le> l" "covers (fr_mem f1) moff l"
  shows "safe (copy_data src moff off l f1) (\<lambda>(res, err, f'). frame_le f f')"
  unfolding copy_data_def
  using assms(5) by (intro safe_lift_bind [OF getDataBig_ok [OF assms(2-4)]] safe_bind [OF set_memory_le])
    (auto intro: frame_le_ok [OF assms(1)] frame_le_trans [OF assms(1)])

lemma contract_copy_ok:
  assumes f: "frame_ok f" "3 \<le> length (fr_stack f)" "mem_ready (Some (mem_range 0 2)) f" and src: "length src < 2 ^ 62"
    and ex: "\<And>a b c st. fr_stack f = a # b # c # st \<Longrightarrow> ex = copy_data src a b c (f\<lparr>fr_stack := st\<rparr>)"
  shows "safe ex (\<lambda>(res, err, f'). frame_le f f')"
proof -
  obtain a b c st where st: "fr_stack f = a # b # c # st" "0 \<le> b" "0 \<le> c" "nonneg st"
    using operands(3) [OF f(1,2)] by blast
  have "covers (fr_mem (f\<lparr>fr_stack := st\<rparr>)) a c" using mem_ready_range [OF f(3,1)] st by simp
  then show ?thesis
    unfolding ex [OF st(1)] using st src f(1) by (intro copy_data_ok stack_le)
qed

lemma copy_ops_ok:
  "exec_ok 3 w (Some memoryCallDataCopy) opCallDataCopy" "exec_ok 3 w (Some memoryCodeCopy) opCodeCopy"
  unfolding memoryCallDataCopy_def memoryCodeCopy_def
  by (rule exec_okI, rule contract_copy_ok, assumption+,
      auto simp: opCallDataCopy_def opCodeCopy_def contract_ok_def dest!: frame_okD(3))+

lemma opExtCodeCopy_ok: "exec_ok 4 w (Some memoryExtCodeCopy) opExtCodeCopy"
proof (rule exec_okI)
  fix cs env f assume f: "frame_ok f" "4 \<le> length (fr_stack f)" "mem_ready (Some memoryExtCodeCopy) f"
  then obtain a b c d st where st: "fr_stack f = a # b # c # d # st" "0 \<le> c" "0 \<le> d" "nonneg st"
    using operands(4) by blast
  obtain code s where g: "GetCode (fr_state f) (BigToAddress a) = (code, s)" by fastforce
  then have k: "keep (fr_state f) s" "\<forall>c. code = Some c \<longrightarrow> length c < 2 ^ 62"
    using GetCode_law f frame_okD(1) by blast+
  have l: "length (bytes_of code) < 2 ^ 62" using k(2) by (auto simp: bytes_of_def split: option.split)
  have "covers (fr_mem ((put_state s f)\<lparr>fr_stack := st\<rparr>)) b d"
    using mem_ready_range [of 1 3 f] f st by (simp add: memoryExtCodeCopy_def)
  then show "safe (opExtCodeCopy cs env f) (\<lambda>(res, err, f'). frame_le f f')"
    unfolding opExtCodeCopy_def st(1) list.case g Let_def prod.case
    using f st l k by (intro copy_data_ok state_le keep_rel_any)
qed

lemma unat_of_nat_le: "unat (word_of_nat n :: u64) \<le> n"
  by (subst unat_of_nat) (rule mod_less_eq_dividend)

lemma opReturnDataCopy_ok: "exec_ok 3 w (Some memoryReturnDataCopy) opReturnDataCopy"
proof (rule exec_okI)
  fix cs env f assume f: "frame_ok f" "3 \<le> length (fr_stack f)" "mem_ready (Some memoryReturnDataCopy) f"
  then obtain a b c st where st: "fr_stack f = a # b # c # st" "0 \<le> b" "0 \<le> c" "nonneg st"
    using operands(3) by blast
  define f1 where "f1 = f\<lparr>fr_stack := st\<rparr>"
  define rd where "rd = returnData (fr_evm f)"
  have g: "frame_le f f1" unfolding f1_def using f st by (intro stack_le)
  have c: "covers (fr_mem f1) a c" using mem_ready_range [of 0 2 f] f st by (simp add: memoryReturnDataCopy_def f1_def)
  show "safe (opReturnDataCopy cs env f) (\<lambda>(res, err, f'). frame_le f f')"
  proof (cases "BitLen (b + c) > 64 \<or> word_of_nat (length rd) < Uint64 (b + c)")
    case True
    then show ?thesis using g by (simp add: opReturnDataCopy_def st(1) rd_def f1_def Let_def)
  next
    case False
    then have b: "b + c < 2 ^ 64" using BitLen_less [of "b + c"] power_increasing [of "BitLen (b + c)" 64 "2 :: int"] by simp
    have "unat (Uint64 (b + c)) \<le> length rd"
      using False unat_of_nat_le [of "length rd"] by (simp add: word_less_nat_alt)
    then have "tot (slice rd (uint (Uint64 b)) (uint (Uint64 (b + c)))) (\<lambda>_. True)"
      using st b slice_ok [of b "b + c" rd] by (simp add: Uint64_uint Uint64_unat nat_le_iff tot_def) blast
    then show ?thesis
      using False c unfolding opReturnDataCopy_def st(1) list.case Let_def rd_def [symmetric] f1_def [symmetric]
      by (simp only: if_False) (rule safe_lift_bind, assumption, rule safe_bind [OF set_memory_le],
          auto intro: frame_le_ok [OF g] frame_le_trans [OF g])
  qed
qed

text \<open>Control, logs and the operations that write the state.\<close>

lemma opCallValue_ok: "exec_ok n w memf opCallValue"
proof (rule exec_okI)
  fix cs env f assume f: "frame_ok f"
  obtain v where "c_value (fr_contract f) = Some v" "0 \<le> v"
    using frame_okD(3) [OF f] by (auto simp: contract_ok_def)
  then show "safe (opCallValue cs env f) (\<lambda>(res, err, f'). frame_le f f')"
    using f by (auto simp: opCallValue_def deref_def lift_panic_def push_def frame_okD intro!: stack_le)
qed

lemma opCallDataLoad_ok: "exec_ok 1 w memf opCallDataLoad"
proof (rule exec_okI)
  fix cs env f assume f: "frame_ok f" "1 \<le> length (fr_stack f)"
  then obtain x st where st: "fr_stack f = x # st" "0 \<le> x" "nonneg st" using operands(1) by blast
  have "length (Input (fr_contract f)) < 2 ^ 62" using frame_okD(3) [OF f(1)] by (simp add: contract_ok_def)
  then show "safe (opCallDataLoad cs env f) (\<lambda>(res, err, f'). frame_le f f')"
    unfolding opCallDataLoad_def st(1) list.case using st f
    by (intro safe_lift_bind [OF getDataBig_ok]) (auto simp: push_def intro!: stack_le)
qed

lemma opBlockhash_ok: "exec_ok 1 w memf opBlockhash"
proof (rule exec_okI)
  fix cs env f assume f: "frame_ok f" "1 \<le> length (fr_stack f)"
  then obtain x st where st: "fr_stack f = x # st" "0 \<le> x" "nonneg st" using operands(1) by blast
  then show "safe (opBlockhash cs env f) (\<lambda>(res, err, f'). frame_le f f')"
    using f by (auto simp: opBlockhash_def Let_def push_def intro!: stack_le)
qed

lemma no_op_ok: "exec_ok n w memf opJumpdest" "exec_ok n w memf opStop"
  by (simp_all add: exec_ok_def opJumpdest_def opStop_def frame_le_refl)

lemma jump_to_ok:
  assumes "frame_ok f" "0 \<le> pos"
  shows "safe (jump_to pos f) (\<lambda>(res, err, f'). frame_le f f')"
proof (cases "has (jumpdests (fr_evm f)) (c_CodeHash (fr_contract f)) (Code (fr_contract f)) pos")
  case (Inl p)
  then show ?thesis using has_panics [OF Inl] by (simp add: jump_to_def lift_panic_def)
next
  case (Inr r)
  then show ?thesis using assms
    by (cases r) (auto simp: jump_to_def lift_panic_def Let_def fr_state_def
        intro!: frame_leI rel_refl dest: frame_okD [unfolded fr_state_def])
qed

lemma jump_ops_ok: "exec_ok 1 w memf opJump" "exec_ok 2 w memf opJumpi"
proof -
  have j: "safe (jump_to pos (f\<lparr>fr_stack := st\<rparr>)) (\<lambda>(res, err, f'). frame_le f f')"
    if "frame_ok f" "nonneg st" "0 \<le> pos" for pos f st
  proof -
    have g: "frame_le f (f\<lparr>fr_stack := st\<rparr>)" using that by (intro stack_le)
    show ?thesis
      using jump_to_ok [OF frame_le_ok [OF g] that(3)] by (rule safe_mono) (auto intro: frame_le_trans [OF g])
  qed
  show "exec_ok 1 w memf opJump"
    by (rule exec_okI, frule (1) operands(1)) (auto simp: opJump_def intro: j)
  show "exec_ok 2 w memf opJumpi"
    by (rule exec_okI, frule (1) operands(2)) (auto simp: opJumpi_def Let_def rel_refl frame_okD intro: j intro!: frame_leI)
qed

lemma opSstore_ok: "exec_ok 2 True memf opSstore"
  by (rule exec_okI, frule (1) operands(2)) (auto simp: opSstore_def intro!: state_le SetState_law frame_okD(1))

lemma makeLog_ok: "exec_ok (n + 2) True (Some memoryLog) (makeLog n)"
proof (rule exec_okI)
  fix cs env f assume f: "frame_ok f" "n + 2 \<le> length (fr_stack f)" "True \<Longrightarrow> \<not> readOnly (fr_evm f)" "mem_ready (Some memoryLog) f"
  then obtain off l st where st: "fr_stack f = off # l # st" "nonneg st" using operands(2) [OF f(1)] by auto
  have "covers (fr_mem f) off l"
    using mem_ready_range [of 0 1 f] f st by (simp add: memoryLog_def)
  moreover have "\<not> length st < n" using f(2) st by simp
  ultimately show "safe (makeLog n cs env f) (\<lambda>(res, err, f'). frame_le f f')"
    unfolding makeLog_def st(1) list.case
    by (simp only: if_False) (intro safe_lift_bind [OF mem_Get_ok],
        auto simp: f st intro!: state_le AddLog_law frame_okD(1) nonneg_take_drop)
qed

lemma opSuicide_ok: "exec_ok 1 True memf opSuicide"
proof (rule exec_okI)
  fix cs env f assume f: "frame_ok f" "1 \<le> length (fr_stack f)" "True \<Longrightarrow> \<not> readOnly (fr_evm f)"
  then obtain x st where st: "fr_stack f = x # st" "0 \<le> x" "nonneg st" using operands(1) by blast
  obtain p s1 where g: "GetBalance (fr_state f) (self f) = (p, s1)" by fastforce
  then have b: "p = Some (bal (fr_state f) (self f))" "keep (fr_state f) s1" "0 \<le> bal (fr_state f) (self f)"
    using GetBalance_law f frame_okD(1) bal_nonneg by blast+
  then obtain s2 d s3 where s2: "AddBalance (BigToAddress x) (bal (fr_state f) (self f)) s1 = Inr s2"
      and s3: "Suicide (self f) s2 = Inr (d, s3)" "rel False s1 s3"
    using give_Suicide_law [OF keep_good [OF b(2)], of "BigToAddress x" "self f"] keep_bal [OF b(2)] by auto
  have "rel False (fr_state f) s3"
    using rel_trans [OF keep_rel_any [OF b(2)] s3(2)] .
  then show "safe (opSuicide cs env f) (\<lambda>(res, err, f'). frame_le f f')"
    using f st by (auto simp: opSuicide_def g b s2 s3 deref_def lift_panic_def intro!: state_le)
qed

lemma return_ok: "exec_ok 2 w (Some memoryReturn) opReturn" "exec_ok 2 w (Some memoryRevert) opRevert"
proof -
  have "exec_ok 2 w (Some (mem_range 0 1)) return_memory"
  proof (rule exec_okI)
    fix cs env f assume f: "frame_ok f" "2 \<le> length (fr_stack f)" "mem_ready (Some (mem_range 0 1)) f"
    then obtain off l st where st: "fr_stack f = off # l # st" "nonneg st" using operands(2) by blast
    have "covers (fr_mem f) off l" using mem_ready_range [OF f(3,1)] st by simp
    then show "safe (return_memory cs env f) (\<lambda>(res, err, f'). frame_le f f')"
      unfolding return_memory_def st(1) list.case
      by (intro safe_lift_bind [OF GetPtr_ok]) (auto simp: f st intro!: stack_le)
  qed
  then show "exec_ok 2 w (Some memoryReturn) opReturn" "exec_ok 2 w (Some memoryRevert) opRevert"
    by (simp_all add: opReturn_def opRevert_def memoryReturn_def memoryRevert_def)
qed

lemma makePush_ok:
  assumes f: "frame_ok f" and pc: "unat (fr_pc f) < length (Code (fr_contract f))"
  shows "safe (makePush sz n cs env f) (\<lambda>(res, err, f'). frame_le f f')"
proof -
  have c: "length (Code (fr_contract f)) < 2 ^ 62" using frame_okD(3) [OF f] by (simp add: contract_ok_def)
  have "unat (fr_pc f + 1) = unat (fr_pc f) + 1" using c pc by (subst unat_add_lem [THEN iffD1]) simp_all
  then have "unat (fr_pc f + 1) < 2 ^ 63" using c pc by simp
  then have "0 \<le> sint (fr_pc f + 1)" by (rule sint_nonneg)
  then show ?thesis
    using f by (auto simp: makePush_def Let_def slice_def lift_panic_def push_def rel_refl frame_okD intro!: frame_leI)
qed

end

end
