(* ===== verification/VMTableSafe.thy ===== *)
theory VMTableSafe
  imports VMSafe
begin

text \<open>
  Every entry of the instruction tables is safe: the checks and the gas function of the
  interpreter return, and after paying the operation returns with less gas unless it ends
  the run. Calls back into the machine are assumed to be safe for smaller amounts of gas.
\<close>

text \<open>A memory size function that needs \<open>n\<close> operands.\<close>

definition mem_fun_ok :: "nat \<Rightarrow> (stack \<Rightarrow> go_panic + int) option \<Rightarrow> bool" where
  "mem_fun_ok n memf \<longleftrightarrow> (\<forall>fn st. memf = Some fn \<longrightarrow> n \<le> length st \<longrightarrow> nonneg st \<longrightarrow> tot (fn st) (\<lambda>v. 0 \<le> v))"

lemma mem_fun_None: "mem_fun_ok n None"
  by (simp add: mem_fun_ok_def)

lemma mem_range_fun: "i < n \<Longrightarrow> j < n \<Longrightarrow> mem_fun_ok n (Some (mem_range i j))"
  by (simp add: mem_fun_ok_def mem_range_eq nonneg_nth)

lemma mem_fixed_fun: "0 < n \<Longrightarrow> 0 \<le> l \<Longrightarrow> mem_fun_ok n (Some (mem_fixed l))"
  by (auto simp: mem_fun_ok_def mem_fixed_def Back_def nonneg_nth)

lemma mem_max_fun: "mem_fun_ok n (Some f) \<Longrightarrow> mem_fun_ok n (Some g) \<Longrightarrow> mem_fun_ok n (Some (mem_max f g))"
  by (fastforce simp: mem_fun_ok_def mem_max_def tot_def BigMax_def)

lemmas mem_fun_defs = memorySha3_def memoryCallDataCopy_def memoryReturnDataCopy_def memoryCodeCopy_def
  memoryExtCodeCopy_def memoryMLoad_def memoryMStore8_def memoryMStore_def memoryCreate_def memoryCall_def
  memoryCallCode_def memoryDelegateCall_def memoryStaticCall_def memoryReturn_def memoryRevert_def memoryLog_def

lemmas mem_funs = mem_fun_None mem_range_fun mem_fixed_fun mem_max_fun

lemma required_memory_tot:
  assumes "mem_fun_ok n (memorySize opn)" "n \<le> length st" "nonneg st"
  shows "tot (required_memory opn st) (\<lambda>_. True)"
proof (cases "memorySize opn")
  case (Some fn)
  then obtain v where "fn st = Inr v" using assms by (auto simp: mem_fun_ok_def tot_def)
  then show ?thesis using Some by (simp add: required_memory_def split_beta)
qed (simp add: required_memory_def)

lemma enforceRestrictions_tot:
  "op \<noteq> CALL \<or> 3 \<le> length (fr_stack f) \<Longrightarrow> tot (enforceRestrictions op opn f) (\<lambda>r. r = None \<longrightarrow>
     readOnly (fr_evm f) \<longrightarrow> \<not> writes opn \<and> (op = CALL \<longrightarrow> fr_stack f ! 2 = 0 \<or> fr_stack f ! 2 < 0))"
  using BitLen_less [of "fr_stack f ! 2"] by (auto simp: enforceRestrictions_def Back_def)

lemma gas_sub:
  "c \<le> g \<Longrightarrow> unat (g - c) = unat g - unat (c :: u64)" "c \<le> g \<Longrightarrow> g - c \<le> (g :: u64)"
  by (simp_all add: unat_sub word_sub_le)

lemma pay_simps [simp]:
  "fr_stack (pay c ms f) = fr_stack f" "fr_evm (pay c ms f) = fr_evm f" "fr_pc (pay c ms f) = fr_pc f"
  "fr_contract (pay c ms f) = (fr_contract f)\<lparr>Gas := Gas (fr_contract f) - c\<rparr>" "fr_state (pay c ms f) = fr_state f"
  "fr_mem (pay c ms f) = (if ms > 0 then Resize ms (fr_mem f) else fr_mem f)"
  by (simp_all add: pay_def)

lemma unat_lt2p_le: "unat (w :: u64) \<le> 2 ^ 64"
  by (rule order.strict_implies_order, rule order.strict_trans2 [OF unsigned_less]) simp

lemma size_bounds: "v \<le> int n \<Longrightarrow> n \<le> N \<Longrightarrow> n \<le> L \<Longrightarrow> int N < B \<Longrightarrow> v \<le> int L \<and> v < B"
  by linarith

text \<open>After paying, the memory an operation asks for is there.\<close>

lemma pay_ready:
  assumes "required_memory opn (fr_stack f) = Inr (Inr ms)" "mem_paid ms" "fr_stack f1 = fr_stack f"
    and "mem_fun_ok n (memorySize opn)" "n \<le> length (fr_stack f)" "nonneg (fr_stack f)"
  shows "mem_ready (memorySize opn) (pay c ms f1)"
proof -
  have "v \<le> int (length (store (fr_mem (pay c ms f1)))) \<and> v < 2 ^ 41"
    if fn: "memorySize opn = Some fn" "fn (fr_stack f) = Inr v" for fn v
  proof -
    have "0 \<le> v" using assms(4-6) fn by (auto simp: mem_fun_ok_def tot_def)
    then have "v \<le> int (unat ms)" using required_memory_ok [OF assms(1) fn] by simp
    moreover have "unat ms \<le> 0xffffffffe0" using assms(2) by (simp add: mem_paid_def)
    moreover have "unat ms \<le> length (store (fr_mem (pay c ms f1)))"
      by (cases "ms = 0") (simp_all add: Resize_length word_neq_0_conv)
    ultimately show ?thesis by (rule size_bounds) simp
  qed
  then show ?thesis using assms(3) by (simp add: mem_ready_def del: pay_simps(6))
qed

text \<open>The stipend that comes with a transfer of value.\<close>

definition stipend_of :: "frame \<Rightarrow> nat" where
  "stipend_of f = (if fr_stack f ! 2 \<noteq> 0 then 2300 else 0)"

context statedb
begin

definition gas_st_ok :: "bool \<Rightarrow> nat \<Rightarrow> bool \<Rightarrow> nat \<Rightarrow> gasFunc \<Rightarrow> bool" where
  "gas_st_ok mem n w least g \<longleftrightarrow> (\<forall>env f ms. env_ok env \<longrightarrow> frame_ok f \<longrightarrow> n \<le> length (fr_stack f) \<longrightarrow>
     (w \<longrightarrow> \<not> readOnly (fr_evm f)) \<longrightarrow> (mem \<or> ms = 0) \<longrightarrow> tot (g env f ms) (\<lambda>(cost, f1). gas_frame f f1
       \<and> rel (readOnly (fr_evm f)) (fr_state f) (fr_state f1)
       \<and> (\<forall>c. cost = Inr c \<longrightarrow> mem_paid ms \<and> least \<le> unat c)))"

lemma gas_ok_st: "gas_ok mem n least g \<Longrightarrow> gas_st_ok mem n w least g"
proof -
  assume g: "gas_ok mem n least g"
  have "tot (g env f ms) (\<lambda>(cost, f1). gas_frame f f1 \<and> rel (readOnly (fr_evm f)) (fr_state f) (fr_state f1)
      \<and> (\<forall>c. cost = Inr c \<longrightarrow> mem_paid ms \<and> least \<le> unat c))"
    if "env_ok env" "frame_ok f" "n \<le> length (fr_stack f)" "mem \<or> ms = 0" for env f ms
  proof -
    have "tot (g env f ms) (\<lambda>(cost, f1). gas_frame f f1 \<and> fr_evm f1 = fr_evm f
        \<and> (\<forall>c. cost = Inr c \<longrightarrow> mem_paid ms \<and> least \<le> unat c))"
      using g that unfolding gas_ok_def env_ok_def by blast
    then show ?thesis
      using that(2) by (elim tot_mono) (auto simp: fr_state_def rel_refl dest: frame_okD(1))
  qed
  then show ?thesis by (simp add: gas_st_ok_def)
qed

lemma gas_frame_put: "gas_frame f (put_state s f)"
  by (simp add: gas_frame_def put_state_def fr_state_def)

lemma gasSStore_ok: "gas_st_ok False 2 True 1 gasSStore"
proof -
  have "tot (gasSStore env f ms) (\<lambda>(cost, f1). gas_frame f f1 \<and> rel False (fr_state f) (fr_state f1)
      \<and> (\<forall>c. cost = Inr c \<longrightarrow> 1 \<le> unat c))"
    if f: "frame_ok f" "2 \<le> length (fr_stack f)" for env f ms
  proof -
    obtain v s where g: "GetState (fr_state f) (self f) (BigToHash (fr_stack f ! 0)) = (v, s)" by fastforce
    then have k: "keep (fr_state f) s" using GetState_law f frame_okD(1) by blast
    then have "rel False (fr_state f) (AddRefund SstoreRefundGas s)"
      using rel_trans [OF keep_rel_any [OF k] AddRefund_law] keep_good by blast
    then show ?thesis using f k
      by (auto simp: gasSStore_def Back_def g Let_def gas_consts gas_frame_put keep_rel_any put_state_def)
        (simp_all add: gas_frame_def fr_state_def keep_rel_any)
  qed
  then show ?thesis by (fastforce simp: gas_st_ok_def tot_def)
qed

lemma gasSuicide_ok: "gas_st_ok False 1 True 0 gasSuicide"
proof -
  have "tot (gasSuicide env f ms) (\<lambda>(cost, f1). gas_frame f f1 \<and> rel False (fr_state f) (fr_state f1))"
    if f: "frame_ok f" "1 \<le> length (fr_stack f)" for env f ms
  proof -
    obtain e s1 where e: "Empty (fr_state f) (BigToAddress (fr_stack f ! 0)) = Inr (e, s1)" "keep (fr_state f) s1"
      using Empty_law [OF frame_okD(1) [OF f(1)]] by blast
    have g1: "good s1" using e(2) keep_good by blast
    obtain p s2 where b: "GetBalance s1 (self f) = (p, s2)" by fastforce
    then have p: "p = Some (bal s1 (self f))" "keep s1 s2" using GetBalance_law g1 by blast+
    define s3 where "s3 = (if e then s2 else s1)"
    have s3: "keep (fr_state f) s3" using e(2) p(2) keep_trans unfolding s3_def by (cases e) auto
    obtain d s4 where d: "HasSuicided s3 (self f) = (d, s4)" by fastforce
    then have s4: "keep (fr_state f) s4" using HasSuicided_law [OF keep_good [OF s3] d] keep_trans [OF s3] by blast
    have "rel False (fr_state f) (if d then s4 else AddRefund SuicideRefundGas s4)"
      using s4 rel_trans [OF keep_rel_any [OF s4] AddRefund_law [OF keep_good [OF s4]]] by (simp add: keep_rel_any)
    then show ?thesis using f d [unfolded s3_def]
      by (cases e) (auto simp: gasSuicide_def Back_def e b p deref_def Let_def gas_frame_put)
  qed
  then show ?thesis by (fastforce simp: gas_st_ok_def tot_def)
qed

section \<open>The gas of calls\<close>

text \<open>The price of a call covers the gas of the callee, with the stipend \<open>k f\<close>, and more.\<close>

definition call_gas_ok :: "nat \<Rightarrow> (frame \<Rightarrow> nat) \<Rightarrow> gasFunc \<Rightarrow> bool" where
  "call_gas_ok n k g \<longleftrightarrow> (\<forall>env f ms. env_ok env \<longrightarrow> frame_ok f \<longrightarrow> n \<le> length (fr_stack f) \<longrightarrow>
     tot (g env f ms) (\<lambda>(cost, f1). gas_frame f f1 \<and> rel (readOnly (fr_evm f)) (fr_state f) (fr_state f1)
       \<and> (\<forall>c. cost = Inr c \<longrightarrow> mem_paid ms \<and> k f + unat (callGasTemp (fr_evm f1)) < unat c)))"

lemma mem_then_call_rel:
  assumes "frame_ok f" "0 < length (fr_stack f)" "k < unat base"
  shows "tot (mem_then_call base env f ms) (\<lambda>(cost, f1). gas_frame f f1 \<and> rel (readOnly (fr_evm f)) (fr_state f) (fr_state f1)
       \<and> (\<forall>c. cost = Inr c \<longrightarrow> mem_paid ms \<and> k + unat (callGasTemp (fr_evm f1)) < unat c))"
  using mem_then_call_ok [OF assms(2), of base env ms] assms(1,3)
  by (elim tot_mono) (auto simp: rel_refl frame_okD)

lemma gasDelegateCall_ok: "call_gas_ok 6 (\<lambda>_. 0) gasDelegateCall" "call_gas_ok 6 (\<lambda>_. 0) gasStaticCall"
  unfolding call_gas_ok_def gasDelegateCall_def gasStaticCall_def
  by (intro allI impI mem_then_call_rel, assumption, force, simp add: env_ok_def DefualtGasTable_def)+

lemma gasCallCode_ok: "call_gas_ok 7 stipend_of gasCallCode"
proof -
  have "tot (gasCallCode env f ms) (\<lambda>(cost, f1). gas_frame f f1 \<and> rel (readOnly (fr_evm f)) (fr_state f) (fr_state f1)
       \<and> (\<forall>c. cost = Inr c \<longrightarrow> mem_paid ms \<and> stipend_of f + unat (callGasTemp (fr_evm f1)) < unat c))"
    if "env_ok env" "frame_ok f" "7 \<le> length (fr_stack f)" for env f ms
  proof -
    define g1 where "g1 = (if fr_stack f ! 2 \<noteq> 0 then gt_Calls (env_gasTable env) + CallValueTransferGas
        else gt_Calls (env_gasTable env))"
    have "stipend_of f < unat g1"
      using that(1) by (simp add: env_ok_def DefualtGasTable_def stipend_of_def gas_consts g1_def)
    moreover have "gasCallCode env f ms = mem_then_call g1 env f ms"
      using that(3) by (simp add: gasCallCode_def Back_def Let_def g1_def)
    ultimately show ?thesis
      using mem_then_call_rel [OF that(2), of "stipend_of f" g1 env ms] that(3) by fastforce
  qed
  then show ?thesis by (simp add: call_gas_ok_def)
qed

lemma gasCall_ok: "call_gas_ok 7 stipend_of gasCall"
proof -
  have "tot (gasCall env f ms) (\<lambda>(cost, f1). gas_frame f f1 \<and> rel (readOnly (fr_evm f)) (fr_state f) (fr_state f1)
       \<and> (\<forall>c. cost = Inr c \<longrightarrow> mem_paid ms \<and> stipend_of f + unat (callGasTemp (fr_evm f1)) < unat c))"
    if e: "env_ok env" and f: "frame_ok f" "7 \<le> length (fr_stack f)" for env f ms
  proof -
    define v where "v = (fr_stack f ! 2 \<noteq> 0)"
    obtain b s where s: "(if v then Empty (fr_state f) (BigToAddress (fr_stack f ! 1)) else Inr (False, fr_state f)) = Inr (b, s)"
        "keep (fr_state f) s"
      using Empty_law [OF frame_okD(1) [OF f(1)], of "BigToAddress (fr_stack f ! 1)"] keep_refl [OF frame_okD(1) [OF f(1)]]
      by (cases v) auto
    define g1 where "g1 = (if v \<and> b then gt_Calls (env_gasTable env) + CallNewAccountGas else gt_Calls (env_gasTable env))"
    define g2 where "g2 = (if v then g1 + CallValueTransferGas else g1)"
    have base: "stipend_of f < unat g2"
      using e by (simp add: env_ok_def DefualtGasTable_def stipend_of_def gas_consts g1_def g2_def v_def)
    have eq: "gasCall env f ms = mem_then_call g2 env (put_state s f) ms"
      using f(2) s(1) by (cases "fr_stack f ! 2 = 0") (simp_all add: gasCall_def Back_def Let_def v_def g1_def g2_def)
    have p: "frame_ok (put_state s f)" using f(1) s(2) by (simp add: frame_ok_def keep_good)
    have l: "0 < length (fr_stack (put_state s f))" using f(2) by fastforce
    show ?thesis unfolding eq
      by (rule tot_mono [OF mem_then_call_rel [OF p l base]])
        (use keep_rel_any [OF s(2)] in \<open>auto simp: gas_frame_def put_state_def fr_state_def intro: rel_trans\<close>)
  qed
  then show ?thesis by (simp add: call_gas_ok_def)
qed

section \<open>Entries of the tables\<close>

text \<open>The calls of an operation are safe for less than \<open>N\<close> gas.\<close>

definition call_post :: "EVM \<Rightarrow> u64 \<Rightarrow> bytes \<times> u64 \<times> vm_error option \<times> EVM \<Rightarrow> bool" where
  "call_post e gas = (\<lambda>(ret, left, err, e'). left \<le> gas \<and> evm_le e e' \<and> (err \<noteq> None \<longrightarrow> keep (ev_StateDB e) (ev_StateDB e')))"

definition create_post :: "EVM \<Rightarrow> u64 \<Rightarrow> bytes \<times> address \<times> u64 \<times> vm_error option \<times> EVM \<Rightarrow> bool" where
  "create_post e gas = (\<lambda>(ret, addr, left, err, e'). left \<le> gas \<and> evm_le e e')"

definition calls_ok :: "nat \<Rightarrow> calls \<Rightarrow> bool" where
  "calls_ok N cs \<longleftrightarrow> (\<forall>e ref addr input gas v. good (ev_StateDB e) \<longrightarrow> unat gas < N \<longrightarrow> length input < 2 ^ 62 \<longrightarrow> 0 \<le> v \<longrightarrow>
     ((readOnly e \<longrightarrow> v = 0) \<longrightarrow> safe (do_Call cs e ref addr input gas v) (call_post e gas)) \<and>
     safe (do_CallCode cs e ref addr input gas v) (call_post e gas) \<and>
     ((\<exists>c u. ref_contract ref = Some (c, Some u) \<and> 0 \<le> u) \<longrightarrow> safe (do_DelegateCall cs e ref addr input gas) (call_post e gas)) \<and>
     safe (do_StaticCall cs e ref addr input gas) (call_post e gas) \<and>
     (\<not> readOnly e \<longrightarrow> safe (do_Create cs e ref input gas v) (create_post e gas)))"

definition less_gas :: "operation \<Rightarrow> frame \<Rightarrow> bytes \<times> vm_error option \<times> frame \<Rightarrow> bool" where
  "less_gas opn f = (\<lambda>(res, err, f'). frame_le f f' \<and>
     (Gas (fr_contract f') < Gas (fr_contract f) \<or> halts opn \<or> reverts opn))"

definition pays_ok :: "vm_env \<Rightarrow> operation \<Rightarrow> frame \<Rightarrow> bool" where
  "pays_ok env opn f \<longleftrightarrow> tot (required_memory opn (fr_stack f)) (\<lambda>ms. \<forall>m. ms = Inr m \<longrightarrow>
     tot (gasCost opn env f m) (\<lambda>(cost, f1). frame_le f f1 \<and> fr_contract f1 = fr_contract f \<and>
       (\<forall>c cs. cost = Inr c \<longrightarrow> c \<le> Gas (fr_contract f) \<longrightarrow> calls_ok (unat (Gas (fr_contract f))) cs \<longrightarrow>
          safe (execute opn cs env (pay c m f1)) (less_gas opn f))))"

definition entry_ok :: "byte \<Rightarrow> operation \<Rightarrow> bool" where
  "entry_ok op opn \<longleftrightarrow> (\<forall>env f. env_ok env \<longrightarrow> frame_ok f \<longrightarrow> validateStack opn (fr_stack f) = None \<longrightarrow>
     GetOp (fr_contract f) (fr_pc f) = op \<longrightarrow> tot (enforceRestrictions op opn f) (\<lambda>r. r = None \<longrightarrow> pays_ok env opn f))"

lemma pay_le:
  assumes "frame_le f f1" "fr_contract f1 = fr_contract f" "c \<le> Gas (fr_contract f)"
  shows "frame_le f (pay c ms f1)" "unat (Gas (fr_contract (pay c ms f1))) = unat (Gas (fr_contract f)) - unat c"
proof -
  have "contract_ok ((fr_contract f)\<lparr>Gas := Gas (fr_contract f) - c\<rparr>)"
    using frame_okD(3) [OF frame_le_ok [OF assms(1)]] assms(2) gas_sub(1) [OF assms(3)] by (auto simp: contract_ok_def)
  then show "frame_le f (pay c ms f1)"
    using assms gas_sub(2) [OF assms(3)] by (auto simp: frame_le_def frame_ok_def evm_le_def)
  show "unat (Gas (fr_contract (pay c ms f1))) = unat (Gas (fr_contract f)) - unat c"
    using gas_sub(1) [OF assms(3)] assms(2) by simp
qed

lemma required_memory_none: "memorySize opn = None \<Longrightarrow> required_memory opn st = Inr (Inr m) \<Longrightarrow> m = 0"
  by (simp add: required_memory_def)

lemma pays_okI:
  assumes f: "frame_ok f" "n \<le> length (fr_stack f)" "mem_fun_ok n (memorySize opn)"
    and gas: "\<And>m. memorySize opn \<noteq> None \<or> m = 0 \<Longrightarrow> tot (gasCost opn env f m) (\<lambda>(cost, f1). gas_frame f f1
       \<and> rel (readOnly (fr_evm f)) (fr_state f) (fr_state f1) \<and> (\<forall>c. cost = Inr c \<longrightarrow> mem_paid m \<and> P c f1))"
    and ex: "\<And>c f1 m cs. gas_frame f f1 \<Longrightarrow> c \<le> Gas (fr_contract f) \<Longrightarrow> P c f1 \<Longrightarrow> frame_le f (pay c m f1) \<Longrightarrow>
       mem_ready (memorySize opn) (pay c m f1) \<Longrightarrow> calls_ok (unat (Gas (fr_contract f))) cs \<Longrightarrow>
       safe (execute opn cs env (pay c m f1)) (less_gas opn f)"
  shows "pays_ok env opn f"
proof -
  have "tot (gasCost opn env f m) (\<lambda>(cost, f1). frame_le f f1 \<and> fr_contract f1 = fr_contract f \<and>
       (\<forall>c cs. cost = Inr c \<longrightarrow> c \<le> Gas (fr_contract f) \<longrightarrow> calls_ok (unat (Gas (fr_contract f))) cs \<longrightarrow>
          safe (execute opn cs env (pay c m f1)) (less_gas opn f)))"
    if m: "required_memory opn (fr_stack f) = Inr (Inr m)" for m
  proof -
    have "memorySize opn \<noteq> None \<or> m = 0" using required_memory_none [OF _ m] by blast
    then obtain cost f1 where g: "gasCost opn env f m = Inr (cost, f1)" "gas_frame f f1"
        "rel (readOnly (fr_evm f)) (fr_state f) (fr_state f1)" "\<And>c. cost = Inr c \<Longrightarrow> mem_paid m \<and> P c f1"
      using gas [of m] by (auto simp: tot_def)
    have le: "frame_le f f1" by (rule gas_frame_le [OF f(1) g(2,3)])
    have c: "fr_contract f1 = fr_contract f" "fr_stack f1 = fr_stack f" using g(2) by (simp_all add: gas_frame_def)
    have "safe (execute opn cs env (pay k m f1)) (less_gas opn f)"
      if "cost = Inr k" "k \<le> Gas (fr_contract f)" "calls_ok (unat (Gas (fr_contract f))) cs" for k cs
      using that ex [OF g(2), of k m cs] g(4) [of k] pay_le(1) [OF le c(1), of k m]
        pay_ready [OF m _ c(2) f(3,2) frame_okD(2) [OF f(1)], of k] by blast
    then show ?thesis using g(1) le c(1) by simp
  qed
  moreover have "tot (required_memory opn (fr_stack f)) (\<lambda>_. True)"
    by (rule required_memory_tot [OF f(3,2) frame_okD(2) [OF f(1)]])
  ultimately show ?thesis unfolding pays_ok_def by (auto simp: tot_def)
qed

text \<open>An operation that makes no call.\<close>

lemma less_gasI:
  assumes "frame_le f g" "safe m (\<lambda>(res, err, f'). frame_le g f')"
    "Gas (fr_contract g) < Gas (fr_contract f) \<or> halts opn \<or> reverts opn"
  shows "safe m (less_gas opn f)"
  using assms(2) by (rule safe_mono)
    (use assms(1,3) in \<open>auto simp: less_gas_def frame_le_def [of g] intro: frame_le_trans [OF assms(1)] order_le_less_trans\<close>)

lemma entry_plain:
  assumes ex: "\<And>cs env f. env_ok env \<Longrightarrow> frame_ok f \<Longrightarrow> GetOp (fr_contract f) (fr_pc f) = op \<Longrightarrow> n \<le> length (fr_stack f) \<Longrightarrow>
      (writes opn \<longrightarrow> \<not> readOnly (fr_evm f)) \<Longrightarrow> mem_ready (memorySize opn) f \<Longrightarrow>
      safe (execute opn cs env f) (\<lambda>(res, err, f'). frame_le f f')"
    and gas: "gas_st_ok (memorySize opn \<noteq> None) n (writes opn) least (gasCost opn)"
    and st: "\<And>st. validateStack opn st = None \<Longrightarrow> n \<le> length st"
    and mf: "mem_fun_ok n (memorySize opn)" and op: "op \<noteq> CALL" and pos: "0 < least \<or> halts opn \<or> reverts opn"
  shows "entry_ok op opn"
  unfolding entry_ok_def
proof (intro allI impI)
  fix env f assume e: "env_ok env" and f: "frame_ok f" and v: "validateStack opn (fr_stack f) = None"
    and o: "GetOp (fr_contract f) (fr_pc f) = op"
  have "pays_ok env opn f" if w: "writes opn \<longrightarrow> \<not> readOnly (fr_evm f)"
  proof (rule pays_okI [where P = "\<lambda>c f1. least \<le> unat c", OF f st [OF v] mf])
    show "tot (gasCost opn env f m) (\<lambda>(cost, f1). gas_frame f f1 \<and> rel (readOnly (fr_evm f)) (fr_state f) (fr_state f1)
        \<and> (\<forall>c. cost = Inr c \<longrightarrow> mem_paid m \<and> least \<le> unat c))" if "memorySize opn \<noteq> None \<or> m = 0" for m
      using gas e f st [OF v] w that unfolding gas_st_ok_def by blast
  next
    fix c f1 m cs assume g: "gas_frame f f1" "c \<le> Gas (fr_contract f)" "least \<le> unat c" "frame_le f (pay c m f1)"
        "mem_ready (memorySize opn) (pay c m f1)"
    have "GetOp (fr_contract (pay c m f1)) (fr_pc (pay c m f1)) = op" "fr_stack (pay c m f1) = fr_stack f"
        "readOnly (fr_evm (pay c m f1)) = readOnly (fr_evm f)" "fr_contract f1 = fr_contract f"
      using o g(1,4) by (auto simp: gas_frame_def GetOp_def GetByte_def frame_le_def evm_le_def)
    moreover from this have "Gas (fr_contract (pay c m f1)) < Gas (fr_contract f) \<or> halts opn \<or> reverts opn"
      using pos g(2,3) gas_sub(1) [OF g(2)] by (auto simp: word_less_nat_alt word_le_nat_alt)
    ultimately show "safe (execute opn cs env (pay c m f1)) (less_gas opn f)"
      using ex [OF e frame_le_ok [OF g(4)]] st [OF v] w g(5) by (intro less_gasI [OF g(4)]) simp_all
  qed
  then show "tot (enforceRestrictions op opn f) (\<lambda>r. r = None \<longrightarrow> pays_ok env opn f)"
    using enforceRestrictions_tot [of op f opn] op by (auto elim!: tot_mono)
qed

text \<open>Operations given by \<open>mk_op\<close>.\<close>

lemma entry_mk:
  assumes "exec_ok n False None ex" "gas_st_ok False n False least g" "0 < least" "n \<le> k" "op \<noteq> CALL"
  shows "entry_ok op (mk_op ex g (makeStackFunc k l))"
  by (rule entry_plain [where n = n and least = least])
    (use assms in \<open>auto simp: mk_op_def exec_ok_def mem_fun_None makeStackFunc_None\<close>)

lemma entry_mem:
  assumes "exec_ok n False (Some fn) ex" "gas_st_ok True n False least g" "0 < least" "n \<le> k" "op \<noteq> CALL" "mem_fun_ok n (Some fn)"
  shows "entry_ok op ((mk_op ex g (makeStackFunc k l))\<lparr>memorySize := Some fn\<rparr>)"
  by (rule entry_plain [where n = n and least = least])
    (use assms in \<open>auto simp: mk_op_def exec_ok_def makeStackFunc_None\<close>)

lemma flag_simps:
  "enforceRestrictions op (opn\<lparr>jumps := j\<rparr>) f = enforceRestrictions op opn f"
  "enforceRestrictions op (opn\<lparr>returns := r\<rparr>) f = enforceRestrictions op opn f"
  "required_memory (opn\<lparr>jumps := j\<rparr>) st = required_memory opn st"
  "required_memory (opn\<lparr>returns := r\<rparr>) st = required_memory opn st"
  "less_gas (opn\<lparr>jumps := j\<rparr>) f = less_gas opn f" "less_gas (opn\<lparr>returns := r\<rparr>) f = less_gas opn f"
  by (simp_all add: enforceRestrictions_def required_memory_def less_gas_def)

lemma entry_flags:
  assumes "entry_ok op opn"
  shows "entry_ok op (opn\<lparr>jumps := j\<rparr>)" "entry_ok op (opn\<lparr>returns := r\<rparr>)"
  using assms by (simp_all add: entry_ok_def pays_ok_def flag_simps)

section \<open>The tables without the calls\<close>

definition table_ok :: "instructionSet \<Rightarrow> bool" where
  "table_ok tbl \<longleftrightarrow> (\<forall>(op, opn) \<in> set tbl. entry_ok op opn)"

lemma table_ok_simps [simp]:
  "table_ok []" "table_ok ((op, opn) # tbl) \<longleftrightarrow> entry_ok op opn \<and> table_ok tbl" "table_ok (t1 @ t2) \<longleftrightarrow> table_ok t1 \<and> table_ok t2"
  by (auto simp: table_ok_def)

lemmas exec_rules = arith_stack_fun_ok [THEN stack_op_ok] bit_stack_fun_ok [THEN stack_op_ok] push_ops_ok
  opBalance_ok opSload_ok opExtCodeSize_ok opCallValue_ok opCallDataLoad_ok opBlockhash_ok no_op_ok jump_ops_ok

lemmas mem_exec_rules = opSha3_ok opMload_ok opMstore_ok opMstore8_ok copy_ops_ok opExtCodeCopy_ok
  opReturnDataCopy_ok

lemma const_steps:
  "gas_st_ok False n w 1 (constGasFunc GasQuickStep)" "gas_st_ok False n w 1 (constGasFunc GasFastestStep)"
  "gas_st_ok False n w 1 (constGasFunc GasFastStep)" "gas_st_ok False n w 1 (constGasFunc GasMidStep)"
  "gas_st_ok False n w 1 (constGasFunc GasSlowStep)" "gas_st_ok False n w 1 (constGasFunc GasExtStep)"
  "gas_st_ok False n w 1 (constGasFunc JumpdestGas)"
  by (rule constGasFunc_ok [where least = 1, THEN gas_ok_st], simp add: gas_consts)+

lemmas gas_rules = const_steps table_gas_ok [THEN gas_ok_st] gasExp_ok [THEN gas_ok_st]
  gasExtCodeCopy_ok [THEN gas_ok_st] plain_gas_ok [THEN gas_ok_st]

lemma stop_entry: "entry_ok 0 ((mk_op opStop (constGasFunc 0) (makeStackFunc 0 0))\<lparr>halts := True\<rparr>)"
  by (rule entry_plain [where n = 0 and least = 0])
    (use no_op_ok(2) [of 0 False None] in \<open>auto simp: mk_op_def exec_ok_def mem_fun_None CALL_def intro!: gas_ok_st constGasFunc_ok\<close>)

lemma arithmetic_ok: "table_ok frontier_arithmetic"
  unfolding frontier_arithmetic_def table_ok_simps
  by (intro conjI table_ok_simps(1) stop_entry; (rule entry_mk, rule exec_rules, rule gas_rules, simp_all add: CALL_def))

lemma comparison_ok: "table_ok frontier_comparison"
  unfolding frontier_comparison_def table_ok_simps
  by (intro conjI table_ok_simps(1); (rule entry_mk, rule exec_rules, rule gas_rules, simp_all add: CALL_def))

lemma block_ok: "table_ok frontier_block"
  unfolding frontier_block_def table_ok_simps
  by (intro conjI table_ok_simps(1); (rule entry_mk, rule exec_rules, rule gas_rules, simp_all add: CALL_def))

lemma environment_ok: "table_ok frontier_environment"
  unfolding frontier_environment_def table_ok_simps
  by (intro conjI table_ok_simps(1); ((rule entry_mk, rule exec_rules | rule entry_mem, rule mem_exec_rules), rule gas_rules,
      simp_all add: CALL_def mem_fun_defs mem_funs))

lemma byte_neq_CALL: "k < 256 \<Longrightarrow> k \<noteq> 0xf1 \<Longrightarrow> (word_of_nat k :: byte) \<noteq> CALL"
  by (simp add: CALL_def word_unat_eq_iff unat_of_nat)

lemma sstore_entry: "entry_ok 0x55 ((mk_op opSstore gasSStore (makeStackFunc 2 0))\<lparr>writes := True\<rparr>)"
  by (rule entry_plain [where n = 2 and least = 1])
    (use gasSStore_ok opSstore_ok [of None] in \<open>auto simp: mk_op_def exec_ok_def makeStackFunc_None mem_fun_None CALL_def\<close>)

lemma storage_ok: "table_ok frontier_storage"
  unfolding frontier_storage_def table_ok_simps
  by (intro conjI table_ok_simps(1) sstore_entry entry_flags;
      ((rule entry_mk, rule exec_rules | rule entry_mem, rule mem_exec_rules), rule gas_rules,
      simp_all add: CALL_def mem_fun_defs mem_funs))

lemma push_entry: "op \<noteq> CALL \<Longrightarrow> op \<noteq> 0 \<Longrightarrow> entry_ok op (mk_op (makePush sz n) gasPush (makeStackFunc 0 1))"
proof (rule entry_plain [where n = 0 and least = 1])
  fix cs env f assume f: "frame_ok f" "GetOp (fr_contract f) (fr_pc f) = op" and op: "op \<noteq> 0"
  have c: "length (Code (fr_contract f)) < 2 ^ 62" using frame_okD(3) [OF f(1)] by (simp add: contract_ok_def)
  then have "unat (word_of_nat (length (Code (fr_contract f))) :: u64) = length (Code (fr_contract f))"
    by (subst unat_of_nat) simp
  then have "unat (fr_pc f) < length (Code (fr_contract f))"
    using f(2) op by (auto simp: GetOp_def GetByte_def word_less_nat_alt split: if_splits)
  then show "safe (execute (mk_op (makePush sz n) gasPush (makeStackFunc 0 1)) cs env f) (\<lambda>(res, err, f'). frame_le f f')"
    using makePush_ok [OF f(1)] by (simp add: mk_op_def)
qed (use plain_gas_ok(9) gas_ok_st in \<open>auto simp: mk_op_def mem_fun_None\<close>)

lemma table_ok_map:
  "(\<And>n. a \<le> n \<Longrightarrow> n < b \<Longrightarrow> entry_ok (word_of_nat (k + n)) (g n)) \<Longrightarrow> table_ok (map (\<lambda>n. (word_of_nat (k + n), g n)) [a..<b])"
  by (auto simp: table_ok_def simp del: of_nat_add)

lemma push_ok: "table_ok frontier_push"
proof -
  have "(word_of_nat (95 + n) :: byte) \<noteq> 0" if "1 \<le> n" "n < 33" for n
    using that by (simp only: word_unat_eq_iff unat_of_nat) simp
  then show ?thesis
    unfolding frontier_push_def by (intro table_ok_map push_entry byte_neq_CALL) simp_all
qed

lemma dup_ok': "table_ok frontier_dup"
  unfolding frontier_dup_def makeDupStackFunc_def makeDup_def
  by (intro table_ok_map entry_mk [OF stack_op_ok [OF dup_ok] gas_ok_st [OF plain_gas_ok(11)]] byte_neq_CALL) simp_all

lemma swap_ok': "table_ok frontier_swap"
  unfolding frontier_swap_def makeSwapStackFunc_def makeSwap_def
  by (intro table_ok_map entry_mk [OF stack_op_ok [OF swap_ok] gas_ok_st [OF plain_gas_ok(10)]] byte_neq_CALL) simp_all

lemma log_entry:
  "op \<noteq> CALL \<Longrightarrow> entry_ok op ((mk_op (makeLog n) (makeGasLog k) (makeStackFunc (n + 2) 0))\<lparr>memorySize := Some memoryLog, writes := True\<rparr>)"
  by (rule entry_plain [where n = "n + 2" and least = 1])
    (use makeLog_ok [of n] gas_ok_st [OF makeGasLog_ok [of "n + 2" k]] in
      \<open>auto simp: mk_op_def exec_ok_def makeStackFunc_None memoryLog_def mem_funs\<close>)

lemma log_ok: "table_ok frontier_log"
  unfolding frontier_log_def by (intro table_ok_map log_entry byte_neq_CALL) simp_all

section \<open>Calls\<close>

lemma add_gas_less:
  assumes "unat gas + unat (Gas (fr_contract f2)) < unat (Gas (fr_contract f))" "left \<le> gas"
  shows "Gas (fr_contract f2) + left < Gas (fr_contract f)"
proof -
  have "unat left \<le> unat gas" using assms(2) by (simp add: word_le_nat_alt)
  then have lt: "unat (Gas (fr_contract f2)) + unat left < unat (Gas (fr_contract f))" using assms(1) by linarith
  also have "\<dots> < 2 ^ 64" by (rule order.strict_trans2 [OF unsigned_less]) simp
  finally have "unat (Gas (fr_contract f2) + left) = unat (Gas (fr_contract f2)) + unat left"
    by (simp add: unat_word_ariths)
  then show ?thesis using lt by (simp add: word_less_nat_alt)
qed

text \<open>The gas a call leaves goes back to the caller, whose gas stays below what it was.\<close>

lemma returned_gas_le:
  assumes f: "frame_ok f" "frame_le f f2" and g: "Gas (fr_contract f2) + left < Gas (fr_contract f)"
    and f3: "evm_le (fr_evm f2) (fr_evm f3)" "fr_contract f3 = fr_contract f2" "nonneg (fr_stack f3)"
  shows "frame_le f (add_gas left f3)" "Gas (fr_contract (add_gas left f3)) < Gas (fr_contract f)"
proof -
  have "contract_ok ((fr_contract f2)\<lparr>Gas := Gas (fr_contract f2) + left\<rparr>)"
    using frame_okD(3) [OF frame_le_ok [OF f(2)]] frame_okD(3) [OF f(1)] g
    by (auto simp: contract_ok_def word_less_nat_alt)
  moreover have "good (fr_state f3)" using f3(1) by (auto simp: evm_le_def fr_state_def intro: rel_good)
  moreover have "evm_le (fr_evm f) (fr_evm f3)" using f(2) f3(1) evm_le_trans by (auto simp: frame_le_def)
  moreover have "(fr_contract f2)\<lparr>Gas := x\<rparr> = (fr_contract f)\<lparr>Gas := x\<rparr>" for x
    using f(2) by (metis frame_le_def Contract.surjective Contract.update_convs(8))
  ultimately show "frame_le f (add_gas left f3)"
    using f3 g by (simp add: frame_le_def frame_ok_def add_gas_def order_less_imp_le)
  show "Gas (fr_contract (add_gas left f3)) < Gas (fr_contract f)" using g f3(2) by (simp add: add_gas_def)
qed

lemma finish_call_ok:
  assumes f: "frame_ok f" "frame_le f f2" and st: "nonneg st" "covers (fr_mem f2) ro rs"
    and r: "call_post (fr_evm f2) gas r" and g: "unat gas + unat (Gas (fr_contract f2)) < unat (Gas (fr_contract f))"
  shows "safe (finish_call ro rs st f2 r) (less_gas opn f)"
proof -
  obtain ret left err e1 where r': "r = (ret, left, err, e1)" "left \<le> gas" "evm_le (fr_evm f2) e1"
    using r by (auto simp: call_post_def)
  define f1 where "f1 = f2\<lparr>fr_evm := e1, fr_stack := push (if err \<noteq> None then 0 else 1) st\<rparr>"
  have ok: "frame_ok f1"
    using frame_le_ok [OF f(2)] r'(3) st(1)
    by (auto simp: f1_def frame_ok_def push_def evm_le_def fr_state_def intro: rel_good)
  have add: "less_gas opn f (ret, None, add_gas left (f1\<lparr>fr_mem := m\<rparr>))" for m
    using returned_gas_le [OF f add_gas_less [OF g r'(2)], of "f1\<lparr>fr_mem := m\<rparr>"] r'(3) st(1)
    by (simp add: less_gas_def f1_def push_def)
  have "safe (if err = None \<or> err = Some errExecutionReverted then set_memory ro rs ret f1 else Inr f1)
      (\<lambda>f'. \<exists>m. f' = f1\<lparr>fr_mem := m\<rparr>)"
    using set_memory_ok [OF ok, of ro rs ret] st(2) by (auto simp: f1_def intro: exI [of _ "fr_mem f2"])
  then show ?thesis
    unfolding finish_call_def r'(1) prod.case Let_def f1_def [symmetric] by (rule safe_bind) (auto intro: add)
qed

text \<open>An entry whose gas function sets gas aside for a call.\<close>

lemma entry_call:
  assumes gas: "call_gas_ok n k (gasCost opn)" and w: "\<not> writes opn" and mf: "mem_fun_ok n (memorySize opn)"
    and some: "memorySize opn \<noteq> None" and st: "\<And>st. validateStack opn st = None \<Longrightarrow> n \<le> length st" and n: "3 \<le> n"
    and ex: "\<And>cs env f f2. frame_ok f \<Longrightarrow> frame_le f f2 \<Longrightarrow> fr_stack f2 = fr_stack f \<Longrightarrow> n \<le> length (fr_stack f) \<Longrightarrow>
       k f + unat (callGasTemp (fr_evm f2)) + unat (Gas (fr_contract f2)) < unat (Gas (fr_contract f)) \<Longrightarrow>
       mem_ready (memorySize opn) f2 \<Longrightarrow> calls_ok (unat (Gas (fr_contract f))) cs \<Longrightarrow>
       (op = CALL \<Longrightarrow> readOnly (fr_evm f) \<Longrightarrow> fr_stack f ! 2 = 0) \<Longrightarrow> safe (execute opn cs env f2) (less_gas opn f)"
  shows "entry_ok op opn"
  unfolding entry_ok_def
proof (intro allI impI)
  fix env f assume e: "env_ok env" and f: "frame_ok f" and v: "validateStack opn (fr_stack f) = None"
  note len = st [OF v]
  have nn: "0 \<le> fr_stack f ! 2" using nonneg_nth [OF frame_okD(2) [OF f]] len n by simp
  have "pays_ok env opn f" if ro: "op = CALL \<Longrightarrow> readOnly (fr_evm f) \<Longrightarrow> fr_stack f ! 2 = 0"
  proof (rule pays_okI [where P = "\<lambda>c f1. k f + unat (callGasTemp (fr_evm f1)) < unat c", OF f len mf])
    show "tot (gasCost opn env f m) (\<lambda>(cost, f1). gas_frame f f1 \<and> rel (readOnly (fr_evm f)) (fr_state f) (fr_state f1)
        \<and> (\<forall>c. cost = Inr c \<longrightarrow> mem_paid m \<and> k f + unat (callGasTemp (fr_evm f1)) < unat c))" for m
      using gas e f len unfolding call_gas_ok_def by blast
  next
    fix c f1 m cs assume g: "gas_frame f f1" "c \<le> Gas (fr_contract f)" "k f + unat (callGasTemp (fr_evm f1)) < unat c"
        "frame_le f (pay c m f1)" "mem_ready (memorySize opn) (pay c m f1)" "calls_ok (unat (Gas (fr_contract f))) cs"
    have "fr_stack (pay c m f1) = fr_stack f" "fr_contract f1 = fr_contract f" using g(1) by (simp_all add: gas_frame_def)
    moreover have "k f + unat (callGasTemp (fr_evm f1)) + unat (Gas (fr_contract f) - c) < unat (Gas (fr_contract f))"
      using g(2,3) by (simp add: gas_sub word_le_nat_alt)
    ultimately show "safe (execute opn cs env (pay c m f1)) (less_gas opn f)"
      using ex [OF f g(4) _ len _ g(5,6) ro] by simp
  qed
  then show "tot (enforceRestrictions op opn f) (\<lambda>r. r = None \<longrightarrow> pays_ok env opn f)"
    using enforceRestrictions_tot [of op f opn] n len nn by (auto elim!: tot_mono)
qed

lemma calls_okD:
  assumes "calls_ok N cs" "good (ev_StateDB e)" "unat gas < N" "length input < 2 ^ 62"
  shows "0 \<le> v \<Longrightarrow> (readOnly e \<Longrightarrow> v = 0) \<Longrightarrow> safe (do_Call cs e ref addr input gas v) (call_post e gas)"
    "0 \<le> v \<Longrightarrow> safe (do_CallCode cs e ref addr input gas v) (call_post e gas)"
    "ref_contract ref = Some (c, Some u) \<Longrightarrow> 0 \<le> u \<Longrightarrow> safe (do_DelegateCall cs e ref addr input gas) (call_post e gas)"
    "safe (do_StaticCall cs e ref addr input gas) (call_post e gas)"
    "0 \<le> v \<Longrightarrow> \<not> readOnly e \<Longrightarrow> safe (do_Create cs e ref input gas v) (create_post e gas)"
  using assms unfolding calls_ok_def by blast+

text \<open>The ranges of the four call operations.\<close>

lemma mem_ready_max:
  assumes "mem_ready (Some (mem_max (mem_range i j) (mem_range k l))) f" "frame_ok f"
    and "i < length (fr_stack f)" "j < length (fr_stack f)" "k < length (fr_stack f)" "l < length (fr_stack f)"
  shows "covers (fr_mem f) (fr_stack f ! i) (fr_stack f ! j)" "covers (fr_mem f) (fr_stack f ! k) (fr_stack f ! l)"
proof -
  have nn: "0 \<le> fr_stack f ! i" "0 \<le> fr_stack f ! j" "0 \<le> fr_stack f ! k" "0 \<le> fr_stack f ! l"
    using nonneg_nth [OF frame_okD(2) [OF assms(2)]] assms(3-6) by blast+
  define v where "v = BigMax (calcMemSize (fr_stack f ! i) (fr_stack f ! j)) (calcMemSize (fr_stack f ! k) (fr_stack f ! l))"
  have "v \<le> int (length (store (fr_mem f)))" "v < 2 ^ 41"
    using assms by (simp_all add: mem_ready_def mem_max_def mem_range_eq v_def)
  moreover have "calcMemSize (fr_stack f ! i) (fr_stack f ! j) \<le> v" "calcMemSize (fr_stack f ! k) (fr_stack f ! l) \<le> v"
    by (simp_all add: v_def BigMax_def)
  ultimately show "covers (fr_mem f) (fr_stack f ! i) (fr_stack f ! j)" "covers (fr_mem f) (fr_stack f ! k) (fr_stack f ! l)"
    using nn by (blast intro: covers_range)+
qed

lemma operands6: "frame_ok f \<Longrightarrow> 6 \<le> length (fr_stack f) \<Longrightarrow> \<exists>a b c d e g st. fr_stack f = a # b # c # d # e # g # st \<and> nonneg st"
  using frame_okD(2) [of f] by (auto dest!: length_ge6)

lemma operands7:
  "frame_ok f \<Longrightarrow> 7 \<le> length (fr_stack f) \<Longrightarrow> \<exists>a b c d e g h st. fr_stack f = a # b # c # d # e # g # h # st \<and> nonneg st"
  using frame_okD(2) [of f] by (auto dest!: length_ge7)

text \<open>The gas of the callee with the stipend.\<close>

lemma stipend_gas:
  assumes "stipend_of f + unat t + g < N" "N \<le> 2 ^ 64"
  shows "unat (if U256 (fr_stack f ! 2) \<noteq> 0 then t + CallStipend else t) + g < N"
proof -
  have "U256 (fr_stack f ! 2) \<noteq> 0 \<Longrightarrow> stipend_of f = 2300" by (auto simp: stipend_of_def U256_mod)
  moreover have "unat t + 2300 < 2 ^ 64 \<Longrightarrow> unat (t + CallStipend) = unat t + 2300"
    by (simp add: unat_word_ariths gas_consts)
  ultimately show ?thesis using assms by auto
qed

lemma frame_le_state: "frame_le f f2 \<Longrightarrow> good (ev_StateDB (fr_evm f2))"
  by (auto simp: frame_le_def frame_ok_def fr_state_def)

lemma frame_le_readOnly: "frame_le f f2 \<Longrightarrow> readOnly (fr_evm f2) = readOnly (fr_evm f)"
  by (auto simp: frame_le_def evm_le_def)

lemma opCall_safe:
  assumes f: "frame_ok f" "frame_le f f2" "fr_stack f2 = fr_stack f" "7 \<le> length (fr_stack f)"
    and g: "stipend_of f + unat (callGasTemp (fr_evm f2)) + unat (Gas (fr_contract f2)) < unat (Gas (fr_contract f))"
    and m: "mem_ready (Some memoryCall) f2" and cs: "calls_ok (unat (Gas (fr_contract f))) cs"
    and ro: "readOnly (fr_evm f) \<Longrightarrow> fr_stack f ! 2 = 0"
  shows "safe (opCall cs env f2) (less_gas opn f)"
proof -
  obtain a b c d e h k st where st: "fr_stack f2 = a # b # c # d # e # h # k # st" "nonneg st"
    using operands7 [OF frame_le_ok [OF f(2)]] f(3,4) by auto
  have val: "fr_stack f ! 2 = c" using st(1) unfolding f(3) by simp
  define gas where "gas = (if U256 c \<noteq> 0 then callGasTemp (fr_evm f2) + CallStipend else callGasTemp (fr_evm f2))"
  have gas: "unat gas + unat (Gas (fr_contract f2)) < unat (Gas (fr_contract f))"
    using stipend_gas [OF g unat_lt2p_le] unfolding gas_def val .
  have cov: "covers (fr_mem f2) d e" "covers (fr_mem f2) h k"
    using mem_ready_max [OF m [unfolded memoryCall_def] frame_le_ok [OF f(2)]] st(1) by simp_all
  show ?thesis
    unfolding opCall_def st(1) list.case Let_def gas_def [symmetric]
    by (rule safe_lift_bind [OF mem_Get_ok [OF cov(1)]],
        rule safe_bind [OF calls_okD(1) [OF cs frame_le_state [OF f(2)]] finish_call_ok [OF f(1,2) st(2) cov(2) _ gas]])
      (use gas ro val frame_le_readOnly [OF f(2)] in \<open>auto simp: U256_mod\<close>)
qed

lemma opCallCode_safe:
  assumes f: "frame_ok f" "frame_le f f2" "fr_stack f2 = fr_stack f" "7 \<le> length (fr_stack f)"
    and g: "stipend_of f + unat (callGasTemp (fr_evm f2)) + unat (Gas (fr_contract f2)) < unat (Gas (fr_contract f))"
    and m: "mem_ready (Some memoryCall) f2" and cs: "calls_ok (unat (Gas (fr_contract f))) cs"
  shows "safe (opCallCode cs env f2) (less_gas opn f)"
proof -
  obtain a b c d e h k st where st: "fr_stack f2 = a # b # c # d # e # h # k # st" "nonneg st"
    using operands7 [OF frame_le_ok [OF f(2)]] f(3,4) by auto
  have val: "fr_stack f ! 2 = c" using st(1) unfolding f(3) by simp
  define gas where "gas = (if U256 c \<noteq> 0 then callGasTemp (fr_evm f2) + CallStipend else callGasTemp (fr_evm f2))"
  have gas: "unat gas + unat (Gas (fr_contract f2)) < unat (Gas (fr_contract f))"
    using stipend_gas [OF g unat_lt2p_le] unfolding gas_def val .
  have cov: "covers (fr_mem f2) d e" "covers (fr_mem f2) h k"
    using mem_ready_max [OF m [unfolded memoryCall_def] frame_le_ok [OF f(2)]] st(1) by simp_all
  show ?thesis
    unfolding opCallCode_def st(1) list.case Let_def gas_def [symmetric]
    by (rule safe_lift_bind [OF mem_Get_ok [OF cov(1)]],
        rule safe_bind [OF calls_okD(2) [OF cs frame_le_state [OF f(2)]] finish_call_ok [OF f(1,2) st(2) cov(2) _ gas]])
      (use gas in \<open>auto simp: U256_mod\<close>)
qed

lemma opStaticCall_safe:
  assumes f: "frame_ok f" "frame_le f f2" "fr_stack f2 = fr_stack f" "6 \<le> length (fr_stack f)"
    and g: "unat (callGasTemp (fr_evm f2)) + unat (Gas (fr_contract f2)) < unat (Gas (fr_contract f))"
    and m: "mem_ready (Some memoryStaticCall) f2" and cs: "calls_ok (unat (Gas (fr_contract f))) cs"
  shows "safe (opStaticCall cs env f2) (less_gas opn f)"
proof -
  obtain a b c d e h st where st: "fr_stack f2 = a # b # c # d # e # h # st" "nonneg st"
    using operands6 [OF frame_le_ok [OF f(2)]] f(3,4) by auto
  have cov: "covers (fr_mem f2) c d" "covers (fr_mem f2) e h"
    using mem_ready_max [OF m [unfolded memoryStaticCall_def] frame_le_ok [OF f(2)]] st(1) by simp_all
  show ?thesis
    unfolding opStaticCall_def st(1) list.case
    by (rule safe_lift_bind [OF mem_Get_ok [OF cov(1)]],
        rule safe_bind [OF calls_okD(4) [OF cs frame_le_state [OF f(2)]] finish_call_ok [OF f(1,2) st(2) cov(2) _ g]])
      (use g in auto)
qed

lemma opDelegateCall_safe:
  assumes f: "frame_ok f" "frame_le f f2" "fr_stack f2 = fr_stack f" "6 \<le> length (fr_stack f)"
    and g: "unat (callGasTemp (fr_evm f2)) + unat (Gas (fr_contract f2)) < unat (Gas (fr_contract f))"
    and m: "mem_ready (Some memoryDelegateCall) f2" and cs: "calls_ok (unat (Gas (fr_contract f))) cs"
  shows "safe (opDelegateCall cs env f2) (less_gas opn f)"
proof -
  obtain a b c d e h st where st: "fr_stack f2 = a # b # c # d # e # h # st" "nonneg st"
    using operands6 [OF frame_le_ok [OF f(2)]] f(3,4) by auto
  have cov: "covers (fr_mem f2) c d" "covers (fr_mem f2) e h"
    using mem_ready_max [OF m [unfolded memoryDelegateCall_def] frame_le_ok [OF f(2)]] st(1) by simp_all
  obtain u where u: "ref_contract (contract_ref (fr_contract f2)) = Some (CallerAddress (fr_contract f2), Some u)" "0 \<le> u"
    using frame_okD(3) [OF frame_le_ok [OF f(2)]] by (auto simp: contract_ok_def contract_ref_def)
  show ?thesis
    unfolding opDelegateCall_def st(1) list.case
    by (rule safe_lift_bind [OF mem_Get_ok [OF cov(1)]],
        rule safe_bind [OF calls_okD(3) [OF cs frame_le_state [OF f(2)] _ _ u] finish_call_ok [OF f(1,2) st(2) cov(2) _ g]])
      (use g in auto)
qed

text \<open>Creation keeps one 64th of the gas.\<close>

lemma opCreate_safe:
  assumes f: "frame_ok f" "frame_le f f2" "fr_stack f2 = fr_stack f" "3 \<le> length (fr_stack f)"
    and g: "Gas (fr_contract f2) < Gas (fr_contract f)" and ro: "\<not> readOnly (fr_evm f)"
    and m: "mem_ready (Some memoryCreate) f2" and cs: "calls_ok (unat (Gas (fr_contract f))) cs"
  shows "safe (opCreate cs env f2) (less_gas opn f)"
proof -
  obtain v off l st where st: "fr_stack f2 = v # off # l # st" "0 \<le> v" "nonneg st"
    using operands(3) [OF frame_le_ok [OF f(2)]] f(3,4) by auto
  have cov: "covers (fr_mem f2) off l"
    using mem_ready_range [OF m [unfolded memoryCreate_def] frame_le_ok [OF f(2)]] st(1) by simp
  define gas where "gas = Gas (fr_contract f2) - Gas (fr_contract f2) div 64"
  define c where "c = snd (UseGas gas (fr_contract f2))"
  have d: "Gas (fr_contract f2) div 64 \<le> Gas (fr_contract f2)" by (simp add: word_le_nat_alt unat_div)
  have gu: "unat gas = unat (Gas (fr_contract f2)) - unat (Gas (fr_contract f2)) div 64" "gas \<le> Gas (fr_contract f2)"
    using gas_sub [OF d] by (simp_all add: gas_def unat_div)
  have c: "c = (fr_contract f2)\<lparr>Gas := Gas (fr_contract f2) - gas\<rparr>" using gu(2) by (simp add: c_def UseGas_def)
  define f3 where "f3 = f2\<lparr>fr_contract := c\<rparr>"
  have "f3 = pay gas 0 f2" by (simp add: f3_def c pay_def)
  then have f3: "frame_le f f3" using frame_le_trans [OF f(2) pay_le(1) [OF frame_le_refl [OF frame_le_ok [OF f(2)]] refl gu(2)]] by simp
  have lt: "unat gas + unat (Gas (fr_contract f3)) < unat (Gas (fr_contract f))"
    using gas_sub(1) [OF gu(2)] gu g by (simp add: f3_def c word_less_nat_alt word_le_nat_alt)
  have fin: "less_gas opn f (res, None, add_gas left (f2\<lparr>fr_evm := e1, fr_contract := c, fr_stack := push top st\<rparr>))"
    if "left \<le> gas" "evm_le (fr_evm f2) e1" "0 \<le> top" for res left e1 top
    using returned_gas_le [OF f(1) f3 add_gas_less [OF lt that(1)], of "f2\<lparr>fr_evm := e1, fr_contract := c, fr_stack := push top st\<rparr>"] that st(3)
    by (simp add: less_gas_def f3_def push_def)
  show ?thesis
    unfolding opCreate_def st(1) list.case Let_def gas_def [symmetric] c_def [symmetric]
    by (rule safe_lift_bind [OF mem_Get_ok [OF cov]],
        rule safe_bind [OF calls_okD(5) [OF cs frame_le_state [OF f(2)]]])
      (use lt st(2) ro frame_le_readOnly [OF f(2)] in \<open>auto simp: create_post_def intro!: fin\<close>)
qed

lemma create_entry:
  "entry_ok 0xf0 ((mk_op opCreate gasCreate (makeStackFunc 3 1))\<lparr>memorySize := Some memoryCreate, writes := True, returns := True\<rparr>)"
  (is "entry_ok _ ?o")
  unfolding entry_ok_def
proof (intro allI impI)
  fix env f assume e: "env_ok env" and f: "frame_ok f" and v: "validateStack ?o (fr_stack f) = None"
  have len: "3 \<le> length (fr_stack f)" using v by (simp add: mk_op_def makeStackFunc_None)
  have "pays_ok env ?o f" if ro: "\<not> readOnly (fr_evm f)"
  proof (rule pays_okI [where P = "\<lambda>c f1. 32000 \<le> unat c", OF f len])
    show "mem_fun_ok 3 (memorySize ?o)" by (simp add: mem_fun_defs mem_funs)
    show "tot (gasCost ?o env f m) (\<lambda>(cost, f1). gas_frame f f1 \<and> rel (readOnly (fr_evm f)) (fr_state f) (fr_state f1)
        \<and> (\<forall>c. cost = Inr c \<longrightarrow> mem_paid m \<and> 32000 \<le> unat c))" for m
      using gas_ok_st [OF plain_gas_ok(8) [of 3], of False] e f len by (simp add: mk_op_def gas_st_ok_def)
  next
    fix c f1 m cs assume g: "gas_frame f f1" "c \<le> Gas (fr_contract f)" "32000 \<le> unat c"
        "frame_le f (pay c m f1)" "mem_ready (memorySize ?o) (pay c m f1)" "calls_ok (unat (Gas (fr_contract f))) cs"
    have "fr_stack (pay c m f1) = fr_stack f" "Gas (fr_contract (pay c m f1)) < Gas (fr_contract f)"
      using g(1-3) gas_sub(1) [OF g(2)] by (simp_all add: gas_frame_def word_less_nat_alt word_le_nat_alt)
    then show "safe (execute ?o cs env (pay c m f1)) (less_gas ?o f)"
      using opCreate_safe [OF f g(4) _ len _ ro _ g(6)] g(5) by (simp add: mk_op_def)
  qed
  then show "tot (enforceRestrictions 0xf0 ?o f) (\<lambda>r. r = None \<longrightarrow> pays_ok env ?o f)"
    using enforceRestrictions_tot [of "0xf0" f ?o] by (auto simp: CALL_def elim!: tot_mono)
qed

section \<open>The tables\<close>

lemma call_entries:
  "entry_ok CALL ((mk_op opCall gasCall (makeStackFunc 7 1))\<lparr>memorySize := Some memoryCall, returns := True\<rparr>)"
  "entry_ok 0xf2 ((mk_op opCallCode gasCallCode (makeStackFunc 7 1))\<lparr>memorySize := Some memoryCall, returns := True\<rparr>)"
  "entry_ok 0xf4 ((mk_op opDelegateCall gasDelegateCall (makeStackFunc 6 1))\<lparr>memorySize := Some memoryDelegateCall, returns := True\<rparr>)"
  "entry_ok 0xfa ((mk_op opStaticCall gasStaticCall (makeStackFunc 6 1))\<lparr>memorySize := Some memoryStaticCall, returns := True\<rparr>)"
proof -
  show "entry_ok CALL ((mk_op opCall gasCall (makeStackFunc 7 1))\<lparr>memorySize := Some memoryCall, returns := True\<rparr>)"
    by (rule entry_call [where n = 7 and k = stipend_of])
      (use gasCall_ok in \<open>simp_all add: mk_op_def makeStackFunc_None mem_fun_defs mem_funs,
        intro opCall_safe, simp_all add: mem_fun_defs\<close>)
  show "entry_ok 0xf2 ((mk_op opCallCode gasCallCode (makeStackFunc 7 1))\<lparr>memorySize := Some memoryCall, returns := True\<rparr>)"
    by (rule entry_call [where n = 7 and k = stipend_of])
      (use gasCallCode_ok in \<open>simp_all add: mk_op_def makeStackFunc_None mem_fun_defs mem_funs,
        intro opCallCode_safe, simp_all add: mem_fun_defs\<close>)
  show "entry_ok 0xf4 ((mk_op opDelegateCall gasDelegateCall (makeStackFunc 6 1))\<lparr>memorySize := Some memoryDelegateCall, returns := True\<rparr>)"
    by (rule entry_call [where n = 6 and k = "\<lambda>_. 0"])
      (use gasDelegateCall_ok(1) in \<open>simp_all add: mk_op_def makeStackFunc_None mem_fun_defs mem_funs,
        intro opDelegateCall_safe, simp_all add: mem_fun_defs\<close>)
  show "entry_ok 0xfa ((mk_op opStaticCall gasStaticCall (makeStackFunc 6 1))\<lparr>memorySize := Some memoryStaticCall, returns := True\<rparr>)"
    by (rule entry_call [where n = 6 and k = "\<lambda>_. 0"])
      (use gasDelegateCall_ok(2) in \<open>simp_all add: mk_op_def makeStackFunc_None mem_fun_defs mem_funs,
        intro opStaticCall_safe, simp_all add: mem_fun_defs\<close>)
qed

lemma halting_entries:
  "entry_ok 0xf3 ((mk_op opReturn gasReturn (makeStackFunc 2 0))\<lparr>memorySize := Some memoryReturn, halts := True\<rparr>)"
  "entry_ok 0xfd ((mk_op opRevert gasRevert (makeStackFunc 2 0))\<lparr>memorySize := Some memoryRevert, reverts := True, returns := True\<rparr>)"
  by (rule entry_plain [where n = 2 and least = 0],
      use return_ok [of False] return_gas_ok [of 2, THEN gas_ok_st] in
        \<open>auto simp: mk_op_def exec_ok_def makeStackFunc_None mem_fun_defs mem_funs CALL_def\<close>)+

lemma suicide_entry:
  "entry_ok 0xff ((mk_op opSuicide gasSuicide (makeStackFunc 1 0))\<lparr>halts := True, writes := True\<rparr>)"
  by (rule entry_plain [where n = 1 and least = 0])
    (use opSuicide_ok [of None] gasSuicide_ok in \<open>auto simp: mk_op_def exec_ok_def makeStackFunc_None mem_fun_None CALL_def\<close>)

lemma system_ok: "table_ok frontier_system"
  unfolding frontier_system_def table_ok_simps
  using call_entries(1,2) by (intro conjI table_ok_simps(1) create_entry halting_entries suicide_entry) (simp_all add: CALL_def)

lemma frontier_ok: "table_ok NewFrontierInstructionSet"
  unfolding NewFrontierInstructionSet_def
  by (simp add: arithmetic_ok comparison_ok environment_ok block_ok storage_ok push_ok dup_ok' swap_ok' log_ok system_ok)

lemma homestead_ok: "table_ok NewHomesteadInstructionSet"
  unfolding NewHomesteadInstructionSet_def table_ok_simps by (intro conjI frontier_ok call_entries(3))

lemma byzantium_ok: "table_ok NewByzantiumInstructionSet"
  unfolding NewByzantiumInstructionSet_def table_ok_simps
  by (intro conjI table_ok_simps(1) homestead_ok call_entries(4) halting_entries(2);
      ((rule entry_mk, rule exec_rules | rule entry_mem, rule mem_exec_rules), rule gas_rules,
      simp_all add: CALL_def mem_fun_defs mem_funs))

lemma constantinople_ok: "table_ok NewConstantinopleInstructionSet"
  unfolding NewConstantinopleInstructionSet_def table_ok_simps
  by (intro conjI table_ok_simps(1) byzantium_ok; (rule entry_mk, rule exec_rules, rule gas_rules, simp_all add: CALL_def))

end

end
