(* ===== verification/VMLoop.thy ===== *)
theory VMLoop
  imports VMTableSafe
begin

text \<open>
  The interpreter loop and the calls are safe: with more fuel than gas the loop returns, on
  every code, without a panic; the state it leaves is related to the one it found, and the
  gas that is left never exceeds the gas given.
\<close>

context statedb
begin

section \<open>One step\<close>

definition step_post :: "frame \<Rightarrow> step_result \<Rightarrow> bool" where
  "step_post f r = (case r of Done ret err f' \<Rightarrow> frame_le f f'
     | Continue f' \<Rightarrow> frame_le f f' \<and> Gas (fr_contract f') < Gas (fr_contract f))"

lemma frame_le_update:
  "frame_le f g \<Longrightarrow> frame_le f (g\<lparr>fr_evm := (fr_evm g)\<lparr>returnData := rd\<rparr>\<rparr>)"
  "frame_le f g \<Longrightarrow> frame_le f (g\<lparr>fr_pc := pc\<rparr>)"
  by (auto simp: frame_le_def frame_ok_def evm_le_def fr_state_def)

lemma finish_step_post: "less_gas opn f r \<Longrightarrow> step_post f (finish_step opn r)"
  by (cases r)
    (auto simp: less_gas_def finish_step_def step_post_def Let_def frame_le_update split: option.split)

text \<open>What the checks before an operation leave behind.\<close>

definition prepare_post :: "vm_env \<Rightarrow> frame \<Rightarrow> (vm_error \<times> frame) + (operation \<times> frame) \<Rightarrow> bool" where
  "prepare_post env f r = (case r of Inl (err, f1) \<Rightarrow> frame_le f f1
     | Inr (opn, f2) \<Rightarrow> (\<forall>cs. calls_ok (unat (Gas (fr_contract f))) cs \<longrightarrow> safe (execute opn cs env f2) (less_gas opn f)))"

lemma UseGas_paid:
  assumes "frame_le f f1" "fr_contract f1 = fr_contract f"
    and "\<And>cs. c \<le> Gas (fr_contract f) \<Longrightarrow> calls_ok (unat (Gas (fr_contract f))) cs \<Longrightarrow> safe (execute opn cs env (pay c m f1)) (less_gas opn f)"
  shows "tot (case UseGas c (fr_contract f1) of
      (False, contract) \<Rightarrow> Inr (Inl (ErrOutOfGas, f1))
    | (True, contract) \<Rightarrow> Inr (Inr (opn, f1\<lparr>fr_contract := contract,
        fr_mem := (if m > 0 then Resize m (fr_mem f1) else fr_mem f1)\<rparr>))) (prepare_post env f)"
  using assms by (auto simp: UseGas_def prepare_post_def pay_def)

lemma payment_ok:
  assumes p: "pays_ok env opn f" and refl: "frame_le f f"
  shows "tot (rbind (required_memory opn (fr_stack f)) (\<lambda>ms. case ms of
      Inl err \<Rightarrow> Inr (Inl (err, f))
    | Inr msize \<Rightarrow> rbind (gasCost opn env f msize) (\<lambda>(cost, f1). case cost of
        Inl err \<Rightarrow> Inr (Inl (ErrOutOfGas, f1))
      | Inr c \<Rightarrow> (case UseGas c (fr_contract f1) of
          (False, contract) \<Rightarrow> Inr (Inl (ErrOutOfGas, f1))
        | (True, contract) \<Rightarrow> Inr (Inr (opn, f1\<lparr>fr_contract := contract,
            fr_mem := (if msize > 0 then Resize msize (fr_mem f1) else fr_mem f1)\<rparr>)))))) (prepare_post env f)"
proof (rule tot_bind [OF p [unfolded pays_ok_def]], goal_cases)
  case (1 ms)
  show ?case
  proof (cases ms)
    case (Inl err)
    then show ?thesis using refl by (simp add: prepare_post_def)
  next
    case (Inr m)
    show ?thesis unfolding Inr sum.case
    proof (rule tot_bind [OF 1 [rule_format, OF Inr]], goal_cases)
      case (1 x)
      obtain cost f1 where x: "x = (cost, f1)" by fastforce
      show ?case
      proof (cases cost)
        case (Inl e)
        then show ?thesis using 1 x by (simp add: prepare_post_def)
      next
        case (Inr c)
        show ?thesis unfolding x Inr prod.case sum.case by (rule UseGas_paid) (use 1 x Inr in auto)
      qed
    qed
  qed
qed

lemma prepare_ok:
  assumes t: "table_ok tbl" and e: "env_ok env" and f: "frame_ok f"
  shows "tot (prepare tbl env f) (prepare_post env f)"
proof -
  define op where "op = GetOp (fr_contract f) (fr_pc f)"
  note refl = frame_le_refl [OF f]
  consider "map_of tbl op = None" | opn err where "map_of tbl op = Some opn" "validateStack opn (fr_stack f) = Some err"
    | opn where "map_of tbl op = Some opn" "validateStack opn (fr_stack f) = None"
    by (meson option.exhaust)
  then show ?thesis
  proof cases
    case (3 opn)
    then have "entry_ok op opn" using t map_of_SomeD by (fastforce simp: table_ok_def)
    then have r: "tot (enforceRestrictions op opn f) (\<lambda>r. r = None \<longrightarrow> pays_ok env opn f)"
      using e f 3 op_def unfolding entry_ok_def by blast
    show ?thesis
      unfolding prepare_def Let_def op_def [symmetric] 3 option.case
      by (rule tot_bind [OF r]) (auto simp: prepare_post_def refl intro: payment_ok split: option.split)
  qed (simp_all add: prepare_def op_def [symmetric] prepare_post_def refl)
qed

lemma step_ok:
  assumes "table_ok tbl" "env_ok env" "frame_ok f" "calls_ok (unat (Gas (fr_contract f))) cs"
  shows "safe (step cs tbl env f) (step_post f)"
proof (cases "ev_abort (fr_evm f)")
  case True
  then show ?thesis using assms(3) by (simp add: step_def step_post_def frame_le_refl)
next
  case False
  have "safe (execute opn cs env f2) (\<lambda>x. step_post f (finish_step opn x))" if "prepare_post env f (Inr (opn, f2))" for opn f2
    using that assms(4) by (auto simp: prepare_post_def elim!: safe_mono intro: finish_step_post)
  moreover have "step_post f (Done [] (Some err) f1)" if "prepare_post env f (Inl (err, f1))" for err f1
    using that by (simp add: prepare_post_def step_post_def)
  ultimately show ?thesis
    unfolding step_def using False
    by (simp, intro safe_lift_bind [OF prepare_ok [OF assms(1-3)]]) (auto simp: safe_rbind split: sum.split prod.split)
qed

section \<open>Running a contract\<close>

definition rec_ok :: "nat \<Rightarrow> runner \<Rightarrow> bool" where
  "rec_ok N rec \<longleftrightarrow> (\<forall>f. frame_ok f \<longrightarrow> unat (Gas (fr_contract f)) < N \<longrightarrow> safe (rec f) (\<lambda>(ret, err, f'). frame_le f f'))"

definition run_post :: "EVM \<Rightarrow> Contract \<Rightarrow> bytes \<times> vm_error option \<times> EVM \<times> Contract \<Rightarrow> bool" where
  "run_post e c = (\<lambda>(ret, err, e', c'). evm_le e e' \<and> Gas c' \<le> Gas c)"

lemma Interpreter_Run_ok:
  assumes "rec_ok N rec" "good (ev_StateDB e)" "contract_ok c" "length input < 2 ^ 62" "unat (Gas c) < N"
  shows "safe (Interpreter_Run rec e c input) (run_post e c)"
proof (cases "Code c = []")
  case True
  then show ?thesis using assms(2) by (simp add: Interpreter_Run_def run_post_def evm_le_def rel_refl)
next
  case False
  define f where "f = \<lparr>fr_pc = 0, fr_evm = e\<lparr>ev_depth := ev_depth e + 1, returnData := []\<rparr>,
    fr_contract = c\<lparr>Input := input\<rparr>, fr_mem = NewMemory, fr_stack = []\<rparr>"
  have "frame_ok f" "unat (Gas (fr_contract f)) < N"
    using assms by (auto simp: f_def frame_ok_def fr_state_def contract_ok_def)
  then have "safe (rec f) (\<lambda>(ret, err, f'). frame_le f f')" using assms(1) by (simp add: rec_ok_def)
  then show ?thesis
    using False unfolding Interpreter_Run_def Let_def f_def [symmetric]
    by simp (rule safe_bind, assumption, auto simp: run_post_def frame_le_def evm_le_def f_def)
qed

lemma run_ok:
  assumes r: "rec_ok N rec" and c: "contract_ok c" "length input < 2 ^ 62" "unat (Gas c) < N"
    and e: "good (ev_StateDB e)" "env_ok env"
  shows "safe (run rec env e c input) (run_post e c)"
proof (cases "Option.bind (CodeAddr c) (precompiles env e)")
  case None
  then show ?thesis using Interpreter_Run_ok [OF r e(1) c] by (simp add: run_def)
next
  case (Some p)
  then have "precompiled_ok p"
    using e(2) by (auto simp: bind_eq_Some_conv precompiles_def env_ok_def intro: precompiles_ok)
  moreover have "unat (Gas c) < 2 ^ 62" using c(1) by (simp add: contract_ok_def)
  ultimately have "tot (RunPrecompiledContract p input c) (\<lambda>(ret, err, c1). Gas c1 \<le> Gas c)"
    using RunPrecompiledContract_ok c(2) by blast
  then show ?thesis
    unfolding run_def Some option.case
    by (rule safe_lift_bind) (auto simp: run_post_def evm_le_refl e(1))
qed

text \<open>The end of a call: an error restores the state of the snapshot.\<close>

lemma run_and_settle_ok:
  assumes r: "rec_ok N rec" and c: "contract_ok c" "length input < 2 ^ 62" "unat (Gas c) < N" and env: "env_ok env"
    and s: "keep s0 s" "Snapshot s = (i, s1)" "rel (readOnly e) s1 (ev_StateDB e)"
  shows "safe (run_and_settle rec env i e c input) (\<lambda>(ret, left, err, e'). left \<le> Gas c \<and>
     rel (readOnly e) s0 (ev_StateDB e') \<and> readOnly e' = readOnly e \<and> ev_depth e' = ev_depth e \<and> ev_abort e' = ev_abort e \<and>
     (err \<noteq> None \<longrightarrow> keep s0 (ev_StateDB e')))"
  unfolding run_and_settle_def
proof (rule safe_bind [OF run_ok [OF r c rel_good [OF s(3)] env]], goal_cases)
  case (1 x)
  obtain ret err e1 c1 where x: "x = (ret, err, e1, c1)" by (cases x)
  have g: "good s" using s(1) keep_good by blast
  have p: "evm_le e e1" "Gas c1 \<le> Gas c" using 1 x by (simp_all add: run_post_def)
  have r1: "rel (readOnly e) s1 (ev_StateDB e1)" using p(1) s(3) rel_trans by (auto simp: evm_le_def)
  obtain s3 where s3: "RevertToSnapshot i (ev_StateDB e1) = Inr s3" "keep s s3" using Revert_law [OF g s(2) r1] by blast
  have k: "keep s0 s3" using s(1) s3(2) keep_trans by blast
  have "rel (readOnly e) s0 (ev_StateDB e1)"
    using keep_rel_any [OF keep_trans [OF s(1) Snapshot_law [OF g s(2)]]] r1 rel_trans by blast
  moreover have "Gas (consume_unless_reverted err c1) \<le> Gas c"
    using p(2) by (auto simp: consume_unless_reverted_def UseGas_def)
  ultimately show ?case
    using p k keep_rel_any [OF k] by (auto simp: x s3(1) lift_panic_def evm_le_def)
qed

section \<open>Calls\<close>

lemma new_jumpdests_simps [simp]:
  "ev_StateDB (new_jumpdests ref e) = ev_StateDB e" "readOnly (new_jumpdests ref e) = readOnly e"
  "ev_depth (new_jumpdests ref e) = ev_depth e" "ev_abort (new_jumpdests ref e) = ev_abort e"
  by (simp_all add: new_jumpdests_def)

lemma load_code_ok:
  assumes "good s" "load_code addr c0 s = (c, s2)" "c_value c0 = Some v" "0 \<le> v" "Input c0 = []" "unat (Gas c0) < 2 ^ 62"
  shows "keep s s2 \<and> contract_ok c \<and> Gas c = Gas c0"
proof -
  obtain h t where h: "GetCodeHash s addr = (h, t)" by fastforce
  obtain code t2 where t: "GetCode t addr = (code, t2)" by fastforce
  have k: "keep s t" using GetCodeHash_law [OF assms(1) h] .
  then have "keep t t2" "\<forall>x. code = Some x \<longrightarrow> length x < 2 ^ 62" using GetCode_law [OF keep_good t] by auto
  then show ?thesis using assms(2-) k keep_trans
    by (auto simp: load_code_def h t SetCallCode_def contract_ok_def bytes_of_def split: option.split)
qed

lemma CanTransfer_ok:
  "good s \<Longrightarrow> tot (CanTransfer s a v) (\<lambda>(can, s'). keep s s' \<and> (can \<longleftrightarrow> v \<le> bal s a))"
  by (auto simp: CanTransfer_def deref_def split: prod.splits dest!: GetBalance_law)

lemma Transfer_ok:
  assumes "good s" "0 \<le> v" "v \<le> bal s a"
  shows "\<exists>s'. Transfer a b v s = Inr s' \<and> rel (v = 0) s s'
    \<and> bal s' = ((bal s)(a := bal s a - v))(b := ((bal s)(a := bal s a - v)) b + v)"
proof -
  obtain t where t: "SubBalance a v s = Inr t" "rel (v = 0) s t" "bal t = (bal s)(a := bal s a - v)"
    using SubBalance_law [OF assms] by blast
  obtain u where "AddBalance b v t = Inr u" "rel (v = 0) s u" "bal u = (bal t)(b := bal t b + v)"
    using AddBalance_law [OF t(2) assms(2), of b] total_upd [OF t(3)] by auto
  then show ?thesis using t by (auto simp: Transfer_def)
qed

lemma NewContract_simps [simp]:
  "c_value (NewContract a b v g) = v" "Input (NewContract a b v g) = []" "Gas (NewContract a b v g) = g"
  "c_caller (NewContract a b v g) = a"
  by (simp_all add: NewContract_def)

text \<open>Early returns of the calls.\<close>

lemma call_post_same: "good (ev_StateDB e) \<Longrightarrow> call_post e gas (ret, gas, err, e)"
  by (simp add: call_post_def evm_le_refl keep_refl)

lemma call_post_keep: "keep (ev_StateDB e) s \<Longrightarrow> call_post e gas (ret, gas, err, e\<lparr>ev_StateDB := s\<rparr>)"
  by (simp add: call_post_def evm_le_def keep_rel_any)

lemma settle_call_post:
  assumes r: "rec_ok N rec" "env_ok env" and c: "contract_ok c" "Gas c = gas" "length input < 2 ^ 62" "unat gas < N"
    and s: "keep (ev_StateDB e) s" "Snapshot s = (i, s1)" "rel (readOnly e) s1 s4"
  shows "safe (run_and_settle rec env i (new_jumpdests ref (e\<lparr>ev_StateDB := s4\<rparr>)) c input) (call_post e gas)"
  using run_and_settle_ok [OF r(1) c(1,3) _ r(2) s(1,2), of "new_jumpdests ref (e\<lparr>ev_StateDB := s4\<rparr>)"] s(3) c(2,4)
  by (auto simp: call_post_def evm_le_def elim!: safe_mono)

lemma CanTransfer_obtain:
  assumes "good s"
  obtains can s0 where "CanTransfer s a v = Inr (can, s0)" "keep s s0" "can \<longleftrightarrow> v \<le> bal s a"
  using CanTransfer_ok [OF assms, of a v] by (auto simp: tot_def)

lemma CallCode_ok:
  assumes r: "rec_ok N rec" "env_ok env" "N \<le> 2 ^ 62" and e: "good (ev_StateDB e)"
    and c: "unat gas < N" "length input < 2 ^ 62" "0 \<le> v"
  shows "safe (CallCode rec env e ref addr input gas v) (call_post e gas)"
proof -
  obtain can s0 where t: "CanTransfer (ev_StateDB e) (ref_Address ref) v = Inr (can, s0)" "keep (ev_StateDB e) s0"
    using CanTransfer_obtain [OF e] by metis
  obtain i s1 where s1: "Snapshot s0 = (i, s1)" by fastforce
  have k1: "keep s0 s1" using Snapshot_law [OF keep_good [OF t(2)] s1] .
  obtain ct s2 where l: "load_code addr (NewContract ref (AccountRef (ref_Address ref)) (Some v) gas) s1 = (ct, s2)" by fastforce
  have ct: "keep s1 s2" "contract_ok ct" "Gas ct = gas"
    using load_code_ok [OF keep_good [OF k1] l] c r(3) by simp_all
  show ?thesis
    using settle_call_post [OF r(1,2) ct(2,3) c(2,1) t(2) s1 keep_rel_any [OF ct(1)]] call_post_same [OF e] call_post_keep [OF t(2)]
    by (simp add: CallCode_def t lift_panic_def s1 l)
qed

lemma DelegateCall_ok:
  assumes r: "rec_ok N rec" "env_ok env" "N \<le> 2 ^ 62" and e: "good (ev_StateDB e)"
    and c: "unat gas < N" "length input < 2 ^ 62" and ref: "ref_contract ref = Some (a, Some u)" "0 \<le> u"
  shows "safe (DelegateCall rec env e ref addr input gas) (call_post e gas)"
proof -
  obtain i s1 where s1: "Snapshot (ev_StateDB e) = (i, s1)" by fastforce
  have k1: "keep (ev_StateDB e) s1" using Snapshot_law [OF e s1] .
  define c0 where "c0 = (NewContract ref (AccountRef (ref_Address ref)) None gas)
    \<lparr>DelegateCall_flag := True, CallerAddress := a, c_value := Some u\<rparr>"
  obtain ct s2 where l: "load_code addr c0 s1 = (ct, s2)" by fastforce
  have ct: "keep s1 s2" "contract_ok ct" "Gas ct = gas"
    using load_code_ok [OF keep_good [OF k1] l] c r(3) ref(2) by (simp_all add: c0_def)
  have "AsDelegate (NewContract ref (AccountRef (ref_Address ref)) None gas) = Inr c0"
    by (simp add: AsDelegate_def ref(1) c0_def)
  then show ?thesis
    using settle_call_post [OF r(1,2) ct(2,3) c(2,1) keep_refl [OF e] s1 keep_rel_any [OF ct(1)]] call_post_same [OF e]
    by (simp add: DelegateCall_def lift_panic_def s1 l)
qed

lemma StaticCall_ok:
  assumes r: "rec_ok N rec" "env_ok env" "N \<le> 2 ^ 62" and e: "good (ev_StateDB e)"
    and c: "unat gas < N" "length input < 2 ^ 62"
  shows "safe (StaticCall rec env e ref addr input gas)
    (\<lambda>r. call_post e gas r \<and> (case r of (ret, left, err, e') \<Rightarrow> rel True (ev_StateDB e) (ev_StateDB e')))"
proof -
  obtain i s1 where s1: "Snapshot (ev_StateDB e) = (i, s1)" by fastforce
  have k1: "keep (ev_StateDB e) s1" using Snapshot_law [OF e s1] .
  obtain ct s2 where l: "load_code addr (NewContract ref (AccountRef addr) (Some 0) gas) s1 = (ct, s2)" by fastforce
  have ct: "keep s1 s2" "contract_ok ct" "Gas ct = gas"
    using load_code_ok [OF keep_good [OF k1] l] c r(3) by simp_all
  have upd: "e\<lparr>readOnly := True, ev_StateDB := s2\<rparr> = e\<lparr>ev_StateDB := s2, readOnly := True\<rparr>" by simp
  have "safe (run_and_settle rec env i (new_jumpdests ref (e\<lparr>ev_StateDB := s2, readOnly := True\<rparr>)) ct input)
      (call_post (e\<lparr>readOnly := True\<rparr>) gas)"
    unfolding upd [symmetric] using settle_call_post [OF r(1,2) ct(2,3) c(2,1) _ s1, of "e\<lparr>readOnly := True\<rparr>" s2 ref] keep_refl [OF e] keep_rel_any [OF ct(1)]
    by simp
  then show ?thesis
    using call_post_same [OF e] rel_refl [OF e]
    by (auto simp: StaticCall_def s1 l safe_rbind call_post_def evm_le_def elim!: safe_mono intro: rel_weaken)
qed

lemma Call_ok:
  assumes r: "rec_ok N rec" "env_ok env" "N \<le> 2 ^ 62" and e: "good (ev_StateDB e)"
    and c: "unat gas < N" "length input < 2 ^ 62" "0 \<le> v" and ro: "readOnly e \<Longrightarrow> v = 0"
  shows "safe (Call rec env e ref addr input gas v) (call_post e gas)"
proof -
  obtain can s0 where t: "CanTransfer (ev_StateDB e) (ref_Address ref) v = Inr (can, s0)" "keep (ev_StateDB e) s0"
      "can \<longleftrightarrow> v \<le> bal (ev_StateDB e) (ref_Address ref)"
    using CanTransfer_obtain [OF e] by metis
  obtain i s1 where s1: "Snapshot s0 = (i, s1)" by fastforce
  have k1: "keep s0 s1" using Snapshot_law [OF keep_good [OF t(2)] s1] .
  obtain ex s2 where s2: "Exist s1 addr = (ex, s2)" by fastforce
  have k2: "keep s1 s2" "\<not> ex \<Longrightarrow> rel True s2 (CreateAccount addr s2)" using Exist_law [OF keep_good [OF k1] s2] by auto
  define s3 where "s3 = (if ex then s2 else CreateAccount addr s2)"
  have s3: "rel True s1 s3" using k2 rel_trans [OF keep_rel [OF k2(1)]] by (auto simp: s3_def keep_rel)
  have b3: "bal s3 = bal (ev_StateDB e)"
    using CreateAccount_law [OF keep_good [OF k2(1)], of addr] keep_bal [OF k2(1)] keep_bal [OF k1] keep_bal [OF t(2)]
    by (simp add: s3_def)
  show ?thesis
  proof (cases "can \<and> \<not> (\<not> ex \<and> precompiles env e addr = None \<and> v = 0)")
    case False
    then show ?thesis
      using call_post_same [OF e] call_post_keep [OF t(2)] call_post_keep [OF keep_trans [OF t(2) keep_trans [OF k1 k2(1)]]]
      by (auto simp: Call_def t(1) lift_panic_def s1 s2)
  next
    case True
    then obtain s4 where s4: "Transfer (ref_Address ref) addr v s3 = Inr s4" "rel (v = 0) s3 s4"
      using Transfer_ok [OF rel_good [OF s3] c(3)] t(3) b3 by metis
    obtain ct s5 where l: "load_code addr (NewContract ref (AccountRef addr) (Some v) gas) s4 = (ct, s5)" by fastforce
    have ct: "keep s4 s5" "contract_ok ct" "Gas ct = gas"
      using load_code_ok [OF rel_good [OF s4(2)] l] c r(3) by simp_all
    have "rel (readOnly e) s3 s4" using s4(2) ro rel_False by (cases "readOnly e") auto
    then have "rel (readOnly e) s1 s5" using rel_trans [OF rel_weaken [OF s3] rel_trans [OF _ keep_rel_any [OF ct(1)]]] by blast
    then show ?thesis
      using settle_call_post [OF r(1,2) ct(2,3) c(2,1) t(2) s1] call_post_same [OF e] True s4(1)
      by (auto simp: Call_def t(1) lift_panic_def s1 s2 l s3_def [symmetric])
  qed
qed

lemma UseGas_le: "Gas (snd (UseGas g c)) \<le> Gas c"
  by (simp add: UseGas_def word_sub_le not_less)

lemma consume_le: "Gas (consume_unless_reverted err c) \<le> Gas c"
  by (simp add: consume_unless_reverted_def UseGas_le)

lemma settle_create_ok:
  assumes s: "good s" "Snapshot s = (i, s1)" and e: "rel False s1 (ev_StateDB e)" "\<not> readOnly e"
    and x: "run_post e c (ret, err, e1, c1)"
  shows "safe (settle_create i addr (ret, err, e1, c1)) (\<lambda>(ret', addr', left, err', e'). left \<le> Gas c \<and>
     rel False s (ev_StateDB e') \<and> readOnly e' = readOnly e \<and> ev_depth e' = ev_depth e \<and> ev_abort e' = ev_abort e)"
proof -
  have p: "evm_le e e1" "Gas c1 \<le> Gas c" using x by (simp_all add: run_post_def)
  define stores where "stores = (err = None \<and> \<not> length ret > MaxCodeSize)"
  define dep where "dep = UseGas (word_of_nat (length ret) * CreateDataGas) c1"
  define e2 where "e2 = (if stores \<and> fst dep then e1\<lparr>ev_StateDB := SetCode addr ret (ev_StateDB e1)\<rparr> else e1)"
  define c2 where "c2 = (if stores then snd dep else c1)"
  have e1: "rel False s1 (ev_StateDB e1)" using p(1) e rel_trans by (auto simp: evm_le_def)
  have "stores \<Longrightarrow> rel False (ev_StateDB e1) (SetCode addr ret (ev_StateDB e1))"
    using SetCode_law [OF rel_good [OF e1]] by (simp add: stores_def MaxCodeSize_def)
  then have r2: "rel False s1 (ev_StateDB e2)" using e1 rel_trans by (auto simp: e2_def)
  have same: "readOnly e2 = readOnly e" "ev_depth e2 = ev_depth e" "ev_abort e2 = ev_abort e"
    using p(1) by (auto simp: e2_def evm_le_def)
  have gas: "Gas c2 \<le> Gas c" using p(2) order_trans [OF UseGas_le p(2)] by (simp add: c2_def dep_def)
  obtain s3 where s3: "RevertToSnapshot i (ev_StateDB e2) = Inr s3" "keep s s3" using Revert_law [OF s r2] by blast
  have "rel False s (ev_StateDB e2)" using keep_rel_any [OF Snapshot_law [OF s]] r2 rel_trans by blast
  then show ?thesis
    using same gas s3 keep_rel_any [OF s3(2)] order_trans [OF consume_le gas]
    unfolding settle_create_def prod.case Let_def stores_def [symmetric] dep_def [symmetric] e2_def [symmetric] c2_def [symmetric]
    by (simp add: lift_panic_def)
qed

lemma create_at_ok:
  assumes r: "rec_ok N rec" "env_ok env" "N \<le> 2 ^ 62" and e: "good (ev_StateDB e)" "\<not> readOnly e"
    and c: "unat gas < N" "length code < 2 ^ 62" "0 \<le> v" "v \<le> bal (ev_StateDB e) (ref_Address ref)"
  shows "safe (create_at rec env e ref addr code gas v) (create_post e gas)"
proof -
  define keccak where "keccak = db_keccak (sdb_db (ev_StateDB e))"
  obtain i s1 where s1: "Snapshot (ev_StateDB e) = (i, s1)" by fastforce
  have k1: "keep (ev_StateDB e) s1" using Snapshot_law [OF e(1) s1] .
  define s2 where "s2 = SetNonce addr 1 (CreateAccount addr s1)"
  have s2: "rel False s1 s2" "bal s2 = bal (ev_StateDB e)"
    unfolding s2_def using CreateAccount_law [OF keep_good [OF k1], of addr] SetNonce_law rel_good rel_trans keep_bal [OF k1] by metis+
  obtain s3 where s3: "Transfer (ref_Address ref) addr v s2 = Inr s3" "rel False s1 s3"
    using Transfer_ok [OF rel_good [OF s2(1)] c(3)] c(4) s2 rel_False rel_trans by metis
  define ct where "ct = SetCallCode addr (keccak code) code (NewContract ref (AccountRef addr) (Some v) gas)"
  have ct: "contract_ok ct" "Gas ct = gas" using c r(3) by (auto simp: ct_def SetCallCode_def contract_ok_def)
  define e1 where "e1 = new_jumpdests ref (e\<lparr>ev_StateDB := s3\<rparr>)"
  have e1: "ev_StateDB e1 = s3" "readOnly e1 = readOnly e" "ev_depth e1 = ev_depth e" "ev_abort e1 = ev_abort e"
    by (simp_all add: e1_def)
  have "rel False (ev_StateDB e) s3" using keep_rel_any [OF k1] s3(2) rel_trans by blast
  then have early: "create_post e gas ([], addr, gas, None, e1)" using e(2) e1 by (simp add: create_post_def evm_le_def)
  have run: "safe (rbind (run rec env e1 ct []) (settle_create i addr)) (create_post e gas)"
  proof (rule safe_bind [OF run_ok [OF r(1) ct(1) _ _ _ r(2)]], goal_cases)
    case (4 x)
    then show ?case
      using settle_create_ok [OF e(1) s1, of e1 ct] s3(2) e1 e(2) ct(2)
      by (cases x) (auto simp: create_post_def evm_le_def elim!: safe_mono)
  qed (use c ct s3(2) e1 rel_good in auto)
  show ?thesis
    unfolding create_at_def Let_def keccak_def [symmetric] s1 prod.case s2_def [symmetric] ct_def [symmetric]
    using early run s3(1) by (simp add: lift_panic_def e1_def [symmetric])
qed

lemma Create_ok:
  assumes r: "rec_ok N rec" "env_ok env" "N \<le> 2 ^ 62" and e: "good (ev_StateDB e)" "\<not> readOnly e"
    and c: "unat gas < N" "length code < 2 ^ 62" "0 \<le> v"
  shows "safe (Create rec env e ref code gas v) (create_post e gas)"
proof -
  let ?a = "ref_Address ref"
  define keccak where "keccak = db_keccak (sdb_db (ev_StateDB e))"
  obtain can s0 where t: "CanTransfer (ev_StateDB e) ?a v = Inr (can, s0)" "keep (ev_StateDB e) s0"
      "can \<longleftrightarrow> v \<le> bal (ev_StateDB e) ?a"
    using CanTransfer_obtain [OF e(1)] by metis
  obtain nonce s1 where s1: "GetNonce s0 ?a = (nonce, s1)" by fastforce
  have k1: "keep s0 s1" using GetNonce_law [OF keep_good [OF t(2)] s1] .
  define s2 where "s2 = SetNonce ?a (nonce + 1) s1"
  have s2: "rel False s1 s2" "bal s2 = bal s1" unfolding s2_def using SetNonce_law [OF keep_good [OF k1]] by blast+
  define addr where "addr = CreateAddress keccak ?a nonce"
  obtain h s3 where s3: "GetCodeHash s2 addr = (h, s3)" by fastforce
  have k3: "keep s2 s3" using GetCodeHash_law [OF rel_good [OF s2(1)] s3] .
  obtain n s4 where s4: "GetNonce s3 addr = (n, s4)" by fastforce
  have k4: "keep s3 s4" using GetNonce_law [OF keep_good [OF k3] s4] .
  have r4: "rel False (ev_StateDB e) s4"
    using rel_trans [OF keep_rel_any [OF keep_trans [OF t(2) k1]] rel_trans [OF s2(1) keep_rel_any [OF keep_trans [OF k3 k4]]]] .
  have b4: "bal s4 = bal (ev_StateDB e)"
    using keep_bal [OF k4] keep_bal [OF k3] s2(2) keep_bal [OF k1] keep_bal [OF t(2)] by simp
  have early: "create_post e gas (ret, a, left, err, e\<lparr>ev_StateDB := s\<rparr>)"
    if "rel False (ev_StateDB e) s" "left \<le> gas" for ret a left err s
    using that e(2) by (simp add: create_post_def evm_le_def)
  have tail: "safe (create_at rec env (e\<lparr>ev_StateDB := s4\<rparr>) ref addr code gas v) (create_post e gas)" if "can"
    by (rule safe_mono [OF create_at_ok [OF r]])
      (use e(2) c t(3) that b4 rel_good [OF r4] r4 in \<open>auto simp: create_post_def evm_le_def intro: rel_trans\<close>)
  show ?thesis
    using tail early [OF r4] early [OF keep_rel_any [OF t(2)]] early [OF rel_refl [OF e(1)]]
    by (simp add: Create_def Let_def keccak_def [symmetric] t(1) lift_panic_def s1 s2_def [symmetric] addr_def [symmetric] s3 s4)
qed

section \<open>The loop\<close>

lemma evm_calls_ok: "rec_ok N rec \<Longrightarrow> env_ok env \<Longrightarrow> N \<le> 2 ^ 62 \<Longrightarrow> calls_ok N (evm_calls rec env)"
  unfolding calls_ok_def evm_calls_def
  by (auto intro: Call_ok CallCode_ok DelegateCall_ok Create_ok safe_mono [OF StaticCall_ok])

text \<open>Fuel above the gas is enough.\<close>

lemma run_loop_ok:
  assumes t: "table_ok tbl" and e: "env_ok env"
  shows "rec_ok n (run_loop n tbl env)"
proof (induction n)
  case (Suc n)
  have "safe (loop_body (run_loop n tbl env) tbl env f) (\<lambda>(ret, err, f'). frame_le f f')"
    if f: "frame_ok f" "unat (Gas (fr_contract f)) < Suc n" for f
  proof -
    have "unat (Gas (fr_contract f)) \<le> 2 ^ 62" using frame_okD(3) [OF f(1)] by (simp add: contract_ok_def)
    moreover have "rec_ok (unat (Gas (fr_contract f))) (run_loop n tbl env)" using Suc f(2) by (auto simp: rec_ok_def)
    ultimately have st: "safe (step (evm_calls (run_loop n tbl env) env) tbl env f) (step_post f)"
      using step_ok [OF t e f(1)] evm_calls_ok e by blast
    have "safe (run_loop n tbl env f1) (\<lambda>(ret, err, f'). frame_le f f')"
      if s: "frame_le f f1" "Gas (fr_contract f1) < Gas (fr_contract f)" for f1
    proof -
      have "unat (Gas (fr_contract f1)) < n" using s(2) f(2) by (simp add: word_less_nat_alt)
      then have "safe (run_loop n tbl env f1) (\<lambda>(ret, err, f'). frame_le f1 f')"
        using Suc frame_le_ok [OF s(1)] by (simp add: rec_ok_def)
      then show ?thesis by (rule safe_mono) (auto intro: frame_le_trans [OF s(1)])
    qed
    then show ?thesis
      unfolding loop_body_def by (intro safe_bind [OF st]) (auto simp: step_post_def split: step_result.splits)
  qed
  then show ?case by (simp add: rec_ok_def)
qed (simp add: rec_ok_def)

end

end
