(* ===== verification/VMProps.thy ===== *)
theory VMProps
  imports VMLoop
begin

unbundle bit_operations_syntax

text \<open>
  What the development shows of the virtual machine: the machine ends on every code without a
  panic, gas never grows, failed calls leave no trace, static calls write nothing, the price
  of memory is exact within its bound and wraps beyond it, and the operations on big integers
  are the operations on 256-bit words.
\<close>

section \<open>The machine\<close>

definition instruction_sets :: "instructionSet set" where
  "instruction_sets = {NewFrontierInstructionSet, NewHomesteadInstructionSet, NewByzantiumInstructionSet,
     NewConstantinopleInstructionSet}"

lemma instruction_sets_ok: "tbl \<in> instruction_sets \<Longrightarrow> vm.table_ok tbl"
  by (auto simp: instruction_sets_def vm.frontier_ok vm.homestead_ok vm.byzantium_ok vm.constantinople_ok)

lemma safe_cases: "safe m Q \<Longrightarrow> (\<exists>x. m = Inr x \<and> Q x) \<or> m = Inl (VMPanic bitvec_panic)"
  by (cases m) auto

lemma safeD: "safe m Q \<Longrightarrow> m = Inr x \<Longrightarrow> Q x"
  by simp

lemma vm_rel_good: "vm.rel ro s t \<Longrightarrow> vm_good t"
  by (rule vm.rel_good)

text \<open>A small machine for the witnesses.\<close>

definition small_env :: vm_env where
  "small_env = \<lparr>env_ctx = \<lparr>Origin = 1, GasPrice = 1, Coinbase = 2, ctx_GasLimit = 1000, BlockNumber = 5, Time = 6,
     Difficulty = 7, GetHash = (\<lambda>_. 0)\<rparr>,
   env_crypto = \<lparr>cl_EcrecoverToByte = (\<lambda>_ _. None), cl_Sum256 = (\<lambda>_. []), cl_ripemd160 = (\<lambda>_. []),
     cl_G1_Unmarshal = (\<lambda>_. None), cl_G2_Unmarshal = (\<lambda>_. None), cl_G1_Add = (\<lambda>_ _. []), cl_G1_ScalarMult = (\<lambda>_ _. []),
     cl_G1_Marshal = (\<lambda>_. []), cl_PairingCheck = (\<lambda>_ _. False)\<rparr>,
   env_gasTable = DefualtGasTable, NoRecursion = False, EnablePreimageRecording = False\<rparr>"

lemma small_env_ok: "env_ok small_env"
  by (simp add: small_env_def env_ok_def crypto_ok_def)

lemma small_vm_good: "vm_good small_state"
  using small_state_ok by (simp add: vm_good_def accounts_of_def obj_at_def small_state_def New_def OpenTrie_def)

text \<open>C1: The interpreter terminates. On every frame with non-negative stack items and a code, an
  input and an amount of gas below 2^62, the loop with more fuel than gas runs to its end: it
  returns with no more gas than it had and a well-formed state, or stops in the bounds check of
  a jump-destination vector that was cached for another code of the same hash. No other panic is
  possible, for any code and any of the four instruction sets.\<close>

theorem interpreter_terminates:
  assumes "tbl \<in> instruction_sets" "env_ok env" "vm_good (fr_state f)" "\<forall>x \<in> set (fr_stack f). 0 \<le> x"
    and "contract_ok (fr_contract f)" "unat (Gas (fr_contract f)) < n"
  shows "(\<exists>ret err f'. run_loop n tbl env f = Inr (ret, err, f') \<and> Gas (fr_contract f') \<le> Gas (fr_contract f)
      \<and> vm_good (fr_state f')) \<or> run_loop n tbl env f = Inl (VMPanic bitvec_panic)"
proof -
  have f: "vm.frame_ok f" using assms(3-5) by (simp add: vm.frame_ok_def nonneg_def)
  have "vm.rec_ok n (run_loop n tbl env)" by (rule vm.run_loop_ok [OF instruction_sets_ok [OF assms(1)] assms(2)])
  then have "safe (run_loop n tbl env f) (\<lambda>(ret, err, f'). vm.frame_le f f')" using f assms(6) by (simp add: vm.rec_ok_def)
  then show ?thesis by (auto simp: vm.frame_le_def vm.frame_ok_def dest!: safe_cases)
qed

definition small_frame :: frame where
  "small_frame = \<lparr>fr_pc = 0, fr_evm = NewEVM small_state,
     fr_contract = (NewContract (AccountRef 1) (AccountRef 2) (Some 0) 100)\<lparr>Code := [0x60, 0x01, 0x5b, 0x56]\<rparr>,
     fr_mem = NewMemory, fr_stack = []\<rparr>"

theorem interpreter_terminates_witness:
  "(\<exists>ret err f'. run_loop 101 NewByzantiumInstructionSet small_env small_frame = Inr (ret, err, f')
      \<and> Gas (fr_contract f') \<le> 100 \<and> vm_good (fr_state f'))
   \<or> run_loop 101 NewByzantiumInstructionSet small_env small_frame = Inl (VMPanic bitvec_panic)"
proof -
  have "NewByzantiumInstructionSet \<in> instruction_sets" by (simp add: instruction_sets_def)
  moreover have "vm_good (fr_state small_frame)" by (simp add: small_frame_def fr_state_def NewEVM_def small_vm_good)
  moreover have "\<forall>x \<in> set (fr_stack small_frame). 0 \<le> x" "contract_ok (fr_contract small_frame)"
      "Gas (fr_contract small_frame) = 100"
    by (simp_all add: small_frame_def contract_ok_def NewContract_def)
  ultimately show ?thesis using interpreter_terminates [OF _ small_env_ok, of _ small_frame 101] by fastforce
qed

text \<open>What the interpreter gives the calls, for less than \<open>n\<close> gas.\<close>

lemma call_facts:
  assumes "tbl \<in> instruction_sets" "env_ok env" "vm_good (ev_StateDB e)" "unat gas < n" "n \<le> 2 ^ 62" "length input < 2 ^ 62"
  shows "0 \<le> v \<Longrightarrow> (readOnly e \<Longrightarrow> v = 0) \<Longrightarrow> safe (Call (run_loop n tbl env) env e ref addr input gas v) (vm.call_post e gas)"
    "0 \<le> v \<Longrightarrow> safe (CallCode (run_loop n tbl env) env e ref addr input gas v) (vm.call_post e gas)"
    "ref_contract ref = Some (a, Some u) \<Longrightarrow> 0 \<le> u \<Longrightarrow>
      safe (DelegateCall (run_loop n tbl env) env e ref addr input gas) (vm.call_post e gas)"
    "safe (StaticCall (run_loop n tbl env) env e ref addr input gas) (\<lambda>r. vm.call_post e gas r \<and>
      (case r of (ret, left, err, e') \<Rightarrow> vm.rel True (ev_StateDB e) (ev_StateDB e')))"
    "0 \<le> v \<Longrightarrow> \<not> readOnly e \<Longrightarrow> safe (Create (run_loop n tbl env) env e ref input gas v) (vm.create_post e gas)"
proof -
  note r = vm.run_loop_ok [OF instruction_sets_ok [OF assms(1)] assms(2), of n]
  show "0 \<le> v \<Longrightarrow> (readOnly e \<Longrightarrow> v = 0) \<Longrightarrow> safe (Call (run_loop n tbl env) env e ref addr input gas v) (vm.call_post e gas)"
    "0 \<le> v \<Longrightarrow> safe (CallCode (run_loop n tbl env) env e ref addr input gas v) (vm.call_post e gas)"
    "ref_contract ref = Some (a, Some u) \<Longrightarrow> 0 \<le> u \<Longrightarrow>
      safe (DelegateCall (run_loop n tbl env) env e ref addr input gas) (vm.call_post e gas)"
    "safe (StaticCall (run_loop n tbl env) env e ref addr input gas) (\<lambda>r. vm.call_post e gas r \<and>
      (case r of (ret, left, err, e') \<Rightarrow> vm.rel True (ev_StateDB e) (ev_StateDB e')))"
    "0 \<le> v \<Longrightarrow> \<not> readOnly e \<Longrightarrow> safe (Create (run_loop n tbl env) env e ref input gas v) (vm.create_post e gas)"
    using vm.Call_ok [OF r assms(2,5,3,4,6)] vm.CallCode_ok [OF r assms(2,5,3,4,6)] vm.DelegateCall_ok [OF r assms(2,5,3,4,6)]
      vm.StaticCall_ok [OF r assms(2,5,3,4,6)] vm.Create_ok [OF r assms(2,5,3) _ assms(4,6)] by blast+
qed

lemma GetNonce_value:
  assumes "state_ok s"
  shows "fst (GetNonce s a) = (case accounts_of s a of None \<Rightarrow> 0 | Some w \<Rightarrow> Nonce (av_data w))"
proof -
  obtain r t where gs: "getStateObject s a = (r, t)" by fastforce
  then show ?thesis using getStateObject_props(1) [OF gs] assms
    by (auto simp: GetNonce_def get_field_def accounts_of_def view_of_def state_ok_def split: option.split)
qed

text \<open>An account with money, for the witnesses.\<close>

lemma funded_state:
  obtains s where "AddBalance 5 30000 small_state = Inr s" "vm_good s" "balance_of s 5 = 30000" "fst (GetNonce s 5) = 0"
proof -
  obtain s where s: "AddBalance 5 30000 small_state = Inr s" "vm_rel False small_state s"
      "balance_of s = (balance_of small_state)(5 := balance_of small_state 5 + 30000)"
    using vm.AddBalance_raw [OF small_vm_good, of 30000 5] by auto
  have v: "account_or_new small_state x = view_of small_db (newObject small_db x emptyAccount)" for x
    by (simp add: account_or_new_def accounts_of_def obj_at_def small_state_def New_def OpenTrie_def)
  have "Balance (av_data (account_or_new small_state 5)) = Some 0"
    by (simp add: v view_of_alt newObject_def emptyAccount_def)
  then have "accounts_of s = (accounts_of small_state)(5 \<mapsto> with_balance (account_or_new small_state 5) 30000)"
    using AddBalance_accounts [OF small_state_ok, of 5 0 30000] s(1) by auto
  moreover have "state_ok s" using s(2) by (simp add: vm_rel_def vm_good_def)
  ultimately have "fst (GetNonce s 5) = 0"
    by (simp add: GetNonce_value v with_balance_def view_of_alt newObject_def emptyAccount_def)
  moreover have "balance_of s 5 = 30000" using s(3) by (simp add: balance_of_def v view_of_alt newObject_def emptyAccount_def)
  ultimately show thesis using that s(1) vm.raw_good [OF s(2)] by blast
qed

text \<open>A call of a precompiled contract, from an account that can pay the value.\<close>

lemma precompile_call:
  assumes "vm_good (ev_StateDB e)" "ev_depth e = 0" "0 \<le> v" "v \<le> balance_of (ev_StateDB e) (ref_Address ref)" "precompiles small_env e a \<noteq> None"
  obtains i s h c t where "Call rec small_env e ref a input gas v = run_and_settle rec small_env i (new_jumpdests ref (e\<lparr>ev_StateDB := s\<rparr>))
      (SetCallCode a h c (NewContract ref (AccountRef a) (Some v) gas)) input" "RevertToSnapshot i s = Inr t"
proof -
  obtain can s0 where t: "CanTransfer (ev_StateDB e) (ref_Address ref) v = Inr (can, s0)" "vm_keep (ev_StateDB e) s0" can
    using vm.CanTransfer_obtain [OF assms(1)] assms(4) by metis
  obtain i s1 where s1: "Snapshot s0 = (i, s1)" by fastforce
  have k1: "vm_keep s0 s1" by (rule vm.Snapshot_law [OF vm.keep_good [OF t(2)] s1])
  obtain ex s2 where s2: "Exist s1 a = (ex, s2)" by fastforce
  have k2: "vm_keep s1 s2" "\<not> ex \<Longrightarrow> vm.rel True s2 (CreateAccount a s2)" using vm.Exist_law [OF vm.keep_good [OF k1] s2] by auto
  define s3 where "s3 = (if ex then s2 else CreateAccount a s2)"
  have s3: "vm.rel True s1 s3" using k2 vm.rel_trans [OF vm.keep_rel [OF k2(1)]] by (auto simp: s3_def vm.keep_rel)
  have b3: "balance_of s3 = balance_of (ev_StateDB e)"
    using vm.CreateAccount_law [OF vm.keep_good [OF k2(1)], of a] vm.keep_bal [OF k2(1)] vm.keep_bal [OF k1] vm.keep_bal [OF t(2)] by (simp add: s3_def)
  obtain s4 where s4: "Transfer (ref_Address ref) a v s3 = Inr s4" "vm.rel (v = 0) s3 s4"
    using vm.Transfer_ok [OF vm.rel_good [OF s3] assms(3)] assms(4) b3 by metis
  obtain h s5 where s5: "GetCodeHash s4 a = (h, s5)" by fastforce
  have k5: "vm_keep s4 s5" by (rule vm.GetCodeHash_law [OF vm.rel_good [OF s4(2)] s5])
  obtain c s6 where s6: "GetCode s5 a = (c, s6)" by fastforce
  have "vm_keep s5 s6" using vm.GetCode_law [OF vm.keep_good [OF k5] s6] by blast
  then have "vm.rel False s1 s6"
    using vm.rel_trans [OF vm.rel_False [OF s3] vm.rel_trans [OF vm.rel_False [OF s4(2)] vm.keep_rel_any [OF vm.keep_trans [OF k5]]]] by blast
  then obtain s7 where "RevertToSnapshot i s6 = Inr s7" using vm.Revert_law [OF vm.keep_good [OF t(2)] s1] by blast
  then show thesis using that [of i s6 h "bytes_of c" s7] t(3) assms(2,5) s4(1)
    by (auto simp: Call_def t(1) lift_panic_def s1 s2 s3_def [symmetric] load_code_def s5 s6 CallCreateDepth_def Let_def)
qed

lemma new_jumpdests_state [simp]: "ev_StateDB (new_jumpdests ref e) = ev_StateDB e"
  by (simp add: new_jumpdests_def)

lemma precompile_out_of_gas:
  assumes "vm_good (ev_StateDB e)" "ev_depth e = 0" "0 \<le> v" "v \<le> balance_of (ev_StateDB e) (ref_Address ref)" "gas < 3000"
  shows "\<exists>e'. Call rec small_env e ref 1 [] gas v = Inr ([], 0, Some ErrOutOfGas, e')"
proof -
  have p: "precompiles small_env e' 1 = Some \<lparr>RequiredGas = ecrecover_RequiredGas,
      pc_Run = ecrecover_Run (db_keccak (sdb_db (ev_StateDB e'))) (env_crypto small_env)\<rparr>" for e'
    by (simp add: precompiles_def PrecompiledContractsByzantium_def)
  then have "precompiles small_env e 1 \<noteq> None" by simp
  from precompile_call [OF assms(1-4) this, of rec "[]" gas] show ?thesis using assms(5)
    by (auto simp: run_and_settle_def run_def SetCallCode_def p RunPrecompiledContract_def ecrecover_RequiredGas_def UseGas_def
        NewContract_def lift_panic_def consume_unless_reverted_def)
qed

lemma precompile_copies:
  assumes "vm_good (ev_StateDB e)" "ev_depth e = 0" "0 \<le> v" "v \<le> balance_of (ev_StateDB e) (ref_Address ref)"
  shows "\<exists>e'. Call rec small_env e ref 4 [1, 2] 1000 v = Inr ([1, 2], 982, None, e')"
proof -
  have p: "precompiles small_env e' 4 = Some \<lparr>RequiredGas = dataCopy_RequiredGas, pc_Run = dataCopy_Run\<rparr>" for e'
    by (simp add: precompiles_def PrecompiledContractsByzantium_def)
  then have "precompiles small_env e 4 \<noteq> None" by simp
  from precompile_call [OF assms this, of rec "[1, 2]" 1000] show ?thesis
    by (auto simp: run_and_settle_def run_def SetCallCode_def p RunPrecompiledContract_def dataCopy_RequiredGas_def dataCopy_Run_def word_gas_def UseGas_def
        NewContract_def lift_panic_def)
qed

text \<open>C18: A message call ends. From a well-formed state, with any code at the address, \<open>EVM.Call\<close>
  returns an outcome, with no more gas than it was given, a well-formed state and the depth and
  the protection flag as before, unless a jump in the code it runs meets a jump-destination vector that was cached for another code of
  the same hash and stops in the bounds check of that vector, the one panic that is left.\<close>

theorem Call_returns:
  assumes "tbl \<in> instruction_sets" "env_ok env" "vm_good (ev_StateDB evm)" "unat gas < n" "n \<le> 2 ^ 62"
    and "length input < 2 ^ 62" "0 \<le> v" "\<not> readOnly evm"
  shows "(\<exists>ret left err evm'. Call (run_loop n tbl env) env evm caller addr input gas v = Inr (ret, left, err, evm')
      \<and> left \<le> gas \<and> vm_good (ev_StateDB evm') \<and> ev_depth evm' = ev_depth evm \<and> \<not> readOnly evm')
    \<or> Call (run_loop n tbl env) env evm caller addr input gas v = Inl (VMPanic bitvec_panic)"
  using call_facts(1) [OF assms(1-6), of v caller addr] assms(7,8)
  by (auto simp: vm.call_post_def vm.evm_le_def dest!: safe_cases vm_rel_good)

theorem Call_returns_witness:
  "\<exists>s evm'. AddBalance 5 30000 small_state = Inr s \<and> Call (run_loop 1001 NewConstantinopleInstructionSet small_env) small_env (NewEVM s)
        (AccountRef 5) 4 [1, 2] 1000 3 = Inr ([1, 2], 982, None, evm')
      \<and> vm_good (ev_StateDB evm') \<and> ev_depth evm' = 0 \<and> \<not> readOnly evm'"
proof -
  obtain s where s: "AddBalance 5 30000 small_state = Inr s" "vm_good s" "balance_of s 5 = 30000" by (rule funded_state)
  obtain e where e: "Call (run_loop 1001 NewConstantinopleInstructionSet small_env) small_env (NewEVM s) (AccountRef 5) 4 [1, 2] 1000 3 = Inr ([1, 2], 982, None, e)"
    using precompile_copies [of "NewEVM s" 3 "AccountRef 5"] s by (auto simp: NewEVM_def AccountRef_def)
  show ?thesis
    using Call_returns [of NewConstantinopleInstructionSet small_env "NewEVM s" 1000 1001 "[1, 2]" 3 "AccountRef 5" 4] s e
    by (simp add: small_env_ok instruction_sets_def NewEVM_def)
qed

text \<open>C6: A call that fails leaves no trace. Whenever a call of one of the four kinds returns an
  error, whatever the called code did before failing, the observable state is the one before
  the call. The value is not negative, and zero in a static context, as the interpreter ensures; the caller of a delegate call is a contract with a value, as
  the code dereferences it.\<close>

theorem failed_call_reverts:
  assumes "tbl \<in> instruction_sets" "env_ok env" "vm_good (ev_StateDB evm)" "unat gas < n" "n \<le> 2 ^ 62"
    and "length input < 2 ^ 62" "0 \<le> v" "readOnly evm \<longrightarrow> v = 0"
    and "Call (run_loop n tbl env) env evm caller addr input gas v = Inr (ret, left, Some err, evm')
      \<or> CallCode (run_loop n tbl env) env evm caller addr input gas v = Inr (ret, left, Some err, evm')
      \<or> DelegateCall (run_loop n tbl env) env evm caller addr input gas = Inr (ret, left, Some err, evm')
        \<and> (\<exists>a u. ref_contract caller = Some (a, Some u) \<and> 0 \<le> u)
      \<or> StaticCall (run_loop n tbl env) env evm caller addr input gas = Inr (ret, left, Some err, evm')"
  shows "observe (ev_StateDB evm') = observe (ev_StateDB evm)"
proof -
  have "vm.call_post evm gas (ret, left, Some err, evm')"
    using assms(9) safeD [OF call_facts(1) [OF assms(1-7)]] safeD [OF call_facts(2) [OF assms(1-7)]]
      safeD [OF call_facts(3) [OF assms(1-6)]] safeD [OF call_facts(4) [OF assms(1-6)]] assms(8) by blast
  then show ?thesis by (auto simp: vm.call_post_def intro: vm_keep_observe)
qed

text \<open>A static call of the signature recovery contract with too little gas.\<close>

lemma empty_load_code:
  "stateObjects s = Map.empty \<Longrightarrow> sdb_trie s = (\<lambda>_. Absent) \<Longrightarrow> sdb_dbErr s = None \<Longrightarrow>
   load_code a c s = (SetCallCode a 0 [] c, s)"
  by (simp add: load_code_def GetCodeHash_def get_field_def getStateObject_def GetCode_def sdb_setError_def bytes_of_def)

definition small_ref :: ContractRef where
  "small_ref = contract_ref (NewContract (AccountRef 1) (AccountRef 2) (Some 0) 100)"

lemma small_static_call:
  "\<exists>e. StaticCall rec small_env (NewEVM small_state) small_ref 1 [] 10 = Inr ([], 0, Some ErrOutOfGas, e)"
proof -
  obtain i s1 where s1: "Snapshot small_state = (i, s1)" by fastforce
  have k: "vm_keep small_state s1" by (rule vm.Snapshot_law [OF small_vm_good s1])
  then obtain s2 where s2: "RevertToSnapshot i s1 = Inr s2"
    using vm.Revert_law [OF small_vm_good s1 vm.rel_refl [OF vm.keep_good [OF k]]] by blast
  have l: "load_code a c s1 = (SetCallCode a 0 [] c, s1)" for a c
    using s1 by (intro empty_load_code) (auto simp: Snapshot_def small_state_def New_def OpenTrie_def)
  have p: "precompiles small_env e 1 = Some \<lparr>RequiredGas = ecrecover_RequiredGas,
      pc_Run = ecrecover_Run (db_keccak (sdb_db (ev_StateDB e))) (env_crypto small_env)\<rparr>" for e
    by (simp add: precompiles_def PrecompiledContractsByzantium_def)
  show ?thesis
    by (simp add: StaticCall_def NewEVM_def CallCreateDepth_def s1 l p run_and_settle_def run_def SetCallCode_def
        new_jumpdests_def small_ref_def contract_ref_def RunPrecompiledContract_def ecrecover_RequiredGas_def UseGas_def
        NewContract_def lift_panic_def consume_unless_reverted_def s2)
qed

theorem failed_call_reverts_witness:
  "\<exists>s e. AddBalance 5 30000 small_state = Inr s \<and> Call (run_loop 11 NewByzantiumInstructionSet small_env) small_env (NewEVM s) (AccountRef 5) 1 [] 10 3
       = Inr ([], 0, Some ErrOutOfGas, e) \<and> observe (ev_StateDB e) = observe s"
proof -
  obtain s where s: "AddBalance 5 30000 small_state = Inr s" "vm_good s" "balance_of s 5 = 30000" by (rule funded_state)
  obtain e where e: "Call (run_loop 11 NewByzantiumInstructionSet small_env) small_env (NewEVM s) (AccountRef 5) 1 [] 10 3 = Inr ([], 0, Some ErrOutOfGas, e)"
    using precompile_out_of_gas [of "NewEVM s" 3 "AccountRef 5" 10] s by (auto simp: NewEVM_def AccountRef_def)
  have "NewByzantiumInstructionSet \<in> instruction_sets" by (simp add: instruction_sets_def)
  then have "observe (ev_StateDB e) = observe (ev_StateDB (NewEVM s))"
    by (rule failed_call_reverts [OF _ small_env_ok, where v = 3 and n = 11 and gas = 10 and caller = "AccountRef 5" and addr = 1
        and input = "[]" and ret = "[]" and left = 0 and err = ErrOutOfGas]) (use e s in \<open>simp_all add: NewEVM_def\<close>)
  then show ?thesis using e s(1) by (auto simp: NewEVM_def)
qed

text \<open>C12: Running code creates no money. Whatever a message call of one of the four kinds or a contract
  creation runs, with value transfers, nested calls and self-destructions, failed or not, the
  sum of all balances after it is at most the sum before. The value is not negative, and the caller of a delegate call is a contract with a
  value.\<close>

theorem calls_create_no_money:
  assumes "tbl \<in> instruction_sets" "env_ok env" "vm_good (ev_StateDB evm)" "unat gas < n" "n \<le> 2 ^ 62"
    and "length input < 2 ^ 62" "0 \<le> v" "\<not> readOnly evm"
    and "Call (run_loop n tbl env) env evm caller addr input gas v = Inr (ret, left, err, evm')
      \<or> CallCode (run_loop n tbl env) env evm caller addr input gas v = Inr (ret, left, err, evm')
      \<or> DelegateCall (run_loop n tbl env) env evm caller addr input gas = Inr (ret, left, err, evm')
        \<and> (\<exists>a u. ref_contract caller = Some (a, Some u) \<and> 0 \<le> u)
      \<or> StaticCall (run_loop n tbl env) env evm caller addr input gas = Inr (ret, left, err, evm')
      \<or> Create (run_loop n tbl env) env evm caller input gas v = Inr (ret, addr', left, err, evm')"
  shows "sum (balance_of (ev_StateDB evm')) UNIV \<le> sum (balance_of (ev_StateDB evm)) UNIV"
proof -
  have "vm.call_post evm gas (ret, left, err, evm') \<or> vm.create_post evm gas (ret, addr', left, err, evm')"
    using assms(9) safeD [OF call_facts(1) [OF assms(1-7)]] safeD [OF call_facts(2) [OF assms(1-7)]]
      safeD [OF call_facts(3) [OF assms(1-6)]] safeD [OF call_facts(4) [OF assms(1-6)]]
      safeD [OF call_facts(5) [OF assms(1-8)]] assms(8) by blast
  then show ?thesis by (auto simp: vm.call_post_def vm.create_post_def vm.evm_le_def vm.rel_def vm.total_def)
qed

theorem calls_create_no_money_witness:
  "\<exists>s e. AddBalance 5 30000 small_state = Inr s \<and> balance_of s 5 = 30000
     \<and> Call (run_loop 1001 NewByzantiumInstructionSet small_env) small_env (NewEVM s) (AccountRef 5) 4 [1, 2] 1000 3 = Inr ([1, 2], 982, None, e)
     \<and> sum (balance_of (ev_StateDB e)) UNIV \<le> sum (balance_of s) UNIV"
proof -
  obtain s where s: "AddBalance 5 30000 small_state = Inr s" "vm_good s" "balance_of s 5 = 30000" by (rule funded_state)
  obtain e where e: "Call (run_loop 1001 NewByzantiumInstructionSet small_env) small_env (NewEVM s) (AccountRef 5) 4 [1, 2] 1000 3 = Inr ([1, 2], 982, None, e)"
    using precompile_copies [of "NewEVM s" 3 "AccountRef 5"] s by (auto simp: NewEVM_def AccountRef_def)
  have "NewByzantiumInstructionSet \<in> instruction_sets" by (simp add: instruction_sets_def)
  then have "sum (balance_of (ev_StateDB e)) UNIV \<le> sum (balance_of (ev_StateDB (NewEVM s))) UNIV"
    by (rule calls_create_no_money [OF _ small_env_ok, where v = 3 and n = 1001 and gas = 1000 and caller = "AccountRef 5" and addr = 4
        and input = "[1, 2]" and ret = "[1, 2]" and left = 982 and err = None]) (use e s in \<open>simp_all add: NewEVM_def\<close>)
  then show ?thesis using e s(1,3) by (auto simp: NewEVM_def)
qed

text \<open>Errors other than a revert and the two checks that come before the run take all the gas
  of a call.\<close>

theorem failed_call_takes_gas:
  assumes "Call rec env evm caller addr input gas v = Inr (ret, left, Some err, evm')
      \<or> CallCode rec env evm caller addr input gas v = Inr (ret, left, Some err, evm')
      \<or> DelegateCall rec env evm caller addr input gas = Inr (ret, left, Some err, evm')
      \<or> StaticCall rec env evm caller addr input gas = Inr (ret, left, Some err, evm')"
    and "err \<notin> {errExecutionReverted, ErrDepth, ErrInsufficientBalance}"
  shows "left = 0"
proof -
  have r: "left = 0" if "run_and_settle rec env i e c input = Inr (ret, left, Some err, e')" for i e c e'
    using that assms(2) by (auto simp: run_and_settle_def consume_unless_reverted_def UseGas_def split: if_splits)
  show ?thesis
    using assms
    by (elim disjE)
      (auto simp: Call_def CallCode_def DelegateCall_def StaticCall_def Let_def dest!: r split: if_splits prod.splits)
qed

theorem failed_call_takes_gas_witness:
  "\<exists>e. StaticCall (run_loop 11 NewByzantiumInstructionSet small_env) small_env (NewEVM small_state) small_ref 1 [] 10
       = Inr ([], 0, Some ErrOutOfGas, e)"
proof -
  obtain e where e: "StaticCall (run_loop 11 NewByzantiumInstructionSet small_env) small_env (NewEVM small_state) small_ref 1 [] 10
      = Inr ([], 0, Some ErrOutOfGas, e)" using small_static_call by blast
  then have "(0 :: u64) = 0" by (intro failed_call_takes_gas [where err = ErrOutOfGas]) auto
  then show ?thesis using e by blast
qed

text \<open>C11: A static call writes nothing. Whatever code it runs, with all the calls nested in it, the
  accounts, the refund counter and the logs are as before, and the protection flag is restored.\<close>

theorem StaticCall_writes_nothing:
  assumes "tbl \<in> instruction_sets" "env_ok env" "vm_good (ev_StateDB evm)" "unat gas < n" "n \<le> 2 ^ 62"
    and "length input < 2 ^ 62" "StaticCall (run_loop n tbl env) env evm caller addr input gas = Inr (ret, left, err, evm')"
  shows "account_or_new (ev_StateDB evm') = account_or_new (ev_StateDB evm)
    \<and> sdb_refund (ev_StateDB evm') = sdb_refund (ev_StateDB evm) \<and> GetLogs (ev_StateDB evm') = GetLogs (ev_StateDB evm)
    \<and> readOnly evm' = readOnly evm"
  using call_facts(4) [OF assms(1-6), of caller addr] assms(7)
  by (auto simp: vm.rel_def vm_rel_def untouched_def vm.call_post_def vm.evm_le_def)

theorem StaticCall_writes_nothing_witness:
  "\<exists>e. StaticCall (run_loop 11 NewByzantiumInstructionSet small_env) small_env (NewEVM small_state) small_ref 1 [] 10
       = Inr ([], 0, Some ErrOutOfGas, e) \<and> account_or_new (ev_StateDB e) = account_or_new small_state"
proof -
  obtain e where e: "StaticCall (run_loop 11 NewByzantiumInstructionSet small_env) small_env (NewEVM small_state) small_ref 1 [] 10
      = Inr ([], 0, Some ErrOutOfGas, e)" using small_static_call by blast
  have "NewByzantiumInstructionSet \<in> instruction_sets" by (simp add: instruction_sets_def)
  from StaticCall_writes_nothing [OF this small_env_ok _ _ _ _ e] show ?thesis using e by (simp add: NewEVM_def small_vm_good)
qed

text \<open>Contract creation ends, too, with no more gas than it was given and a well-formed state.\<close>

theorem Create_returns:
  assumes "tbl \<in> instruction_sets" "env_ok env" "vm_good (ev_StateDB evm)" "unat gas < n" "n \<le> 2 ^ 62"
    and "length code < 2 ^ 62" "0 \<le> v" "\<not> readOnly evm"
  shows "(\<exists>ret addr left err evm'. Create (run_loop n tbl env) env evm caller code gas v = Inr (ret, addr, left, err, evm')
      \<and> left \<le> gas \<and> vm_good (ev_StateDB evm') \<and> ev_depth evm' = ev_depth evm)
    \<or> Create (run_loop n tbl env) env evm caller code gas v = Inl (VMPanic bitvec_panic)"
  using call_facts(5) [OF assms(1-6), of v caller] assms(7,8)
  by (auto simp: vm.create_post_def vm.evm_le_def dest!: safe_cases vm_rel_good)

theorem Create_returns_witness:
  "(\<exists>ret addr left err evm'. Create (run_loop 1001 NewByzantiumInstructionSet small_env) small_env (NewEVM small_state)
        (AccountRef 1) [0] 1000 0 = Inr (ret, addr, left, err, evm')
      \<and> left \<le> 1000 \<and> vm_good (ev_StateDB evm') \<and> ev_depth evm' = 0)
    \<or> Create (run_loop 1001 NewByzantiumInstructionSet small_env) small_env (NewEVM small_state)
        (AccountRef 1) [0] 1000 0 = Inl (VMPanic bitvec_panic)"
  using Create_returns [of NewByzantiumInstructionSet small_env "NewEVM small_state" 1000 1001 "[0]" 0 "AccountRef 1"]
  by (simp add: small_env_ok small_vm_good instruction_sets_def NewEVM_def)

section \<open>Gas\<close>

text \<open>The price of \<open>w\<close> words of memory.\<close>

definition memory_fee :: "nat \<Rightarrow> nat" where
  "memory_fee w = 3 * w + w * w div 512"

lemma memory_fee_mono: "v \<le> w \<Longrightarrow> memory_fee v \<le> memory_fee w"
  by (simp add: memory_fee_def add_mono div_le_mono mult_le_mono)

lemma memory_fee_bound: "w < 2 ^ 32 \<Longrightarrow> w * w < 2 ^ 64 \<and> memory_fee w < 2 ^ 60"
proof -
  assume w: "w < 2 ^ 32"
  have "w * w < 2 ^ 32 * 2 ^ 32" using w by (intro mult_strict_mono) simp_all
  then show ?thesis using w div_le_mono [of "w * w" "2 ^ 64" 512] by (simp add: memory_fee_def)
qed

lemma total_fee_word:
  assumes w: "unat (t :: u64) = w" "w < 2 ^ 32"
  shows "t * MemoryGas + t * t div QuadCoeffDiv = word_of_nat (memory_fee w)"
proof -
  have b: "w * w < 2 ^ 64" "memory_fee w < 2 ^ 60" using memory_fee_bound [OF w(2)] by blast+
  have "unat (t * t) = w * w" using w(1) b(1) by (simp add: unat_word_ariths)
  moreover have "unat (t * MemoryGas) = 3 * w" using w by (simp add: unat_word_ariths gas_consts)
  ultimately have "unat (t * MemoryGas + t * t div QuadCoeffDiv) = memory_fee w"
    using b(2) by (simp add: unat_word_ariths unat_div gas_consts memory_fee_def)
  moreover have "unat (word_of_nat (memory_fee w) :: u64) = memory_fee w" using b(2) by (subst unat_of_nat) simp
  ultimately show ?thesis by (simp only: word_unat_eq_iff)
qed

text \<open>C30: The price of memory is exact up to 2^37 bytes. When the memory holds \<open>k\<close> words and its last
  price is the price of \<open>k\<close> words, growing it to cover \<open>ms\<close> bytes costs the difference between
  the two prices, computed without overflow, and the last price stays the price of the size.\<close>

theorem memory_gas_exact:
  assumes "unat ms \<le> 2 ^ 37 - 32" "length (store mem) = 32 * k" "lastGasCost mem = word_of_nat (memory_fee k)" "k < 2 ^ 32"
  shows "\<exists>fee mem'. memoryGasCost mem ms = (Inr fee, mem')
    \<and> unat fee = memory_fee (max k ((unat ms + 31) div 32)) - memory_fee k
    \<and> unat (lastGasCost mem') = memory_fee (max k ((unat ms + 31) div 32))"
proof -
  define w where "w = (unat ms + 31) div 32"
  have w: "w < 2 ^ 32" "unat (toWordSize ms) = w" using assms(1) toWordSize_bound [of ms] by (simp_all add: w_def)
  have fk: "unat (lastGasCost mem) = memory_fee k"
    unfolding assms(3) using memory_fee_bound [OF assms(4)] by (subst unat_of_nat) simp
  have "unat (toWordSize ms * 32) = 32 * w" using w by (simp add: unat_word_ariths)
  moreover have "unat (word_of_nat (mem_Len mem) :: u64) = 32 * k"
    unfolding mem_Len_def assms(2) using assms(4) by (subst unat_of_nat) simp
  ultimately have grow: "toWordSize ms * 32 > word_of_nat (mem_Len mem) \<longleftrightarrow> k < w" by (simp add: word_less_nat_alt)
  have b: "\<not> ms > 0xffffffffe0" using assms(1) by (simp add: word_less_nat_alt)
  show ?thesis
  proof (cases "w \<le> k")
    case True
    then show ?thesis using grow b fk by (auto simp: memoryGasCost_def Let_def w_def [symmetric] max_def)
  next
    case False
    then have ms: "ms \<noteq> 0" by (auto simp: w_def)
    have tot: "unat (word_of_nat (memory_fee w) :: u64) = memory_fee w"
      using memory_fee_bound [OF w(1)] by (subst unat_of_nat) simp
    have le: "lastGasCost mem \<le> word_of_nat (memory_fee w)"
      using False by (simp add: word_le_nat_alt fk tot memory_fee_mono)
    have "unat (word_of_nat (memory_fee w) - lastGasCost mem) = memory_fee w - memory_fee k"
      using unat_sub [OF le] by (simp add: tot fk)
    then show ?thesis
      using False grow b ms tot by (simp add: memoryGasCost_def Let_def total_fee_word [OF w(2,1)] w_def [symmetric] max_def)
  qed
qed

theorem memory_gas_exact_witness:
  "\<exists>fee mem'. memoryGasCost NewMemory 1000000 = (Inr fee, mem') \<and> unat fee = 3 * 31250 + 31250 * 31250 div 512"
  using memory_gas_exact [of 1000000 NewMemory 0] by (auto simp: NewMemory_def memory_fee_def)

text \<open>The bound that the gas function checks does not rule out overflow, as its comment claims:
  for 2^37 bytes, well below the bound 0xffffffffe0, the square of the number of words wraps to
  zero, and the price of a memory of 2^32 words is the linear part alone.\<close>

theorem memory_gas_wraps:
  "fst (memoryGasCost NewMemory 0x2000000000) = Inr 0x300000000 \<and> memory_fee (2 ^ 32) = 0x300000000 + 2 ^ 55"
proof -
  have "toWordSize 0x2000000000 = 0x100000000" by (simp add: toWordSize_def MaxUint64_def)
  then show ?thesis by (simp add: memoryGasCost_def Let_def NewMemory_def mem_Len_def gas_consts memory_fee_def)
qed

text \<open>A call never gets more than all but one 64th of the gas that is left after its own price,
  and exactly that much when it asks for more.\<close>

theorem callGas_all_but_one_64th:
  assumes "0 < gt_CreateBySuicide gt" "base \<le> avail" "0 \<le> cost"
  shows "\<exists>g. callGas gt avail base cost = Inr g
    \<and> int (unat g) = min cost (int ((unat avail - unat base) - (unat avail - unat base) div 64))"
proof -
  define d where "d = unat avail - unat base"
  define rest where "rest = avail - base"
  have r: "unat rest = d" using assms(2) by (simp add: rest_def d_def unat_sub)
  have le: "rest div 64 \<le> rest" by (simp add: word_le_nat_alt unat_div)
  have g: "unat (rest - rest div 64) = d - d div 64" using unat_sub [OF le] r by (simp add: unat_div)
  have gi: "uint (rest - rest div 64) = int (d - d div 64)" unfolding g [symmetric] by simp
  have "unat (rest - rest div 64) < 2 ^ 64" by (rule order.strict_trans2 [OF unsigned_less]) simp
  then have small: "int (d - d div 64) < 2 ^ 64" unfolding g by simp
  show ?thesis
  proof (cases "BitLen cost > 64 \<or> rest - rest div 64 < Uint64 cost")
    case True
    have "int (d - d div 64) \<le> cost"
    proof (cases "cost < 2 ^ 64")
      case lt: True
      then have "\<not> BitLen cost > 64" using BitLen_le [OF assms(3), of 64] by simp
      then have "rest - rest div 64 < Uint64 cost" using True by blast
      then show ?thesis using lt assms(3) by (simp add: word_less_nat_alt g Uint64_unat zless_nat_eq_int_zless)
    qed (use small in simp)
    then show ?thesis
      using True assms(1) gi by (simp add: callGas_def Let_def rest_def [symmetric] d_def [symmetric])
  next
    case False
    then have lt: "cost < 2 ^ 64" using BitLen_less [of cost] power_increasing [of "BitLen cost" 64 "2 :: int"] by simp
    then have u: "int (unat (Uint64 cost)) = cost" using assms(3) by (simp add: Uint64_unat)
    have "unat (Uint64 cost) \<le> d - d div 64" using False by (simp add: word_less_nat_alt g)
    then have "int (unat (Uint64 cost)) \<le> int (d - d div 64)" by (simp only: of_nat_le_iff)
    then have "cost \<le> int (d - d div 64)" by (simp only: u)
    then show ?thesis
      using False assms(1) u by (auto simp: callGas_def Let_def rest_def [symmetric] d_def [symmetric])
  qed
qed

theorem callGas_all_but_one_64th_witness:
  "\<exists>g. callGas DefualtGasTable 64700 700 (2 ^ 200) = Inr g \<and> int (unat g) = 63000"
  using callGas_all_but_one_64th [of DefualtGasTable 700 64700 "2 ^ 200"] by (simp add: DefualtGasTable_def min_def)

section \<open>Transfers\<close>

text \<open>A transfer that the sender can pay moves exactly the amount: the sender has the amount
  less, the recipient the amount more, every other balance is the same, a transfer to oneself
  changes no balance, and the balances stay non-negative.\<close>

theorem Transfer_moves_value:
  assumes "vm_good s" "0 \<le> v" "v \<le> balance_of s a"
  shows "\<exists>s'. Transfer a b v s = Inr s' \<and> vm_good s' \<and>
    balance_of s' = (if a = b then balance_of s else (balance_of s)(a := balance_of s a - v, b := balance_of s b + v))"
  using vm.Transfer_ok [OF assms, of b] by (auto intro: vm_rel_good)

theorem Transfer_moves_value_witness:
  "\<exists>s s'. AddBalance 1 9 small_state = Inr s \<and> Transfer 1 2 4 s = Inr s' \<and> balance_of s' 1 = 5 \<and> balance_of s' 2 = 4"
proof -
  obtain s where s: "AddBalance 1 9 small_state = Inr s" "vm_rel False small_state s"
      "balance_of s = (balance_of small_state)(1 := balance_of small_state 1 + 9)"
    using vm.AddBalance_raw [OF small_vm_good, of 9 1] by auto
  have z: "balance_of small_state x = 0" for x
    by (simp add: balance_of_def account_or_new_def accounts_of_def obj_at_def small_state_def New_def OpenTrie_def
        view_of_alt newObject_def emptyAccount_def)
  show ?thesis using Transfer_moves_value [OF vm.raw_good [OF s(2)], of 4 1 2] s z by auto
qed

section \<open>Words\<close>

text \<open>C26: On the representations of 256-bit words the arithmetic operations are those of the words:
  they return, wrap around modulo 2^256, and division and remainder by zero give zero; the sum
  and the product of the modular operations do not wrap.\<close>

theorem arithmetic_is_word_arithmetic:
  fixes a b c :: "256 word"
  shows "opAdd (uint a # uint b # st) = Inr (uint (a + b) # st) \<and> opSub (uint a # uint b # st) = Inr (uint (a - b) # st) \<and>
    opMul (uint a # uint b # st) = Inr (uint (a * b) # st) \<and> opDiv (uint a # uint b # st) = Inr (uint (a div b) # st) \<and>
    opMod (uint a # uint b # st) = Inr (uint (if b = 0 then 0 else a mod b) # st) \<and>
    opExp (uint a # uint b # st) = Inr (uint (a ^ unat b) # st) \<and>
    opAddmod (uint a # uint b # uint c # st) = Inr ((if c = 0 then 0 else (uint a + uint b) mod uint c) # st) \<and>
    opMulmod (uint a # uint b # uint c # st) = Inr ((if c = 0 then 0 else (uint a * uint b) mod uint c) # st)"
  by (intro conjI word_ops)

text \<open>C27: The signed operations are those of the two's complement reading of the words: division
  rounds towards zero and wraps for the least number divided by minus one, the remainder has
  the sign of the dividend, comparisons are signed, and sign extension copies the sign bit of
  the byte named.\<close>

theorem signed_arithmetic_is_word_arithmetic:
  fixes a b :: "256 word"
  shows "opSdiv (uint a # uint b # st) = Inr (uint (word_of_int (sint a sdiv sint b) :: 256 word) # st) \<and>
    opSmod (uint a # uint b # st) = Inr (uint (if b = 0 then 0 else word_of_int (sint a smod sint b) :: 256 word) # st) \<and>
    opSlt (uint a # uint b # st) = Inr (bool_int (sint a < sint b) # st) \<and>
    opSgt (uint a # uint b # st) = Inr (bool_int (sint a > sint b) # st) \<and>
    opSignExtend (uint a # uint b # st) = Inr (uint (signed_take_bit (8 * unat a + 7) b) # st)"
  by (intro conjI word_ops)

text \<open>C28: Comparisons, bitwise operations, byte selection and the shifts to the left and to the right, logical and
  arithmetic, are those of the words, shift counts of 256 and more included, with one exception: the arithmetic shift
  of zero by 256 or more gives minus one, where the shift of the words gives zero.\<close>

theorem bit_operations_are_word_operations:
  fixes a b :: "256 word"
  shows "opLt (uint a # uint b # st) = Inr (bool_int (a < b) # st) \<and> opGt (uint a # uint b # st) = Inr (bool_int (a > b) # st) \<and>
    opEq (uint a # uint b # st) = Inr (bool_int (a = b) # st) \<and> opIszero (uint a # st) = Inr (bool_int (a = 0) # st) \<and>
    opAnd (uint a # uint b # st) = Inr (uint (a AND b) # st) \<and> opOr (uint a # uint b # st) = Inr (uint (a OR b) # st) \<and>
    opXor (uint a # uint b # st) = Inr (uint (a XOR b) # st) \<and> opNot (uint a # st) = Inr (uint (NOT a) # st) \<and>
    opByte (uint a # uint b # st) = Inr (uint (if uint a < 32 then drop_bit (8 * (31 - unat a)) b AND 0xFF else 0) # st) \<and>
    opSHL (uint a # uint b # st) = Inr (uint (push_bit (unat a) b) # st) \<and>
    opSHR (uint a # uint b # st) = Inr (uint (drop_bit (unat a) b) # st) \<and>
    opSAR (uint a # uint b # st) = Inr (uint (if uint a \<ge> 256 \<and> b = 0 then - 1 else signed_drop_bit (unat a) b) # st)"
  by (intro conjI word_ops)

end
