(* ===== verification/TransitionProps.thy ===== *)
theory TransitionProps
  imports Transition VMProps
begin

text \<open>
  What the development shows of a transaction: its intrinsic gas is the schedule's, a rejected
  transaction changes nothing, an executed one uses no more gas than it bought, returns the rest
  to the pool of the block, creates no money, and when it fails costs its sender exactly the gas
  used.
\<close>

section \<open>Gas\<close>

lemma st_simps [simp]:
  "st_state (put_st_state s st) = s" "st_gp (put_st_state s st) = st_gp st" "st_tx (put_st_state s st) = st_tx st"
  "st_from (put_st_state s st) = st_from st" "st_gas (put_st_state s st) = st_gas st"
  "st_initialGas (put_st_state s st) = st_initialGas st" "st_evm (put_st_state s st) = (st_evm st)\<lparr>ev_StateDB := s\<rparr>"
  "st_state (st\<lparr>st_gp := gp\<rparr>) = st_state st" "st_state (st\<lparr>st_gas := g\<rparr>) = st_state st"
  "st_state (st\<lparr>st_initialGas := g\<rparr>) = st_state st" "st_state (st\<lparr>st_evm := e\<rparr>) = ev_StateDB e"
  by (simp_all add: st_state_def put_st_state_def)

lemma u64_lt: "unat (w :: u64) < 2 ^ 64"
  by (rule order.strict_trans2 [OF unsigned_less]) simp

lemma u64_of_nat: "n < 2 ^ 64 \<Longrightarrow> unat (of_nat n :: u64) = n"
  by (simp add: unat_of_nat)

lemma refund_bounds:
  fixes gas initial cap :: u64
  assumes "gas \<le> initial"
  defines "refund \<equiv> (if (initial - gas) div 2 > cap then cap else (initial - gas) div 2)"
  shows "gas \<le> gas + refund" "gas + refund \<le> initial"
proof -
  have "refund \<le> initial - gas"
    unfolding refund_def word_le_nat_alt by (auto simp: word_less_nat_alt unat_div)
  moreover have "unat (initial - gas) = unat initial - unat gas" using assms(1) by (rule unat_sub)
  ultimately have r: "unat refund \<le> unat initial - unat gas" by (simp add: word_le_nat_alt)
  have le: "unat gas \<le> unat initial" using assms(1) by (simp add: word_le_nat_alt)
  have "unat gas + unat refund < 2 ^ 64" using r le u64_lt [of initial] by simp
  then have "unat (gas + refund) = unat gas + unat refund" by (subst unat_add_lem [symmetric]) simp
  then show "gas \<le> gas + refund" "gas + refund \<le> initial" using r le by (simp_all add: word_le_nat_alt)
qed

lemma AddGas_ok: "g \<le> initial \<Longrightarrow> initial \<le> gp \<Longrightarrow> AddGas g (gp - initial) = Inr (gp - (initial - g))"
proof -
  assume a: "g \<le> initial" "initial \<le> gp"
  have "gp - initial \<le> MaxUint64 - g"
  proof -
    have "unat (MaxUint64 - g) = unat MaxUint64 - unat g" by (rule unat_sub) (simp add: MaxUint64_def)
    moreover have "unat (gp - initial) = unat gp - unat initial" using a(2) by (rule unat_sub)
    moreover have "unat gp < 2 ^ 64" by (rule u64_lt)
    ultimately show ?thesis using a unfolding MaxUint64_unat word_le_nat_alt by simp
  qed
  then show ?thesis by (simp add: AddGas_def not_less [symmetric])
qed

text \<open>The balances after the sender paid the fee to the coinbase.\<close>

definition pay_fee :: "address \<Rightarrow> address \<Rightarrow> int \<Rightarrow> (address \<Rightarrow> int) \<Rightarrow> address \<Rightarrow> int" where
  "pay_fee from coinbase fee b = (let b1 = b(from := b from - fee) in b1(coinbase := b1 coinbase + fee))"

text \<open>The errors of the checks that come before the gas is bought.\<close>

definition refused :: "exec_error \<Rightarrow> bool" where
  "refused e \<longleftrightarrow> e = ErrNonceTooHigh \<or> e = ErrNonceTooLow \<or> e = errInsufficientBalanceForGas \<or> e = ErrGasLimitReached"

lemma preCheck_refused: "preCheck st = Inr (Some e, st1) \<Longrightarrow> refused e"
  by (auto simp: preCheck_def buyGas_def SubGas_def refused_def Let_def split: prod.splits if_splits)

lemma IntrinsicGas_not_refused: "IntrinsicGas data tp creation = Inl e \<Longrightarrow> \<not> refused e"
  by (auto simp: IntrinsicGas_def refused_def Let_def split: if_splits)

context statedb
begin

lemma preCheck_ok:
  assumes "good (st_state st)" "0 \<le> tx_GasPrice (st_tx st)"
  shows "tot (preCheck st) (\<lambda>(err, st1). \<exists>s. case err of
      Some e \<Rightarrow> keep (st_state st) s \<and> st1 = put_st_state s st
    | None \<Rightarrow> (let limit = tx_GasLimit (st_tx st); fee = uint limit * tx_GasPrice (st_tx st) in
        st1 = put_st_state s (st\<lparr>st_gp := st_gp st - limit, st_gas := st_gas st + limit, st_initialGas := limit\<rparr>)
        \<and> limit \<le> st_gp st \<and> rel False (st_state st) s
        \<and> bal s = (bal (st_state st))(st_from st := bal (st_state st) (st_from st) - fee)
        \<and> fee \<le> bal (st_state st) (st_from st)))"
proof -
  define fee where "fee = uint (tx_GasLimit (st_tx st)) * tx_GasPrice (st_tx st)"
  have fee: "0 \<le> fee" using assms(2) by (simp add: fee_def)
  obtain n s1 where s1: "GetNonce (st_state st) (st_from st) = (n, s1)" by fastforce
  have k1: "keep (st_state st) s1" by (rule GetNonce_law [OF assms(1) s1])
  obtain p s2 where s2: "GetBalance s1 (st_from st) = (p, s2)" by fastforce
  have p: "p = Some (bal (st_state st) (st_from st))" and k2: "keep (st_state st) s2"
    using GetBalance_law [OF keep_good [OF k1] s2] keep_bal [OF k1] keep_trans [OF k1] by auto
  have b2: "bal s2 = bal (st_state st)" by (rule keep_bal [OF k2])
  note put = put_st_state_def
  show ?thesis
  proof (cases "fee \<le> bal (st_state st) (st_from st)")
    case True
    then obtain s3 where s3: "SubBalance (st_from st) fee s2 = Inr s3" "rel (fee = 0) s2 s3"
        "bal s3 = (bal s2)(st_from st := bal s2 (st_from st) - fee)"
      using SubBalance_law [OF keep_good [OF k2] fee, of "st_from st"] b2 by auto
    have "rel False (st_state st) s3" using rel_trans [OF keep_rel_any [OF k2] rel_False [OF s3(2)]] .
    then show ?thesis using True k1 k2 s3 b2
      by (auto simp: preCheck_def buyGas_def s1 s2 p deref_def fee_def [symmetric] SubGas_def Let_def put)
  next
    case False
    then show ?thesis using k1 k2
      by (auto simp: preCheck_def buyGas_def s1 s2 p deref_def fee_def [symmetric] Let_def put)
  qed
qed


definition message_post :: "StateTransition \<Rightarrow> bytes \<times> u64 \<times> vm_error option \<times> EVM \<Rightarrow> bool" where
  "message_post st = (\<lambda>(ret, left, vmerr, evm). left \<le> st_gas st \<and> evm_le (st_evm st) evm
     \<and> (vmerr \<noteq> None \<longrightarrow> tx_Tos (st_tx st) \<noteq> None \<longrightarrow> bal (ev_StateDB evm) = bal (st_state st)))"

lemma run_message_ok:
  assumes r: "rec_ok N rec" "env_ok env" "N \<le> 2 ^ 62" and st: "good (st_state st)" "\<not> readOnly (st_evm st)" "unat (st_gas st) < N"
    and tx: "length (tx_Payload (st_tx st)) < 2 ^ 62" "0 \<le> tx_Value (st_tx st)" "tx_Tos (st_tx st) \<noteq> Some []"
  shows "safe (run_message rec env st) (message_post st)"
proof (cases "tx_Tos (st_tx st)")
  case None
  have "safe (Create rec env (st_evm st) (AccountRef (st_from st)) (tx_Payload (st_tx st)) (st_gas st) (tx_Value (st_tx st)))
      (create_post (st_evm st) (st_gas st))"
    using Create_ok [OF r] st tx by (simp add: st_state_def)
  then show ?thesis using None unfolding run_message_def Let_def
    by simp (erule safe_bind, auto simp: create_post_def message_post_def)
next
  case (Some l)
  then obtain a l' where l: "l = a # l'" using tx(3) by (cases l) auto
  obtain n s1 where s1: "GetNonce (st_state st) (st_from st) = (n, s1)" by fastforce
  define s2 where "s2 = SetNonce (st_from st) (n + 1) s1"
  have k1: "keep (st_state st) s1" by (rule GetNonce_law [OF st(1) s1])
  have s2: "rel False (st_state st) s2" "bal s2 = bal (st_state st)"
    unfolding s2_def using SetNonce_law [OF keep_good [OF k1]] keep_bal [OF k1] rel_trans [OF keep_rel_any [OF k1]] by auto
  have "safe (Call rec env ((st_evm st)\<lparr>ev_StateDB := s2\<rparr>) (AccountRef (st_from st)) a (tx_Payload (st_tx st)) (st_gas st)
      (tx_Value (st_tx st))) (call_post ((st_evm st)\<lparr>ev_StateDB := s2\<rparr>) (st_gas st))"
    using Call_ok [OF r, where e = "(st_evm st)\<lparr>ev_StateDB := s2\<rparr>"] rel_good [OF s2(1)] st tx by simp
  moreover have "message_post st x" if "call_post ((st_evm st)\<lparr>ev_StateDB := s2\<rparr>) (st_gas st) x" for x
    using that st(2) s2 rel_trans [OF s2(1)] by (auto simp: call_post_def message_post_def evm_le_def st_state_def dest: keep_bal)
  ultimately show ?thesis using Some l
    by (simp add: run_message_def s1 s2_def [symmetric] Let_def) (erule safe_mono, simp)
qed

lemma refundGas_ok:
  assumes "st_gas st \<le> st_initialGas st" "st_initialGas st \<le> gp" "st_gp st = gp - st_initialGas st" "0 \<le> tx_GasPrice (st_tx st)"
    and "rel False s0 (st_state st)" "total (st_state st) + uint (st_initialGas st) * tx_GasPrice (st_tx st) \<le> total s0"
  shows "\<exists>gas s. refundGas st = Inr (put_st_state s (st\<lparr>st_gas := gas, st_gp := gp - (st_initialGas st - gas)\<rparr>))
    \<and> st_gas st \<le> gas \<and> gas \<le> st_initialGas st \<and> rel False s0 s
    \<and> bal s = (bal (st_state st))(st_from st := bal (st_state st) (st_from st) + uint gas * tx_GasPrice (st_tx st))
    \<and> total s = total (st_state st) + uint gas * tx_GasPrice (st_tx st)"
proof -
  define refund where "refund = (if gasUsed st div 2 > GetRefund (st_state st) then GetRefund (st_state st) else gasUsed st div 2)"
  define gas where "gas = st_gas st + refund"
  have g: "st_gas st \<le> gas" "gas \<le> st_initialGas st"
    unfolding gas_def refund_def gasUsed_def by (rule refund_bounds [OF assms(1)])+
  have "uint gas * tx_GasPrice (st_tx st) \<le> uint (st_initialGas st) * tx_GasPrice (st_tx st)"
    using g(2) assms(4) by (simp add: word_le_def mult_right_mono)
  then obtain s where "AddBalance (st_from st) (uint gas * tx_GasPrice (st_tx st)) (st_state st) = Inr s" "rel False s0 s"
      "bal s = (bal (st_state st))(st_from st := bal (st_state st) (st_from st) + uint gas * tx_GasPrice (st_tx st))"
      "total s = total (st_state st) + uint gas * tx_GasPrice (st_tx st)"
    using AddBalance_law [OF assms(5), of "uint gas * tx_GasPrice (st_tx st)" "st_from st"] assms(4,6) by auto
  then show ?thesis using g AddGas_ok [OF g(2) assms(2)] assms(3)
    by (auto simp: refundGas_def refund_def [symmetric] gas_def [symmetric] Let_def)
qed


definition tx_post :: "address \<Rightarrow> StateTransition \<Rightarrow> bytes \<times> u64 \<times> bool \<times> exec_error option \<times> StateTransition \<Rightarrow> bool" where
  "tx_post coinbase st = (\<lambda>(ret, used, failed, err, st').
     evm_le (st_evm st) (st_evm st') \<and> (err \<noteq> None \<longrightarrow> used = 0 \<and> \<not> failed) \<and>
     (\<forall>e. err = Some e \<longrightarrow> (if refused e then st_gp st' = st_gp st
        else tx_GasLimit (st_tx st) \<le> st_gp st \<and> st_gp st' = st_gp st - tx_GasLimit (st_tx st))) \<and>
     (err = None \<longrightarrow> used \<le> tx_GasLimit (st_tx st) \<and> tx_GasLimit (st_tx st) \<le> st_gp st \<and> st_gp st' = st_gp st - used
       \<and> (failed \<longrightarrow> tx_Tos (st_tx st) \<noteq> None \<longrightarrow> bal (st_state st') =
            pay_fee (st_from st) coinbase (uint used * tx_GasPrice (st_tx st)) (bal (st_state st)))))"

text \<open>What follows the message: the refund and the fee.\<close>

lemma settle_tx_ok:
  assumes tx: "0 \<le> tx_GasPrice (st_tx st)" and st: "st_tx st3 = st_tx st" "st_from st3 = st_from st"
      "st_initialGas st3 = tx_GasLimit (st_tx st)" "st_gp st3 = st_gp st - tx_GasLimit (st_tx st)"
      "st_gas st3 \<le> tx_GasLimit (st_tx st)" "tx_GasLimit (st_tx st) \<le> st_gp st" "evm_le (st_evm st) (st_evm st3)"
      "\<not> readOnly (st_evm st)"
    and money: "total (st_state st3) + uint (tx_GasLimit (st_tx st)) * tx_GasPrice (st_tx st) \<le> total (st_state st)"
    and failed: "failed \<Longrightarrow> tx_Tos (st_tx st) \<noteq> None \<Longrightarrow> bal (st_state st3) = (bal (st_state st))(st_from st :=
      bal (st_state st) (st_from st) - uint (tx_GasLimit (st_tx st)) * tx_GasPrice (st_tx st))"
  shows "\<exists>st4 s. refundGas st3 = Inr st4
    \<and> AddBalance coinbase (uint (gasUsed st4) * tx_GasPrice (st_tx st)) (st_state st4) = Inr s
    \<and> tx_post coinbase st (ret, gasUsed st4, failed, None, put_st_state s st4)"
proof -
  let ?l = "tx_GasLimit (st_tx st)" and ?p = "tx_GasPrice (st_tx st)"
  have r3: "rel False (st_state st) (st_state st3)" using st(7,8) by (simp add: evm_le_def st_state_def)
  obtain gas s4 where g: "refundGas st3 = Inr (put_st_state s4 (st3\<lparr>st_gas := gas, st_gp := st_gp st - (?l - gas)\<rparr>))"
      "gas \<le> ?l" "rel False (st_state st) s4"
      "bal s4 = (bal (st_state st3))(st_from st := bal (st_state st3) (st_from st) + uint gas * ?p)"
      "total s4 = total (st_state st3) + uint gas * ?p"
    using refundGas_ok [of st3 "st_gp st" "st_state st"] st tx r3 money by auto
  have u: "uint (?l - gas) = uint ?l - uint gas" using g(2) by (simp add: uint_sub_if' word_le_def)
  have le: "?l - gas \<le> ?l" using g(2) by (rule word_sub_le)
  have "total s4 + uint (?l - gas) * ?p \<le> total (st_state st)" using g(5) money by (simp add: u algebra_simps)
  then obtain s5 where s5: "AddBalance coinbase (uint (?l - gas) * ?p) s4 = Inr s5" "rel False (st_state st) s5"
      "bal s5 = (bal s4)(coinbase := bal s4 coinbase + uint (?l - gas) * ?p)"
    using AddBalance_law [OF g(3), of "uint (?l - gas) * ?p" coinbase] tx by auto
  have "bal s5 = pay_fee (st_from st) coinbase (uint (?l - gas) * ?p) (bal (st_state st))"
    if "failed" "tx_Tos (st_tx st) \<noteq> None"
    using failed [OF that] g(4) s5(3) by (simp add: pay_fee_def Let_def u fun_eq_iff algebra_simps)
  then show ?thesis using g(1) s5(1,3) s5(2) [unfolded st_state_def] st le
    by (simp add: gasUsed_def tx_post_def evm_le_def)
qed

text \<open>The message of a transaction that bought its gas, with \<open>g\<close> of it left.\<close>

lemma bought_ok:
  assumes r: "rec_ok N rec" "env_ok env" "N \<le> 2 ^ 62" and st: "good (st_state st)" "\<not> readOnly (st_evm st)"
    and tx: "unat (tx_GasLimit (st_tx st)) < N" "length (tx_Payload (st_tx st)) < 2 ^ 62" "0 \<le> tx_Value (st_tx st)"
      "0 \<le> tx_GasPrice (st_tx st)" "tx_Tos (st_tx st) \<noteq> Some []"
    and s: "tx_GasLimit (st_tx st) \<le> st_gp st" "rel False (st_state st) s" "bal s = (bal (st_state st))(st_from st :=
        bal (st_state st) (st_from st) - uint (tx_GasLimit (st_tx st)) * tx_GasPrice (st_tx st))"
    and st2: "st2 = put_st_state s (st\<lparr>st_gp := st_gp st - tx_GasLimit (st_tx st), st_gas := g,
        st_initialGas := tx_GasLimit (st_tx st)\<rparr>)" "g \<le> tx_GasLimit (st_tx st)"
  shows "safe (run_message rec env st2) (\<lambda>(ret, left, vmerr, evm).
    let st3 = st2\<lparr>st_gas := left, st_evm := evm\<rparr> in evm_le (st_evm st) evm \<and> (\<exists>st4 s'. refundGas st3 = Inr st4
      \<and> AddBalance coinbase (uint (gasUsed st4) * tx_GasPrice (st_tx st)) (st_state st4) = Inr s'
      \<and> tx_post coinbase st (ret, gasUsed st4, vmerr \<noteq> None, None, put_st_state s' st4)))"
proof (rule safe_mono [OF run_message_ok [OF r]], goal_cases)
  case (7 x)
  obtain ret left vmerr evm where x: "x = (ret, left, vmerr, evm)" by (metis prod_cases4)
  have m: "left \<le> g" "rel False s (ev_StateDB evm)" "readOnly evm = readOnly (st_evm st)" "ev_depth evm = ev_depth (st_evm st)"
      "ev_abort evm = ev_abort (st_evm st)" "vmerr \<noteq> None \<Longrightarrow> tx_Tos (st_tx st) \<noteq> None \<Longrightarrow> bal (ev_StateDB evm) = bal s"
    using 7 st2 st(2) by (simp_all add: x message_post_def evm_le_def)
  have le: "evm_le (st_evm st) evm" using m rel_trans [OF s(2) m(2)] st(2) by (simp add: evm_le_def st_state_def)
  have "total (ev_StateDB evm) \<le> total s" using m(2) by (simp add: rel_def)
  then show ?case unfolding x prod.case Let_def
    using le total_upd [OF s(3)] by (intro conjI settle_tx_ok) (use tx st2 s m st(2) order_trans [OF m(1) st2(2)] in simp_all)
qed (use st2 s tx st rel_good [OF s(2)] order.strict_trans1 [OF st2(2) [unfolded word_le_nat_alt] tx(1)] in auto)

lemma TransitionDb_ok:
  assumes r: "rec_ok N rec" "env_ok env" "N \<le> 2 ^ 62" and st: "good (st_state st)" "\<not> readOnly (st_evm st)" "st_gas st = 0"
    and tx: "unat (tx_GasLimit (st_tx st)) < N" "length (tx_Payload (st_tx st)) < 2 ^ 62" "0 \<le> tx_Value (st_tx st)"
      "0 \<le> tx_GasPrice (st_tx st)" "tx_Tos (st_tx st) \<noteq> Some []"
  shows "safe (TransitionDb rec env st) (tx_post (Coinbase (env_ctx env)) st)"
proof -
  let ?l = "tx_GasLimit (st_tx st)" and ?p = "tx_GasPrice (st_tx st)" and ?post = "tx_post (Coinbase (env_ctx env)) st"
  have rej: "?post ([], 0, False, Some e, st')" if "rel False (st_state st) s" "st_evm st' = (st_evm st)\<lparr>ev_StateDB := s\<rparr>"
      "if refused e then st_gp st' = st_gp st else ?l \<le> st_gp st \<and> st_gp st' = st_gp st - ?l" for e st' s
    using that st(2) by (simp add: tx_post_def evm_le_def st_state_def)
  obtain err st1 where pc: "preCheck st = Inr (err, st1)" using preCheck_ok [OF st(1) tx(4)] by (auto simp: tot_def)
  show ?thesis
  proof (cases err)
    case (Some e)
    then obtain s where "keep (st_state st) s" "st1 = put_st_state s st" using preCheck_ok [OF st(1) tx(4)] pc by auto
    then show ?thesis using rej [of s st1 e] pc Some preCheck_refused keep_rel_any by (simp add: TransitionDb_def lift_panic_def)
  next
    case None
    then obtain s where s: "st1 = put_st_state s (st\<lparr>st_gp := st_gp st - ?l, st_gas := ?l, st_initialGas := ?l\<rparr>)"
        "?l \<le> st_gp st" "rel False (st_state st) s" "bal s = (bal (st_state st))(st_from st := bal (st_state st) (st_from st) - uint ?l * ?p)"
      using preCheck_ok [OF st(1) tx(4)] pc st(3) by (auto simp: Let_def)
    have rej1: "?post ([], 0, False, Some e, st1)" if "\<not> refused e" for e using rej [of s st1 e] s(1-3) that by simp
    show ?thesis
    proof (cases "IntrinsicGas (tx_Payload (st_tx st)) (tx_Type (st_tx st)) (tx_Tos (st_tx st) = None)")
      case (Inr gas)
      define st2 where "st2 = put_st_state s (st\<lparr>st_gp := st_gp st - ?l, st_gas := ?l - gas, st_initialGas := ?l\<rparr>)"
      have u: "useGas gas st1 = (if ?l < gas then (Some (VmError ErrOutOfGas), st1) else (None, st2))"
        using s(1) by (simp add: useGas_def st2_def put_st_state_def)
      show ?thesis
      proof (cases "?l < gas")
        case False
        then have "?l - gas \<le> ?l" by (simp add: word_sub_le not_less)
        note b = bought_ok [OF r st(1,2) tx s(2-4) st2_def this, of "Coinbase (env_ctx env)"]
        show ?thesis using pc None Inr u False
          by (simp add: TransitionDb_def lift_panic_def) (rule safe_bind [OF b], auto simp: Let_def tx_post_def lift_panic_def refused_def st2_def s(2))
      qed (use rej1 pc None Inr u in \<open>simp add: TransitionDb_def lift_panic_def refused_def\<close>)
    qed (use rej1 pc None IntrinsicGas_not_refused in \<open>simp add: TransitionDb_def lift_panic_def\<close>)
  qed
qed

end

text \<open>The check before a charge of \<open>k\<close> for each of \<open>n\<close> bytes.\<close>

lemma charge_fits:
  assumes "g < 2 ^ 64" "n < 2 ^ 64" "0 < k" "k < 2 ^ 64"
  shows "(MaxUint64 - of_nat g) div of_nat k < (of_nat n :: u64) \<longleftrightarrow> \<not> g + n * k < 2 ^ 64"
proof -
  have "unat (MaxUint64 - of_nat g) = 2 ^ 64 - 1 - g"
    using unat_sub [of "of_nat g" MaxUint64] assms(1) MaxUint64_unat by (simp add: MaxUint64_def u64_of_nat)
  then have "unat ((MaxUint64 - of_nat g) div of_nat k :: u64) = (2 ^ 64 - 1 - g) div k"
    using assms(4) by (simp add: unat_div u64_of_nat)
  then have "(MaxUint64 - of_nat g) div of_nat k < (of_nat n :: u64) \<longleftrightarrow> (2 ^ 64 - 1 - g) div k < n"
    using assms(2) by (simp add: word_less_nat_alt u64_of_nat)
  also have "\<dots> \<longleftrightarrow> 2 ^ 64 - 1 - g < n * k" using assms(3) by (rule div_less_iff_less_mult)
  also have "\<dots> \<longleftrightarrow> \<not> g + n * k < 2 ^ 64" using assms(1) by auto
  finally show ?thesis .
qed

definition intrinsic_cost :: "bytes \<Rightarrow> bool \<Rightarrow> nat" where
  "intrinsic_cost data creation = (if creation then 53000 else 21000) + 68 * length (filter (\<lambda>b. b \<noteq> 0) data)
     + 4 * length (filter (\<lambda>b. b = 0) data)"

section \<open>Properties\<close>

text \<open>C40: The intrinsic gas of a transaction is that of the schedule: nothing for a vote or its withdrawal, otherwise 53000
  for a creation or 21000 for a message, plus 68 for every non-zero and 4 for every zero byte of
  the payload. It is computed without wrapping, and fails exactly when the sum needs more than
  64 bits. The payload is shorter than 2 to the power 63 bytes, as every slice is.\<close>

theorem IntrinsicGas_exact:
  assumes "length data < 2 ^ 63"
  shows "IntrinsicGas data tp creation = (if tp = Delegate \<or> tp = UnDelegate then Inr 0
    else if intrinsic_cost data creation < 2 ^ 64 then Inr (of_nat (intrinsic_cost data creation)) else Inl PoolOutOfGas)"
proof -
  define b where "b = (if creation then 53000 else 21000 :: nat)"
  define n where "n = length (filter (\<lambda>x. x \<noteq> 0) data)"
  define z where "z = length (filter (\<lambda>x. x = 0) data)"
  have len: "length data = n + z" using sum_length_filter_compl [of "\<lambda>x. x \<noteq> 0" data] by (simp add: n_def z_def)
  have nz: "n < 2 ^ 64" "z < 2 ^ 64" using len assms(1) by simp_all
  have base: "(if creation then TxGasContractCreation else TxGas) = of_nat b" "b < 2 ^ 64"
    by (simp_all add: b_def TxGasContractCreation_def TxGas_def)
  have z: "word_of_nat (length data) - word_of_nat n = (of_nat z :: u64)" by (simp add: len)
  have cost: "intrinsic_cost data creation = b + n * 68 + z * 4" by (simp add: intrinsic_cost_def b_def n_def z_def)
  note c1 = charge_fits [OF base(2) nz(1), of 68]
  consider (vote) "tp = Delegate \<or> tp = UnDelegate" | (fits) "\<not> (tp = Delegate \<or> tp = UnDelegate)" "b + n * 68 < 2 ^ 64"
    | (large) "\<not> (tp = Delegate \<or> tp = UnDelegate)" "\<not> b + n * 68 < 2 ^ 64" by blast
  then show ?thesis
  proof cases
    case fits
    note c2 = charge_fits [OF fits(2) nz(2), of 4]
    show ?thesis using fits c1 c2 len
      by (auto simp: IntrinsicGas_def base(1) n_def [symmetric] Let_def z TxDataNonZeroGas_def TxDataZeroGas_def cost)
  next
    case large
    then show ?thesis using c1 len base(2)
      by (auto simp: IntrinsicGas_def base(1) n_def [symmetric] Let_def TxDataNonZeroGas_def cost)
  qed (simp add: IntrinsicGas_def)
qed

theorem IntrinsicGas_exact_witness: "IntrinsicGas [0, 7, 0] Binary False = Inr 21076 \<and> IntrinsicGas [0, 7, 0] Delegate False = Inr 0"
  using IntrinsicGas_exact [of "[0, 7, 0]" Binary False] IntrinsicGas_exact [of "[0, 7, 0]" Delegate False] by (simp add: intrinsic_cost_def)

text \<open>C2: A transaction whose slice of recipients is nil or not empty is executed to an end, whatever
  code it runs, unless a jump runs into a bit vector that was cached for another code of the same hash, which is the
  one panic left. It uses no more gas than its limit, leaves a well-formed state and no more money in it than before. If it
  is executed, the gas pool of the block is lower by exactly the gas used. If the checks of the nonce, of the
  balance for the gas and of the pool refuse it, it uses no gas and the pool is as before; any later error reports no
  gas used as well, but keeps the whole gas limit out of the pool.\<close>

theorem transaction_returns:
  assumes "tbl \<in> instruction_sets" "env_ok env" "vm_good (ev_StateDB evm)" "\<not> readOnly evm" "n \<le> 2 ^ 62"
    and "unat (tx_GasLimit tx) < n" "length (tx_Payload tx) < 2 ^ 62" "0 \<le> tx_Value tx" "0 \<le> tx_GasPrice tx" "tx_Tos tx \<noteq> Some []"
  shows "(\<exists>ret used failed err st'. ExecStateTransition sender (run_loop n tbl env) env txFrom evm tx gp = Inr (ret, used, failed, err, st') \<and> vm_good (st_state st')
      \<and> sum (balance_of (st_state st')) UNIV \<le> sum (balance_of (ev_StateDB evm)) UNIV
      \<and> (\<forall>e. err = Some e \<longrightarrow> used = 0 \<and> (if refused e then st_gp st' = gp else tx_GasLimit tx \<le> gp \<and> st_gp st' = gp - tx_GasLimit tx))
      \<and> (err = None \<longrightarrow> used \<le> tx_GasLimit tx \<and> tx_GasLimit tx \<le> gp \<and> st_gp st' = gp - used))
    \<or> ExecStateTransition sender (run_loop n tbl env) env txFrom evm tx gp = Inl (VMPanic bitvec_panic)"
proof -
  define st where "st = NewStateTransition sender txFrom evm tx gp"
  have st: "st_evm st = evm" "st_tx st = tx" "st_gp st = gp" "st_gas st = 0" "st_state st = ev_StateDB evm"
    by (simp_all add: st_def NewStateTransition_def st_state_def)
  note r = vm.run_loop_ok [OF instruction_sets_ok [OF assms(1)] assms(2), of n]
  have "safe (ExecStateTransition sender (run_loop n tbl env) env txFrom evm tx gp) (vm.tx_post (Coinbase (env_ctx env)) st)"
    using vm.TransitionDb_ok [OF r assms(2,5), of st] assms st by (simp add: ExecStateTransition_def st_def [symmetric])
  from safe_cases [OF this] show ?thesis
  proof (elim disjE exE conjE)
    fix x
    assume x: "ExecStateTransition sender (run_loop n tbl env) env txFrom evm tx gp = Inr x" and p: "vm.tx_post (Coinbase (env_ctx env)) st x"
    obtain ret used failed err st' where xs: "x = (ret, used, failed, err, st')" by (cases x)
    have "vm.rel False (ev_StateDB evm) (st_state st')" using p assms(4) by (simp add: vm.tx_post_def vm.evm_le_def xs st st_state_def)
    note r = this
    have "vm_good (st_state st')" by (rule vm.rel_good [OF r])
    moreover have "sum (balance_of (st_state st')) UNIV \<le> sum (balance_of (ev_StateDB evm)) UNIV" using r by (simp add: vm.rel_def vm.total_def)
    moreover have "\<forall>e. err = Some e \<longrightarrow> used = 0 \<and> (if refused e then st_gp st' = gp else tx_GasLimit tx \<le> gp \<and> st_gp st' = gp - tx_GasLimit tx)"
    proof (intro allI impI)
      fix e assume "err = Some e"
      then show "used = 0 \<and> (if refused e then st_gp st' = gp else tx_GasLimit tx \<le> gp \<and> st_gp st' = gp - tx_GasLimit tx)"
        using p by (cases "refused e") (simp_all add: vm.tx_post_def xs st)
    qed
    moreover have "err = None \<longrightarrow> used \<le> tx_GasLimit tx \<and> tx_GasLimit tx \<le> gp \<and> st_gp st' = gp - used"
      using p by (simp add: vm.tx_post_def xs st)
    ultimately show ?thesis using x xs by blast
  qed simp
qed

definition small_tx :: Transaction where
  "small_tx = \<lparr>tx_Type = Binary, tx_Nonce = 0, tx_GasPrice = 1, tx_GasLimit = 21010, tx_Tos = Some [1], tx_Value = 0,
     tx_Payload = [], tx_Signature = []\<rparr>"

text \<open>C19: A call that fails in the machine costs its sender exactly the gas used: the sender's balance is
  lower and the coinbase's higher by the used gas times the price, and no other balance has
  changed.\<close>

theorem failed_transaction_costs_its_gas:
  assumes "tbl \<in> instruction_sets" "env_ok env" "vm_good (ev_StateDB evm)" "\<not> readOnly evm" "n \<le> 2 ^ 62"
    and "unat (tx_GasLimit tx) < n" "length (tx_Payload tx) < 2 ^ 62" "0 \<le> tx_Value tx" "0 \<le> tx_GasPrice tx"
    and "tx_Tos tx = Some (to # others)"
    and "ExecStateTransition sender (run_loop n tbl env) env (Some from) evm tx gp = Inr (ret, used, True, None, st')"
  shows "balance_of (st_state st') =
    pay_fee from (Coinbase (env_ctx env)) (uint used * tx_GasPrice tx) (balance_of (ev_StateDB evm))"
proof -
  define st where "st = NewStateTransition sender (Some from) evm tx gp"
  have st: "st_evm st = evm" "st_tx st = tx" "st_gp st = gp" "st_gas st = 0" "st_state st = ev_StateDB evm" "st_from st = from"
    by (simp_all add: st_def NewStateTransition_def st_state_def)
  note r = vm.run_loop_ok [OF instruction_sets_ok [OF assms(1)] assms(2), of n]
  have "safe (TransitionDb (run_loop n tbl env) env st) (vm.tx_post (Coinbase (env_ctx env)) st)"
    using vm.TransitionDb_ok [OF r assms(2,5), of st] assms st by simp
  then show ?thesis using assms(10,11) by (simp add: ExecStateTransition_def st_def [symmetric] vm.tx_post_def st)
qed

lemma small_preCheck:
  assumes "vm_good s" "balance_of s 5 = 30000" "fst (GetNonce s 5) = 0"
  shows "\<exists>st1. preCheck (NewStateTransition sender (Some 5) (NewEVM s) (small_tx\<lparr>tx_Tos := to\<rparr>) 50000) = Inr (None, st1)"
proof -
  obtain s1 where s1: "GetNonce s 5 = (0, s1)" using assms(3) by (metis prod.collapse)
  have k1: "vm_keep s s1" by (rule vm.GetNonce_law [OF assms(1) s1])
  obtain s2 where s2: "GetBalance s1 5 = (Some 30000, s2)" "vm_keep s1 s2"
    using vm.GetBalance_law [OF vm.keep_good [OF k1]] vm.keep_bal [OF k1] assms(2) by (metis prod.collapse)
  have "balance_of s2 5 = 30000" using vm.keep_bal [OF k1] vm.keep_bal [OF s2(2)] assms(2) by simp
  then obtain s3 where "SubBalance 5 21010 s2 = Inr s3"
    using vm.SubBalance_law [OF vm.keep_good [OF s2(2)], of 21010 5] by auto
  then show ?thesis
    by (simp add: preCheck_def buyGas_def NewStateTransition_def small_tx_def st_state_def put_st_state_def NewEVM_def s1 s2(1)
        deref_def SubGas_def)
qed

lemma small_transition:
  assumes "vm_good s" "balance_of s 5 = 30000" "fst (GetNonce s 5) = 0"
  shows "\<exists>ret used st'. ExecStateTransition sender (run_loop 21011 NewByzantiumInstructionSet small_env) small_env (Some 5)
    (NewEVM s) small_tx 50000 = Inr (ret, used, True, None, st')"
proof -
  let ?rec = "run_loop 21011 NewByzantiumInstructionSet small_env"
  define st where "st = NewStateTransition sender (Some 5) (NewEVM s) small_tx 50000"
  have st: "st_state st = s" "st_tx st = small_tx" "st_gas st = 0" "st_gp st = 50000" "st_from st = 5" "st_evm st = NewEVM s"
    by (simp_all add: st_def NewStateTransition_def st_state_def NewEVM_def)
  obtain st1 where pc: "preCheck st = Inr (None, st1)" 
    unfolding st_def using small_preCheck [OF assms, of sender "Some [1]"] by (auto simp: small_tx_def)
  then obtain t where t: "st1 = put_st_state t (st\<lparr>st_gp := 50000 - 21010, st_gas := 21010, st_initialGas := 21010\<rparr>)"
      "vm.rel False s t" "balance_of t = (balance_of s)(5 := balance_of s 5 - 21010)"
    using vm.preCheck_ok [of st] assms(1) by (auto simp: st small_tx_def Let_def)
  define st2 where "st2 = put_st_state t (st\<lparr>st_gp := 50000 - 21010, st_gas := 10, st_initialGas := 21010\<rparr>)"
  have u: "useGas 21000 st1 = (None, st2)" by (simp add: useGas_def t(1) st2_def put_st_state_def)
  obtain n t1 where t1: "GetNonce t 5 = (n, t1)" by fastforce
  have g: "vm_good (SetNonce 5 (n + 1) t1)"
    using vm.SetNonce_law [OF vm.keep_good [OF vm.GetNonce_law [OF vm.rel_good [OF t(2)] t1]]] vm.rel_good by blast
  obtain evm where m: "run_message ?rec small_env st2 = Inr ([], 0, Some ErrOutOfGas, evm)"
    using precompile_out_of_gas [of "(NewEVM s)\<lparr>ev_StateDB := SetNonce 5 (n + 1) t1\<rparr>" 0 "AccountRef 5" 10 ?rec] g vm.bal_nonneg [OF g]
    by (auto simp: run_message_def st2_def st small_tx_def t1 NewEVM_def)
  have "vm.rec_ok 21011 ?rec"
    by (rule vm.run_loop_ok [OF instruction_sets_ok small_env_ok]) (simp add: instruction_sets_def)
  then have "safe (run_message ?rec small_env st2) (\<lambda>(ret, left, vmerr, evm). let st3 = st2\<lparr>st_gas := left, st_evm := evm\<rparr> in
      vm.evm_le (st_evm st) evm \<and> (\<exists>st4 s'. refundGas st3 = Inr st4
        \<and> AddBalance 2 (uint (gasUsed st4) * tx_GasPrice (st_tx st)) (st_state st4) = Inr s'
        \<and> vm.tx_post 2 st (ret, gasUsed st4, vmerr \<noteq> None, None, put_st_state s' st4)))"
    by (rule vm.bought_ok [where s = t and g = 10]) (use assms t in \<open>simp_all add: small_env_ok st small_tx_def NewEVM_def st2_def\<close>)
  moreover have "IntrinsicGas (tx_Payload small_tx) (tx_Type small_tx) (tx_Tos small_tx = None) = Inr 21000" "Coinbase (env_ctx small_env) = 2"
    by (simp_all add: small_tx_def IntrinsicGas_def TxGas_def small_env_def)
  ultimately show ?thesis using pc u m
    by (auto simp: ExecStateTransition_def st_def [symmetric] TransitionDb_def lift_panic_def st)
qed

theorem failed_transaction_costs_its_gas_witness:
  "\<exists>s ret used st'. AddBalance 5 30000 small_state = Inr s \<and>
     ExecStateTransition (\<lambda>_. 0) (run_loop 21011 NewByzantiumInstructionSet small_env) small_env (Some 5)
       (NewEVM s) small_tx 50000 = Inr (ret, used, True, None, st') \<and>
     balance_of (st_state st') = pay_fee 5 2 (uint used) (balance_of s)"
proof -
  obtain s where s: "AddBalance 5 30000 small_state = Inr s" "vm_good s" "balance_of s 5 = 30000" "fst (GetNonce s 5) = 0"
    by (rule funded_state)
  obtain ret used st' where r: "ExecStateTransition (\<lambda>_. 0) (run_loop 21011 NewByzantiumInstructionSet small_env) small_env (Some 5)
       (NewEVM s) small_tx 50000 = Inr (ret, used, True, None, st')" using small_transition [OF s(2-4)] by blast
  have "NewByzantiumInstructionSet \<in> instruction_sets" by (simp add: instruction_sets_def)
  then have "balance_of (st_state st') = pay_fee 5 (Coinbase (env_ctx small_env)) (uint used * tx_GasPrice small_tx)
      (balance_of (ev_StateDB (NewEVM s)))"
    by (rule failed_transaction_costs_its_gas [OF _ small_env_ok _ _ _ _ _ _ _ _ r])
      (use s in \<open>simp_all add: NewEVM_def small_tx_def\<close>)
  then show ?thesis using s(1) r by (auto simp: NewEVM_def small_tx_def small_env_def)
qed

theorem transaction_returns_witness:
  "\<exists>s ret used failed st'. AddBalance 5 30000 small_state = Inr s
     \<and> ExecStateTransition (\<lambda>_. 0) (run_loop 21011 NewByzantiumInstructionSet small_env) small_env (Some 5)
         (NewEVM s) small_tx 50000 = Inr (ret, used, failed, None, st')
     \<and> used \<le> 21010 \<and> st_gp st' = 50000 - used \<and> sum (balance_of (st_state st')) UNIV \<le> sum (balance_of s) UNIV"
proof -
  obtain s where s: "AddBalance 5 30000 small_state = Inr s" "vm_good s" "balance_of s 5 = 30000" "fst (GetNonce s 5) = 0"
    by (rule funded_state)
  obtain ret used st' where r: "ExecStateTransition (\<lambda>_. 0) (run_loop 21011 NewByzantiumInstructionSet small_env) small_env (Some 5)
       (NewEVM s) small_tx 50000 = Inr (ret, used, True, None, st')" using small_transition [OF s(2-4)] by blast
  then show ?thesis
    using transaction_returns [of NewByzantiumInstructionSet small_env "NewEVM s" 21011 small_tx "\<lambda>_. 0" "Some 5" 50000] s
    by (simp add: small_env_ok instruction_sets_def NewEVM_def) (simp add: small_tx_def)
qed

text \<open>C29: A transaction is refused before it starts exactly when its nonce is not the sender's, the sender
  cannot pay for the gas limit, or the block has not that much gas left, in this order; the
  refusal names the reason, touches neither the gas pool nor anything observable in the state.\<close>

theorem preCheck_refuses:
  assumes "vm_good (st_state st)" "0 \<le> tx_GasPrice (st_tx st)"
  defines "nonce \<equiv> fst (GetNonce (st_state st) (st_from st))" and "limit \<equiv> tx_GasLimit (st_tx st)"
  defines "reason \<equiv> (if nonce < tx_Nonce (st_tx st) then Some ErrNonceTooHigh
      else if tx_Nonce (st_tx st) < nonce then Some ErrNonceTooLow
      else if balance_of (st_state st) (st_from st) < uint limit * tx_GasPrice (st_tx st) then Some errInsufficientBalanceForGas
      else if st_gp st < limit then Some ErrGasLimitReached else None)"
  shows "\<exists>st1. preCheck st = Inr (reason, st1) \<and>
    (reason \<noteq> None \<longrightarrow> st_gp st1 = st_gp st \<and> observe (st_state st1) = observe (st_state st))"
proof -
  obtain err st1 where pc: "preCheck st = Inr (err, st1)" using vm.preCheck_ok [OF assms(1,2)] by (auto simp: tot_def)
  obtain s1 where s1: "GetNonce (st_state st) (st_from st) = (nonce, s1)" unfolding nonce_def by (metis prod.collapse)
  note k1 = vm.GetNonce_law [OF assms(1) s1]
  obtain p s2 where s2: "GetBalance s1 (st_from st) = (p, s2)" by fastforce
  have p: "p = Some (balance_of (st_state st) (st_from st))"
    using vm.GetBalance_law [OF vm.keep_good [OF k1] s2] vm.keep_bal [OF k1] by simp
  have "err = reason" using pc
    by (auto simp: preCheck_def buyGas_def s1 s2 p deref_def Let_def SubGas_def reason_def limit_def rbind_def split: if_splits sum.splits)
  moreover have "st_gp st1 = st_gp st \<and> observe (st_state st1) = observe (st_state st)" if "err \<noteq> None"
    using that vm.preCheck_ok [OF assms(1,2)] pc by (auto dest: vm_keep_observe)
  ultimately show ?thesis using pc by blast
qed

theorem preCheck_refuses_witness:
  "\<exists>st1. preCheck (NewStateTransition (\<lambda>_. 5) None (NewEVM small_state) small_tx 50000) = Inr (Some errInsufficientBalanceForGas, st1)
     \<and> st_gp st1 = 50000 \<and> observe (st_state st1) = observe small_state"
proof -
  have "fst (GetNonce small_state 5) = 0" "balance_of small_state 5 = 0"
    by (simp_all add: GetNonce_def get_field_def getStateObject_def balance_of_def account_or_new_def accounts_of_def obj_at_def
        small_state_def New_def OpenTrie_def view_of_alt newObject_def emptyAccount_def)
  then show ?thesis
    using preCheck_refuses [of "NewStateTransition (\<lambda>_. 5) None (NewEVM small_state) small_tx 50000"]
    by (simp add: NewStateTransition_def small_tx_def st_state_def NewEVM_def small_vm_good)
qed

text \<open>A transaction whose slice of recipients is empty but not nil, which is what the decoder makes of
  every encoded contract creation, ends in an index panic as soon as its sender can pay for it.\<close>

theorem empty_recipients_panic:
  assumes "tx_Tos (st_tx st) = Some []" "preCheck st = Inr (None, st1)"
    and "IntrinsicGas (tx_Payload (st_tx st)) (tx_Type (st_tx st)) False = Inr gas" "gas \<le> st_gas st + tx_GasLimit (st_tx st)"
  shows "TransitionDb rec env st = Inl (VMPanic IndexOutOfRange)"
proof -
  have "st_tx st1 = st_tx st" "st_gas st1 = st_gas st + tx_GasLimit (st_tx st)"
    using assms(2) by (auto simp: preCheck_def buyGas_def Let_def rbind_def SubGas_def split: prod.splits if_splits sum.splits)
  then show ?thesis using assms
    by (auto simp: TransitionDb_def lift_panic_def useGas_def run_message_def Let_def split: prod.splits)
qed

theorem empty_recipients_panic_witness:
  "\<exists>s. AddBalance 5 30000 small_state = Inr s \<and>
     ExecStateTransition (\<lambda>_. 0) (run_loop 21011 NewByzantiumInstructionSet small_env) small_env (Some 5) (NewEVM s)
       (small_tx\<lparr>tx_Tos := Some []\<rparr>) 50000 = Inl (VMPanic IndexOutOfRange)"
proof -
  obtain s where s: "AddBalance 5 30000 small_state = Inr s" "vm_good s" "balance_of s 5 = 30000" "fst (GetNonce s 5) = 0"
    by (rule funded_state)
  let ?st = "NewStateTransition (\<lambda>_. 0) (Some 5) (NewEVM s) (small_tx\<lparr>tx_Tos := Some []\<rparr>) 50000"
  obtain st1 where "preCheck ?st = Inr (None, st1)" using small_preCheck [OF s(2-4)] by blast
  then have "TransitionDb (run_loop 21011 NewByzantiumInstructionSet small_env) small_env ?st = Inl (VMPanic IndexOutOfRange)"
    by (rule empty_recipients_panic [where gas = 21000, rotated])
      (simp_all add: NewStateTransition_def small_tx_def IntrinsicGas_def TxGas_def)
  then show ?thesis using s(1) by (auto simp: ExecStateTransition_def)
qed

end
