(* ===== verification/ExecutorProps.thy ===== *)
theory ExecutorProps
  imports Executor TransitionProps
begin

text \<open>
  What the development shows of the messages of the proof of stake: they keep the context well
  formed, move money only between the parts of the sender's holdings and take exactly the fee, and
  they set the sender's nonce whatever it was.
\<close>

section \<open>The fields of an account\<close>

abbreviation account :: "StateDB \<Rightarrow> address \<Rightarrow> Account" where
  "account s a \<equiv> av_data (account_or_new s a)"

definition account_write :: "StateDB \<Rightarrow> address \<Rightarrow> (Account \<Rightarrow> Account) \<Rightarrow> StateDB \<Rightarrow> bool" where
  "account_write s a f s' \<longleftrightarrow> account s' a = f (account s a) \<and> (\<forall>b. b \<noteq> a \<longrightarrow> account s' b = account s b)"

lemma locked_fields:
  assumes "state_ok s"
  shows "(\<exists>l. LockedBalance (account s a) = Some l) \<and> (\<exists>t. DelegateTimestamp (account s a) = Some t)"
proof (cases "obj_at s a")
  case None
  then show ?thesis by (auto simp: account_or_new_def accounts_of_def view_of_def newObject_def emptyAccount_def Let_def)
next
  case (Some ob)
  then have "obj_ok ob" using obj_at_ok [of s a ob] assms by (simp add: state_ok_def)
  then show ?thesis using Some by (auto simp: account_or_new_def accounts_of_def view_of_def obj_ok_def)
qed

lemma locked_setters_view:
  "view_of d (so_setLockedBalance p ob) = (view_of d ob)\<lparr>av_data := (so_data ob)\<lparr>LockedBalance := p\<rparr>\<rparr>"
  "view_of d (so_setUnLockedBalance p ob) = (view_of d ob)\<lparr>av_data := (so_data ob)\<lparr>UnLockedBalance := p\<rparr>\<rparr>"
  "view_of d (so_setDelegateTimestamp p ob) = (view_of d ob)\<lparr>av_data := (so_data ob)\<lparr>DelegateTimestamp := p\<rparr>\<rparr>"
  by (simp_all add: view_of_alt setter_defs)

lemma locked_setters_accounts:
  assumes ok: "state_ok s"
  shows "LockedBalance (av_data (account_or_new s a)) = Some l \<Longrightarrow> \<exists>s'. SetLockedBalance a v s = Inr s' \<and> accounts_of s' =
      (accounts_of s)(a \<mapsto> (account_or_new s a)\<lparr>av_data := (av_data (account_or_new s a))\<lparr>LockedBalance := Some v\<rparr>\<rparr>)"
    "UnLockedBalance (av_data (account_or_new s a)) = Some l \<Longrightarrow> \<exists>s'. SetUnLockedBalance a v s = Inr s' \<and> accounts_of s' =
      (accounts_of s)(a \<mapsto> (account_or_new s a)\<lparr>av_data := (av_data (account_or_new s a))\<lparr>UnLockedBalance := Some v\<rparr>\<rparr>)"
    "DelegateTimestamp (av_data (account_or_new s a)) = Some l \<Longrightarrow> \<exists>s'. SetDelegateTimestamp a v s = Inr s' \<and> accounts_of s' =
      (accounts_of s)(a \<mapsto> (account_or_new s a)\<lparr>av_data := (av_data (account_or_new s a))\<lparr>DelegateTimestamp := Some v\<rparr>\<rparr>)"
proof -
  obtain ob s1 where g: "GetOrNewStateObject s a = (ob, s1)" by fastforce
  note v = GetOrNewStateObject_view [OF g ok]
  have w: "accounts_of (setStateObject (so_setLockedBalance (Some v) ob) (jappend e s1)) =
        (accounts_of s)(a \<mapsto> view_of (sdb_db s) (so_setLockedBalance (Some v) ob))"
      "accounts_of (setStateObject (so_setUnLockedBalance (Some v) ob) (jappend e s1)) =
        (accounts_of s)(a \<mapsto> view_of (sdb_db s) (so_setUnLockedBalance (Some v) ob))"
      "accounts_of (setStateObject (so_setDelegateTimestamp (Some v) ob) (jappend e s1)) =
        (accounts_of s)(a \<mapsto> view_of (sdb_db s) (so_setDelegateTimestamp (Some v) ob))" for e
    by (rule write_back_accounts [OF g ok]; simp add: setter_defs)+
  show "LockedBalance (av_data (account_or_new s a)) = Some l \<Longrightarrow> \<exists>s'. SetLockedBalance a v s = Inr s' \<and> accounts_of s' =
      (accounts_of s)(a \<mapsto> (account_or_new s a)\<lparr>av_data := (av_data (account_or_new s a))\<lparr>LockedBalance := Some v\<rparr>\<rparr>)"
    using g w v(4) [symmetric] by (simp add: SetLockedBalance_def so_SetLockedBalance_def deref_def locked_setters_view)
  show "UnLockedBalance (av_data (account_or_new s a)) = Some l \<Longrightarrow> \<exists>s'. SetUnLockedBalance a v s = Inr s' \<and> accounts_of s' =
      (accounts_of s)(a \<mapsto> (account_or_new s a)\<lparr>av_data := (av_data (account_or_new s a))\<lparr>UnLockedBalance := Some v\<rparr>\<rparr>)"
    using g w v(4) [symmetric] by (simp add: SetUnLockedBalance_def so_SetUnLockedBalance_def deref_def locked_setters_view)
  show "DelegateTimestamp (av_data (account_or_new s a)) = Some l \<Longrightarrow> \<exists>s'. SetDelegateTimestamp a v s = Inr s' \<and> accounts_of s' =
      (accounts_of s)(a \<mapsto> (account_or_new s a)\<lparr>av_data := (av_data (account_or_new s a))\<lparr>DelegateTimestamp := Some v\<rparr>\<rparr>)"
    using g w v(4) [symmetric] by (simp add: SetDelegateTimestamp_def so_SetDelegateTimestamp_def deref_def locked_setters_view)
qed

lemma data_write:
  assumes "vm_good s" "logged s s'" "sdb_step s s'" "\<And>A. Balance (f A) = Balance A"
    and "accounts_of s' = (accounts_of s)(a \<mapsto> (account_or_new s a)\<lparr>av_data := f (account s a)\<rparr>)"
  shows "vm_rel False s s' \<and> account_write s a f s'"
proof -
  have "acct_ok ((account_or_new s a)\<lparr>av_data := f (account s a)\<rparr>)"
    using account_or_new_acct_ok [OF assms(1), of a] assms(4) by (simp add: acct_ok_def)
  then have r: "vm_rel False s s'" by (rule vm_rel_update [OF assms(1-3,5)])
  then show ?thesis using account_or_new_update [OF assms(5)] by (simp add: vm_rel_def account_write_def)
qed

lemma SetLockedBalance_write:
  assumes "vm_good s"
  shows "\<exists>s'. SetLockedBalance a v s = Inr s' \<and> vm_rel False s s' \<and> account_write s a (\<lambda>A. A\<lparr>LockedBalance := Some v\<rparr>) s'"
proof -
  have ok: "state_ok s" using assms by (simp add: vm_good_def)
  obtain s' where s': "SetLockedBalance a v s = Inr s'" "accounts_of s' =
      (accounts_of s)(a \<mapsto> (account_or_new s a)\<lparr>av_data := (account s a)\<lparr>LockedBalance := Some v\<rparr>\<rparr>)"
    using locked_fields [OF ok] locked_setters_accounts(1) [OF ok] by metis
  then show ?thesis
    using data_write [OF assms via_logged(7) [OF vm_good_objs [OF assms] s'(1)] sdb_step.intros(23) [OF s'(1)], of "\<lambda>A. A\<lparr>LockedBalance := Some v\<rparr>" a]
    by simp
qed

lemma SetDelegateTimestamp_write:
  assumes "vm_good s"
  shows "\<exists>s'. SetDelegateTimestamp a v s = Inr s' \<and> vm_rel False s s' \<and> account_write s a (\<lambda>A. A\<lparr>DelegateTimestamp := Some v\<rparr>) s'"
proof -
  have ok: "state_ok s" using assms by (simp add: vm_good_def)
  obtain s' where s': "SetDelegateTimestamp a v s = Inr s'" "accounts_of s' =
      (accounts_of s)(a \<mapsto> (account_or_new s a)\<lparr>av_data := (account s a)\<lparr>DelegateTimestamp := Some v\<rparr>\<rparr>)"
    using locked_fields [OF ok] locked_setters_accounts(3) [OF ok] by metis
  then show ?thesis
    using data_write [OF assms via_logged(9) [OF vm_good_objs [OF assms] s'(1)] sdb_step.intros(25) [OF s'(1)], of "\<lambda>A. A\<lparr>DelegateTimestamp := Some v\<rparr>" a]
    by simp
qed

lemma SetUnLockedBalance_write:
  assumes "vm_good s" "UnLockedBalance (account s a) = Some u"
  shows "\<exists>s'. SetUnLockedBalance a v s = Inr s' \<and> vm_rel False s s' \<and> account_write s a (\<lambda>A. A\<lparr>UnLockedBalance := Some v\<rparr>) s'"
proof -
  have ok: "state_ok s" using assms by (simp add: vm_good_def)
  obtain s' where s': "SetUnLockedBalance a v s = Inr s'" "accounts_of s' =
      (accounts_of s)(a \<mapsto> (account_or_new s a)\<lparr>av_data := (account s a)\<lparr>UnLockedBalance := Some v\<rparr>\<rparr>)"
    using locked_setters_accounts(2) [OF ok assms(2)] by metis
  then show ?thesis
    using data_write [OF assms(1) via_logged(8) [OF vm_good_objs [OF assms(1)] s'(1)] sdb_step.intros(24) [OF s'(1)], of "\<lambda>A. A\<lparr>UnLockedBalance := Some v\<rparr>" a]
    by simp
qed

lemma SetNonce_write:
  assumes "vm_good s"
  shows "vm_rel False s (SetNonce a n s) \<and> account_write s a (\<lambda>A. A\<lparr>Nonce := n\<rparr>) (SetNonce a n s)"
  using assms by (intro data_write via_logged(4) vm_good_objs sdb_step.intros(20) SetNonce_accounts) (simp_all add: vm_good_def)

lemma balance_write:
  assumes "vm_good s" "0 \<le> v"
  shows "v \<le> balance_of s a \<Longrightarrow> \<exists>s'. SubBalance a v s = Inr s' \<and> vm_rel False s s'
      \<and> account_write s a (\<lambda>A. A\<lparr>Balance := Some (balance_of s a - v)\<rparr>) s'"
    "\<exists>s'. AddBalance a v s = Inr s' \<and> vm_rel False s s'
      \<and> account_write s a (\<lambda>A. A\<lparr>Balance := Some (balance_of s a + v)\<rparr>) s'"
proof -
  have ok: "state_ok s" using assms by (simp add: vm_good_def)
  note b = balance_of_ok [OF assms(1), of a, THEN conjunct1]
  have w: "account_write s a (\<lambda>A. A\<lparr>Balance := Some x\<rparr>) s'"
    if "accounts_of s' = (accounts_of s)(a \<mapsto> with_balance (account_or_new s a) x)" "vm_rel ro s s'" for s' x ro
    using account_or_new_update [OF that(1)] that(2) by (simp add: vm_rel_def account_write_def with_balance_def)
  show "\<exists>s'. SubBalance a v s = Inr s' \<and> vm_rel False s s' \<and> account_write s a (\<lambda>A. A\<lparr>Balance := Some (balance_of s a - v)\<rparr>) s'"
    if "v \<le> balance_of s a"
    using balance_vm(1) [OF assms that] SubBalance_accounts [OF ok b, of v] w vm.raw_any by fastforce
  show "\<exists>s'. AddBalance a v s = Inr s' \<and> vm_rel False s s' \<and> account_write s a (\<lambda>A. A\<lparr>Balance := Some (balance_of s a + v)\<rparr>) s'"
    using balance_vm(2) [OF assms, of a] AddBalance_accounts [OF ok b, of v] w vm.raw_any by fastforce
qed

lemma keep_account: "vm_keep s s' \<Longrightarrow> account_or_new s' = account_or_new s"
  by (simp add: vm_keep_def vm_rel_def untouched_def)

lemma get_field_value:
  assumes "state_ok s" "get_field f dflt s a = (p, s')" "accounts_of s a = None \<Longrightarrow> f (account s a) = dflt"
  shows "p = f (account s a)"
proof -
  obtain r t where gs: "getStateObject s a = (r, t)" by fastforce
  then show ?thesis using getStateObject_props(1) [OF gs] assms
    by (auto simp: get_field_def accounts_of_def account_or_new_def view_of_def state_ok_def split: option.splits)
qed

lemma locked_reads:
  assumes "vm_good s"
  shows "GetLockedBalance s a = (p, s') \<Longrightarrow> p = LockedBalance (account s a) \<and> vm_keep s s'"
    "GetDelegateTimestamp s a = (p, s') \<Longrightarrow> p = DelegateTimestamp (account s a) \<and> vm_keep s s'"
    "GetUnLockedBalance s a = (p, s') \<Longrightarrow> UnLockedBalance (account s a) = Some u \<Longrightarrow> p = Some u \<and> vm_keep s s'"
    "GetUnDelegateTimestamp s a = (p, s') \<Longrightarrow> UnDelegateTimestamp (account s a) = Some u \<Longrightarrow> p = Some u \<and> vm_keep s s'"
proof -
  have ok: "state_ok s" using assms by (simp add: vm_good_def)
  note q = vm_keep_quiet [OF assms reads_quiet(4) [OF vm_good_objs [OF assms]]]
  have new: "LockedBalance (account s a) = Some 0" "DelegateTimestamp (account s a) = Some 0"
      "UnLockedBalance (account s a) = None" "UnDelegateTimestamp (account s a) = None" if "accounts_of s a = None"
    using that by (simp_all add: account_or_new_def view_of_def newObject_def emptyAccount_def Let_def)
  show "GetLockedBalance s a = (p, s') \<Longrightarrow> p = LockedBalance (account s a) \<and> vm_keep s s'"
    using q [OF _ sdb_step.intros(5)] get_field_value [OF ok, of LockedBalance] new(1) by (simp add: GetLockedBalance_def)
  show "GetDelegateTimestamp s a = (p, s') \<Longrightarrow> p = DelegateTimestamp (account s a) \<and> vm_keep s s'"
    using q [OF _ sdb_step.intros(6)] get_field_value [OF ok, of DelegateTimestamp] new(2) by (simp add: GetDelegateTimestamp_def)
  show "GetUnLockedBalance s a = (p, s') \<Longrightarrow> UnLockedBalance (account s a) = Some u \<Longrightarrow> p = Some u \<and> vm_keep s s'"
    using q [OF _ sdb_step.intros(7)] get_field_value [OF ok, of UnLockedBalance "Some 0" a p s'] new(3) by (auto simp: GetUnLockedBalance_def)
  show "GetUnDelegateTimestamp s a = (p, s') \<Longrightarrow> UnDelegateTimestamp (account s a) = Some u \<Longrightarrow> p = Some u \<and> vm_keep s s'"
    using q [OF _ sdb_step.intros(8)] get_field_value [OF ok, of UnDelegateTimestamp "Some 0" a p s'] new(4) by (auto simp: GetUnDelegateTimestamp_def)
qed

lemma reads:
  assumes "vm_good s"
  shows "\<exists>s'. GetBalance s a = (Some (balance_of s a), s') \<and> vm_keep s s'"
    "LockedBalance (account s a) = Some l \<Longrightarrow> \<exists>s'. GetLockedBalance s a = (Some l, s') \<and> vm_keep s s'"
    "DelegateTimestamp (account s a) = Some t \<Longrightarrow> \<exists>s'. GetDelegateTimestamp s a = (Some t, s') \<and> vm_keep s s'"
    "UnLockedBalance (account s a) = Some l \<Longrightarrow> \<exists>s'. GetUnLockedBalance s a = (Some l, s') \<and> vm_keep s s'"
    "UnDelegateTimestamp (account s a) = Some t \<Longrightarrow> \<exists>s'. GetUnDelegateTimestamp s a = (Some t, s') \<and> vm_keep s s'"
  using GetBalance_vm [OF assms, of a] locked_reads(1,2) [OF assms, of a] locked_reads(3,4) [OF assms, of a] by (metis prod.collapse)+

section \<open>Messages\<close>

text \<open>What an account owns, and what a message needs of its sender: the two fields that a fresh
  account leaves nil.\<close>

definition holding :: "Account \<Rightarrow> int" where
  "holding A = the (Balance A) + the (LockedBalance A) + the (UnLockedBalance A)"

definition stake_ok :: "Account \<Rightarrow> bool" where
  "stake_ok A \<longleftrightarrow> (\<exists>u t. UnLockedBalance A = Some u \<and> 0 \<le> u \<and> UnDelegateTimestamp A = Some t)"

definition moved :: "StateDB \<Rightarrow> address \<Rightarrow> StateDB \<Rightarrow> bool" where
  "moved s a s' \<longleftrightarrow> vm_good s' \<and> (\<forall>b. b \<noteq> a \<longrightarrow> account s' b = account s b) \<and> holding (account s' a) = holding (account s a)
     \<and> Nonce (account s' a) = Nonce (account s a) \<and> stake_ok (account s' a)"

lemma moved_same: "vm_good s' \<Longrightarrow> account_or_new s' = account_or_new s \<Longrightarrow> stake_ok (account s a) \<Longrightarrow> moved s a s'"
  by (simp add: moved_def)

lemma vm_rel_keep: "vm_rel False s t \<Longrightarrow> vm_keep t u \<Longrightarrow> vm_rel False s u"
  using vm_rel_trans vm.raw_weaken [OF vm.keep_raw] by blast

lemma after_dpos_op_ok:
  assumes s: "vm_good s3" "Snapshot s3 = (i, s4)" "vm_rel False s4 s" and a: "stake_ok (account s4 a)"
    and r: "dpos_ok (snd r)" "fst r = None \<Longrightarrow> moved s4 a s"
  shows "\<exists>failed err s'. after_dpos_op ds i r s = Inr (failed, err, snd r, s') \<and> dpos_ok (snd r) \<and> moved s4 a s'"
proof (cases "fst r")
  case None
  then show ?thesis using r by (cases r) (auto simp: after_dpos_op_def)
next
  case (Some e)
  obtain s' where s': "RevertToSnapshot i s = Inr s'" "vm_keep s3 s'" using vm.Revert_raw [OF s] by blast
  have "account_or_new s' = account_or_new s4"
    using keep_account [OF s'(2)] keep_account [OF vm.Snapshot_law [OF s(1,2)]] by simp
  then have "moved s4 a s'" using vm.keep_good [OF s'(2)] a by (intro moved_same)
  then show ?thesis using Some r(1) s'(1) by (cases r) (auto simp: after_dpos_op_def)
qed

lemma delegate_message_ok:
  assumes s: "vm_good s3" "Snapshot s3 = (i, s4)" and a: "stake_ok (account s4 a)" and d: "dpos_ok d"
  shows "\<exists>failed err d' s'. delegate_message ts tx a i ds d s4 = Inr (failed, err, d', s') \<and> dpos_ok d' \<and> moved s4 a s'"
proof -
  let ?r = "Dpos_Delegate a (tos tx) d" and ?v = "tx_Value tx"
  have r: "dpos_ok (snd ?r)" using Delegate_ok(1) [OF d, of a "tos tx" "fst ?r" "snd ?r"] by simp
  have g4: "vm_good s4" by (rule vm.keep_good [OF vm.Snapshot_law [OF s]])
  show ?thesis
  proof (cases "0 < ?v")
    case False
    then show ?thesis
      using after_dpos_op_ok [OF s _ a r, of s4 ds] moved_same [OF g4 refl a] vm.raw_weaken [OF vm.keep_raw [OF vm.keep_refl [OF g4]]]
      by (auto simp: delegate_message_def)
  next
    case True
    obtain s5 where s5: "GetBalance s4 a = (Some (balance_of s4 a), s5)" "vm_keep s4 s5" using reads(1) [OF g4] by blast
    note k5 = keep_account [OF s5(2)] vm.keep_good [OF s5(2)] vm.keep_bal [OF s5(2)]
    show ?thesis
    proof (cases "balance_of s4 a - ?v < 0")
      case True
      then show ?thesis using \<open>0 < ?v\<close> s5 d moved_same [OF k5(2,1) a] by (auto simp: delegate_message_def deref_def)
    next
      case False
      then obtain s6 where s6: "SubBalance a ?v s5 = Inr s6" "vm_rel False s5 s6"
          "account_write s5 a (\<lambda>A. A\<lparr>Balance := Some (balance_of s4 a - ?v)\<rparr>) s6"
        using balance_write(1) [OF k5(2), of ?v a] True k5(3) by auto
      obtain l where l: "LockedBalance (account s4 a) = Some l" using locked_fields [of s4 a] g4 by (auto simp: vm_good_def)
      obtain s7 where s7: "GetLockedBalance s6 a = (Some l, s7)" "vm_keep s6 s7"
        using reads(2) [OF vm.raw_good [OF s6(2)], of a l] s6(3) k5(1) l by (auto simp: account_write_def)
      obtain s8 where s8: "SetLockedBalance a (l + ?v) s7 = Inr s8" "vm_rel False s7 s8"
          "account_write s7 a (\<lambda>A. A\<lparr>LockedBalance := Some (l + ?v)\<rparr>) s8"
        using SetLockedBalance_write [OF vm.keep_good [OF s7(2)]] by blast
      obtain s9 where s9: "SetDelegateTimestamp a ts s8 = Inr s9" "vm_rel False s8 s9"
          "account_write s8 a (\<lambda>A. A\<lparr>DelegateTimestamp := Some ts\<rparr>) s9"
        using SetDelegateTimestamp_write [OF vm.raw_good [OF s8(2)]] by blast
      have rel: "vm_rel False s4 s9"
        using vm_rel_trans [OF vm_rel_keep [OF vm_rel_trans [OF vm.raw_weaken [OF vm.keep_raw [OF s5(2)]] s6(2)] s7(2)] vm_rel_trans [OF s8(2) s9(2)]] .
      have "moved s4 a s9"
        using vm.raw_good [OF rel] s6(3) s8(3) s9(3) k5(1) keep_account [OF s7(2)] l a balance_of_ok [OF g4, of a]
        by (auto simp: moved_def account_write_def holding_def stake_ok_def)
      then show ?thesis using after_dpos_op_ok [OF s rel a r, of ds] True False s5(1) s6(1) s7(1) s8(1) s9(1)
        by (auto simp: delegate_message_def deref_def)
    qed
  qed
qed

text \<open>The unjournaled write of the time of an undelegation.\<close>

lemma SetUnDelegateTimestamp_write:
  assumes "vm_good s"
  shows "vm_good (SetUnDelegateTimestamp a t s)"
    "account_write s a (\<lambda>A. A\<lparr>UnDelegateTimestamp := Some t\<rparr>) (SetUnDelegateTimestamp a t s)"
proof -
  have ok: "state_ok s" using assms by (simp add: vm_good_def)
  obtain ob s1 where g: "GetOrNewStateObject s a = (ob, s1)" by fastforce
  note v = GetOrNewStateObject_view [OF g ok]
  let ?ob = "so_setUnDelegateTimestamp (Some t) ob" and ?s = "SetUnDelegateTimestamp a t s"
  have s: "?s = setStateObject ?ob s1" using g by (simp add: SetUnDelegateTimestamp_def)
  have o: "so_address ob = a" "\<not> deleted ob" "obj_ok ob" using obj_at_ok [OF _ v(2)] v(1) by (simp_all add: state_ok_def)
  have o': "so_address ?ob = a" "\<not> deleted ?ob" using o by (simp_all add: setter_defs)
  have acc: "accounts_of ?s = (accounts_of s)(a \<mapsto> (account_or_new s a)\<lparr>av_data := (account s a)\<lparr>UnDelegateTimestamp := Some t\<rparr>\<rparr>)"
    using accounts_of_set [OF o'(2), of s1] o'(1) v(3,5) v(4) [symmetric] by (simp add: s so_setters_view(4))
  have "state_ok ?s"
    using v(1) o by (auto simp: s state_ok_def objs_ok_def revs_ok_def setStateObject_def setter_defs obj_ok_def)
  moreover have "acct_ok w" if "accounts_of ?s b = Some w" for b w
    using that acc assms account_or_new_acct_ok [OF assms, of a] by (auto simp: vm_good_def acct_ok_def split: if_splits)
  ultimately show "vm_good ?s" by (simp add: vm_good_def)
  have "sdb_db ?s = sdb_db s" using v(3) by (simp add: s setStateObject_def)
  then show "account_write s a (\<lambda>A. A\<lparr>UnDelegateTimestamp := Some t\<rparr>) ?s"
    using account_or_new_update [OF acc] by (simp add: account_write_def)
qed

lemma undelegate_finish_ok:
  assumes s: "vm_good s3" "Snapshot s3 = (i, s4)" and a: "stake_ok (account s4 a)" and d: "dpos_ok d" and m: "moved s4 a s"
    and l: "LockedBalance (account s a) = Some l" "GetLockedBalance s a = (Some l, s1)" "vm_keep s s1"
  shows "\<exists>failed err d' s'. (if l = 0 then after_dpos_op ds i (Dpos_UnDelegate a d) s1 else Inr (False, None, d, s1))
      = Inr (failed, err, d', s') \<and> dpos_ok d' \<and> moved s4 a s'"
proof -
  have "moved s4 a s1" using m keep_account [OF l(3)] vm.keep_good [OF l(3)] by (simp add: moved_def)
  moreover obtain err d' where r: "Dpos_UnDelegate a d = (err, d')" by fastforce
  moreover have "err = None" "dpos_ok d'" using UnDelegate_ok [OF d r] by auto
  ultimately show ?thesis using d by (auto simp: after_dpos_op_def)
qed

lemma undelegate_message_ok:
  assumes s: "vm_good s3" "Snapshot s3 = (i, s4)" and a: "stake_ok (account s4 a)" and d: "dpos_ok d"
  shows "\<exists>failed err d' s'. undelegate_message cfg ts tx a i ds d s4 = Inr (failed, err, d', s') \<and> dpos_ok d' \<and> moved s4 a s'"
proof -
  let ?v = "tx_Value tx"
  have g4: "vm_good s4" by (rule vm.keep_good [OF vm.Snapshot_law [OF s]])
  obtain l t where l: "LockedBalance (account s4 a) = Some l" "DelegateTimestamp (account s4 a) = Some t"
    using locked_fields [of s4 a] g4 by (auto simp: vm_good_def)
  obtain u where u: "UnLockedBalance (account s4 a) = Some u" "0 \<le> u" using a by (auto simp: stake_ok_def)
  show ?thesis
  proof (cases "0 < ?v")
    case False
    obtain s1 where s1: "GetLockedBalance s4 a = (Some l, s1)" "vm_keep s4 s1" using reads(2) [OF g4 l(1)] by blast
    show ?thesis using undelegate_finish_ok [OF s a d moved_same [OF g4 refl a] l(1) s1, of ds] False s1(1)
      by (simp add: undelegate_message_def deref_def)
  next
    case True
    obtain s5 where s5: "GetDelegateTimestamp s4 a = (Some t, s5)" "vm_keep s4 s5" using reads(3) [OF g4 l(2)] by blast
    note k5 = keep_account [OF s5(2)] vm.keep_good [OF s5(2)]
    obtain s6 where s6: "GetLockedBalance s5 a = (Some l, s6)" "vm_keep s5 s6" using reads(2) [OF k5(2)] k5(1) l(1) by metis
    have k6: "account_or_new s6 = account_or_new s4" "vm_good s6"
      using keep_account [OF s6(2)] k5(1) vm.keep_good [OF s6(2)] by simp_all
    obtain s7 where s7: "SetLockedBalance a (l - ?v) s6 = Inr s7" "vm_rel False s6 s7"
        "account_write s6 a (\<lambda>A. A\<lparr>LockedBalance := Some (l - ?v)\<rparr>) s7" using SetLockedBalance_write [OF k6(2)] by blast
    have u7: "UnLockedBalance (account s7 a) = Some u" using s7(3) k6(1) u(1) by (simp add: account_write_def)
    obtain s8 where s8: "GetUnLockedBalance s7 a = (Some u, s8)" "vm_keep s7 s8" using reads(4) [OF vm.raw_good [OF s7(2)] u7] by blast
    note k8 = keep_account [OF s8(2)] vm.keep_good [OF s8(2)]
    obtain s9 where s9: "SetUnLockedBalance a (u + ?v) s8 = Inr s9" "vm_rel False s8 s9"
        "account_write s8 a (\<lambda>A. A\<lparr>UnLockedBalance := Some (u + ?v)\<rparr>) s9"
      using SetUnLockedBalance_write [OF k8(2)] k8(1) u7 by metis
    define s10 where "s10 = SetUnDelegateTimestamp a ts s9"
    have w: "vm_good s10" "account_write s9 a (\<lambda>A. A\<lparr>UnDelegateTimestamp := Some ts\<rparr>) s10"
      unfolding s10_def using SetUnDelegateTimestamp_write [OF vm.raw_good [OF s9(2)]] by blast+
    have l10: "LockedBalance (account s10 a) = Some (l - ?v)" using s7(3) s9(3) w(2) k8(1) by (simp add: account_write_def)
    obtain s11 where s11: "GetLockedBalance s10 a = (Some (l - ?v), s11)" "vm_keep s10 s11" using reads(2) [OF w(1) l10] by blast
    have "moved s4 a s10"
      using w s7(3) s9(3) k8(1) k6(1) l(1) u True by (auto simp: moved_def account_write_def holding_def stake_ok_def)
    note fin = undelegate_finish_ok [OF s a d this l10 s11, of ds]
    define early where "early = (time_Sub (instant (Int64 ts)) (instant (Int64 t)) < wrap_int64 (60 * second_ns * MinDelegateDuration cfg))"
    have "undelegate_message cfg ts tx a i ds d s4 =
        (if early then Inr (True, Some DelegateDurationInsufficient, d, s5)
         else if l - ?v < 0 then Inr (True, Some LockedBalanceInsufficient, d, s6)
         else if l - ?v = 0 then after_dpos_op ds i (Dpos_UnDelegate a d) s11 else Inr (False, None, d, s11))"
      using True s5(1) s6(1) s7(1) s8(1) s9(1) s11(1)
      by (simp add: undelegate_message_def deref_def Let_def s10_def [symmetric] early_def [symmetric])
    then show ?thesis using fin d moved_same [OF k5(2,1) a] moved_same [OF k6(2,1) a] by auto
  qed
qed

lemma redeem_message_ok:
  assumes g: "vm_good s4" and a: "stake_ok (account s4 a)" and d: "dpos_ok d"
  shows "\<exists>failed err d' s'. redeem_message cfg ts a d s4 = Inr (failed, err, d', s') \<and> dpos_ok d' \<and> moved s4 a s'"
proof -
  obtain u t where u: "UnLockedBalance (account s4 a) = Some u" "0 \<le> u" "UnDelegateTimestamp (account s4 a) = Some t"
    using a by (auto simp: stake_ok_def)
  obtain s5 where s5: "GetUnDelegateTimestamp s4 a = (Some t, s5)" "vm_keep s4 s5" using reads(5) [OF g u(3)] by blast
  note k5 = keep_account [OF s5(2)] vm.keep_good [OF s5(2)]
  obtain s6 where s6: "GetUnLockedBalance s5 a = (Some u, s6)" "vm_keep s5 s6" using reads(4) [OF k5(2)] k5(1) u(1) by metis
  have k6: "account_or_new s6 = account_or_new s4" "vm_good s6" "balance_of s6 a = balance_of s4 a"
    using keep_account [OF s6(2)] k5(1) vm.keep_good [OF s6(2)] vm.keep_bal [OF s6(2)] vm.keep_bal [OF s5(2)] by simp_all
  obtain s7 where s7: "AddBalance a u s6 = Inr s7" "vm_rel False s6 s7"
      "account_write s6 a (\<lambda>A. A\<lparr>Balance := Some (balance_of s4 a + u)\<rparr>) s7" using balance_write(2) [OF k6(2) u(2), of a] k6(3) by auto
  have u7: "UnLockedBalance (account s7 a) = Some u" using s7(3) k6(1) u(1) by (simp add: account_write_def)
  obtain s8 where s8: "SetUnLockedBalance a 0 s7 = Inr s8" "vm_rel False s7 s8"
      "account_write s7 a (\<lambda>A. A\<lparr>UnLockedBalance := Some 0\<rparr>) s8" using SetUnLockedBalance_write [OF vm.raw_good [OF s7(2)] u7] by blast
  have "moved s4 a s8"
    using vm.raw_good [OF s8(2)] s7(3) s8(3) k6(1) u balance_of_ok [OF g, of a]
    by (auto simp: moved_def account_write_def holding_def stake_ok_def)
  then show ?thesis using s5(1) s6(1) s7(1) s8(1) d moved_same [OF k5(2,1) a] by (auto simp: redeem_message_def deref_def)
qed

section \<open>Properties\<close>

definition message_gas :: "Transaction \<Rightarrow> u64" where
  "message_gas tx = (case IntrinsicGas (tx_Payload tx) (tx_Type tx) False of Inl _ \<Rightarrow> 0 | Inr g \<Rightarrow> g)"

lemma dpos_switch_ok:
  assumes s: "vm_good s3" "Snapshot s3 = (i, s4)" and a: "stake_ok (account s4 a)" and d: "dpos_ok d"
  shows "\<exists>failed err d' s'. dpos_switch cfg ts tx a i ds d s4 = Inr (failed, err, d', s') \<and> dpos_ok d' \<and> moved s4 a s'"
proof -
  have g4: "vm_good s4" by (rule vm.keep_good [OF vm.Snapshot_law [OF s]])
  note same = moved_same [OF g4 refl a]
  have op: "\<exists>failed err d' s'. after_dpos_op ds i r s4 = Inr (failed, err, d', s') \<and> dpos_ok d' \<and> moved s4 a s'" if "dpos_ok (snd r)" for r
    using after_dpos_op_ok [OF s vm.raw_weaken [OF vm.keep_raw [OF vm.keep_refl [OF g4]]] a that same] by blast
  have "dpos_ok (snd (BecomeCandidate a d))" "dpos_ok (snd (KickoutCandidate a d))"
    using BecomeCandidate_ok(1) [OF d, of a "fst (BecomeCandidate a d)"] KickoutCandidate_ok [OF d, of a] by auto
  note ops = this [THEN op] delegate_message_ok [OF s a d] undelegate_message_ok [OF s a d] redeem_message_ok [OF g4 a d]
  show ?thesis using ops d same unfolding dpos_switch_def by (cases "tx_Type tx") (simp_all, blast+)
qed

lemma applyDposMessage_ok:
  assumes "vm_good s" "dpos_ok d" "0 \<le> tx_GasPrice tx" "stake_ok (account s (sender tx))"
  defines "a \<equiv> sender tx" and "fee \<equiv> uint (message_gas tx) * tx_GasPrice tx"
  shows "\<exists>gas failed err d' s' gp'. applyDposMessage sender cfg ts d tx s gp = Inr (gas, failed, err, d', s', gp')
    \<and> dpos_ok d' \<and> vm_good s' \<and> stake_ok (account s' a) \<and> (\<forall>b. b \<noteq> a \<longrightarrow> account s' b = account s b)
    \<and> (if balance_of s a < fee then account s' a = account s a \<and> d' = d
       else holding (account s' a) = holding (account s a) - fee \<and> Nonce (account s' a) = tx_Nonce tx + 1)"
proof -
  have st: "stake_ok (account s a)" using assms(4) by (simp add: a_def)
  obtain s1 where s1: "GetBalance s a = (Some (balance_of s a), s1)" "vm_keep s s1" using reads(1) [OF assms(1)] by blast
  note k1 = keep_account [OF s1(2)] vm.keep_good [OF s1(2)] vm.keep_bal [OF s1(2)]
  have fee: "0 \<le> fee" using assms(3) by (simp add: fee_def)
  show ?thesis
  proof (cases "balance_of s a < fee")
    case True
    then show ?thesis using s1(1) k1 assms(2) st
      by (auto simp: applyDposMessage_def message_gas_def [symmetric] a_def [symmetric] fee_def [symmetric] deref_def Let_def)
  next
    case False
    then obtain s2 where s2: "SubBalance a fee s1 = Inr s2" "vm_rel False s1 s2"
        "account_write s1 a (\<lambda>A. A\<lparr>Balance := Some (balance_of s a - fee)\<rparr>) s2"
      using balance_write(1) [OF k1(2) fee, of a] k1(3) by auto
    define s3 where "s3 = SetNonce a (tx_Nonce tx + 1) s2"
    have s3: "vm_good s3" "account_write s2 a (\<lambda>A. A\<lparr>Nonce := tx_Nonce tx + 1\<rparr>) s3"
      unfolding s3_def using SetNonce_write [OF vm.raw_good [OF s2(2)]] vm.raw_good by blast+
    obtain i s4 where s4: "Snapshot s3 = (i, s4)" by fastforce
    note k4 = keep_account [OF vm.Snapshot_law [OF s3(1) s4]] vm.keep_good [OF vm.Snapshot_law [OF s3(1) s4]]
    have acc: "account s3 a = (account s a)\<lparr>Balance := Some (balance_of s a - fee), Nonce := tx_Nonce tx + 1\<rparr>"
        "b \<noteq> a \<Longrightarrow> account s3 b = account s b" for b
      using s2(3) s3(2) k1(1) by (simp_all add: account_write_def)
    have paid: "holding (account s3 a) = holding (account s a) - fee" "Nonce (account s3 a) = tx_Nonce tx + 1" "stake_ok (account s3 a)"
      using acc(1) st balance_of_ok [OF assms(1), of a] by (simp_all add: holding_def stake_ok_def)
    have fin: "dpos_ok d' \<and> vm_good s' \<and> stake_ok (account s' a) \<and> (\<forall>b. b \<noteq> a \<longrightarrow> account s' b = account s b)
        \<and> holding (account s' a) = holding (account s a) - fee \<and> Nonce (account s' a) = tx_Nonce tx + 1"
      if "dpos_ok d'" "moved s4 a s'" for d' s'
      using that k4(1) paid acc(2) by (simp add: moved_def)
    have st4: "stake_ok (account s4 a)" using paid(3) k4(1) by simp
    obtain failed err d' s' where r: "dpos_switch cfg ts tx a i (Dpos_Snapshot d) d s4 = Inr (failed, err, d', s')" "dpos_ok d'" "moved s4 a s'"
      using dpos_switch_ok [OF s3(1) s4 st4 assms(2)] by blast
    have "applyDposMessage sender cfg ts d tx s gp = (case SubGas (message_gas tx) gp of
          Inl e \<Rightarrow> Inr (0, True, Some (ExecErr e), d, s3, gp)
        | Inr gp1 \<Rightarrow> rbind (dpos_switch cfg ts tx a i (Dpos_Snapshot d) d s4) (\<lambda>(failed, err, d1, s5). Inr (message_gas tx, failed, err, d1, s5, gp1)))"
      using False s1(1) s2(1) by (simp add: applyDposMessage_def message_gas_def [symmetric] a_def [symmetric] fee_def [symmetric]
          deref_def Let_def s3_def s4 [unfolded s3_def] split: sum.split)
    then show ?thesis using r fin [OF r(2,3)] False assms(2) s3(1) paid acc(2) by (cases "SubGas (message_gas tx) gp") auto
  qed
qed

text \<open>A database with one account that has all its fields.\<close>

definition stake_db :: Database where
  "stake_db = small_db\<lparr>db_accounts := [1 \<mapsto> (\<lambda>a. if a = 5 then Present \<lparr>UnLockedBalance = Some 7, UnDelegateTimestamp = Some 0,
     LockedBalance = Some 40, DelegateTimestamp = Some 0, Nonce = 9, Balance = Some 30000, Root = 0, CodeHash = Some 0\<rparr> else Absent)]\<rparr>"

definition stake_state :: StateDB where
  "stake_state = projr (New 1 stake_db)"

lemma New_stake: "New 1 stake_db = Inr stake_state"
  by (simp add: stake_state_def New_def OpenTrie_def emptyRoot_def stake_db_def)

lemma stake_account:
  "account stake_state 5 = \<lparr>UnLockedBalance = Some 7, UnDelegateTimestamp = Some 0,
     LockedBalance = Some 40, DelegateTimestamp = Some 0, Nonce = 9, Balance = Some 30000, Root = 0, CodeHash = Some 0\<rparr>"
  by (simp add: stake_state_def New_def OpenTrie_def emptyRoot_def stake_db_def account_or_new_def accounts_of_def obj_at_def
      view_of_def newObject_def Let_def)

lemma stake_vm_good: "vm_good stake_state"
proof -
  have "acct_ok v" if "accounts_of stake_state a = Some v" for a v
    using that by (auto simp: stake_state_def New_def OpenTrie_def emptyRoot_def stake_db_def accounts_of_def obj_at_def acct_ok_def
        view_of_alt code_of_def newObject_def Let_def small_db_def ContractCode_def split: if_splits)
  then show ?thesis using New_state_ok [OF New_stake] by (simp add: vm_good_def)
qed

lemma stake_balance: "balance_of stake_state 5 = 30000" "stake_ok (account stake_state 5)"
  unfolding balance_of_def stake_account by (simp_all add: stake_ok_def)

text \<open>C10: A message of the proof of stake whose sender's account has an unlocked balance and an undelegation time (accounts
  decoded from the trie do; in a newly created one they are nil) returns without a panic and keeps the candidates and votes
  consistent. It touches no account but the sender's, and there it only moves money between the
  free, the locked and the unlocked balance and takes the fee, whether it succeeds or fails; a
  sender who cannot pay the fee loses nothing.\<close>

theorem dpos_message_conserves:
  assumes "vm_good s" "dpos_ok d" "0 \<le> tx_GasPrice tx" "stake_ok (account s (sender tx))"
  shows "\<exists>gas failed err d' s' gp'. applyDposMessage sender cfg ts d tx s gp = Inr (gas, failed, err, d', s', gp')
    \<and> dpos_ok d' \<and> vm_good s' \<and> (\<forall>b. b \<noteq> sender tx \<longrightarrow> account s' b = account s b)
    \<and> holding (account s' (sender tx)) = holding (account s (sender tx)) -
        (let fee = uint (message_gas tx) * tx_GasPrice tx in if balance_of s (sender tx) < fee then 0 else fee)"
  using applyDposMessage_ok [of s d tx sender cfg ts gp] assms by (fastforce simp: Let_def split: if_splits)

definition redeem_tx :: Transaction where
  "redeem_tx = \<lparr>tx_Type = Redeem, tx_Nonce = 0, tx_GasPrice = 1, tx_GasLimit = 0, tx_Tos = None, tx_Value = 0,
     tx_Payload = [], tx_Signature = []\<rparr>"

definition stake_config :: ChainConfig where
  "stake_config = \<lparr>MinDelegateState = None, MinDelegatePercent = None, MinDelegateDuration = 0, cfg_MaxValidatorSize = 3,
     MaxVotes = 30, DelayDuration = 0\<rparr>"

lemma message_gas_redeem: "message_gas redeem_tx = 21000"
  by (simp add: message_gas_def redeem_tx_def IntrinsicGas_def TxGas_def)

theorem dpos_message_conserves_witness:
  "\<exists>gas failed err d' s' gp'. applyDposMessage (\<lambda>_. 5) stake_config 0 NewDposContext redeem_tx stake_state 50000
      = Inr (gas, failed, err, d', s', gp') \<and> dpos_ok d' \<and> holding (account s' 5) = 9047"
  using dpos_message_conserves [OF stake_vm_good NewDposContext_ok, of redeem_tx "\<lambda>_. 5" stake_config 0 50000]
    stake_balance message_gas_redeem
  by (auto simp: stake_account holding_def redeem_tx_def Let_def)



text \<open>The headers of a chain by their hashes \<open>hs\<close>.\<close>

definition chain_headers :: "(hash \<Rightarrow> BlockHeader option) \<Rightarrow> (nat \<Rightarrow> hash) \<Rightarrow> nat \<Rightarrow> bool" where
  "chain_headers getHeader hs N \<longleftrightarrow> getHeader 0 = None \<and> (\<forall>i \<le> N. \<exists>hd. getHeader (hs i) = Some hd \<and> Height hd = int i
     \<and> PreviousHash hd = (if i = 0 then 0 else hs (i - 1)))"

lemma u64_of_nat_inj: "m < 2 ^ 64 \<Longrightarrow> k < 2 ^ 64 \<Longrightarrow> (of_nat m = (of_nat k :: u64)) \<longleftrightarrow> m = k"
  using u64_of_nat by metis

lemma GetHash_loop_chain:
  assumes "chain_headers getHeader hs N" "N < 2 ^ 63" "k \<le> N" "k < f" "m < 2 ^ 63"
  shows "GetHash_loop f getHeader (of_nat m) (hs k) = (if m < k then hs m else 0)"
  using assms(3,4)
proof (induction k arbitrary: f)
  case 0
  then obtain f' where "f = Suc f'" by (cases f) auto
  moreover have "(of_nat m :: u64) \<noteq> - 1"
  proof
    assume "(of_nat m :: u64) = - 1"
    then have "unat (of_nat m :: u64) = unat MaxUint64" by (simp add: MaxUint64_def)
    then show False using assms(5) u64_of_nat [of m] MaxUint64_unat by simp
  qed
  ultimately show ?case using assms(1) by (cases f') (auto simp: chain_headers_def Uint64_def)
next
  case (Suc k)
  then obtain f' where f: "f = Suc f'" "k < f'" by (cases f) auto
  obtain hd where hd: "getHeader (hs (Suc k)) = Some hd" "Height hd = int (Suc k)" "PreviousHash hd = hs k"
    using assms(1) Suc.prems(1) by (auto simp: chain_headers_def)
  have "Uint64 (Height hd) - 1 = of_nat k" by (simp add: hd(2) Uint64_def)
  moreover have "(of_nat m = (of_nat k :: u64)) \<longleftrightarrow> m = k"
    using assms(2,5) Suc.prems(1) by (intro u64_of_nat_inj) simp_all
  ultimately have "(of_nat m = Uint64 (Height hd) - 1) \<longleftrightarrow> m = k" by simp
  then show ?case using Suc.IH [of f'] Suc.prems f hd by auto
qed

text \<open>C38: On a chain of blocks \<open>0 \<dots> N\<close> the hash that a transaction in block \<open>N + 1\<close> reads for block number \<open>n\<close>
  is the hash of block \<open>n\<close> for every \<open>n\<close> below \<open>N\<close>, but zero for the parent itself: the walk starts at the
  parent and compares with the number before it.\<close>

theorem GetHash_misses_parent:
  assumes "chain_headers getHeader hs N" "N < 2 ^ 63" "n < 2 ^ 63" "Height header = int N + 1" "PreviousHash header = hs N"
  shows "GetHash (NewEVMContext (nat (Height header)) sender getHeader tx header author txFrom) (of_nat n) =
    (if n < N then hs n else 0)"
  using GetHash_loop_chain [OF assms(1,2) order_refl _ assms(3), of "Suc N"] assms(4,5)
  by (simp add: NewEVMContext_def nat_add_distrib)

definition small_header :: "nat \<Rightarrow> BlockHeader" where
  "small_header i = \<lparr>PreviousHash = of_nat i, Miner = 2, StateRoot = 0, ActionsRoot = 0, TransactionsRoot = 0, ReceiptsRoot = 0,
     hd_DposContext = \<lparr>EpochHash = 0, DelegateHash = 0, CandidateHash = 0, VoteHash = 0, MintCntHash = 0\<rparr>, LogsBloom = [],
     hd_Difficulty = 1, Height = int i, hd_GasLimit = 0, hd_GasUsed = 0, TimeStamp = int i, ExtraData = [], hd_Nonce = 0\<rparr>"

definition small_chain :: "hash \<Rightarrow> BlockHeader option" where
  "small_chain h = (if h = 0 then None else if h \<le> 3 then Some (small_header (unat h - 1)) else None)"

theorem GetHash_misses_parent_witness:
  "map (\<lambda>n. GetHash (NewEVMContext 3 (\<lambda>_. 0) small_chain small_tx (small_header 3) None None) (of_nat n)) [0, 1, 2] = [1, 2, 0]"
proof -
  have "chain_headers small_chain (\<lambda>i. of_nat (Suc i)) 2"
    unfolding chain_headers_def
  proof (intro conjI allI impI)
    fix i :: nat assume "i \<le> 2"
    then have "i = 0 \<or> i = 1 \<or> i = 2" by auto
    then show "\<exists>hd. small_chain (of_nat (Suc i)) = Some hd \<and> Height hd = int i \<and> PreviousHash hd = (if i = 0 then 0 else of_nat (Suc (i - 1)))"
      by (auto simp: small_chain_def small_header_def)
  qed (simp add: small_chain_def)
  note r = GetHash_misses_parent [OF this, of _ "small_header 3" "\<lambda>_. 0" small_tx None None]
  show ?thesis using r [of 0] r [of 1] r [of 2] by (simp add: small_header_def)
qed

end
