(* ===== verification/EpochProps.thy ===== *)
theory EpochProps
  imports Epoch ExecutorProps "HOL-Library.Multiset"
begin

text \<open>
  What the development shows of the epochs: the schedule gives every validator its slots, the count
  of the votes is the stake behind each candidate, the election takes the best candidates whatever
  the order of maps and the random numbers are, and the mint counts count.
\<close>

section \<open>Signed division\<close>

lemma sdiv_nonneg [simp]: "0 \<le> (a :: int) \<Longrightarrow> 0 < b \<Longrightarrow> a sdiv b = a div b"
  by (simp add: signed_divide_int_def sgn_if)

lemma smod_nonneg [simp]: "0 \<le> (a :: int) \<Longrightarrow> 0 < b \<Longrightarrow> a smod b = a mod b"
  by (cases "a = 0") (simp_all add: signed_modulo_int_def sgn_if)

lemma sdiv_neg: "(a :: int) < 0 \<Longrightarrow> 0 < b \<Longrightarrow> a sdiv b = - (- a div b)"
  by (simp add: signed_divide_int_def sgn_if)

lemma smod_neg: "(a :: int) < 0 \<Longrightarrow> 0 < b \<Longrightarrow> a smod b = - (- a mod b)"
  by (simp add: signed_modulo_int_def sgn_if)

lemma div_less_of_less_mult: "(k :: int) div b < m" if "0 < b" "k < b * m"
proof (rule ccontr)
  assume "\<not> k div b < m"
  then have "b * m \<le> b * (k div b)" using that by simp
  also have "\<dots> \<le> k" using mult_div_mod_eq [of b k] pos_mod_sign [OF that(1), of k] by linarith
  finally show False using that by simp
qed

lemma div_eq_iff_bounds: "(k :: int) div b = q \<longleftrightarrow> q * b \<le> k \<and> k < (q + 1) * b" if "0 < b"
proof
  assume "k div b = q"
  then have "k = b * q + k mod b" using mult_div_mod_eq [of b k] by simp
  then show "q * b \<le> k \<and> k < (q + 1) * b" using pos_mod_bound [OF that, of k] pos_mod_sign [OF that, of k] by (simp add: algebra_simps)
next
  assume "q * b \<le> k \<and> k < (q + 1) * b"
  then show "k div b = q" by (intro int_div_pos_eq [of k b q "k - q * b"]) (simp_all add: algebra_simps)
qed

section \<open>The schedule\<close>

lemma opt_okD:
  assumes "opt_ok opt"
  shows "0 < BlockInterval opt" "0 < BlockRepeat opt" "0 < MaxValidatorSize opt" "0 < epochInterval opt"
    "0 < BlockInterval opt * BlockRepeat opt"
  using assms by (simp_all add: opt_ok_def epochInterval_def)

lemma offset_eq:
  assumes "opt_ok opt" "0 \<le> now"
  shows "now smod epochInterval opt sdiv (BlockInterval opt * BlockRepeat opt)
    = now div (BlockInterval opt * BlockRepeat opt) mod MaxValidatorSize opt"
proof -
  let ?r = "BlockInterval opt * BlockRepeat opt"
  have "now mod (r * m) div r = now div r mod m" if "0 < r" "0 < m" for r m :: int
    using that by (simp add: zmod_zmult2_eq)
  from this [of ?r] have "now mod (?r * MaxValidatorSize opt) div ?r = now div ?r mod MaxValidatorSize opt"
    using opt_okD [OF assms(1)] by blast
  then show ?thesis using assms opt_okD [OF assms(1)] by (simp add: epochInterval_def)
qed

lemma lookupValidator_full:
  assumes "opt_ok opt" "0 \<le> now" "GetValidators d = Inr vs" "int (length vs) = MaxValidatorSize opt"
  shows "lookupValidator opt d now = Inr (Inr (vs ! nat (now div (BlockInterval opt * BlockRepeat opt) mod MaxValidatorSize opt)))"
proof -
  let ?i = "now div (BlockInterval opt * BlockRepeat opt) mod MaxValidatorSize opt"
  have "0 \<le> ?i" "?i < MaxValidatorSize opt" using opt_okD [OF assms(1)] by simp_all
  then show ?thesis using assms offset_eq [OF assms(1,2)] by (auto simp: lookupValidator_def Let_def)
qed

lemma slot_index:
  assumes "opt_ok opt" "0 \<le> n" "0 \<le> k" "k < BlockRepeat opt * MaxValidatorSize opt"
  shows "(n * epochInterval opt + k * BlockInterval opt) div (BlockInterval opt * BlockRepeat opt) mod MaxValidatorSize opt
    = k div BlockRepeat opt"
proof -
  note o = opt_okD [OF assms(1)]
  have "n * epochInterval opt + k * BlockInterval opt = BlockInterval opt * (n * BlockRepeat opt * MaxValidatorSize opt + k)"
    by (simp add: epochInterval_def algebra_simps)
  then have "(n * epochInterval opt + k * BlockInterval opt) div (BlockInterval opt * BlockRepeat opt)
      = (BlockRepeat opt * (n * MaxValidatorSize opt) + k) div BlockRepeat opt"
    using o by (simp add: mult.commute mult.left_commute)
  also have "\<dots> = n * MaxValidatorSize opt + k div BlockRepeat opt" using o by simp
  finally show ?thesis using div_less_of_less_mult [OF o(2) assms(4)] assms(3) o(2) by (simp add: pos_imp_zdiv_nonneg_iff)
qed

text \<open>C24: A full schedule is fair. With as many distinct validators as the options allow, every slot of
  every epoch has a validator, each validator has exactly \<open>BlockRepeat\<close> slots of the epoch, and
  these are consecutive.\<close>

theorem schedule_is_fair:
  assumes "opt_ok opt" "GetValidators d = Inr vs" "int (length vs) = MaxValidatorSize opt" "distinct vs" "0 \<le> epoch" "i < length vs"
  shows "{slot. 0 \<le> slot \<and> slot < BlockRepeat opt * MaxValidatorSize opt
           \<and> lookupValidator opt d (epoch * epochInterval opt + slot * BlockInterval opt) = Inr (Inr (vs ! i))}
         = {int i * BlockRepeat opt ..< (int i + 1) * BlockRepeat opt}"
proof -
  note o = opt_okD [OF assms(1)]
  have l: "lookupValidator opt d (epoch * epochInterval opt + k * BlockInterval opt) = Inr (Inr (vs ! nat (k div BlockRepeat opt)))"
    and b: "0 \<le> k div BlockRepeat opt" "nat (k div BlockRepeat opt) < length vs"
    if k: "0 \<le> k" "k < BlockRepeat opt * MaxValidatorSize opt" for k
  proof -
    have "0 \<le> epoch * epochInterval opt + k * BlockInterval opt" using assms(5) k o by simp
    then show "lookupValidator opt d (epoch * epochInterval opt + k * BlockInterval opt) = Inr (Inr (vs ! nat (k div BlockRepeat opt)))"
      using lookupValidator_full [OF assms(1) _ assms(2,3)] slot_index [OF assms(1,5) k] by simp
    show "0 \<le> k div BlockRepeat opt" using k o by (simp add: pos_imp_zdiv_nonneg_iff)
    then show "nat (k div BlockRepeat opt) < length vs" using div_less_of_less_mult [OF o(2) k(2)] assms(3) by simp
  qed
  have top: "(int i + 1) * BlockRepeat opt \<le> BlockRepeat opt * MaxValidatorSize opt"
    using assms(3,6) o(2) by (simp add: mult.commute)
  have "vs ! nat (k div BlockRepeat opt) = vs ! i \<longleftrightarrow> k div BlockRepeat opt = int i"
    if "0 \<le> k" "k < BlockRepeat opt * MaxValidatorSize opt" for k
    using b [OF that] assms(4,6) nth_eq_iff_index_eq by fastforce
  moreover have "0 \<le> int i * BlockRepeat opt" using o(2) by simp
  ultimately show ?thesis using l top div_eq_iff_bounds [OF o(2)] by (auto simp del: nth_mem)
qed

lemma default_Option_ok: "opt_ok default_Option"
  by (simp add: opt_ok_def default_Option_def epochInterval_def)

lemma default_Option_fields: "epochInterval default_Option = 18000000000" "BlockInterval default_Option = 500000000"
  "BlockRepeat default_Option = 12" "MaxValidatorSize default_Option = 3"
  by (simp_all add: default_Option_def epochInterval_def)

theorem schedule_is_fair_witness:
  "{slot. 0 \<le> slot \<and> slot < 36 \<and> lookupValidator default_Option (SetValidators [7, 8, 9] NewDposContext)
     (5 * 18000000000 + slot * 500000000) = Inr (Inr 8)} = {12 ..< 24}"
  using schedule_is_fair [OF default_Option_ok, of "SetValidators [7, 8, 9] NewDposContext" "[7, 8, 9]" 5 1]
  by (simp add: GetValidators_def SetValidators_def default_Option_fields)

section \<open>Sorting and shuffling\<close>

lemma insert_sorted_key:
  assumes "\<And>p q. lt p q \<longleftrightarrow> key p < (key q :: 'k :: linorder)"
  shows "insert_sorted lt x xs = insort_key key x xs"
  by (induction xs) (auto simp: assms not_le)

lemma sort_Sort_key:
  assumes "\<And>p q. lt p q \<longleftrightarrow> key p < (key q :: 'k :: linorder)"
  shows "sort_Sort lt xs = sort_key key xs"
  using insert_sorted_key [of lt key, OF assms]
  by (simp add: sort_Sort_def sort_key_def insert_sorted_key [of lt key, OF assms, THEN ext, THEN ext])

definition vote_key :: "(address \<Rightarrow> string) \<Rightarrow> address \<times> int \<Rightarrow> int \<times> string" where
  "vote_key str p = (- snd p, str (fst p))"

lemma addr_less_key: "addr_less str p q \<longleftrightarrow> vote_key str p < vote_key str q"
  by (auto simp: addr_less_def vote_key_def)

lemma mset_shuffle:
  assumes "\<And>k n. 0 < n \<Longrightarrow> rnd k n < n"
  shows "i < length xs \<or> i = 0 \<Longrightarrow> mset (shuffle rnd k i xs) = mset xs"
proof (induction i arbitrary: k xs)
  case (Suc i)
  have r: "rnd k (Suc (Suc i)) < length xs" using assms [of "Suc (Suc i)" k] Suc.prems by simp
  have "mset (swap_at (Suc i) (rnd k (Suc (Suc i))) xs) = mset xs"
    using Suc.prems r mset_swap [of "rnd k (Suc (Suc i))" xs "Suc i"] by (simp add: swap_at_def)
  moreover have "i < length (swap_at (Suc i) (rnd k (Suc (Suc i))) xs)" using Suc.prems by (simp add: swap_at_def)
  ultimately show ?case using Suc.IH by simp
qed simp

section \<open>Addresses as text\<close>

definition nibble :: "'a::len word \<Rightarrow> nat \<Rightarrow> nat" where
  "nibble w k = unat (drop_bit (4 * k) w) mod 16"

lemma nibble_less [simp]: "nibble w k < 16"
  by (simp add: nibble_def)

lemma nibble_bit: "j < 4 \<Longrightarrow> bit (nibble w k) j = bit w (4 * k + j)"
proof -
  assume "j < 4"
  have "nibble w k = unat (take_bit 4 (drop_bit (4 * k) w))"
    by (simp only: nibble_def unsigned_take_bit_eq) (simp add: take_bit_eq_mod)
  then show ?thesis using \<open>j < 4\<close> by (simp add: bit_unsigned_iff bit_take_bit_iff bit_drop_bit_eq bit_imp_le_length)
qed

lemma nibbles_inj:
  assumes "\<And>k. k < 40 \<Longrightarrow> nibble v k = nibble (w :: address) k"
  shows "v = w"
proof (rule bit_word_eqI)
  fix n assume "n < LENGTH(160)"
  then have "n div 4 < 40" by simp
  from assms [OF this] have "bit v (4 * (n div 4) + n mod 4) = bit w (4 * (n div 4) + n mod 4)"
    using nibble_bit [of "n mod 4" v "n div 4"] nibble_bit [of "n mod 4" w "n div 4"] by simp
  then show "bit v n = bit w n" by simp
qed

lemma hex_digit_inj: "x < 16 \<Longrightarrow> y < 16 \<Longrightarrow> hex_digit x = hex_digit y \<Longrightarrow> x = y"
  by (simp add: hex_digit_def split: if_splits)

definition lower :: "char \<Rightarrow> char" where
  "lower c = (if of_char c < (97 :: nat) \<and> 58 \<le> (of_char c :: nat) then char_of (of_char c + (32 :: nat)) else c)"

lemma less_char_digit: "x < 16 \<Longrightarrow> hex_digit x > CHR ''9'' \<longleftrightarrow> 10 \<le> x"
  by (simp add: hex_digit_def less_char_def)

lemma lower_hex: "x < 16 \<Longrightarrow> lower (if hex_digit x > CHR ''9'' \<and> P then char_of (of_char (hex_digit x) - (32 :: nat)) else hex_digit x) = hex_digit x"
  using less_char_digit [of x] by (auto simp: lower_def hex_digit_def)

lemma lower_Hex: "map lower (drop 2 (Hex keccak a)) = hex_of a"
proof (rule nth_equalityI)
  fix i assume "i < length (map lower (drop 2 (Hex keccak a)))"
  then have i: "i < 40" by (simp add: Hex_def Let_def)
  then have u: "[0..<40] ! i = i" using nth_upt [of 0 i 40] by simp
  have h: "hex_of a ! i = hex_digit (nibble a (39 - i))" using i u by (simp add: hex_of_def nibble_def del: upt_conv_Cons)
  show "map lower (drop 2 (Hex keccak a)) ! i = hex_of a ! i"
    using i u h lower_hex [OF nibble_less, of a "39 - i"] by (simp add: Hex_def Let_def cong: if_cong split del: if_split del: upt_conv_Cons)
qed (simp add: Hex_def hex_of_def Let_def)

lemma hex_of_inj: "hex_of a = hex_of b \<Longrightarrow> a = b"
proof (rule nibbles_inj)
  fix k :: nat
  assume h: "hex_of a = hex_of b" "k < 40"
  have "hex_of c ! (39 - k) = hex_digit (nibble c k)" for c
    using h(2) nth_upt [of 0 "39 - k" 40] by (simp add: hex_of_def nibble_def del: upt_conv_Cons)
  then show "nibble a k = nibble b k"
    using h(1) by (metis hex_digit_inj nibble_less)
qed

lemma Hex_inj: "inj (Hex keccak)"
  using lower_Hex hex_of_inj by (metis injI)

section \<open>The election\<close>

lemma vote_key_inj: "inj str \<Longrightarrow> inj_on (vote_key str) A"
  by (auto simp: inj_on_def vote_key_def dest: injD)

lemma sorted_take_drop:
  assumes "sorted (map f xs)" "x \<in> set (take n xs)" "y \<in> set (drop n xs)"
  shows "f x \<le> f y"
proof -
  have "sorted (map f (take n xs) @ map f (drop n xs))" using assms(1) by (metis append_take_drop_id map_append)
  then show ?thesis using assms(2,3) by (auto simp: sorted_append)
qed

lemma elect_eq:
  "elect opt str rnd votes =
     (let chosen = take (nat (MaxValidatorSize opt)) (sort_key (vote_key str) votes) in map fst (shuffle rnd 0 (length chosen - 1) chosen))"
  by (auto simp: elect_def Let_def sort_Sort_key [of "addr_less str" "vote_key str", OF addr_less_key])

text \<open>The \<open>n\<close> best candidates: every one of them has more votes than any other one, or as many and an
  earlier address.\<close>

definition best :: "(address \<Rightarrow> string) \<Rightarrow> (address \<times> int) list \<Rightarrow> nat \<Rightarrow> address list \<Rightarrow> bool" where
  "best str votes n vs \<longleftrightarrow> distinct vs \<and> length vs = min n (length votes) \<and> set vs \<subseteq> fst ` set votes
     \<and> (\<forall>(a, x) \<in> set votes. \<forall>(b, y) \<in> set votes. a \<in> set vs \<longrightarrow> b \<notin> set vs \<longrightarrow> y < x \<or> y = x \<and> str a < str b)"

lemma elect_best:
  assumes "inj str" "distinct (map fst votes)" "\<And>k n. 0 < n \<Longrightarrow> rnd k n < n"
  shows "best str votes (nat (MaxValidatorSize opt)) (elect opt str rnd votes)"
proof -
  let ?n = "nat (MaxValidatorSize opt)"
  define ss where "ss = sort_key (vote_key str) votes"
  define chosen where "chosen = take ?n ss"
  have m: "mset (elect opt str rnd votes) = mset (map fst chosen)"
    using mset_shuffle [of rnd "length chosen - 1" chosen 0, OF assms(3)]
    by (simp add: elect_eq Let_def ss_def [symmetric] chosen_def [symmetric]) fastforce
  have s: "set ss = set votes" "length ss = length votes" "distinct (map fst ss)"
    using assms(2) by (simp_all add: ss_def distinct_map)
  then have d: "distinct (map fst chosen)" by (metis chosen_def distinct_take take_map)
  have vs: "set (elect opt str rnd votes) = fst ` set chosen" using mset_eq_setD [OF m] by simp
  have "y < x \<or> y = x \<and> str a < str b"
    if v: "(a, x) \<in> set votes" "(b, y) \<in> set votes" "a \<in> fst ` set chosen" "b \<notin> fst ` set chosen" for a x b y
  proof -
    obtain x' where x': "(a, x') \<in> set chosen" using v(3) by auto
    then have "(a, x') \<in> set votes" using s(1) by (auto simp: chosen_def dest: in_set_takeD)
    then have "(a, x) \<in> set chosen" using x' eq_key_imp_eq_value [OF assms(2) v(1)] by blast
    moreover have "(b, y) \<in> set (drop ?n ss)"
      using v(2,4) s(1) by (metis Un_iff append_take_drop_id chosen_def fst_conv image_eqI set_append)
    moreover have "sorted (map (vote_key str) ss)" by (simp add: ss_def)
    ultimately have "vote_key str (a, x) \<le> vote_key str (b, y)"
      using sorted_take_drop [of "vote_key str" ss "(a, x)" ?n "(b, y)"] by (simp add: chosen_def)
    moreover have "a \<noteq> b" using v(3,4) by auto
    ultimately show ?thesis using injD [OF assms(1), of a b] by (auto simp: vote_key_def less_le)
  qed
  then have "\<forall>(a, x) \<in> set votes. \<forall>(b, y) \<in> set votes. a \<in> set (elect opt str rnd votes) \<longrightarrow>
      b \<notin> set (elect opt str rnd votes) \<longrightarrow> y < x \<or> y = x \<and> str a < str b"
    unfolding vs by blast
  moreover have "set chosen \<subseteq> set votes" using s(1) set_take_subset [of ?n ss] by (simp add: chosen_def)
  ultimately show ?thesis
    using mset_eq_imp_distinct_iff [OF m] d mset_eq_length [OF m] s(2) by (simp add: best_def vs chosen_def image_mono min.commute)
qed

lemma elect_order:
  assumes "inj str" "mset votes = mset votes'"
  shows "elect opt str rnd votes = elect opt str rnd votes'"
proof -
  have "sort_key (vote_key str) votes = sort_key (vote_key str) votes'"
    using sort_key_inj_key_eq [of votes "sort_key (vote_key str) votes'" "vote_key str"] vote_key_inj [OF assms(1)] assms(2) by simp
  then show ?thesis by (simp add: elect_eq)
qed

section \<open>The count of the votes\<close>

text \<open>The stake of an account is its locked balance; the tally of a candidate is the stake of all who
  vote for it, capped to its own stake where the configuration says so, times its weight.\<close>

definition stake :: "StateDB \<Rightarrow> address \<Rightarrow> int" where
  "stake s a = the (LockedBalance (account s a))"

definition backing :: "DposContext \<Rightarrow> StateDB \<Rightarrow> address \<Rightarrow> int" where
  "backing d s c = (\<Sum>x | c \<in> votes_of d x. stake s x)"

definition tally :: "ChainConfig \<Rightarrow> DposContext \<Rightarrow> StateDB \<Rightarrow> CandidateInfo \<Rightarrow> int" where
  "tally cfg d s ci =
     (let c = Addr ci; own = (if c \<in> votes_of d c then stake s c else 0)
      in (case MinDelegatePercent cfg of
            Some p \<Rightarrow> (if own + p < backing d s c then own else backing d s c)
          | None \<Rightarrow> backing d s c) * sint (Weight ci))"

lemma stake_read:
  assumes "vm_good s"
  shows "\<exists>s'. GetLockedBalance s a = (Some (stake s a), s') \<and> vm_keep s s'"
proof -
  obtain l where "LockedBalance (account s a) = Some l" using locked_fields [of s a] assms by (auto simp: vm_good_def)
  then show ?thesis using reads(2) [OF assms] by (auto simp: stake_def)
qed

lemma keep_stake: "vm_keep s s' \<Longrightarrow> stake s' = stake s"
  by (simp add: stake_def keep_account fun_eq_iff)

lemma keep_tally: "vm_keep s s' \<Longrightarrow> tally cfg d s' = tally cfg d s \<and> backing d s' = backing d s"
proof -
  assume k: "vm_keep s s'"
  have b: "backing d s' = backing d s" using keep_stake [OF k] by (simp add: backing_def [abs_def])
  show ?thesis unfolding tally_def [abs_def] b keep_stake [OF k] by simp
qed

lemma count_delegators_ok:
  assumes "vm_good s"
  shows "\<exists>s'. count_delegators c ds s t sc own =
      Inr (t + sum_list (map (stake s) ds), sc + sum_list (map (stake s) ds), own + sum_list (map (stake s) (filter ((=) c) ds)), s') \<and> vm_keep s s'"
  using assms
proof (induction ds arbitrary: s t sc own)
  case Nil
  then show ?case using vm.keep_refl by simp
next
  case (Cons x ds)
  obtain s1 where s1: "GetLockedBalance s x = (Some (stake s x), s1)" "vm_keep s s1" using stake_read [OF Cons.prems] by blast
  then show ?case
    using Cons.IH [OF vm.keep_good [OF s1(2)], of "t + stake s x" "sc + stake s x" "if x = c then own + stake s x else own"]
      keep_stake [OF s1(2)] vm.keep_trans [OF s1(2)]
    by (auto simp: deref_def algebra_simps)
qed

lemma GetDelegators_backing:
  assumes "dpos_ok d"
  shows "sum_list (map (stake s) (GetDelegators c d)) = backing d s c"
    "sum_list (map (stake s) (filter ((=) c) (GetDelegators c d))) = (if c \<in> votes_of d c then stake s c else 0)"
proof -
  note g = GetDelegators_ok [OF assms, of c]
  show "sum_list (map (stake s) (GetDelegators c d)) = backing d s c"
    using g sum_list_distinct_conv_sum_set by (metis backing_def)
  have "sum_list (map (stake s) (filter ((=) c) (GetDelegators c d))) = (\<Sum>x \<in> {x. c \<in> votes_of d x \<and> c = x}. stake s x)"
    using g sum_list_distinct_conv_sum_set [of "filter ((=) c) (GetDelegators c d)" "stake s"] by simp
  also have "{x. c \<in> votes_of d x \<and> c = x} = (if c \<in> votes_of d c then {c} else {})" by auto
  finally show "sum_list (map (stake s) (filter ((=) c) (GetDelegators c d))) = (if c \<in> votes_of d c then stake s c else 0)" by simp
qed

lemma tally_no_votes: "{x. Addr ci \<in> votes_of d x} = {} \<Longrightarrow> tally cfg d s ci = 0 \<and> backing d s (Addr ci) = 0"
  by (auto simp: tally_def backing_def Let_def split: option.splits)

lemma count_candidates_ok:
  assumes "dpos_ok d" "vm_good s" "distinct (map Addr cs)" "\<And>ci. ci \<in> set cs \<Longrightarrow> votes (Addr ci) = None"
  shows "\<exists>s'. count_candidates cfg d cs s votes t =
      Inr (votes ++ map_of (map (\<lambda>ci. (Addr ci, tally cfg d s ci)) cs), t + sum_list (map (\<lambda>ci. backing d s (Addr ci)) cs), s') \<and> vm_keep s s'"
  using assms(2-4)
proof (induction cs arbitrary: s votes t)
  case Nil
  then show ?case using vm.keep_refl by simp
next
  case (Cons ci cs)
  let ?T = "\<lambda>s cs. map_of (map (\<lambda>ci. (Addr ci, tally cfg d s ci)) cs)"
  have up: "votes(Addr ci \<mapsto> tally cfg d s ci) ++ ?T s cs = votes ++ ?T s (ci # cs)"
  proof -
    have "Addr ci \<notin> dom (?T s cs)" using Cons.prems(2) by (auto simp: dom_map_of_conv_image_fst)
    then have "votes(Addr ci \<mapsto> tally cfg d s ci) ++ ?T s cs = (votes ++ ?T s cs)(Addr ci \<mapsto> tally cfg d s ci)"
      by (rule map_add_upd_left)
    then show ?thesis by (simp only: list.map map_of.simps fst_conv snd_conv map_add_upd)
  qed
  have none: "(votes(Addr ci \<mapsto> v)) (Addr cj) = None" if "cj \<in> set cs" for cj v
  proof -
    have "Addr ci \<notin> Addr ` set cs" using Cons.prems(2) by simp
    then have "Addr cj \<noteq> Addr ci" using that by (metis imageI)
    then show ?thesis using Cons.prems(3) [of cj] that by simp
  qed
  have dist: "distinct (map Addr cs)" using Cons.prems(2) by simp
  show ?case
  proof (cases "GetDelegators (Addr ci) d = []")
    case True
    then have z: "tally cfg d s ci = 0" "backing d s (Addr ci) = 0"
      using tally_no_votes [of ci d cfg s] GetDelegators_ok(1) [OF assms(1), of "Addr ci"] by auto
    have "count_candidates cfg d (ci # cs) s votes t = count_candidates cfg d cs s (votes(Addr ci \<mapsto> tally cfg d s ci)) t"
      using True by (simp add: z(1))
    moreover obtain s' where "count_candidates cfg d cs s (votes(Addr ci \<mapsto> tally cfg d s ci)) t
        = Inr (votes(Addr ci \<mapsto> tally cfg d s ci) ++ ?T s cs, t + sum_list (map (\<lambda>ci. backing d s (Addr ci)) cs), s')" "vm_keep s s'"
      using Cons.IH [of s "votes(Addr ci \<mapsto> tally cfg d s ci)" t, OF Cons.prems(1) dist none] by blast
    ultimately show ?thesis using z(2) unfolding up by (simp only: list.map sum_list.Cons add_0_left) blast
  next
    case False
    obtain s1 where s1: "count_delegators (Addr ci) (GetDelegators (Addr ci) d) s t 0 0
        = Inr (t + backing d s (Addr ci), backing d s (Addr ci), if Addr ci \<in> votes_of d (Addr ci) then stake s (Addr ci) else 0, s1)"
        "vm_keep s s1"
      using count_delegators_ok [OF Cons.prems(1), of "Addr ci" "GetDelegators (Addr ci) d" t 0 0]
        GetDelegators_backing [OF assms(1), of s "Addr ci"] by auto
    have st: "tally cfg d s1 = tally cfg d s" "backing d s1 = backing d s"
      using keep_tally [OF s1(2)] by simp_all
    have "count_candidates cfg d (ci # cs) s votes t
        = count_candidates cfg d cs s1 (votes(Addr ci \<mapsto> tally cfg d s ci)) (t + backing d s (Addr ci))"
      using False Cons.prems(3) [of ci] s1(1) by (auto simp: tally_def Let_def split: option.splits)
    moreover obtain s' where "count_candidates cfg d cs s1 (votes(Addr ci \<mapsto> tally cfg d s ci)) (t + backing d s (Addr ci))
        = Inr (votes(Addr ci \<mapsto> tally cfg d s ci) ++ ?T s cs,
            t + backing d s (Addr ci) + sum_list (map (\<lambda>ci. backing d s (Addr ci)) cs), s')" "vm_keep s1 s'"
      using Cons.IH [of s1 "votes(Addr ci \<mapsto> tally cfg d s ci)" "t + backing d s (Addr ci)", OF vm.keep_good [OF s1(2)] dist none]
      unfolding st by blast
    ultimately show ?thesis using vm.keep_trans [OF s1(2)] unfolding up by (simp only: list.map sum_list.Cons add.assoc) blast
  qed
qed

definition tallies :: "ChainConfig \<Rightarrow> DposContext \<Rightarrow> StateDB \<Rightarrow> (address \<times> int) list" where
  "tallies cfg d s = map (\<lambda>ci. (Addr ci, tally cfg d s ci)) (GetCandidates d)"

definition total_stake :: "DposContext \<Rightarrow> StateDB \<Rightarrow> int" where
  "total_stake d s = (\<Sum>c \<in> dom (map_of (candidateTrie d)). backing d s c)"

lemma candidates_Addr:
  assumes "dpos_ok d"
  shows "map Addr (GetCandidates d) = map fst (candidateTrie d)" "distinct (map fst (candidateTrie d))"
proof -
  show dist: "distinct (map fst (candidateTrie d))" using t_sorted_distinct dpos_okD(3) [OF assms] .
  have "Addr (snd e) = fst e" if "e \<in> set (candidateTrie d)" for e
    using assms map_of_is_SomeI [OF dist, of "fst e" "snd e"] that by (auto simp: dpos_ok_def candidates_ok_def)
  then show "map Addr (GetCandidates d) = map fst (candidateTrie d)" by (simp add: GetCandidates_def)
qed

lemma tallies_fst:
  assumes "dpos_ok d"
  shows "map fst (tallies cfg d s) = map fst (candidateTrie d)" "distinct (map fst (tallies cfg d s))"
proof -
  show a: "map fst (tallies cfg d s) = map fst (candidateTrie d)"
    using candidates_Addr(1) [OF assms] by (simp add: tallies_def comp_def)
  show "distinct (map fst (tallies cfg d s))" unfolding a by (rule candidates_Addr(2) [OF assms])
qed

lemma CountVotes_ok:
  assumes "dpos_ok d" "vm_good s" "candidateTrie d \<noteq> []"
  shows "\<exists>s'. CountVotes cfg d s = Inr (Inr (map_of (tallies cfg d s), total_stake d s, s')) \<and> vm_keep s s'"
proof -
  note c = candidates_Addr [OF assms(1)]
  have "distinct (map Addr (GetCandidates d))" using c by simp
  from count_candidates_ok [OF assms(1,2) this, of Map.empty cfg 0]
  obtain s' where s': "count_candidates cfg d (GetCandidates d) s Map.empty 0 =
      Inr (map_of (tallies cfg d s), sum_list (map (\<lambda>ci. backing d s (Addr ci)) (GetCandidates d)), s')" "vm_keep s s'"
    by (auto simp: tallies_def)
  have "sum_list (map (\<lambda>ci. backing d s (Addr ci)) (GetCandidates d)) = sum_list (map (backing d s) (map fst (candidateTrie d)))"
    using c(1) by (metis (no_types, lifting) list.map_comp comp_def map_eq_conv)
  also have "\<dots> = total_stake d s"
    using sum_list_distinct_conv_sum_set [OF c(2)] by (simp add: total_stake_def dom_map_of_conv_image_fst)
  finally show ?thesis using s' assms(3) by (cases "GetCandidates d") (simp_all add: CountVotes_def GetCandidates_def)
qed

section \<open>Degrading\<close>

definition same_ballot :: "DposContext \<Rightarrow> DposContext \<Rightarrow> bool" where
  "same_ballot d d' \<longleftrightarrow> dpos_ok d' \<and> ballot d' = ballot d \<and> mintCntTrie d' = mintCntTrie d"

lemma same_ballot_trans: "same_ballot d d' \<Longrightarrow> same_ballot d' d'' \<Longrightarrow> same_ballot d d''"
  by (simp add: same_ballot_def)

lemma degraded_weight:
  assumes "weight_ok ci"
  shows "Weight ci > 10 \<Longrightarrow> weight_ok (ci\<lparr>Weight := Weight ci - 10, DegradeTime := t\<rparr>)"
    "Weight ci < 100 \<Longrightarrow> weight_ok (ci\<lparr>Weight := Weight ci + 10, DegradeTime := t\<rparr>)"
  using assms by (auto simp: weight_ok_def)

lemma degrade_loop_ok:
  assumes "dpos_ok d"
  shows "\<exists>err d'. degrade_loop opt ts epoch dur vs d = (err, d') \<and> same_ballot d d' \<and> epochTrie d' = epochTrie d
    \<and> err = (if set vs \<subseteq> dom (map_of (candidateTrie d)) then None else Some NotACandidate)"
  using assms
proof (induction vs arbitrary: d)
  case Nil
  then show ?case by (simp add: same_ballot_def)
next
  case (Cons v vs)
  show ?case
  proof (cases "map_of (candidateTrie d) v")
    case None
    then show ?thesis using Cons.prems by (auto simp: same_ballot_def Let_def)
  next
    case (Some ci)
    have ci: "Addr ci = v" "weight_ok ci" using Some Cons.prems by (auto simp: dpos_ok_def candidates_ok_def)
    define ci1 where "ci1 = (if (case map_of (mintCntTrie d) (word_of_int epoch, v) of None \<Rightarrow> 0 | Some c \<Rightarrow> sint c)
          < dur sdiv BlockInterval opt sdiv MaxValidatorSize opt sdiv 2
        then (if Weight ci > 10 then ci\<lparr>Weight := Weight ci - 10, DegradeTime := word_of_int ts\<rparr> else ci)
        else (if Weight ci < 100 then ci\<lparr>Weight := Weight ci + 10, DegradeTime := word_of_int ts\<rparr> else ci))"
    define d1 where "d1 = d\<lparr>candidateTrie := t_update v ci1 (candidateTrie d)\<rparr>"
    have "Addr ci1 = v" "weight_ok ci1" using ci degraded_weight [OF ci(2)] by (auto simp: ci1_def)
    note p = put_candidate_ok [OF Cons.prems this, folded d1_def]
    have "same_ballot d d1" "epochTrie d1 = epochTrie d" "dom (map_of (candidateTrie d1)) = dom (map_of (candidateTrie d))"
      using p Some by (auto simp: same_ballot_def ballot_def d1_def [symmetric] insert_absorb) (auto simp: d1_def)
    moreover have "degrade_loop opt ts epoch dur (v # vs) d = degrade_loop opt ts epoch dur vs d1"
      by (simp add: Some d1_def ci1_def Let_def)
    moreover obtain err d' where "degrade_loop opt ts epoch dur vs d1 = (err, d')" "same_ballot d1 d'" "epochTrie d' = epochTrie d1"
        "err = (if set vs \<subseteq> dom (map_of (candidateTrie d1)) then None else Some NotACandidate)"
      using Cons.IH [OF p(1)] by blast
    ultimately show ?thesis using same_ballot_trans [of d d1 d'] Some by auto
  qed
qed

lemma kickoutValidator_validators:
  assumes "dpos_ok d" "epochTrie d = Some vs" "vs \<noteq> []"
  shows "\<exists>d'. kickoutValidator opt first ts epoch d = (if set vs \<subseteq> fst (ballot d) then None else Some NotACandidate, d')
    \<and> same_ballot d d' \<and> epochTrie d' = epochTrie d"
proof -
  obtain dur where "kickoutValidator opt first ts epoch d = degrade_loop opt ts epoch dur vs d"
    using assms(2,3) by (simp add: kickoutValidator_def GetValidators_def)
  then show ?thesis using degrade_loop_ok [OF assms(1), of opt ts epoch dur vs] by (auto simp: ballot_def)
qed

lemma kickoutValidator_ok:
  assumes "dpos_ok d"
  shows "\<exists>err d'. kickoutValidator opt first ts epoch d = (err, d') \<and> same_ballot d d' \<and> epochTrie d' = epochTrie d"
proof (cases "\<exists>vs. epochTrie d = Some vs \<and> vs \<noteq> []")
  case True
  then show ?thesis using kickoutValidator_validators [OF assms] by blast
next
  case False
  then show ?thesis using assms by (auto simp: kickoutValidator_def GetValidators_def same_ballot_def split: option.splits)
qed

section \<open>Elections\<close>

text \<open>What an election needs of its environment: an order of the walk over the votes that visits every
  key once, and a generator that keeps below its bound.\<close>

definition elect_env_ok :: "elect_env \<Rightarrow> bool" where
  "elect_env_ok e \<longleftrightarrow> opt_ok (el_opt e) \<and> inj (el_str e) \<and> (\<forall>seed k n. 0 < n \<longrightarrow> el_rng e seed k n < n)
     \<and> (\<forall>m. finite (dom m) \<longrightarrow> distinct (el_keys e m) \<and> set (el_keys e m) = dom m)"

lemma best_permute:
  assumes "mset votes = mset votes'"
  shows "best str votes n vs = best str votes' n vs"
  using mset_eq_setD [OF assms] mset_eq_length [OF assms] by (simp add: best_def)

lemma walked_votes:
  assumes "distinct ks" "set ks = dom (map_of xs)" "distinct (map fst xs)"
  shows "mset (map (\<lambda>a. (a, the (map_of xs a))) ks) = mset xs"
proof -
  have "distinct (map (\<lambda>a. (a, the (map_of xs a))) ks)" using assms(1) by (simp add: distinct_map inj_on_def)
  moreover have "set (map (\<lambda>a. (a, the (map_of xs a))) ks) = set xs"
    using assms by (force simp: image_iff dom_map_of_conv_image_fst)
  moreover have "distinct xs" using assms(3) by (simp add: distinct_map)
  ultimately show ?thesis using set_eq_iff_mset_eq_distinct by blast
qed

definition elected :: "elect_env \<Rightarrow> DposContext \<Rightarrow> StateDB \<Rightarrow> bool" where
  "elected e d s \<longleftrightarrow> (\<exists>vs. epochTrie d = Some vs \<and> vs \<noteq> []
     \<and> best (el_str e) (tallies (el_cfg e) d s) (nat (MaxValidatorSize (el_opt e))) vs)"

definition quorum :: "dpos_option \<Rightarrow> DposContext \<Rightarrow> StateDB \<Rightarrow> bool" where
  "quorum opt d s \<longleftrightarrow> consensusSize opt \<le> int (card (fst (ballot d))) \<and> MinStartQuantity opt \<le> total_stake d s"

lemma elected_keep:
  "vm_keep s s' \<Longrightarrow> elected e d s' = elected e d s" "vm_keep s s' \<Longrightarrow> quorum opt d s' = quorum opt d s"
  using keep_tally [of s s'] by (simp_all add: elected_def tallies_def quorum_def total_stake_def)

lemma ballot_quorum: "ballot d' = ballot d \<Longrightarrow> quorum opt d' s = quorum opt d s"
  by (simp add: quorum_def total_stake_def backing_def ballot_def)

lemma card_candidates: "dpos_ok d \<Longrightarrow> card (fst (ballot d)) = length (candidateTrie d)"
  using distinct_card [OF candidates_Addr(2) [of d]] by (simp add: ballot_def dom_map_of_conv_image_fst)

lemma same_votes_tally:
  assumes "votes_of d' = votes_of d"
  shows "tally cfg d' = tally cfg d"
proof -
  have b: "backing d' = backing d" using assms by (simp add: backing_def [abs_def])
  show ?thesis unfolding tally_def [abs_def] b assms by simp
qed

lemma elect_elected:
  assumes "elect_env_ok e" "dpos_ok d" "candidateTrie d \<noteq> []" "mset votes = mset (tallies (el_cfg e) d s)"
  shows "elected e (SetValidators (elect (el_opt e) (el_str e) (el_rng e seed) votes) d) s"
proof -
  let ?vs = "elect (el_opt e) (el_str e) (el_rng e seed) votes"
  have e: "inj (el_str e)" "\<And>k n. 0 < n \<Longrightarrow> el_rng e seed k n < n" "0 < MaxValidatorSize (el_opt e)"
    using assms(1) opt_okD by (auto simp: elect_env_ok_def)
  have dist: "distinct (map fst votes)"
    using tallies_fst(2) [OF assms(2)] mset_eq_imp_distinct_iff [of "map fst votes" "map fst (tallies (el_cfg e) d s)"] assms(4)
    by simp
  have b: "best (el_str e) (tallies (el_cfg e) d s) (nat (MaxValidatorSize (el_opt e))) ?vs"
    by (rule best_permute [OF assms(4), THEN iffD1, OF elect_best [OF e(1) dist e(2)]])
  then have "length ?vs = min (nat (MaxValidatorSize (el_opt e))) (length (candidateTrie d))"
    by (simp add: best_def tallies_def GetCandidates_def)
  then have "0 < length ?vs" using e(3) assms(3) by simp
  then have "?vs \<noteq> []" by auto
  moreover have "tallies (el_cfg e) (SetValidators ?vs d) s = tallies (el_cfg e) d s"
    using same_votes_tally [OF votes_of_fields, of "SetValidators ?vs d" d] by (simp add: tallies_def SetValidators_def GetCandidates_def)
  ultimately show ?thesis using b by (simp add: elected_def) (simp add: SetValidators_def)
qed

text \<open>The loop, with its first step taken apart.\<close>

definition kicked :: "elect_env \<Rightarrow> int \<Rightarrow> bool \<Rightarrow> int \<Rightarrow> nat \<Rightarrow> DposContext \<Rightarrow> epoch_error option \<times> DposContext" where
  "kicked e ts g pe minted d =
     (if \<not> g \<and> minted > 0 then kickoutValidator (el_opt e) (el_timeOfFirstBlock e) ts pe d else (None, d))"

lemma elect_loop_cases:
  assumes "i < ce" "kicked e ts g pe minted d = (err, d1)"
  shows "err \<noteq> None \<Longrightarrow> elect_loop e seed ts g pe ce i minted d s = Inr (err, d1, s)"
    "err = None \<Longrightarrow> CountVotes (el_cfg e) d1 s = Inl p \<Longrightarrow> elect_loop e seed ts g pe ce i minted d s = Inl p"
    "err = None \<Longrightarrow> CountVotes (el_cfg e) d1 s = Inr (Inl x) \<Longrightarrow> elect_loop e seed ts g pe ce i minted d s = Inr (Some x, d1, s)"
    "err = None \<Longrightarrow> CountVotes (el_cfg e) d1 s = Inr (Inr (votes, t, s1)) \<Longrightarrow> elect_loop e seed ts g pe ce i minted d s =
       (if int (length (el_keys e votes)) < consensusSize (el_opt e) \<or> t < MinStartQuantity (el_opt e) then Inr (None, d1, s1)
        else elect_loop e seed ts g pe ce (i + 1) (minted - 1)
          (SetValidators (elect (el_opt e) (el_str e) (el_rng e (seed + i)) (map (\<lambda>a. (a, the (votes a))) (el_keys e votes))) d1) s1)"
  using assms(1)
  unfolding elect_loop.simps [of e seed ts g pe ce i minted d s] Let_def kicked_def [symmetric] assms(2) prod.case by auto

definition validators_ok :: "DposContext \<Rightarrow> bool" where
  "validators_ok d \<longleftrightarrow> (\<exists>vs. epochTrie d = Some vs \<and> vs \<noteq> [] \<and> set vs \<subseteq> fst (ballot d))"

lemma elected_validators: "dpos_ok d \<Longrightarrow> elected e d s \<Longrightarrow> validators_ok d"
  using tallies_fst(1) [of d "el_cfg e" s]
  by (fastforce simp: elected_def best_def validators_ok_def ballot_def dom_map_of_conv_image_fst simp flip: set_map)

lemma consensusSize_pos: "opt_ok opt \<Longrightarrow> 0 < consensusSize opt"
  using opt_okD(3) [of opt] by (simp add: consensusSize_def)

lemma SetValidators_ok: "dpos_ok d \<Longrightarrow> same_ballot d (SetValidators vs d)"
  using votes_of_fields [of "SetValidators vs d" d]
  by (simp add: same_ballot_def SetValidators_def dpos_ok_def tries_sorted_def candidates_ok_def delegates_inverse_def votes_valid_def
      ballot_def)

definition elect_post :: "elect_env \<Rightarrow> bool \<Rightarrow> bool \<Rightarrow> DposContext \<Rightarrow> StateDB \<Rightarrow> epoch_error option \<times> DposContext \<times> StateDB \<Rightarrow> bool" where
  "elect_post e g due d s r \<longleftrightarrow> (case r of (err, d', s') \<Rightarrow> same_ballot d d' \<and> vm_keep s s' \<and> (epochTrie d' = epochTrie d \<or> elected e d' s)
     \<and> (due \<and> quorum (el_opt e) d s \<and> (g \<or> validators_ok d) \<longrightarrow> err = None \<and> elected e d' s))"

text \<open>One turn of the loop: it stops with the validators as they were, or goes on with new ones.\<close>

lemma elect_turn:
  assumes e: "elect_env_ok e" and d: "dpos_ok d" "vm_good s" and i: "i < ce"
  shows "(\<exists>r. elect_loop e seed ts g pe ce i minted d s = Inr r \<and> elect_post e g True d s r)
    \<or> (\<exists>d2 s1. elect_loop e seed ts g pe ce i minted d s = elect_loop e seed ts g pe ce (i + 1) (minted - 1) d2 s1
        \<and> same_ballot d d2 \<and> vm_keep s s1 \<and> quorum (el_opt e) d s \<and> elected e d2 s)"
proof -
  obtain err d1 where k: "kicked e ts g pe minted d = (err, d1)" by fastforce
  have d1: "same_ballot d d1" "epochTrie d1 = epochTrie d" "g \<or> validators_ok d \<Longrightarrow> err = None"
    using kickoutValidator_ok [OF d(1), of "el_opt e" "el_timeOfFirstBlock e" ts pe]
      kickoutValidator_validators [OF d(1), of _ "el_opt e" "el_timeOfFirstBlock e" ts pe] k d(1)
    by (auto simp: validators_ok_def same_ballot_def kicked_def split: if_splits)
  then have ok1: "dpos_ok d1" and b1: "ballot d1 = ballot d" by (simp_all add: same_ballot_def)
  have opt: "opt_ok (el_opt e)" using e by (simp add: elect_env_ok_def)
  note step = elect_loop_cases [OF i k, where seed = seed and s = s]
  show ?thesis
  proof (cases "err = None \<and> candidateTrie d1 \<noteq> []")
    case False
    have "\<not> quorum (el_opt e) d s" if "candidateTrie d1 = []"
      using that consensusSize_pos [OF opt] card_candidates [OF ok1] b1 by (simp add: quorum_def)
    moreover have "elect_loop e seed ts g pe ce i minted d s = Inr (if err \<noteq> None then err else Some NoVotesCandidates, d1, s)"
      using False step(1,3) by (auto simp: CountVotes_def GetCandidates_def)
    ultimately show ?thesis using False d1 vm.keep_refl [OF d(2)] by (auto simp: elect_post_def)
  next
    case True
    obtain s1 where s1: "CountVotes (el_cfg e) d1 s = Inr (Inr (map_of (tallies (el_cfg e) d1 s), total_stake d1 s, s1))" "vm_keep s s1"
      using CountVotes_ok [OF ok1 d(2)] True by blast
    define ks where "ks = el_keys e (map_of (tallies (el_cfg e) d1 s))"
    have ks: "distinct ks" "set ks = dom (map_of (tallies (el_cfg e) d1 s))"
      using e finite_dom_map_of by (auto simp: elect_env_ok_def ks_def)
    have "mset (map (\<lambda>a. (a, the (map_of (tallies (el_cfg e) d1 s) a))) ks) = mset (tallies (el_cfg e) d1 s)"
      using walked_votes [OF ks] tallies_fst(2) [OF ok1] by blast
    note el = elect_elected [OF e ok1 conjunct2 [OF True] this]
    have "length ks = card (fst (ballot d1))"
      using distinct_card [OF ks(1)] ks(2) tallies_fst(1) [OF ok1, of "el_cfg e" s]
      by (metis ballot_def dom_map_of_conv_image_fst fst_conv list.set_map)
    then have q: "(int (length ks) < consensusSize (el_opt e) \<or> total_stake d1 s < MinStartQuantity (el_opt e)) = (\<not> quorum (el_opt e) d s)"
      unfolding ballot_quorum [OF b1, symmetric] by (auto simp: quorum_def)
    show ?thesis
    proof (cases "quorum (el_opt e) d s")
      case False
      then show ?thesis using q step(4) [OF conjunct1 [OF True] s1(1)] d1 s1(2) by (auto simp: ks_def [symmetric] elect_post_def)
    next
      case Q: True
      let ?d2 = "SetValidators (elect (el_opt e) (el_str e) (el_rng e (seed + i))
        (map (\<lambda>a. (a, the (map_of (tallies (el_cfg e) d1 s) a))) ks)) d1"
      have "elect_loop e seed ts g pe ce i minted d s = elect_loop e seed ts g pe ce (i + 1) (minted - 1) ?d2 s1"
        using Q q step(4) [OF conjunct1 [OF True] s1(1)] by (simp add: ks_def [symmetric])
      then show ?thesis using Q s1(2) el SetValidators_ok [OF ok1] same_ballot_trans [OF d1(1)] by blast
    qed
  qed
qed

lemma elect_loop_ok:
  assumes e: "elect_env_ok e"
  shows "dpos_ok d \<Longrightarrow> vm_good s \<Longrightarrow> \<exists>r. elect_loop e seed ts g pe ce i minted d s = Inr r \<and> elect_post e g (i < ce) d s r"
proof (induction "nat (ce - i)" arbitrary: i minted d s rule: less_induct)
  case less
  show ?case
  proof (cases "i < ce")
    case False
    then show ?thesis using less.prems vm.keep_refl
      by (simp add: elect_loop.simps [of e seed ts g pe ce i minted d s] elect_post_def same_ballot_def)
  next
    case True
    from elect_turn [OF e less.prems True, of seed ts g pe minted] show ?thesis
    proof (elim disjE exE conjE)
      fix r
      assume "elect_loop e seed ts g pe ce i minted d s = Inr r" "elect_post e g True d s r"
      then show ?thesis using True by simp
    next
      fix d2 s1
      assume a: "elect_loop e seed ts g pe ce i minted d s = elect_loop e seed ts g pe ce (i + 1) (minted - 1) d2 s1"
        "same_ballot d d2" "vm_keep s s1" "quorum (el_opt e) d s" "elected e d2 s"
      have d2: "dpos_ok d2" "ballot d2 = ballot d" using a(2) by (simp_all add: same_ballot_def)
      obtain err d' s' where r: "elect_loop e seed ts g pe ce (i + 1) (minted - 1) d2 s1 = Inr (err, d', s')"
          "elect_post e g (i + 1 < ce) d2 s1 (err, d', s')"
        using less.hyps [OF _ d2(1) vm.keep_good [OF a(3)], of "i + 1" "minted - 1"] True by auto
      have "quorum (el_opt e) d2 s1" "validators_ok d2" "elected e d2 s1"
        using a(3-5) elected_keep ballot_quorum [OF d2(2)] elected_validators [OF d2(1)] by auto
      moreover have "err = None \<and> d' = d2" if "\<not> i + 1 < ce"
        using r(1) that by (simp add: elect_loop.simps [of e seed ts g pe ce "i + 1"])
      ultimately have "err = None \<and> elected e d' s"
        using r(2) elected_keep(1) [OF a(3)] by (cases "i + 1 < ce") (auto simp: elect_post_def)
      then show ?thesis
        using a r same_ballot_trans [OF a(2)] vm.keep_trans [OF a(3)] by (simp add: elect_post_def)
    qed
  qed
qed

text \<open>C7: The election of the next validators. Whatever the order in which the map of votes is walked and
  whatever numbers the generator draws, an election never panics, keeps the context well formed,
  the ballot and the balances; if the parent is of an earlier epoch, there are enough candidates
  and stake and every validator is still a candidate, it succeeds and the new validators are the
  candidates with the highest tallies, at most \<open>MaxValidatorSize\<close> of them, each once; otherwise the
  validators stay.\<close>

theorem election_elects_the_best:
  assumes "elect_env_ok e" "dpos_ok d" "vm_good s"
  shows "\<exists>err d' s'. tryElect e seed genesisTime parentTime now d s = Inr (err, d', s')
    \<and> dpos_ok d' \<and> ballot d' = ballot d \<and> vm_keep s s' \<and> (epochTrie d' = epochTrie d \<or> elected e d' s)
    \<and> (Int64 parentTime sdiv epochInterval (el_opt e) < now sdiv epochInterval (el_opt e)
       \<and> quorum (el_opt e) d s \<and> validators_ok d \<longrightarrow> err = None \<and> elected e d' s)"
proof -
  let ?I = "epochInterval (el_opt e)"
  let ?g = "Int64 parentTime sdiv ?I = Int64 genesisTime sdiv ?I"
  let ?p = "if ?g \<and> Int64 parentTime sdiv ?I < now sdiv ?I then now sdiv ?I - 1 else Int64 parentTime sdiv ?I"
  have "\<exists>r. tryElect e seed genesisTime parentTime now d s = Inr r \<and> elect_post e ?g (?p < now sdiv ?I) d s r"
    using elect_loop_ok [OF assms] by (simp add: tryElect_def Let_def)
  then show ?thesis by (auto simp: elect_post_def same_ballot_def split: prod.splits if_splits)
qed

definition one_validator :: DposContext where
  "one_validator = SetValidators [1] (snd (BecomeCandidate 1 NewDposContext))"

definition small_elect :: elect_env where
  "small_elect = \<lparr>el_opt = \<lparr>BlockInterval = 1, BlockRepeat = 1, MaxValidatorSize = 1, MinStartQuantity = 0, DelayEpcho = 2, MaxConfirmedNum = 72\<rparr>,
     el_cfg = stake_config, el_str = Hex (\<lambda>_. 0), el_rng = (\<lambda>seed k n. 0), el_keys = (\<lambda>m. sorted_list_of_set (dom m)), el_timeOfFirstBlock = 0\<rparr>"

lemma small_elect_ok: "elect_env_ok small_elect" "elect_env_ok (small_elect\<lparr>el_keys := \<lambda>m. rev (sorted_list_of_set (dom m))\<rparr>)"
  using Hex_inj by (auto simp: elect_env_ok_def small_elect_def opt_ok_def epochInterval_def)

lemma one_validator_ok: "dpos_ok one_validator" "ballot one_validator = ({1}, \<lambda>_. {})" "epochTrie one_validator = Some [1]"
proof -
  obtain err d where d: "BecomeCandidate 1 NewDposContext = (err, d)" by fastforce
  note b = BecomeCandidate_ok [OF NewDposContext_ok d]
  have "one_validator = SetValidators [1] d" by (simp add: one_validator_def d)
  moreover have "ballot d = ({1}, \<lambda>_. {})"
    using d by (auto simp: BecomeCandidate_def NewDposContext_def ballot_def votes_of_def split: if_splits)
  ultimately show "dpos_ok one_validator" "ballot one_validator = ({1}, \<lambda>_. {})"
    using SetValidators_ok [OF b(1), of "[1]"] by (simp_all add: same_ballot_def)
  show "epochTrie one_validator = Some [1]" by (simp add: one_validator_def SetValidators_def)
qed

theorem election_elects_the_best_witness:
  "\<exists>d' s'. tryElect small_elect 0 0 5 6 one_validator stake_state = Inr (None, d', s') \<and> elected small_elect d' stake_state"
proof -
  have "quorum (el_opt small_elect) one_validator stake_state"
    using one_validator_ok(2) by (simp add: quorum_def total_stake_def backing_def small_elect_def consensusSize_def ballot_def)
  moreover have "validators_ok one_validator" using one_validator_ok by (simp add: validators_ok_def)
  moreover have "Int64 5 sdiv epochInterval (el_opt small_elect) < 6 sdiv epochInterval (el_opt small_elect)"
    by (simp add: small_elect_def epochInterval_def Int64_def Uint64_def)
  ultimately show ?thesis
    using election_elects_the_best [OF small_elect_ok(1) one_validator_ok(1) stake_vm_good, of 0 0 5 6] by blast
qed



section \<open>Agreement\<close>

lemma count_candidates_finite:
  "finite (dom votes) \<Longrightarrow> count_candidates cfg d cs s votes t = Inr (votes', t', s') \<Longrightarrow> finite (dom votes')"
proof (induction cs arbitrary: s votes t)
  case (Cons c cs)
  then show ?case by (auto simp: Let_def rbind_def split: if_splits sum.splits prod.splits)
qed simp

lemma CountVotes_finite: "CountVotes cfg d s = Inr (Inr (votes, t, s')) \<Longrightarrow> finite (dom votes)"
  using count_candidates_finite [of Map.empty cfg d "GetCandidates d" s 0 votes t s']
  by (auto simp: CountVotes_def rbind_def split: list.splits sum.splits)

lemma elect_walk:
  assumes "elect_env_ok e" "elect_env_ok (e\<lparr>el_keys := keys\<rparr>)" "finite (dom votes)"
  shows "elect opt (el_str e) rnd (map (\<lambda>a. (a, the (votes a))) (keys votes))
      = elect opt (el_str e) rnd (map (\<lambda>a. (a, the (votes a))) (el_keys e votes))"
    and "length (keys votes) = length (el_keys e votes)"
proof -
  have k: "distinct (keys votes)" "set (keys votes) = dom votes" "distinct (el_keys e votes)" "set (el_keys e votes) = dom votes"
    using assms by (auto simp: elect_env_ok_def)
  then have m: "mset (keys votes) = mset (el_keys e votes)" by (simp flip: set_eq_iff_mset_eq_distinct)
  then show "elect opt (el_str e) rnd (map (\<lambda>a. (a, the (votes a))) (keys votes))
      = elect opt (el_str e) rnd (map (\<lambda>a. (a, the (votes a))) (el_keys e votes))"
    using assms(1) by (intro elect_order) (simp_all add: elect_env_ok_def)
  show "length (keys votes) = length (el_keys e votes)" using m by (rule mset_eq_length)
qed

lemma elect_loop_walk:
  assumes "elect_env_ok e" "elect_env_ok (e\<lparr>el_keys := keys\<rparr>)"
  shows "elect_loop (e\<lparr>el_keys := keys\<rparr>) seed ts g pe ce i minted d s = elect_loop e seed ts g pe ce i minted d s"
proof (induction "nat (ce - i)" arbitrary: i minted d s rule: less_induct)
  case less
  show ?case
  proof (cases "i < ce")
    case True
    then have IH: "elect_loop (e\<lparr>el_keys := keys\<rparr>) seed ts g pe ce (i + 1) m d s = elect_loop e seed ts g pe ce (i + 1) m d s" for m d s
      using less.hyps [of "i + 1"] by simp
    obtain err d1 where k: "kicked e ts g pe minted d = (err, d1)" by fastforce
    then have k': "kicked (e\<lparr>el_keys := keys\<rparr>) ts g pe minted d = (err, d1)" by (auto simp: kicked_def)
    note step = elect_loop_cases [OF True k, where seed = seed and s = s]
      elect_loop_cases [OF True k', where seed = seed and s = s, simplified]
    consider "err \<noteq> None" | p where "err = None" "CountVotes (el_cfg e) d1 s = Inl p"
      | x where "err = None" "CountVotes (el_cfg e) d1 s = Inr (Inl x)"
      | votes t s1 where "err = None" "CountVotes (el_cfg e) d1 s = Inr (Inr (votes, t, s1))"
      by (metis obj_sumE prod_cases3)
    then show ?thesis
    proof cases
      case (4 votes t s1)
      note w = elect_walk [OF assms CountVotes_finite [OF 4(2)]]
      show ?thesis unfolding step(4) [OF 4] step(8) [OF 4] w IH by (simp add: w)
    qed (simp_all add: step)
  qed (simp add: elect_loop.simps)
qed

text \<open>C15: Nodes agree on the election: two nodes whose maps are walked in different orders elect the same
  validators, since the text of an address decides between equal tallies.\<close>

theorem election_is_deterministic:
  assumes "elect_env_ok (e\<lparr>el_str := Hex keccak\<rparr>)" "elect_env_ok (e\<lparr>el_str := Hex keccak, el_keys := keys\<rparr>)"
  shows "tryElect (e\<lparr>el_str := Hex keccak, el_keys := keys\<rparr>) seed genesisTime parentTime now d s
    = tryElect (e\<lparr>el_str := Hex keccak\<rparr>) seed genesisTime parentTime now d s"
  using elect_loop_walk [of "e\<lparr>el_str := Hex keccak\<rparr>" keys] assms by (simp add: tryElect_def Let_def)

theorem election_is_deterministic_witness:
  "tryElect (small_elect\<lparr>el_str := Hex (\<lambda>_. 0), el_keys := \<lambda>m. rev (sorted_list_of_set (dom m))\<rparr>) 3 0 5 6 one_validator stake_state
     = tryElect (small_elect\<lparr>el_str := Hex (\<lambda>_. 0)\<rparr>) 3 0 5 6 one_validator stake_state"
proof -
  have "small_elect\<lparr>el_str := Hex (\<lambda>_. 0)\<rparr> = small_elect" by (simp add: small_elect_def)
  then show ?thesis
    using election_is_deterministic [of "\<lambda>_. 0" small_elect "\<lambda>m. rev (sorted_list_of_set (dom m))"] small_elect_ok by simp
qed

section \<open>Mint counts\<close>

text \<open>The mint counts after a sequence of blocks, given by their times and miners.\<close>

fun mint_all :: "dpos_option \<Rightarrow> int \<Rightarrow> (int \<times> address) list \<Rightarrow> DposContext \<Rightarrow> DposContext" where
  "mint_all opt t [] d = d"
| "mint_all opt t ((t', v) # bs) d = mint_all opt t' bs (updateMintCnt opt t t' v d)"

definition minted_in :: "dpos_option \<Rightarrow> int \<Rightarrow> address \<Rightarrow> (int \<times> address) list \<Rightarrow> nat" where
  "minted_in opt epoch v bs = length (filter (\<lambda>(t, w). t div epochInterval opt = epoch \<and> w = v) bs)"

lemma mint_all_snoc: "mint_all opt t (bs @ [(t', v)]) d = updateMintCnt opt (last (t # map fst bs)) t' v (mint_all opt t bs d)"
  by (induction bs arbitrary: t d) auto

lemma updateMintCnt_eq:
  "updateMintCnt opt t t' v d =
     (let p = t sdiv epochInterval opt; n = t' sdiv epochInterval opt
      in d\<lparr>mintCntTrie := t_update (word_of_int n, v) (word_of_int (if p = n
           then (case map_of (mintCntTrie d) (word_of_int p, v) of None \<Rightarrow> 1 | Some c \<Rightarrow> sint c + 1) else 1)) (mintCntTrie d)\<rparr>)"
proof -
  have "\<exists>e \<in> set (mintCntTrie d). x \<le> fst (fst e)" if "map_of (mintCntTrie d) (x, v) = Some c" for x c
    using map_of_SomeD [OF that] by force
  then show ?thesis by (auto simp: updateMintCnt_def Let_def split: option.splits)
qed

lemma small_sint: "n < 2 ^ 63 \<Longrightarrow> sint (word_of_nat n :: u64) = int n"
  by (simp add: signed_of_nat signed_take_bit_int_eq_self)

lemma u64_of_int_inj: "0 \<le> x \<Longrightarrow> x < 2 ^ 63 \<Longrightarrow> 0 \<le> y \<Longrightarrow> y < 2 ^ 63 \<Longrightarrow> (word_of_int x = (word_of_int y :: u64)) \<longleftrightarrow> x = y"
  by (simp add: word_of_int_eq_iff take_bit_int_eq_self)

lemma epoch_bounds: "opt_ok opt \<Longrightarrow> 0 \<le> t \<Longrightarrow> t < 2 ^ 63 \<Longrightarrow> 0 \<le> t div epochInterval opt \<and> t div epochInterval opt < 2 ^ 63"
  using opt_okD(4) [of opt] zdiv_mono2 [of t 1 "epochInterval opt"] by (simp add: pos_imp_zdiv_nonneg_iff)

lemma minted_in_snoc:
  "minted_in opt epoch v (bs @ [(t, w)]) = minted_in opt epoch v bs + (if t div epochInterval opt = epoch \<and> w = v then 1 else 0)"
  by (simp add: minted_in_def)

lemma minted_in_le: "minted_in opt epoch v bs \<le> length bs"
  by (simp add: minted_in_def)

lemma sorted_last: "sorted xs \<Longrightarrow> x \<in> set xs \<Longrightarrow> x \<le> last xs"
  by (induction xs) auto

text \<open>What a block adds to counts that are right.\<close>

lemma mint_step:
  fixes d :: DposContext
  assumes o: "opt_ok opt" and t: "0 \<le> t" "t \<le> t'" "t' < 2 ^ 63" and E: "0 \<le> epoch" "epoch < 2 ^ 63" and n: "length bs < 2 ^ 63"
    and le: "\<And>x. x \<in> set (map fst bs) \<Longrightarrow> x \<le> t"
    and IH: "\<And>epoch v. 0 \<le> epoch \<Longrightarrow> epoch < 2 ^ 63 \<Longrightarrow> map_of (mintCntTrie d) (word_of_int epoch, v) =
      (if minted_in opt epoch v bs = 0 then None else Some (of_nat (minted_in opt epoch v bs)))" "t_sorted (mintCntTrie d)"
  shows "map_of (mintCntTrie (updateMintCnt opt t t' w d)) (word_of_int epoch, v) =
      (if minted_in opt epoch v (bs @ [(t', w)]) = 0 then None else Some (of_nat (minted_in opt epoch v (bs @ [(t', w)]))))"
proof -
  let ?I = "epochInterval opt"
  note I = opt_okD(4) [OF o]
  have p: "t div ?I \<le> t' div ?I" using I t(2) by (simp add: zdiv_mono1)
  have b: "0 \<le> t div ?I" "t div ?I < 2 ^ 63" "0 \<le> t' div ?I" "t' div ?I < 2 ^ 63"
    using epoch_bounds [OF o] t by auto
  have "word_of_int (if t div ?I = t' div ?I
       then (case map_of (mintCntTrie d) (word_of_int (t div ?I), w) of None \<Rightarrow> 1 | Some c \<Rightarrow> sint c + 1) else 1)
     = (of_nat (minted_in opt (t' div ?I) w (bs @ [(t', w)])) :: u64)"
  proof (cases "t div ?I = t' div ?I")
    case True
    have "sint (word_of_nat (minted_in opt (t' div ?I) w bs) :: u64) = int (minted_in opt (t' div ?I) w bs)"
      using minted_in_le [of opt "t' div ?I" w bs] n by (intro small_sint) simp
    then show ?thesis using True IH(1) [OF b(3,4), of w] by (simp add: minted_in_snoc)
  next
    case False
    have "x div ?I < t' div ?I" if "x \<in> set (map fst bs)" for x
      using zdiv_mono1 [OF le [OF that] I] False p by linarith
    then have "minted_in opt (t' div ?I) w bs = 0" by (force simp: minted_in_def filter_empty_conv)
    then show ?thesis using False by (simp add: minted_in_snoc)
  qed
  then show ?thesis
    using t I IH(1) [OF E, of v] IH(2) u64_of_int_inj [OF b(3,4) E]
    by (auto simp: updateMintCnt_eq Let_def minted_in_snoc)
qed

text \<open>C23: The mint counts count: after any sequence of blocks with increasing times from the genesis
  block on, the count stored for an epoch and a validator is the number of blocks of this epoch
  that the validator minted, and there is no entry where it minted none.\<close>

theorem mint_counts_exact:
  assumes "opt_ok opt" "mintCntTrie d = []" "0 \<le> genesisTime" "sorted (genesisTime # map fst blocks)"
    and "\<forall>(t, v) \<in> set blocks. t < 2 ^ 63" "length blocks < 2 ^ 63" "0 \<le> epoch" "epoch < 2 ^ 63"
  shows "map_of (mintCntTrie (mint_all opt genesisTime blocks d)) (word_of_int epoch, v) =
      (if minted_in opt epoch v blocks = 0 then None else Some (of_nat (minted_in opt epoch v blocks)))
    \<and> t_sorted (mintCntTrie (mint_all opt genesisTime blocks d))"
  using assms(4-8)
proof (induction blocks arbitrary: epoch v rule: rev_induct)
  case Nil
  then show ?case using assms(2) by (simp add: minted_in_def t_sorted_def)
next
  case (snoc b bs)
  obtain t' w where b: "b = (t', w)" by fastforce
  define t where "t = last (genesisTime # map fst bs)"
  have srt: "sorted (genesisTime # map fst bs)" "\<forall>x \<in> set (genesisTime # map fst bs). x \<le> t'"
    using snoc.prems(1) b by (auto simp: sorted_append)
  have t: "x \<le> t" if "x \<in> set (genesisTime # map fst bs)" for x using sorted_last [OF srt(1) that] by (simp add: t_def)
  have "t \<in> set (genesisTime # map fst bs)" unfolding t_def by (rule last_in_set) simp
  then have "t \<le> t'" "0 \<le> t" "t' < 2 ^ 63" using srt(2) t [of genesisTime] assms(3) snoc.prems(2) b by auto
  moreover have IH: "map_of (mintCntTrie (mint_all opt genesisTime bs d)) (word_of_int epoch, v) =
      (if minted_in opt epoch v bs = 0 then None else Some (of_nat (minted_in opt epoch v bs)))
      \<and> t_sorted (mintCntTrie (mint_all opt genesisTime bs d))" if "0 \<le> epoch" "epoch < 2 ^ 63" for epoch v
    using snoc.IH [OF srt(1) _ _ that] snoc.prems(2,3) by simp
  ultimately show ?case
    using mint_step [OF assms(1), of t t' epoch bs "mint_all opt genesisTime bs d" w v] t snoc.prems(3-5)
    by (simp add: b mint_all_snoc t_def updateMintCnt_eq Let_def)
qed

theorem mint_counts_exact_witness:
  "map_of (mintCntTrie (mint_all default_Option 0 [(1, 7), (2, 7), (18000000000, 7)] NewDposContext)) (0, 7) = Some 2"
  using mint_counts_exact [OF default_Option_ok, of NewDposContext 0 "[(1, 7), (2, 7), (18000000000, 7)]" 0 7]
  by (simp add: NewDposContext_def minted_in_def default_Option_fields)

end
