(* ===== verification/Cache.thy ===== *)
theory Cache
  imports Prelude
begin

text \<open>
  The cache of fixed size (\<open>common/cache\<close>) that evicts what was used least recently. The list of the
  source holds the entries from the newest to the oldest, and \<open>items\<close> points into it, so a lookup
  is a search of the list. The callback on evictions is nil in every use and not modelled; the
  locked cache is the unlocked one behind a mutex.
\<close>

record ('k, 'v) UnLockCache =
  ulc_size :: nat
  evictList :: "('k \<times> 'v) list"

definition NewUnLockCache :: "int \<Rightarrow> ('k, 'v) UnLockCache option" where
  "NewUnLockCache n = (if n \<le> 0 then None else Some \<lparr>ulc_size = nat n, evictList = []\<rparr>)"

definition cache_Purge :: "('k, 'v) UnLockCache \<Rightarrow> ('k, 'v) UnLockCache" where
  "cache_Purge c = c\<lparr>evictList := []\<rparr>"

definition removeOldest :: "('k, 'v) UnLockCache \<Rightarrow> ('k, 'v) UnLockCache" where
  "removeOldest c = c\<lparr>evictList := butlast (evictList c)\<rparr>"

definition cache_Add :: "'k \<Rightarrow> 'v \<Rightarrow> ('k, 'v) UnLockCache \<Rightarrow> bool \<times> ('k, 'v) UnLockCache" where
  "cache_Add k v c =
     (case map_of (evictList c) k of
        Some _ \<Rightarrow> (False, c\<lparr>evictList := (k, v) # filter (\<lambda>e. fst e \<noteq> k) (evictList c)\<rparr>)
      | None \<Rightarrow>
          (let c1 = c\<lparr>evictList := (k, v) # evictList c\<rparr>; evict = (length (evictList c1) > ulc_size c)
           in (evict, if evict then removeOldest c1 else c1)))"

definition cache_Get :: "'k \<Rightarrow> ('k, 'v) UnLockCache \<Rightarrow> 'v option \<times> ('k, 'v) UnLockCache" where
  "cache_Get k c =
     (case map_of (evictList c) k of
        Some v \<Rightarrow> (Some v, c\<lparr>evictList := (k, v) # filter (\<lambda>e. fst e \<noteq> k) (evictList c)\<rparr>)
      | None \<Rightarrow> (None, c))"

definition cache_Contains :: "'k \<Rightarrow> ('k, 'v) UnLockCache \<Rightarrow> bool" where
  "cache_Contains k c = (map_of (evictList c) k \<noteq> None)"

definition cache_Peek :: "'k \<Rightarrow> ('k, 'v) UnLockCache \<Rightarrow> 'v option" where
  "cache_Peek k c = map_of (evictList c) k"

definition cache_Remove :: "'k \<Rightarrow> ('k, 'v) UnLockCache \<Rightarrow> bool \<times> ('k, 'v) UnLockCache" where
  "cache_Remove k c =
     (if cache_Contains k c then (True, c\<lparr>evictList := filter (\<lambda>e. fst e \<noteq> k) (evictList c)\<rparr>) else (False, c))"

definition RemoveOldest :: "('k, 'v) UnLockCache \<Rightarrow> ('k \<times> 'v) option \<times> ('k, 'v) UnLockCache" where
  "RemoveOldest c = (if evictList c = [] then (None, c) else (Some (last (evictList c)), removeOldest c))"

definition GetOldest :: "('k, 'v) UnLockCache \<Rightarrow> ('k \<times> 'v) option" where
  "GetOldest c = (if evictList c = [] then None else Some (last (evictList c)))"

definition cache_Keys :: "('k, 'v) UnLockCache \<Rightarrow> 'k list" where
  "cache_Keys c = rev (map fst (evictList c))"

definition cache_Len :: "('k, 'v) UnLockCache \<Rightarrow> nat" where
  "cache_Len c = length (evictList c)"

definition ContainsOrAdd :: "'k \<Rightarrow> 'v \<Rightarrow> ('k, 'v) UnLockCache \<Rightarrow> (bool \<times> bool) \<times> ('k, 'v) UnLockCache" where
  "ContainsOrAdd k v c =
     (if cache_Contains k c then ((True, False), c)
      else let (evicted, c1) = cache_Add k v c in ((False, evicted), c1))"

section \<open>Coherence\<close>

definition cache_ok :: "('k, 'v) UnLockCache \<Rightarrow> bool" where
  "cache_ok c \<longleftrightarrow> 0 < ulc_size c \<and> length (evictList c) \<le> ulc_size c \<and> distinct (map fst (evictList c))"

text \<open>The contents as a map.\<close>

abbreviation contents :: "('k, 'v) UnLockCache \<Rightarrow> 'k \<rightharpoonup> 'v" where
  "contents c \<equiv> map_of (evictList c)"

lemma map_of_filter_neq: "map_of (filter (\<lambda>e. fst e \<noteq> k) xs) = (map_of xs)(k := None)"
  by (induction xs) (auto simp: fun_eq_iff)

lemma distinct_filter_neq: "distinct (map fst xs) \<Longrightarrow> distinct (map fst (filter P xs))"
  by (rule distinct_map_filter)

lemma length_filter_present:
  assumes "map_of xs k = Some v"
  shows "length (filter (\<lambda>e. fst e \<noteq> k) xs) < length xs"
  by (rule length_filter_less [OF map_of_SomeD [OF assms]]) simp

text \<open>What a client relies on: a lookup returns what is there, and what is there was added.\<close>

locale cache_contract =
  fixes ok :: "'c \<Rightarrow> bool"
    and entries :: "'c \<Rightarrow> 'k \<rightharpoonup> 'v"
    and add :: "'k \<Rightarrow> 'v \<Rightarrow> 'c \<Rightarrow> 'c"
    and get :: "'k \<Rightarrow> 'c \<Rightarrow> 'v option \<times> 'c"
  assumes add_ok: "ok c \<Longrightarrow> ok (add k v c)"
    and add_entries: "ok c \<Longrightarrow> entries (add k v c) \<subseteq>\<^sub>m (entries c)(k \<mapsto> v)"
    and add_found: "ok c \<Longrightarrow> entries (add k v c) k = Some v"
    and get_value: "fst (get k c) = entries c k"
    and get_same: "entries (snd (get k c)) = entries c"
    and get_ok: "ok c \<Longrightarrow> ok (snd (get k c))"
begin

text \<open>A cache in front of a store: all it holds is in the store.\<close>

definition in_front :: "'c \<Rightarrow> ('k \<rightharpoonup> 'v) \<Rightarrow> bool" where
  "in_front c store \<longleftrightarrow> ok c \<and> entries c \<subseteq>\<^sub>m store"

lemma in_front_get:
  assumes "in_front c store" "get k c = (r, c')"
  shows "in_front c' store" "r = None \<or> r = store k"
proof -
  have c': "entries c' = entries c" "r = entries c k" using get_same [of k c] get_value [of k c] assms(2) by simp_all
  then show "in_front c' store" using assms get_ok [of c k] by (simp add: in_front_def)
  show "r = None \<or> r = store k" using assms(1) c'(2) by (cases r) (auto simp: in_front_def map_le_def dom_def)
qed

lemma in_front_add:
  assumes "in_front c store" "store k = Some v"
  shows "in_front (add k v c) store"
proof -
  have "(entries c)(k \<mapsto> v) \<subseteq>\<^sub>m store" using assms by (auto simp: in_front_def map_le_def)
  then show ?thesis using assms(1) add_ok add_entries map_le_trans by (fastforce simp: in_front_def)
qed

lemma in_front_store:
  assumes "in_front c store" "store k = None \<or> store k = Some v"
  shows "in_front c (store(k \<mapsto> v))"
  using assms by (auto simp: in_front_def map_le_def dom_def)

lemma in_front_write:
  assumes "in_front c store"
  shows "in_front (add k v c) (store(k \<mapsto> v))"
proof -
  have c: "ok c" "entries c \<subseteq>\<^sub>m store" using assms by (simp_all add: in_front_def)
  have "(entries c)(k \<mapsto> v) \<subseteq>\<^sub>m store(k \<mapsto> v)" using map_le_upd [OF c(2)] .
  with add_entries [OF c(1)] have "entries (add k v c) \<subseteq>\<^sub>m store(k \<mapsto> v)" by (rule map_le_trans)
  with add_ok [OF c(1)] show ?thesis by (simp add: in_front_def)
qed

end

lemma map_of_take:
  assumes "distinct (map fst xs)"
  shows "map_of (take n xs) \<subseteq>\<^sub>m map_of xs"
proof -
  have "map_of xs k = Some v" if "map_of (take n xs) k = Some v" for k v
    using that assms map_of_SomeD in_set_takeD map_of_is_SomeI by metis
  then show ?thesis by (auto simp: map_le_def dom_def)
qed

lemma cache_Add_take:
  assumes "cache_ok c"
  shows "evictList (snd (cache_Add k v c)) = take (ulc_size c) ((k, v) # filter (\<lambda>e. fst e \<noteq> k) (evictList c))"
    "ulc_size (snd (cache_Add k v c)) = ulc_size c"
proof -
  let ?xs = "evictList c"
  have d: "0 < ulc_size c" "length ?xs \<le> ulc_size c" using assms by (simp_all add: cache_ok_def)
  show "evictList (snd (cache_Add k v c)) = take (ulc_size c) ((k, v) # filter (\<lambda>e. fst e \<noteq> k) ?xs)"
  proof (cases "map_of ?xs k")
    case None
    then have "filter (\<lambda>e. fst e \<noteq> k) ?xs = ?xs" by (auto simp: map_of_eq_None_iff intro!: filter_True)
    moreover have "length ?xs = ulc_size c" if "ulc_size c < Suc (length ?xs)" using d(2) that by simp
    ultimately show ?thesis using None by (auto simp: cache_Add_def removeOldest_def Let_def butlast_conv_take)
  next
    case (Some w)
    then show ?thesis using d length_filter_present [OF Some] by (simp add: cache_Add_def)
  qed
  show "ulc_size (snd (cache_Add k v c)) = ulc_size c"
    by (simp add: cache_Add_def removeOldest_def Let_def split: option.splits)
qed

lemma cache_Add_ok:
  assumes "cache_ok c"
  shows "cache_ok (snd (cache_Add k v c))" "contents (snd (cache_Add k v c)) \<subseteq>\<^sub>m (contents c)(k \<mapsto> v)"
    "contents (snd (cache_Add k v c)) k = Some v"
proof -
  let ?ys = "(k, v) # filter (\<lambda>e. fst e \<noteq> k) (evictList c)"
  have d: "0 < ulc_size c" "distinct (map fst ?ys)" using assms distinct_map_filter [of fst "evictList c"] by (auto simp: cache_ok_def)
  note t = cache_Add_take [OF assms, of k v]
  show "cache_ok (snd (cache_Add k v c))"
    using d distinct_take [OF d(2), of "ulc_size c"] unfolding take_map by (simp add: cache_ok_def t del: take_Cons)
  show "contents (snd (cache_Add k v c)) \<subseteq>\<^sub>m (contents c)(k \<mapsto> v)"
    using map_of_take [OF d(2), of "ulc_size c"] unfolding t(1) by (simp add: map_of_filter_neq)
  show "contents (snd (cache_Add k v c)) k = Some v" unfolding t(1) using d(1) by (cases "ulc_size c") simp_all
qed

lemma cache_Get_ok:
  shows "fst (cache_Get k c) = contents c k" "contents (snd (cache_Get k c)) = contents c" "cache_ok c \<Longrightarrow> cache_ok (snd (cache_Get k c))"
proof -
  show "fst (cache_Get k c) = contents c k" by (simp add: cache_Get_def split: option.splits)
  show "contents (snd (cache_Get k c)) = contents c"
    by (auto simp: cache_Get_def map_of_filter_neq fun_eq_iff split: option.splits)
  show "cache_ok (snd (cache_Get k c))" if "cache_ok c"
  proof (cases "contents c k")
    case (Some v)
    then show ?thesis using that length_filter_present [OF Some] distinct_map_filter [of fst "evictList c"]
      by (auto simp: cache_ok_def cache_Get_def)
  qed (simp add: cache_Get_def that)
qed

interpretation lru: cache_contract cache_ok contents "\<lambda>k v c. snd (cache_Add k v c)" cache_Get
  by unfold_locales (auto simp: cache_Add_ok cache_Get_ok)

section \<open>Eviction\<close>

text \<open>The entries of a history, given from the newest to the oldest, each key with its latest value.\<close>

fun latest :: "('k \<times> 'v) list \<Rightarrow> ('k \<times> 'v) list" where
  "latest [] = []"
| "latest ((k, v) # h) = (k, v) # filter (\<lambda>e. fst e \<noteq> k) (latest h)"

definition add_all :: "('k \<times> 'v) list \<Rightarrow> ('k, 'v) UnLockCache \<Rightarrow> ('k, 'v) UnLockCache" where
  "add_all h c = fold (\<lambda>(k, v) c. snd (cache_Add k v c)) h c"

lemma latest_distinct: "distinct (map fst (latest h))"
  by (induction h rule: latest.induct) (auto simp: distinct_map_filter)

lemma take_filter_take:
  assumes "distinct (map fst xs)"
  shows "take (n - 1) (filter (\<lambda>e. fst e \<noteq> k) (take n xs)) = take (n - 1) (filter (\<lambda>e. fst e \<noteq> k) xs)"
  using assms
proof (induction xs arbitrary: n)
  case (Cons e xs)
  show ?case
  proof (cases n)
    case (Suc m)
    show ?thesis
    proof (cases "fst e = k")
      case True
      have f: "filter (\<lambda>e. fst e \<noteq> k) ys = ys" if "set ys \<subseteq> set xs" for ys
        using that Cons.prems True by (intro filter_True ballI) (metis distinct.simps(2) image_eqI list.simps(9) set_map subsetD)
      show ?thesis using True Suc f [of xs] f [of "take m xs"] set_take_subset [of m xs] by simp
    next
      case False
      then show ?thesis using Cons.IH [of m] Cons.prems Suc by (cases m) simp_all
    qed
  qed simp
qed simp

text \<open>The cache keeps what was used last: after any sequence of additions to a new cache, it holds
  exactly the entries of the last distinct keys, as many as its size, each with its latest value
  and the newest first.\<close>

theorem cache_keeps_latest:
  assumes "NewUnLockCache n = Some c"
  shows "evictList (add_all h c) = take (nat n) (latest (rev h))"
proof -
  have c: "c = \<lparr>ulc_size = nat n, evictList = []\<rparr>" "0 < n" using assms by (auto simp: NewUnLockCache_def split: if_splits)
  have "cache_ok (add_all h c) \<and> ulc_size (add_all h c) = nat n \<and> evictList (add_all h c) = take (nat n) (latest (rev h))"
  proof (induction h rule: rev_induct)
    case Nil
    then show ?case using c by (simp add: add_all_def cache_ok_def)
  next
    case (snoc e h)
    obtain k v where e: "e = (k, v)" by fastforce
    define m where "m = nat n - 1"
    have m: "nat n = Suc m" using c(2) by (simp add: m_def)
    have s: "add_all (h @ [(k, v)]) c = snd (cache_Add k v (add_all h c))" by (simp add: add_all_def)
    have "take m (filter (\<lambda>e. fst e \<noteq> k) (take (Suc m) (latest (rev h)))) = take m (filter (\<lambda>e. fst e \<noteq> k) (latest (rev h)))"
      using take_filter_take [OF latest_distinct, of "Suc m"] by simp
    then show ?case using snoc.IH cache_Add_ok(1) [of "add_all h c" k v] cache_Add_take [of "add_all h c" k v] unfolding e s by (simp add: m)
  qed
  then show ?thesis by blast
qed

theorem cache_keeps_latest_witness:
  "evictList (add_all [(1 :: nat, ''a''), (2, ''b''), (1, ''c''), (3, ''d'')] \<lparr>ulc_size = 2, evictList = []\<rparr>) = [(3, ''d''), (1, ''c'')]"
  using cache_keeps_latest [of 2 "\<lparr>ulc_size = 2, evictList = []\<rparr>" "[(1 :: nat, ''a''), (2, ''b''), (1, ''c''), (3, ''d'')]"]
  by (simp add: NewUnLockCache_def)

end
