(* ===== verification/Dpos.thy ===== *)
theory Dpos
  imports Epoch
begin

text \<open>
  The engine (\<open>consensus/dpos/dpos.go\<close>): the header that decides a schedule, the seal of a header, the
  blocks that enough validators have built on or confirmed, and the end of a block. The interface
  to the chain, the crypto library, the cache of confirmations and the databases are parameters.
\<close>

section \<open>What the engine uses\<close>

record IChainReader =
  CurrentBlock :: "BlockHeader option"
  GetHeader :: "hash \<Rightarrow> BlockHeader option"
  GetBlockByHeight :: "u64 \<Rightarrow> BlockHeader option"
  GetBlockByHash :: "hash \<Rightarrow> BlockHeader option"

type_synonym seal_fields =
  "hash \<times> address \<times> hash \<times> hash \<times> hash \<times> bytes \<times> int \<times> int \<times> u64 \<times> u64 \<times> int \<times> bytes \<times> u64 \<times> hash"

text \<open>\<open>hashOf\<close> is the hash of a header, \<open>rlpHash_seal\<close> and \<open>rlpHash_confirmed\<close> hash an encoded list of
  fields, \<open>openContext\<close> opens the state and the tries that two roots name, and \<open>lru_Add\<close> adds to the
  cache of confirmations.\<close>

record dpos_env =
  de_opt :: dpos_option
  de_chain :: IChainReader
  hashOf :: "BlockHeader \<Rightarrow> hash"
  rlpHash_seal :: "seal_fields \<Rightarrow> hash"
  rlpHash_confirmed :: "u64 \<times> hash \<times> address \<Rightarrow> hash"
  proto_Root :: "DposContextProto \<Rightarrow> hash"
  Keccak256 :: "bytes \<Rightarrow> hash"
  EcrecoverToByte :: "hash \<Rightarrow> bytes \<Rightarrow> bytes option"
  signFn :: "address \<Rightarrow> hash \<Rightarrow> bytes option"
  openContext :: "hash \<Rightarrow> DposContextProto \<Rightarrow> dberr + DposContext"
  lru_Add :: "(address \<times> u64) list \<Rightarrow> address \<Rightarrow> u64 \<Rightarrow> (address \<times> u64) list"
  put_fails :: bool

record Confirmed =
  cf_BlockHeight :: u64
  cf_BlockHash :: hash
  cf_Address :: address
  cf_Signature :: bytes

text \<open>The engine with the two package variables and the two keys it has in the database; a nil cache is
  \<open>None\<close>.\<close>

record Dpos =
  confirmedBlockHeader :: "BlockHeader option"
  bftConfirmedBlockHeader :: "BlockHeader option"
  bftConfirmeds :: "(address \<times> u64) list option"
  coinbase :: address
  stored_confirmed :: "hash option"
  stored_bft :: "hash option"
  posted :: "Confirmed list"
  timeOfGenesisBlock :: int
  timeOfFirstBlock :: int

type_synonym 'a engine = "vm_fail + ('a \<times> Dpos)"

definition CalcDifficulty :: "dpos_env \<Rightarrow> u64 \<Rightarrow> Dpos \<Rightarrow> int engine" where
  "CalcDifficulty e time d =
     rbind (if timeOfGenesisBlock d = -1
            then (case GetBlockByHeight (de_chain e) 0 of
                    None \<Rightarrow> Inl (VMPanic NilDeref)
                  | Some g \<Rightarrow> Inr (d\<lparr>timeOfGenesisBlock := Int64 (TimeStamp g)\<rparr>))
            else Inr d) (\<lambda>d1.
     Inr (wrap_int64 (sint time - timeOfGenesisBlock d1) sdiv BlockInterval (de_opt e) + 1, d1))"

section \<open>The header of a schedule\<close>

text \<open>The last header that is \<open>DelayEpcho\<close> epochs old, or the genesis header. The fuel bounds the number
  of headers on the way; a missing header is nil.\<close>

fun epcho_loop :: "nat \<Rightarrow> dpos_env \<Rightarrow> int \<Rightarrow> BlockHeader \<Rightarrow> vm_fail + BlockHeader" where
  "epcho_loop 0 e timestamp header = Inl NoFuel"
| "epcho_loop (Suc f) e timestamp header =
     (if Int64 (TimeStamp header) \<le> timestamp \<or> Uint64 (Height header) = 0 then Inr header
      else case GetHeader (de_chain e) (PreviousHash header) of
             None \<Rightarrow> Inl (VMPanic NilDeref)
           | Some h \<Rightarrow> epcho_loop f e timestamp h)"

definition EpchoBlockHeader :: "nat \<Rightarrow> dpos_env \<Rightarrow> int \<Rightarrow> BlockHeader \<Rightarrow> vm_fail + BlockHeader" where
  "EpchoBlockHeader fuel e timestamp lastBlock =
     epcho_loop fuel e (wrap_int64 (timestamp - DelayEpcho (de_opt e) * epochInterval (de_opt e))) lastBlock"

section \<open>Confirmations\<close>

definition storeBFTConfirmedBlockHeader :: "dpos_env \<Rightarrow> Dpos \<Rightarrow> epoch_error option engine" where
  "storeBFTConfirmedBlockHeader e d =
     (case bftConfirmeds d of
        None \<Rightarrow> Inl (VMPanic NilDeref)
      | Some confirmeds \<Rightarrow>
          (let irreversibles = map snd confirmeds
           in if irreversibles = [] then Inr (None, d)
              else let h = sort_Sort (<) irreversibles ! ((length irreversibles - 1) div 3)
                   in case GetBlockByHeight (de_chain e) h of
                        None \<Rightarrow> Inl (VMPanic NilDeref)
                      | Some header \<Rightarrow>
                          (let d1 = d\<lparr>bftConfirmedBlockHeader := Some header\<rparr>
                           in if put_fails e then Inr (Some DbErr, d1)
                              else Inr (None, d1\<lparr>stored_bft := Some (hashOf e header)\<rparr>))))"

definition bftConfirmeds_Add :: "dpos_env \<Rightarrow> address \<Rightarrow> u64 \<Rightarrow> Dpos \<Rightarrow> vm_fail + Dpos" where
  "bftConfirmeds_Add e a h d =
     (case bftConfirmeds d of
        None \<Rightarrow> Inl (VMPanic NilDeref)
      | Some c \<Rightarrow> Inr (d\<lparr>bftConfirmeds := Some (lru_Add e c a h)\<rparr>))"

definition pubkey_address :: "dpos_env \<Rightarrow> bytes \<Rightarrow> address" where
  "pubkey_address e pub = ucast (Keccak256 e (drop 1 pub))"

definition IsValidate :: "dpos_env \<Rightarrow> Confirmed \<Rightarrow> bool" where
  "IsValidate e c =
     (case EcrecoverToByte e (rlpHash_confirmed e (cf_BlockHeight c, cf_BlockHash c, cf_Address c)) (cf_Signature c) of
        None \<Rightarrow> False
      | Some pub \<Rightarrow>
          (if length pub = 0 \<or> pub ! 0 \<noteq> 4 then False else cf_Address c = pubkey_address e pub))"

definition handleConfirmed :: "dpos_env \<Rightarrow> Confirmed \<Rightarrow> Dpos \<Rightarrow> vm_fail + Dpos" where
  "handleConfirmed e c d =
     (if IsValidate e c
      then (case GetBlockByHeight (de_chain e) (cf_BlockHeight c) of
              None \<Rightarrow> Inr d
            | Some blk \<Rightarrow>
                (if hashOf e blk = cf_BlockHash c
                 then rbind (bftConfirmeds_Add e (cf_Address c) (cf_BlockHeight c) d) (\<lambda>d1.
                      rbind (storeBFTConfirmedBlockHeader e d1) (\<lambda>(err, d2). Inr d2))
                 else Inr d))
      else Inr d)"

text \<open>The confirmations that \<open>storeConfirmedBlockHeader\<close> signs: one for every time the coinbase is a
  validator of the last block's context.\<close>

fun confirm_validators :: "dpos_env \<Rightarrow> BlockHeader \<Rightarrow> address list \<Rightarrow> Dpos \<Rightarrow> vm_fail + Dpos" where
  "confirm_validators e header [] d = Inr d"
| "confirm_validators e header (validator # vs) d =
     (if validator \<noteq> coinbase d then confirm_validators e header vs d
      else let c = \<lparr>cf_BlockHeight = Uint64 (Height header), cf_BlockHash = hashOf e header, cf_Address = coinbase d, cf_Signature = []\<rparr>
           in case signFn e (coinbase d) (rlpHash_confirmed e (cf_BlockHeight c, cf_BlockHash c, cf_Address c)) of
                None \<Rightarrow> confirm_validators e header vs d
              | Some sig \<Rightarrow>
                  rbind (bftConfirmeds_Add e (coinbase d) (cf_BlockHeight c) (d\<lparr>posted := posted d @ [c\<lparr>cf_Signature := sig\<rparr>]\<rparr>)) (\<lambda>d1.
                  rbind (storeBFTConfirmedBlockHeader e d1) (\<lambda>(err, d2). confirm_validators e header vs d2)))"

text \<open>\<open>header\<close> is the confirmed header, which the engine has at the call.\<close>

definition storeConfirmedBlockHeader :: "nat \<Rightarrow> dpos_env \<Rightarrow> BlockHeader \<Rightarrow> BlockHeader \<Rightarrow> Dpos \<Rightarrow> epoch_error option engine" where
  "storeConfirmedBlockHeader fuel e header lastBlock d =
     rbind (EpchoBlockHeader fuel e (Int64 (TimeStamp lastBlock)) lastBlock) (\<lambda>epcho.
     rbind (case openContext e (StateRoot epcho) (hd_DposContext lastBlock) of
              Inl _ \<Rightarrow> Inr d
            | Inr ctx \<Rightarrow> confirm_validators e header (case GetValidators ctx of Inl _ \<Rightarrow> [] | Inr vs \<Rightarrow> vs) d) (\<lambda>d1.
     if put_fails e then Inr (Some DbErr, d1) else Inr (None, d1\<lparr>stored_confirmed := Some (hashOf e header)\<rparr>)))"

definition loadConfirmedBlockHeader :: "dpos_env \<Rightarrow> Dpos \<Rightarrow> epoch_error + BlockHeader" where
  "loadConfirmedBlockHeader e d =
     (let key = (case stored_confirmed d of None \<Rightarrow> 0 | Some k \<Rightarrow> k)
      in case GetBlockByHash (de_chain e) key of None \<Rightarrow> Inl ErrNilBlockHeader | Some h \<Rightarrow> Inr h)"

definition loadBFTConfirmedBlockHeader :: "dpos_env \<Rightarrow> Dpos \<Rightarrow> epoch_error + BlockHeader" where
  "loadBFTConfirmedBlockHeader e d =
     (let key = (case stored_bft d of None \<Rightarrow> 0 | Some k \<Rightarrow> k)
      in case GetBlockByHash (de_chain e) key of None \<Rightarrow> Inl ErrNilBlockHeader | Some h \<Rightarrow> Inr h)"

text \<open>The walk of \<open>updateConfirmedBlockHeader\<close> from the current block down to the confirmed one: the miners
  seen so far are the keys of \<open>validatorMap\<close>.\<close>

fun confirm_loop ::
  "nat \<Rightarrow> dpos_env \<Rightarrow> BlockHeader \<Rightarrow> BlockHeader \<Rightarrow> address list \<Rightarrow> BlockHeader \<Rightarrow> Dpos \<Rightarrow> epoch_error option engine" where
  "confirm_loop 0 e current confirmed miners cur d = Inl NoFuel"
| "confirm_loop (Suc f) e current confirmed miners cur d =
     (if \<not> Height confirmed \<le> Height cur then Inr (None, d)
      else let miners1 = List.insert (Miner cur) miners
           in if int (length miners1) \<ge> consensusSize (de_opt e)
              then (if Height confirmed \<noteq> Height cur
                    then storeConfirmedBlockHeader f e cur current (d\<lparr>confirmedBlockHeader := Some cur\<rparr>)
                    else Inr (None, d))
              else case GetBlockByHash (de_chain e) (PreviousHash cur) of
                     None \<Rightarrow> Inr (Some ErrNilBlockHeader, d)
                   | Some h \<Rightarrow> confirm_loop f e current confirmed miners1 h d)"

definition first_confirmed :: "dpos_env \<Rightarrow> Dpos \<Rightarrow> BlockHeader engine" where
  "first_confirmed e d =
     (case confirmedBlockHeader d of
        Some h \<Rightarrow> Inr (h, d)
      | None \<Rightarrow>
          (case loadConfirmedBlockHeader e d of
             Inr h \<Rightarrow> Inr (h, d\<lparr>confirmedBlockHeader := Some h\<rparr>)
           | Inl _ \<Rightarrow>
               (case GetBlockByHeight (de_chain e) 0 of
                  None \<Rightarrow> Inl (VMPanic NilDeref)
                | Some h \<Rightarrow> Inr (h, d\<lparr>confirmedBlockHeader := Some h\<rparr>))))"

definition updateConfirmedBlockHeader :: "nat \<Rightarrow> dpos_env \<Rightarrow> bool \<Rightarrow> Dpos \<Rightarrow> epoch_error option engine" where
  "updateConfirmedBlockHeader fuel e dpos d =
     rbind (first_confirmed e d) (\<lambda>(confirmed, d1).
     if \<not> dpos
     then (case CurrentBlock (de_chain e) of
             None \<Rightarrow> Inr (None, d1)
           | Some blk \<Rightarrow> storeConfirmedBlockHeader fuel e blk blk (d1\<lparr>confirmedBlockHeader := Some blk\<rparr>))
     else (case CurrentBlock (de_chain e) of
             None \<Rightarrow> Inl (VMPanic NilDeref)
           | Some current \<Rightarrow> confirm_loop fuel e current confirmed [] current d1))"

definition GetConfirmedBlockNumber :: "Dpos \<Rightarrow> int" where
  "GetConfirmedBlockNumber d = (case confirmedBlockHeader d of None \<Rightarrow> 0 | Some h \<Rightarrow> Height h)"

definition GetBFTConfirmedBlockNumber :: "Dpos \<Rightarrow> int" where
  "GetBFTConfirmedBlockNumber d = (case bftConfirmedBlockHeader d of None \<Rightarrow> 0 | Some h \<Rightarrow> Height h)"

section \<open>Seals\<close>

definition extraSeal :: nat where "extraSeal = 65"

definition sigHash :: "dpos_env \<Rightarrow> BlockHeader \<Rightarrow> go_panic + hash" where
  "sigHash e h =
     (if length (ExtraData h) < extraSeal then Inl SliceOutOfRange
      else Inr (rlpHash_seal e (PreviousHash h, Miner h, StateRoot h, TransactionsRoot h, ReceiptsRoot h, LogsBloom h,
             hd_Difficulty h, Height h, hd_GasLimit h, hd_GasUsed h, TimeStamp h,
             take (length (ExtraData h) - extraSeal) (ExtraData h), hd_Nonce h, proto_Root e (hd_DposContext h))))"

definition ecrecover :: "dpos_env \<Rightarrow> BlockHeader \<Rightarrow> go_panic + (epoch_error + address)" where
  "ecrecover e h =
     (if length (ExtraData h) < extraSeal then Inr (Inl errMissingSignature)
      else let signature = drop (length (ExtraData h) - extraSeal) (ExtraData h)
           in rbind (sigHash e h) (\<lambda>hash.
              case EcrecoverToByte e hash signature of
                None \<Rightarrow> Inr (Inl RecoverErr)
              | Some pub \<Rightarrow> (if pub = [] then Inl SliceOutOfRange else Inr (Inr (pubkey_address e pub)))))"

definition isDpos :: "nat \<Rightarrow> dpos_env \<Rightarrow> BlockHeader \<Rightarrow> vm_fail + (epoch_error + bool)" where
  "isDpos fuel e header =
     (case GetBlockByHash (de_chain e) (PreviousHash header) of
        None \<Rightarrow> Inl (VMPanic NilDeref)
      | Some parent \<Rightarrow>
          rbind (EpchoBlockHeader fuel e (Int64 (TimeStamp header)) parent) (\<lambda>epcho.
          case openContext e (StateRoot epcho) (hd_DposContext epcho) of
            Inl err \<Rightarrow> Inr (Inl (StateErr err))
          | Inr ctx \<Rightarrow> Inr (Inr (IsDpos ctx))))"

definition put_seal :: "bytes \<Rightarrow> bytes \<Rightarrow> bytes" where
  "put_seal extra sig = (let n = length extra - extraSeal in take n extra @ take extraSeal (sig @ drop (n + length sig) extra))"

definition Seal :: "nat \<Rightarrow> dpos_env \<Rightarrow> BlockHeader \<Rightarrow> Dpos \<Rightarrow> (epoch_error + BlockHeader) engine" where
  "Seal fuel e block d =
     (let header = block\<lparr>ExtraData := ExtraData block @ replicate extraSeal 0\<rparr>
      in rbind (lift_panic (sigHash e header)) (\<lambda>hash.
         case signFn e (Miner header) hash of
           None \<Rightarrow> Inr (Inl SignErr, d)
         | Some sig \<Rightarrow>
             (let sealed = header\<lparr>ExtraData := put_seal (ExtraData header) sig\<rparr>
              in rbind (isDpos fuel e sealed) (\<lambda>r.
                 case r of
                   Inl err \<Rightarrow> Inr (Inl err, d)
                 | Inr dpos \<Rightarrow> rbind (updateConfirmedBlockHeader fuel e dpos d) (\<lambda>(_, d1). Inr (Inr sealed, d1))))))"

text \<open>Who may mint at a time, by the context of the header of the schedule.\<close>

definition scheduled :: "nat \<Rightarrow> dpos_env \<Rightarrow> int \<Rightarrow> BlockHeader \<Rightarrow> vm_fail + (epoch_error + address \<times> DposContext)" where
  "scheduled fuel e now lastBlock =
     rbind (EpchoBlockHeader fuel e now lastBlock) (\<lambda>header.
     case openContext e (StateRoot header) (hd_DposContext header) of
       Inl err \<Rightarrow> Inr (Inl (StateErr err))
     | Inr ctx \<Rightarrow> rbind (lift_panic (lookupValidator (de_opt e) ctx now)) (\<lambda>v.
         case v of Inl err \<Rightarrow> Inr (Inl err) | Inr validator \<Rightarrow> Inr (Inr (validator, ctx))))"

definition VerifySeal :: "nat \<Rightarrow> dpos_env \<Rightarrow> BlockHeader \<Rightarrow> Dpos \<Rightarrow> epoch_error option engine" where
  "VerifySeal fuel e header d =
     (case GetBlockByHash (de_chain e) (PreviousHash header) of
        None \<Rightarrow> Inr (Some ErrUnknownAncestor, d)
      | Some parent \<Rightarrow>
          (if hashOf e parent \<noteq> PreviousHash header then Inr (Some ErrUnknownAncestor, d)
           else rbind (lift_panic (ecrecover e header)) (\<lambda>r.
             case r of
               Inl err \<Rightarrow> Inr (Some err, d)
             | Inr signer \<Rightarrow>
                 (if signer \<noteq> Miner header then Inr (Some ErrMismatchSignerAndValidator, d)
                  else rbind (scheduled fuel e (Int64 (TimeStamp header)) parent) (\<lambda>v.
                    case v of
                      Inl err \<Rightarrow> Inr (Some err, d)
                    | Inr (validator, ctx) \<Rightarrow>
                        (if validator \<noteq> Miner header then Inr (Some ErrInvalidBlockValidator, d)
                         else updateConfirmedBlockHeader fuel e (IsDpos ctx) d))))))"

definition CheckValidator :: "nat \<Rightarrow> dpos_env \<Rightarrow> BlockHeader \<Rightarrow> address \<Rightarrow> int \<Rightarrow> Dpos \<Rightarrow> vm_fail + epoch_error option" where
  "CheckValidator fuel e lastBlock coin now d =
     (if now smod BlockInterval (de_opt e) \<noteq> 0 then Inr (Some ErrInvalidMintBlockTime)
      else rbind (scheduled fuel e now lastBlock) (\<lambda>v.
        case v of
          Inl err \<Rightarrow> Inr (Some err)
        | Inr (validator, ctx) \<Rightarrow>
            (if validator = 0 \<or> validator \<noteq> coin then Inr (Some ErrInvalidBlockValidator)
             else if Int64 (Height lastBlock - GetConfirmedBlockNumber d) > MaxConfirmedNum (de_opt e) \<and> Miner lastBlock = coin
             then Inr (Some ErrTooMuchUnconfirmedBlock) else Inr None)))"

section \<open>The end of a block\<close>

definition BlockReward :: int where "BlockReward = 3000000000000000000"

text \<open>The seed, the generator, the orders in which maps are walked and the commits of the tries are
  parameters, with the error, if any, of the commit of the context and of the state root.\<close>

record finalize_env =
  fe_dpos :: dpos_env
  fe_elect :: elect_env
  fe_seed :: "hash \<Rightarrow> int"
  fe_order :: "address list"
  fe_keys :: "address \<Rightarrow> hash list"
  fe_commit_err :: "dberr option"
  fe_root_err :: "dberr option"
  ToProto :: "DposContext \<Rightarrow> DposContextProto"

definition first_block_time :: "dpos_env \<Rightarrow> Dpos \<Rightarrow> Dpos" where
  "first_block_time e d =
     (if timeOfFirstBlock d = 0
      then (case GetBlockByHeight (de_chain e) 1 of None \<Rightarrow> d | Some b \<Rightarrow> d\<lparr>timeOfFirstBlock := Int64 (TimeStamp b)\<rparr>)
      else d)"

definition elect_next ::
  "finalize_env \<Rightarrow> BlockHeader \<Rightarrow> BlockHeader \<Rightarrow> DposContext \<Rightarrow> StateDB \<Rightarrow> Dpos \<Rightarrow>
   (epoch_error option \<times> DposContext \<times> StateDB) engine" where
  "elect_next f header parent ctx s d =
     (case GetBlockByHeight (de_chain (fe_dpos f)) 0 of
        None \<Rightarrow> Inl (VMPanic NilDeref)
      | Some genesis \<Rightarrow>
          rbind (lift_panic (tryElect ((fe_elect f)\<lparr>el_timeOfFirstBlock := timeOfFirstBlock d\<rparr>) (fe_seed f (hashOf (fe_dpos f) parent))
            (TimeStamp genesis) (TimeStamp parent) (Int64 (TimeStamp header)) ctx s)) (\<lambda>r. Inr (r, d)))"

definition Finalize ::
  "nat \<Rightarrow> finalize_env \<Rightarrow> BlockHeader \<Rightarrow> StateDB \<Rightarrow> DposContext \<Rightarrow> Dpos \<Rightarrow>
   ((epoch_error + BlockHeader) \<times> DposContext \<times> StateDB) engine" where
  "Finalize fuel f header s ctx d =
     (let e = fe_dpos f
      in case GetBlockByHash (de_chain e) (PreviousHash header) of
           None \<Rightarrow> Inl (VMPanic NilDeref)
         | Some parent \<Rightarrow>
             (let d1 = first_block_time e d;
                  ctx1 = updateMintCnt (de_opt e) (Int64 (TimeStamp parent)) (Int64 (TimeStamp header)) (Miner header) ctx
              in rbind (isDpos fuel e header) (\<lambda>r.
                 case r of
                   Inl err \<Rightarrow> Inr ((Inl err, ctx1, s), d1)
                 | Inr dpos \<Rightarrow>
                     rbind (lift_panic (if dpos then AddBalance (Miner header) BlockReward s else Inr s)) (\<lambda>s1.
                     rbind (elect_next f header parent ctx1 s1 d1) (\<lambda>((err, ctx2, s2), d2).
                     case err of
                       Some x \<Rightarrow> Inr ((Inl x, ctx2, s2), d2)
                     | None \<Rightarrow>
                         (case fe_commit_err f of
                            Some x \<Rightarrow> Inr ((Inl (StateErr x), ctx2, s2), d2)
                          | None \<Rightarrow>
                              rbind (lift_panic (IntermediateRoot (fe_order f) (fe_keys f) True s2)) (\<lambda>(root, s3).
                              Inr ((case fe_root_err f of
                                      Some x \<Rightarrow> Inl (StateErr x)
                                    | None \<Rightarrow> Inr (header\<lparr>StateRoot := root, hd_DposContext := ToProto f ctx2\<rparr>), ctx2, s3), d2))))))))"

end
