(* ===== verification/DposProps.thy ===== *)
theory DposProps
  imports Dpos EpochProps
begin

text \<open>
  What the development shows of the engine: the heights that validators confirm, the blocks with
  enough builders on top, and the seals of headers.
\<close>

section \<open>Confirmations by two thirds\<close>

lemma sort_Sort_less: "sort_Sort (<) xs = sort (xs :: 'a :: linorder list)"
  using sort_Sort_key [of "(<)" "\<lambda>x :: 'a. x" xs] by simp

lemma filter_ge_sorted:
  fixes xs :: "'a :: linorder list"
  assumes "sorted xs" "i < length xs"
  shows "length xs - i \<le> length (filter (\<lambda>x. xs ! i \<le> x) xs)"
    "xs ! i < y \<Longrightarrow> length (filter (\<lambda>x. y \<le> x) xs) < length xs - i"
proof -
  have split: "xs = take i xs @ drop i xs" by simp
  have "filter (\<lambda>x. xs ! i \<le> x) (drop i xs) = drop i xs"
    using assms by (intro filter_True) (auto simp: in_set_conv_nth intro!: sorted_nth_mono)
  then have "length xs - i \<le> length (filter (\<lambda>x. xs ! i \<le> x) (take i xs)) + length (filter (\<lambda>x. xs ! i \<le> x) (drop i xs))" by simp
  then show "length xs - i \<le> length (filter (\<lambda>x. xs ! i \<le> x) xs)"
    by (metis append_take_drop_id filter_append length_append)
  show "length (filter (\<lambda>x. y \<le> x) xs) < length xs - i" if y: "xs ! i < y"
  proof -
    have split: "xs = take (Suc i) xs @ drop (Suc i) xs" by simp
    have "filter (\<lambda>x. y \<le> x) (take (Suc i) xs) = []"
      using assms y le_less_trans [OF sorted_nth_mono [OF assms(1)] y]
      by (auto simp: filter_empty_conv in_set_conv_nth not_le less_Suc_eq_le)
    moreover have "length (filter (\<lambda>x. y \<le> x) (drop (Suc i) xs)) \<le> length xs - Suc i" by (metis length_drop length_filter_le)
    ultimately show ?thesis using assms(2) by (metis (no_types, lifting) Suc_diff_Suc append_Nil append_take_drop_id filter_append le_imp_less_Suc)
  qed
qed

text \<open>C20: The height that the engine takes from the confirmations is the greatest one that more than two
  thirds of the entries of the cache confirm.\<close>

theorem bft_height_is_two_thirds:
  assumes "bftConfirmeds d = Some cs" "cs \<noteq> []" "storeBFTConfirmedBlockHeader e d = Inr (err, d')"
  shows "\<exists>h header. GetBlockByHeight (de_chain e) h = Some header \<and> bftConfirmedBlockHeader d' = Some header
    \<and> 2 * length cs < 3 * length (filter (\<lambda>c. h \<le> snd c) cs)
    \<and> (\<forall>h' > h. 3 * length (filter (\<lambda>c. h' \<le> snd c) cs) \<le> 2 * length cs)"
proof -
  define hs where "hs = sort (map snd cs)"
  define i where "i = (length cs - 1) div 3"
  have len: "length hs = length cs" "0 < length cs" using assms(2) by (simp_all add: hs_def)
  have "3 * ((n - 1) div 3) < n \<and> n \<le> 3 * ((n - 1) div 3) + 3" if "0 < n" for n :: nat using that by presburger
  from this [OF len(2)] have i: "i < length hs" "3 * i < length cs" "length cs \<le> 3 * i + 3" by (simp_all add: i_def len(1))
  have cnt: "length (filter (\<lambda>c. h \<le> snd c) cs) = length (filter ((\<le>) h) hs)" for h
  proof -
    have "mset (filter ((\<le>) h) hs) = mset (filter ((\<le>) h) (map snd cs))" by (simp add: hs_def)
    from mset_eq_length [OF this] show ?thesis by (simp add: filter_map comp_def)
  qed
  note f = filter_ge_sorted [of hs i, OF _ i(1)]
  have "2 * length cs < 3 * length (filter (\<lambda>c. hs ! i \<le> snd c) cs)"
    using f(1) i len by (simp add: cnt hs_def)
  moreover have "3 * length (filter (\<lambda>c. h' \<le> snd c) cs) \<le> 2 * length cs" if "hs ! i < h'" for h'
    using f(2) [OF _ that] i len by (simp add: cnt hs_def)
  moreover obtain header where "GetBlockByHeight (de_chain e) (hs ! i) = Some header" "bftConfirmedBlockHeader d' = Some header"
    using assms(1,3) len(2) by (auto simp: storeBFTConfirmedBlockHeader_def sort_Sort_less hs_def i_def Let_def split: option.splits if_splits)
  ultimately show ?thesis by blast
qed

section \<open>Blocks with enough builders\<close>

text \<open>What the engine relies on in the chain: heights are not negative and grow from a block to the next.\<close>

definition known :: "dpos_env \<Rightarrow> BlockHeader \<Rightarrow> bool" where
  "known e x \<longleftrightarrow> CurrentBlock (de_chain e) = Some x \<or> (\<exists>k. GetBlockByHash (de_chain e) k = Some x \<or> GetHeader (de_chain e) k = Some x)"

definition heights_grow :: "dpos_env \<Rightarrow> bool" where
  "heights_grow e \<longleftrightarrow> (\<forall>x. known e x \<longrightarrow> 0 \<le> Height x \<and> (\<forall>h. GetBlockByHash (de_chain e) (PreviousHash x) = Some h
     \<or> GetHeader (de_chain e) (PreviousHash x) = Some h \<longrightarrow> Height h < Height x))"

lemma heights_growD:
  assumes "heights_grow e" "known e x"
  shows "0 \<le> Height x" "GetBlockByHash (de_chain e) (PreviousHash x) = Some h \<Longrightarrow> known e h \<and> Height h < Height x"
    "GetHeader (de_chain e) (PreviousHash x) = Some h \<Longrightarrow> known e h \<and> Height h < Height x"
  using assms by (auto simp: heights_grow_def known_def)

lemma epcho_loop_fuel:
  assumes "heights_grow e"
  shows "known e header \<Longrightarrow> nat (Height header) < f \<Longrightarrow> epcho_loop f e ts header \<noteq> Inl NoFuel"
proof (induction f arbitrary: header)
  case (Suc f)
  note g = heights_growD [OF assms Suc.prems(1)]
  have "0 < Height header" if "Uint64 (Height header) \<noteq> 0" using that g(1) by (cases "Height header = 0") (auto simp: Uint64_def)
  then show ?case using g Suc.IH Suc.prems by (auto split: option.splits)
qed simp

lemma storeBFT_keeps: "storeBFTConfirmedBlockHeader e d = Inr (err, d') \<Longrightarrow> confirmedBlockHeader d' = confirmedBlockHeader d"
  by (auto simp: storeBFTConfirmedBlockHeader_def Let_def split: option.splits if_splits)

lemma storeBFT_fuel: "storeBFTConfirmedBlockHeader e d \<noteq> Inl NoFuel"
  by (simp add: storeBFTConfirmedBlockHeader_def Let_def split: option.splits)

lemma confirm_validators_keeps: "confirm_validators e header vs d = Inr d' \<Longrightarrow> confirmedBlockHeader d' = confirmedBlockHeader d"
proof (induction vs arbitrary: d)
  case (Cons v vs)
  then show ?case
    by (auto simp: Let_def bftConfirmeds_Add_def rbind_def dest!: storeBFT_keeps split: if_splits option.splits sum.splits)
qed simp

lemma confirm_validators_fuel: "confirm_validators e header vs d \<noteq> Inl NoFuel"
proof (induction vs arbitrary: d)
  case (Cons v vs)
  then show ?case
    using storeBFT_fuel by (auto simp: Let_def bftConfirmeds_Add_def rbind_def split: option.splits sum.splits)
qed simp

lemma store_keeps:
  "storeConfirmedBlockHeader f e header lastBlock d = Inr (err, d') \<Longrightarrow> confirmedBlockHeader d' = confirmedBlockHeader d"
  by (auto simp: storeConfirmedBlockHeader_def rbind_def dest!: confirm_validators_keeps split: sum.splits if_splits)

lemma store_fuel:
  assumes "heights_grow e" "known e lastBlock" "nat (Height lastBlock) < f"
  shows "storeConfirmedBlockHeader f e header lastBlock d \<noteq> Inl NoFuel"
  using epcho_loop_fuel [OF assms] confirm_validators_fuel [of e header]
  by (auto simp: storeConfirmedBlockHeader_def EpchoBlockHeader_def rbind_def split: sum.splits)

text \<open>A path from a header down its ancestors.\<close>

fun linked_path :: "dpos_env \<Rightarrow> BlockHeader list \<Rightarrow> bool" where
  "linked_path e (x # y # p) = (GetBlockByHash (de_chain e) (PreviousHash x) = Some y \<and> linked_path e (y # p))"
| "linked_path e _ = True"

lemma linked_path_snoc:
  "linked_path e (p @ [x, y]) \<longleftrightarrow> linked_path e (p @ [x]) \<and> GetBlockByHash (de_chain e) (PreviousHash x) = Some y"
  by (induction e p rule: linked_path.induct) auto

definition built_on :: "dpos_env \<Rightarrow> BlockHeader \<Rightarrow> BlockHeader \<Rightarrow> bool" where
  "built_on e current c \<longleftrightarrow> (\<exists>p. linked_path e p \<and> p \<noteq> [] \<and> hd p = current \<and> last p = c \<and> consensusSize (de_opt e) \<le> int (card (Miner ` set p)))"

lemma confirm_loop_quorum:
  assumes "confirm_loop f e current c0 miners cur d = Inr (err, d')"
    and "linked_path e (p @ [cur])" "hd (p @ [cur]) = current" "distinct miners" "set miners = Miner ` set p"
  shows "confirmedBlockHeader d' = confirmedBlockHeader d
    \<or> (\<exists>c. confirmedBlockHeader d' = Some c \<and> built_on e current c \<and> Height c0 < Height c)"
  using assms
proof (induction f arbitrary: miners cur p)
  case (Suc f)
  let ?m = "List.insert (Miner cur) miners"
  have m: "distinct ?m" "set ?m = Miner ` set (p @ [cur])" using Suc.prems(4,5) by auto
  consider "\<not> Height c0 \<le> Height cur"
    | "Height c0 \<le> Height cur" "consensusSize (de_opt e) \<le> int (length ?m)"
    | "Height c0 \<le> Height cur" "\<not> consensusSize (de_opt e) \<le> int (length ?m)" by blast
  then show ?case
  proof cases
    case 1
    then show ?thesis using Suc.prems(1) by auto
  next
    case 2
    have "built_on e current cur"
      using Suc.prems(2,3) 2(2) distinct_card [OF m(1)] m(2) unfolding built_on_def by (intro exI [of _ "p @ [cur]"]) auto
    then show ?thesis using Suc.prems(1) 2 by (auto simp: Let_def dest!: store_keeps split: if_splits)
  next
    case 3
    show ?thesis
    proof (cases "GetBlockByHash (de_chain e) (PreviousHash cur)")
      case None
      then show ?thesis using Suc.prems(1) 3 by (auto simp: Let_def)
    next
      case (Some h)
      then have "confirm_loop f e current c0 ?m h d = Inr (err, d')" using Suc.prems(1) 3 by (simp add: Let_def)
      moreover have "linked_path e ((p @ [cur]) @ [h])" using Suc.prems(2) Some linked_path_snoc [of e p cur h] by simp
      ultimately show ?thesis using Suc.IH [of ?m h "p @ [cur]"] Suc.prems(3) m by (cases p) auto
    qed
  qed
qed simp

lemma confirm_loop_fuel:
  assumes "heights_grow e" "known e current"
  shows "known e cur \<Longrightarrow> nat (Height current) + nat (Height cur) + 2 \<le> f \<Longrightarrow> confirm_loop f e current c0 miners cur d \<noteq> Inl NoFuel"
proof (induction f arbitrary: miners cur)
  case (Suc f)
  have "confirm_loop f e current c0 miners' h d \<noteq> Inl NoFuel"
    if "GetBlockByHash (de_chain e) (PreviousHash cur) = Some h" for h miners'
    using heights_growD(1,2) [OF assms(1) Suc.prems(1)] heights_growD(1) [OF assms(1)] that Suc.prems(2) by (intro Suc.IH) force+
  then show ?case using store_fuel [OF assms] Suc.prems(2) by (auto simp: Let_def split: option.splits)
qed simp

text \<open>C9: Once there are elected validators, a block is taken as confirmed only when enough producers built on it.
  Take a chain with a current block. The old confirmed header is the one in memory, or else the stored one, or else the genesis. The search for a new one ends with fuel above twice the
  height of the chain. If the schedule is of elected validators (\<open>dpos\<close> is true), the search keeps the old header or moves it to a higher one, and then the blocks from the current one down to it have at
  least \<open>consensusSize\<close> different miners, which is two thirds of \<open>MaxValidatorSize\<close> and one more. Before that
  the current block itself becomes the confirmed one, and no quorum is asked for.\<close>

theorem confirmed_header_has_quorum:
  assumes "heights_grow e" "CurrentBlock (de_chain e) = Some current" "first_confirmed e d = Inr (c0, d0)" "2 * nat (Height current) + 2 \<le> fuel"
  shows "updateConfirmedBlockHeader fuel e dpos d \<noteq> Inl NoFuel
    \<and> (\<forall>err d'. updateConfirmedBlockHeader fuel e dpos d = Inr (err, d') \<longrightarrow>
        (if dpos then confirmedBlockHeader d' = Some c0
           \<or> (\<exists>c. confirmedBlockHeader d' = Some c \<and> built_on e current c \<and> Height c0 < Height c)
         else confirmedBlockHeader d' = Some current))"
proof -
  have k: "known e current" using assms(2) by (simp add: known_def)
  have c0: "confirmedBlockHeader d0 = Some c0" using assms(3) by (auto simp: first_confirmed_def split: option.splits sum.splits)
  show ?thesis
  proof (cases dpos)
    case True
    then have eq: "updateConfirmedBlockHeader fuel e dpos d = confirm_loop fuel e current c0 [] current d0"
      using assms(2,3) by (simp add: updateConfirmedBlockHeader_def)
    show ?thesis
      using confirm_loop_fuel [OF assms(1) k k, of fuel c0 "[]" d0] confirm_loop_quorum [of fuel e current c0 "[]" current d0 _ _ "[]"] assms(4) c0 True
      unfolding eq by fastforce
  next
    case False
    then have eq: "updateConfirmedBlockHeader fuel e dpos d = storeConfirmedBlockHeader fuel e current current (d0\<lparr>confirmedBlockHeader := Some current\<rparr>)"
      using assms(2,3) by (simp add: updateConfirmedBlockHeader_def)
    have "nat (Height current) < fuel" using assms(4) by simp
    then show ?thesis using store_fuel [OF assms(1) k] False unfolding eq by (auto dest: store_keeps)
  qed
qed

section \<open>Seals\<close>

text \<open>What the crypto library promises: a signature has the 65 bytes of a seal, and its key is the signer's.\<close>

definition signatures_recover :: "dpos_env \<Rightarrow> bool" where
  "signatures_recover e \<longleftrightarrow> (\<forall>a h sig. signFn e a h = Some sig \<longrightarrow> length sig = extraSeal
     \<and> (\<exists>pub. EcrecoverToByte e h sig = Some pub \<and> pub \<noteq> [] \<and> pubkey_address e pub = a))"

lemma put_seal_append:
  "length sig = extraSeal \<Longrightarrow> put_seal (extra @ replicate extraSeal 0) sig = extra @ sig"
  by (simp add: put_seal_def Let_def)

lemma sigHash_seal: "length sig = extraSeal \<Longrightarrow> sigHash e (h\<lparr>ExtraData := extra @ sig\<rparr>) = sigHash e (h\<lparr>ExtraData := extra @ replicate extraSeal 0\<rparr>)"
  by (simp add: sigHash_def)

lemma Seal_sealed:
  assumes "signatures_recover e" "Seal fuel e block d = Inr (Inr sealed, d')"
  shows "\<exists>sig. length sig = extraSeal \<and> sealed = block\<lparr>ExtraData := ExtraData block @ sig\<rparr> \<and> ecrecover e sealed = Inr (Inr (Miner block))"
proof -
  let ?h = "block\<lparr>ExtraData := ExtraData block @ replicate extraSeal 0\<rparr>"
  obtain hash sig where h: "sigHash e ?h = Inr hash" and sig: "signFn e (Miner block) hash = Some sig"
    and sealed: "sealed = block\<lparr>ExtraData := put_seal (ExtraData block @ replicate extraSeal 0) sig\<rparr>"
    using assms(2) by (auto simp: Seal_def Let_def lift_panic_def split: sum.splits option.splits)
  have r: "length sig = extraSeal" "\<exists>pub. EcrecoverToByte e hash sig = Some pub \<and> pub \<noteq> [] \<and> pubkey_address e pub = Miner block"
    using assms(1) sig by (auto simp: signatures_recover_def)
  have sealed: "sealed = block\<lparr>ExtraData := ExtraData block @ sig\<rparr>" using sealed put_seal_append [OF r(1)] by simp
  have "sigHash e sealed = Inr hash" using h sigHash_seal [OF r(1)] by (simp add: sealed)
  then have "ecrecover e sealed = Inr (Inr (Miner block))" using r by (auto simp: ecrecover_def sealed)
  with r(1) sealed show ?thesis by blast
qed

text \<open>C21: What the engine seals it verifies. If the miner of a block is the validator of the time of the block, the
  header that \<open>Seal\<close> returns is the block's with a signature appended, and \<open>VerifySeal\<close> takes it: what
  remains is the update of the confirmed header. The crypto library is assumed to recover signers.\<close>

theorem sealed_header_verifies:
  assumes "signatures_recover e" "Seal fuel e block d = Inr (Inr sealed, d1)"
    and "GetBlockByHash (de_chain e) (PreviousHash block) = Some parent" "hashOf e parent = PreviousHash block"
    and "scheduled fuel e (Int64 (TimeStamp block)) parent = Inr (Inr (Miner block, ctx))"
  shows "take (length (ExtraData block)) (ExtraData sealed) = ExtraData block \<and> sealed\<lparr>ExtraData := ExtraData block\<rparr> = block
    \<and> VerifySeal fuel e sealed d' = updateConfirmedBlockHeader fuel e (IsDpos ctx) d'"
proof -
  obtain sig where "sealed = block\<lparr>ExtraData := ExtraData block @ sig\<rparr>" "ecrecover e sealed = Inr (Inr (Miner block))"
    using Seal_sealed [OF assms(1,2)] by blast
  then show ?thesis using assms(3-5) by (simp add: VerifySeal_def lift_panic_def)
qed

text \<open>What an accepted seal shows.\<close>

definition sealed_by :: "nat \<Rightarrow> dpos_env \<Rightarrow> BlockHeader \<Rightarrow> BlockHeader \<Rightarrow> bool" where
  "sealed_by fuel e parent header \<longleftrightarrow> ecrecover e header = Inr (Inr (Miner header))
     \<and> (\<exists>ctx. scheduled fuel e (Int64 (TimeStamp header)) parent = Inr (Inr (Miner header, ctx)))"

lemma VerifySeal_accepts:
  assumes "VerifySeal fuel e header d = Inr (None, d')"
  shows "\<exists>parent. GetBlockByHash (de_chain e) (PreviousHash header) = Some parent \<and> hashOf e parent = PreviousHash header
    \<and> sealed_by fuel e parent header"
  using assms unfolding VerifySeal_def
  by (auto simp: sealed_by_def lift_panic_def split: option.splits if_splits sum.splits)

section \<open>Times past the range of int64\<close>

lemma sint_upper:
  assumes "2 ^ 63 \<le> t" "t < 2 ^ 64"
  shows "sint (word_of_int t :: u64) = t - 2 ^ 64"
proof -
  have "(t + 2 ^ 63) mod 2 ^ 64 = (t - 2 ^ 63 + 1 * 2 ^ 64) mod 2 ^ 64" by (simp add: add.commute)
  also have "\<dots> = (t - 2 ^ 63) mod 2 ^ 64" by (rule mod_mult_self1)
  also have "\<dots> = t - 2 ^ 63" using assms by (intro mod_pos_pos_trivial) simp_all
  finally show ?thesis by (simp add: sint_sbintrunc' signed_take_bit_eq_take_bit_shift take_bit_int_def)
qed

lemma Int64_upper:
  assumes "2 ^ 63 \<le> t" "t < 2 ^ 64"
  shows "Int64 t = t - 2 ^ 64" "sint (Uint64 t) = t - 2 ^ 64"
proof -
  have "Uint64 t = word_of_int t" "\<not> t < 0" using assms(1) by (simp_all add: Uint64_def)
  then show "Int64 t = t - 2 ^ 64" "sint (Uint64 t) = t - 2 ^ 64" using sint_upper [OF assms] by (simp_all add: Int64_def)
qed

lemma lookupValidator_negative:
  assumes "opt_ok opt" "now < 0" "IsDpos ctx" "GetValidators ctx = Inr vs" "vs \<noteq> []"
  shows "lookupValidator opt ctx now =
    (if BlockInterval opt * BlockRepeat opt \<le> - now mod epochInterval opt then Inl IndexOutOfRange else Inr (Inr (hd vs)))"
proof -
  note o = opt_okD [OF assms(1)]
  let ?b = "BlockInterval opt * BlockRepeat opt" and ?m = "- now mod epochInterval opt"
  have b: "0 < ?b" "0 < epochInterval opt" using o by simp_all
  have m: "now smod epochInterval opt = - ?m" "0 \<le> ?m" using smod_neg [OF assms(2) b(2)] b(2) by simp_all
  show ?thesis
  proof (cases "?b \<le> ?m")
    case True
    then have "1 \<le> ?m div ?b" using b zdiv_mono1 [of ?b ?m ?b] div_self [of ?b] by linarith
    moreover have "- ?m < 0" using True b by linarith
    ultimately have "now smod epochInterval opt sdiv ?b < 0" using sdiv_neg [of "- ?m" ?b] b(1) m(1) by simp
    then show ?thesis using True assms(3-5) by (simp add: lookupValidator_def Let_def)
  next
    case False
    then have "?m div ?b = 0" using m(2) by (intro div_pos_pos_trivial) simp_all
    then have "now smod epochInterval opt sdiv ?b = 0" using sdiv_neg [of "- ?m" ?b] b(1) m by (cases "?m = 0") simp_all
    then show ?thesis using False assms(3-5) by (simp add: lookupValidator_def Let_def hd_conv_nth)
  qed
qed

text \<open>C35: A header from the far future can crash the node that checks it. A time in the upper half of the
  64-bit range is a negative \<open>int64\<close>, and so is its offset in the epoch. When the schedule has elected validators in turn, the lookup of
  the validator indexes the list with that offset divided by the time of a turn (\<open>BlockInterval * BlockRepeat\<close>): if the offset is at least
  one turn below zero, the index is negative and the check of the seal panics; in the last turn before zero the quotient is zero and the first
  validator is returned. The signature does not prevent this, because any key can sign as the miner and the lookup comes before the comparison with the
  validator, and for the times less than the genesis time above the middle of the range the difficulty that the header needs is positive, as the difference of the times
  wraps around.\<close>

theorem far_header_crashes:
  assumes "opt_ok (de_opt e)" "2 ^ 63 \<le> TimeStamp header" "TimeStamp header < 2 ^ 63 + timeOfGenesisBlock d"
    and "0 < timeOfGenesisBlock d" "timeOfGenesisBlock d < 2 ^ 63"
    and "GetBlockByHash (de_chain e) (PreviousHash header) = Some parent" "hashOf e parent = PreviousHash header"
    and "ecrecover e header = Inr (Inr (Miner header))"
    and "EpchoBlockHeader fuel e (Int64 (TimeStamp header)) parent = Inr epcho" "openContext e (StateRoot epcho) (hd_DposContext epcho) = Inr ctx"
    and "IsDpos ctx" "GetValidators ctx = Inr vs" "vs \<noteq> []"
  shows "(if BlockInterval (de_opt e) * BlockRepeat (de_opt e) \<le> (2 ^ 64 - TimeStamp header) mod epochInterval (de_opt e)
          then VerifySeal fuel e header d = Inl (VMPanic IndexOutOfRange)
          else lookupValidator (de_opt e) ctx (Int64 (TimeStamp header)) = Inr (Inr (hd vs)))
    \<and> (\<exists>difficulty > 0. CalcDifficulty e (Uint64 (TimeStamp header)) d = Inr (difficulty, d))"
proof
  let ?late = "BlockInterval (de_opt e) * BlockRepeat (de_opt e) \<le> (2 ^ 64 - TimeStamp header) mod epochInterval (de_opt e)"
  have t: "2 ^ 63 \<le> TimeStamp header" "TimeStamp header < 2 ^ 64" using assms(2,3,5) by simp_all
  have neg: "TimeStamp header - 2 ^ 64 < 0" using t by simp
  have "lookupValidator (de_opt e) ctx (Int64 (TimeStamp header)) =
      (if ?late then Inl IndexOutOfRange else Inr (Inr (hd vs)))"
    unfolding Int64_upper(1) [OF t] using lookupValidator_negative [OF assms(1) neg assms(11-13)] by simp
  then show "if ?late then VerifySeal fuel e header d = Inl (VMPanic IndexOutOfRange)
      else lookupValidator (de_opt e) ctx (Int64 (TimeStamp header)) = Inr (Inr (hd vs))"
    using assms(6-10) by (simp add: VerifySeal_def scheduled_def lift_panic_def)
  let ?x = "TimeStamp header - timeOfGenesisBlock d"
  have b: "0 < BlockInterval (de_opt e)" using opt_okD [OF assms(1)] by simp
  have "wrap_int64 (sint (Uint64 (TimeStamp header)) - timeOfGenesisBlock d) = ?x"
  proof -
    have "(?x - 2 ^ 64 + 2 ^ 63) mod 2 ^ 64 = (?x + 2 ^ 63 + - 1 * 2 ^ 64) mod 2 ^ 64" by simp
    also have "\<dots> = (?x + 2 ^ 63) mod 2 ^ 64" by (rule mod_mult_self1)
    also have "\<dots> = ?x + 2 ^ 63" using assms(2,3,5) by (intro mod_pos_pos_trivial) simp_all
    finally show ?thesis unfolding Int64_upper(2) [OF t] by (simp add: wrap_int64_def signed_take_bit_eq_take_bit_shift take_bit_int_def algebra_simps)
  qed
  moreover have "0 \<le> ?x sdiv BlockInterval (de_opt e)"
    using assms(2,5) b by (subst sdiv_nonneg) (simp_all add: pos_imp_zdiv_nonneg_iff)
  ultimately show "\<exists>difficulty > 0. CalcDifficulty e (Uint64 (TimeStamp header)) d = Inr (difficulty, d)"
    using assms(4) by (intro exI [of _ "?x sdiv BlockInterval (de_opt e) + 1"]) (simp add: CalcDifficulty_def)
qed

section \<open>A small chain\<close>

text \<open>Four blocks by three validators in turn, a signature that repeats a byte of the address, and the context of
  three validators behind every root.\<close>

definition demo_header :: "nat \<Rightarrow> BlockHeader" where
  "demo_header n = \<lparr>PreviousHash = of_nat n, Miner = [7, 8, 9, 7, 8] ! n, StateRoot = 0, ActionsRoot = 0, TransactionsRoot = 0, ReceiptsRoot = 0,
     hd_DposContext = \<lparr>EpochHash = 0, DelegateHash = 0, CandidateHash = 0, VoteHash = 0, MintCntHash = 0\<rparr>,
     LogsBloom = [], hd_Difficulty = 1, Height = int n, hd_GasLimit = 0, hd_GasUsed = 0,
     TimeStamp = 90000000000 + 6000000000 * int n, ExtraData = [], hd_Nonce = 0\<rparr>"

definition demo_blocks :: "hash \<Rightarrow> BlockHeader option" where
  "demo_blocks = map_of [(1, demo_header 0), (2, demo_header 1), (3, demo_header 2), (4, demo_header 3)]"

definition demo_env :: dpos_env where
  "demo_env = \<lparr>de_opt = default_Option,
     de_chain = \<lparr>CurrentBlock = Some (demo_header 3), GetHeader = demo_blocks, GetBlockByHeight = \<lambda>n. demo_blocks (ucast n + 1), GetBlockByHash = demo_blocks\<rparr>,
     hashOf = \<lambda>h. word_of_int (Height h + 1), rlpHash_seal = \<lambda>_. 0, rlpHash_confirmed = \<lambda>_. 0, proto_Root = \<lambda>_. 0,
     Keccak256 = \<lambda>bs. ucast (hd bs), EcrecoverToByte = \<lambda>_ sig. Some [4, hd sig],
     signFn = \<lambda>a _. if a < 256 then Some (replicate 65 (ucast a)) else None,
     openContext = \<lambda>_ _. Inr (SetValidators [7, 8, 9] NewDposContext), lru_Add = \<lambda>c a h. (a, h) # c, put_fails = False\<rparr>"

definition demo_dpos :: Dpos where
  "demo_dpos = \<lparr>confirmedBlockHeader = Some (demo_header 0), bftConfirmedBlockHeader = None, bftConfirmeds = Some [(7, 3), (8, 1), (9, 2)], coinbase = 1,
     stored_confirmed = None, stored_bft = None, posted = [], timeOfGenesisBlock = 90000000000, timeOfFirstBlock = 0\<rparr>"

lemmas demo_defs = demo_env_def demo_dpos_def demo_header_def demo_blocks_def

theorem bft_height_is_two_thirds_witness:
  "\<exists>h header. demo_blocks (ucast h + 1) = Some header
     \<and> 2 * length [(7 :: address, 3 :: u64), (8, 1), (9, 2)] < 3 * length (filter (\<lambda>c. h \<le> snd c) [(7 :: address, 3 :: u64), (8, 1), (9, 2)])"
proof -
  have "\<exists>d'. storeBFTConfirmedBlockHeader demo_env demo_dpos = Inr (None, d')"
    by (simp add: storeBFTConfirmedBlockHeader_def demo_defs sort_Sort_def)
  then obtain d' where s: "storeBFTConfirmedBlockHeader demo_env demo_dpos = Inr (None, d')" by blast
  have b: "bftConfirmeds demo_dpos = Some [(7, 3), (8, 1), (9, 2)]" and g: "GetBlockByHeight (de_chain demo_env) = (\<lambda>n. demo_blocks (ucast n + 1))"
    by (simp_all add: demo_dpos_def demo_env_def)
  show ?thesis using bft_height_is_two_thirds [OF b list.distinct(2) s] unfolding g by blast
qed

lemma demo_heights: "heights_grow demo_env"
  by (auto simp: heights_grow_def known_def demo_defs split: if_splits)

lemma default_consensusSize: "consensusSize default_Option = 3"
  by (simp add: consensusSize_def default_Option_def)

lemma demo_confirms:
  "\<exists>d'. updateConfirmedBlockHeader 8 demo_env True demo_dpos = Inr (None, d') \<and> confirmedBlockHeader d' = Some (demo_header 1)"
proof -
  have w: "wrap_int64 (108000000000 - 36000000000) = 72000000000" "Int64 108000000000 = 108000000000" "Int64 102000000000 = 102000000000"
    "Int64 96000000000 = 96000000000" by (simp_all add: wrap_int64_def Int64_def Uint64_def)
  have "consensusSize (de_opt demo_env) = 3" "DelayEpcho (de_opt demo_env) * epochInterval (de_opt demo_env) = 36000000000"
    by (simp_all add: demo_env_def default_consensusSize default_Option_fields) (simp add: default_Option_def)
  moreover have "(8 :: nat) = Suc (Suc (Suc (Suc (Suc (Suc (Suc (Suc 0)))))))" by simp
  ultimately show ?thesis
    by (simp only: updateConfirmedBlockHeader_def first_confirmed_def) (simp add: storeConfirmedBlockHeader_def EpchoBlockHeader_def demo_defs w
        Uint64_def GetValidators_def SetValidators_def)
qed

theorem confirmed_header_has_quorum_witness:
  "\<exists>c d'. updateConfirmedBlockHeader 8 demo_env True (demo_dpos\<lparr>confirmedBlockHeader := None\<rparr>) = Inr (None, d') \<and> confirmedBlockHeader d' = Some c
     \<and> built_on demo_env (demo_header 3) c \<and> 0 < Height c"
proof -
  let ?d = "demo_dpos\<lparr>confirmedBlockHeader := None\<rparr>"
  have f: "first_confirmed demo_env ?d = Inr (demo_header 0, demo_dpos)" "first_confirmed demo_env demo_dpos = Inr (demo_header 0, demo_dpos)"
    by (simp_all add: first_confirmed_def loadConfirmedBlockHeader_def demo_defs)
  then have "updateConfirmedBlockHeader 8 demo_env True ?d = updateConfirmedBlockHeader 8 demo_env True demo_dpos" by (simp add: updateConfirmedBlockHeader_def)
  then obtain d' where d': "updateConfirmedBlockHeader 8 demo_env True ?d = Inr (None, d')" "confirmedBlockHeader d' = Some (demo_header 1)"
    using demo_confirms by auto
  have "CurrentBlock (de_chain demo_env) = Some (demo_header 3)" "2 * nat (Height (demo_header 3)) + 2 \<le> 8" "demo_header 1 \<noteq> demo_header 0" "Height (demo_header 0) = 0"
    by (simp_all add: demo_defs)
  then show ?thesis using confirmed_header_has_quorum [OF demo_heights _ f(1), of "demo_header 3" 8 True] d' by auto
qed

lemma demo_recovers: "signatures_recover demo_env"
proof -
  have "ucast (ucast (ucast a :: byte) :: hash) = a" if "a < 256" for a :: address
  proof -
    have "take_bit 8 (uint a) = uint a" using that by (simp add: word_less_def take_bit_int_eq_self)
    then show ?thesis by (simp add: word_uint_eq_iff unsigned_ucast_eq unsigned_take_bit_eq)
  qed
  then show ?thesis by (auto simp: signatures_recover_def demo_env_def extraSeal_def pubkey_address_def split: if_splits)
qed

lemma demo_scheduled:
  "scheduled 8 demo_env (Int64 (TimeStamp (demo_header 4))) (demo_header 3) = Inr (Inr (8, SetValidators [7, 8, 9] NewDposContext))"
  "isDpos 8 demo_env (demo_header 4\<lparr>ExtraData := x\<rparr>) = Inr (Inr True)"
proof -
  have w: "wrap_int64 (114000000000 - 36000000000) = 78000000000" "Int64 108000000000 = 108000000000" "Int64 102000000000 = 102000000000"
    "Int64 96000000000 = 96000000000" "Int64 114000000000 = 114000000000" by (simp_all add: wrap_int64_def Int64_def Uint64_def)
  have o: "DelayEpcho (de_opt demo_env) * epochInterval (de_opt demo_env) = 36000000000"
    by (simp add: demo_env_def default_Option_fields) (simp add: default_Option_def)
  have f: "(8 :: nat) = Suc (Suc (Suc (Suc (Suc (Suc (Suc (Suc 0)))))))" by simp
  have e: "\<exists>h. EpchoBlockHeader 8 demo_env (Int64 (TimeStamp (demo_header 4))) (demo_header 3) = Inr h"
    unfolding EpchoBlockHeader_def o f by (simp add: demo_defs w Uint64_def)
  have l: "lookupValidator default_Option (SetValidators [7, 8, 9] NewDposContext) (Int64 (TimeStamp (demo_header 4))) = Inr (Inr 8)"
    using lookupValidator_full [OF default_Option_ok, of 114000000000 "SetValidators [7, 8, 9] NewDposContext" "[7, 8, 9]"]
    by (simp add: demo_header_def w GetValidators_def SetValidators_def default_Option_fields)
  show "scheduled 8 demo_env (Int64 (TimeStamp (demo_header 4))) (demo_header 3) = Inr (Inr (8, SetValidators [7, 8, 9] NewDposContext))"
    using e l by (auto simp: scheduled_def demo_env_def lift_panic_def)
  show "isDpos 8 demo_env (demo_header 4\<lparr>ExtraData := x\<rparr>) = Inr (Inr True)"
    using e by (auto simp: isDpos_def demo_defs IsDpos_def GetValidators_def SetValidators_def)
qed

theorem sealed_header_verifies_witness:
  "\<exists>sealed d1. Seal 8 demo_env (demo_header 4) demo_dpos = Inr (Inr sealed, d1) \<and> length (ExtraData sealed) = 65
     \<and> VerifySeal 8 demo_env sealed demo_dpos = updateConfirmedBlockHeader 8 demo_env True demo_dpos"
proof -
  let ?h = "demo_header 4"
  obtain hash sig where h: "sigHash demo_env (?h\<lparr>ExtraData := ExtraData ?h @ replicate extraSeal 0\<rparr>) = Inr hash" and "signFn demo_env (Miner ?h) hash = Some sig"
    by (simp add: sigHash_def) (simp add: demo_env_def demo_header_def)
  moreover obtain d1 where "updateConfirmedBlockHeader 8 demo_env True demo_dpos = Inr (None, d1)" using demo_confirms by blast
  ultimately have "\<exists>sealed d1. Seal 8 demo_env ?h demo_dpos = Inr (Inr sealed, d1)"
    using demo_scheduled(2) by (simp add: Seal_def Let_def lift_panic_def)
  then obtain sealed d1 where s: "Seal 8 demo_env ?h demo_dpos = Inr (Inr sealed, d1)" by blast
  moreover have "GetBlockByHash (de_chain demo_env) (PreviousHash ?h) = Some (demo_header 3)" "hashOf demo_env (demo_header 3) = PreviousHash ?h" "Miner ?h = 8"
    by (simp_all add: demo_defs)
  ultimately show ?thesis
    using sealed_header_verifies [OF demo_recovers s, of "demo_header 3" "SetValidators [7, 8, 9] NewDposContext" demo_dpos]
      Seal_sealed [OF demo_recovers s] demo_scheduled(1)
    by (auto simp: IsDpos_def GetValidators_def SetValidators_def extraSeal_def demo_header_def)
qed

theorem far_header_crashes_witness:
  "VerifySeal 8 demo_env (demo_header 4\<lparr>TimeStamp := 2 ^ 63 + 40000000000, ExtraData := replicate 65 8\<rparr>) demo_dpos = Inl (VMPanic IndexOutOfRange)"
proof -
  let ?h = "demo_header 4\<lparr>TimeStamp := 2 ^ 63 + 40000000000, ExtraData := replicate 65 8\<rparr>"
  have i: "Int64 (TimeStamp ?h) = - 9223371996854775808" by (subst Int64_upper) simp_all
  have w: "wrap_int64 (- 9223371996854775808 - 36000000000) = - 9223372032854775808" by (simp add: wrap_int64_def)
  have o: "DelayEpcho (de_opt demo_env) * epochInterval (de_opt demo_env) = 36000000000"
    by (simp add: demo_env_def default_Option_fields) (simp add: default_Option_def)
  have f: "(8 :: nat) = Suc (Suc (Suc (Suc (Suc (Suc (Suc (Suc 0)))))))" by simp
  have "\<exists>h. EpchoBlockHeader 8 demo_env (Int64 (TimeStamp ?h)) (demo_header 3) = Inr h"
    unfolding EpchoBlockHeader_def i o w f by (simp add: demo_defs Uint64_def Int64_def)
  then obtain epcho where "EpchoBlockHeader 8 demo_env (Int64 (TimeStamp ?h)) (demo_header 3) = Inr epcho" by blast
  moreover have "opt_ok (de_opt demo_env)" using default_Option_ok by (simp add: demo_env_def)
  moreover have "GetBlockByHash (de_chain demo_env) (PreviousHash ?h) = Some (demo_header 3)" "hashOf demo_env (demo_header 3) = PreviousHash ?h"
    "ecrecover demo_env ?h = Inr (Inr (Miner ?h))" "timeOfGenesisBlock demo_dpos = 90000000000"
    by (simp_all add: demo_defs ecrecover_def sigHash_def extraSeal_def pubkey_address_def)
  moreover have "openContext demo_env x y = Inr (SetValidators [7, 8, 9] NewDposContext)" for x y by (simp add: demo_env_def)
  moreover have "IsDpos (SetValidators [7, 8, 9] NewDposContext)" "GetValidators (SetValidators [7, 8, 9] NewDposContext) = Inr [7, 8, 9]"
    by (simp_all add: IsDpos_def GetValidators_def SetValidators_def)
  moreover have "BlockInterval (de_opt demo_env) * BlockRepeat (de_opt demo_env) \<le> (2 ^ 64 - TimeStamp ?h) mod epochInterval (de_opt demo_env)"
    by (simp add: demo_env_def default_Option_fields)
  ultimately show ?thesis
    using far_header_crashes [of demo_env ?h demo_dpos "demo_header 3" 8 epcho "SetValidators [7, 8, 9] NewDposContext" "[7, 8, 9]"] by simp
qed

end
