(* ===== verification/Ledger.thy ===== *)
theory Ledger
  imports Executor Cache
begin

text \<open>
  Blocks (\<open>core/types/block.go\<close>) and the ledger (\<open>core/ledger\<close>): what is stored of a block under which
  keys of the database, and the caches in front. The database is a map for each family of keys, whose prefixes and
  lengths keep them apart, and holds the values that are encoded there. Reads and writes of the database
  do not fail. Encoding a negative number fails, and \<open>log.Fatalf\<close> then ends the process.
\<close>

section \<open>Blocks\<close>

record Action =
  ac_TxHash :: hash
  ac_Sender :: address
  GenTimeStamp :: int
  DelayDur :: int

record Block =
  bl_header :: BlockHeader
  bl_actions :: "Action list"
  bl_transactions :: "Transaction list"
  bl_DposContext :: "DposContext option"

definition NewBlockWithBlockHeader :: "BlockHeader \<Rightarrow> Block" where
  "NewBlockWithBlockHeader header = \<lparr>bl_header = header, bl_actions = [], bl_transactions = [], bl_DposContext = None\<rparr>"

definition WithTxs :: "Transaction list \<Rightarrow> Block \<Rightarrow> Block" where
  "WithTxs txs b = b\<lparr>bl_transactions := txs\<rparr>"

definition WithSeal :: "BlockHeader \<Rightarrow> Block \<Rightarrow> Block" where
  "WithSeal header b = b\<lparr>bl_header := header\<rparr>"

text \<open>The hash of a header and of a transaction are parameters.\<close>

record hashes =
  hs_header :: "BlockHeader \<Rightarrow> hash"
  hs_tx :: "Transaction \<Rightarrow> hash"

abbreviation blockHash :: "hashes \<Rightarrow> Block \<Rightarrow> hash" where
  "blockHash hs b \<equiv> hs_header hs (bl_header b)"

abbreviation blockHeight :: "Block \<Rightarrow> u64" where
  "blockHeight b \<equiv> Uint64 (Height (bl_header b))"

section \<open>What is stored\<close>

record StorageTx =
  sx_BlockHash :: hash
  sx_BlockHeight :: u64
  sx_TxIndex :: u64
  sx_Tx :: Transaction

record Chain =
  ch_headers :: "hash \<rightharpoonup> BlockHeader"
  ch_heights :: "hash \<rightharpoonup> u64"
  ch_txHashs :: "hash \<rightharpoonup> hash list"
  ch_txs :: "hash \<rightharpoonup> StorageTx"
  ch_receipts :: "hash \<rightharpoonup> Receipt"
  ch_tds :: "hash \<rightharpoonup> int"
  ch_legitimate :: "u64 \<rightharpoonup> hash"
  ch_lastBlock :: "hash option"

definition empty_chain :: Chain where
  "empty_chain = \<lparr>ch_headers = Map.empty, ch_heights = Map.empty, ch_txHashs = Map.empty, ch_txs = Map.empty,
     ch_receipts = Map.empty, ch_tds = Map.empty, ch_legitimate = Map.empty, ch_lastBlock = None\<rparr>"

abbreviation Fatal :: go_panic where
  "Fatal \<equiv> PanicMsg ''log.Fatalf''"

text \<open>What decoding gives of an encoded transaction: no recipients and an empty list of them have the
  same encoding, and the empty list comes back.\<close>

definition decoded_tx :: "Transaction \<Rightarrow> Transaction" where
  "decoded_tx tx = tx\<lparr>tx_Tos := Some (case tx_Tos tx of None \<Rightarrow> [] | Some ts \<Rightarrow> ts)\<rparr>"

subsection \<open>Headers\<close>

definition HasHeader :: "hash \<Rightarrow> Chain \<Rightarrow> bool" where
  "HasHeader h c = (ch_headers c h \<noteq> None)"

definition getHeader :: "hash \<Rightarrow> Chain \<Rightarrow> BlockHeader option" where
  "getHeader h c = ch_headers c h"

definition putHeader :: "hashes \<Rightarrow> BlockHeader \<Rightarrow> Chain \<Rightarrow> go_panic + Chain" where
  "putHeader hs header c =
     (let c1 = c\<lparr>ch_heights := (ch_heights c)(hs_header hs header \<mapsto> Uint64 (Height header))\<rparr>
      in if hd_Difficulty header < 0 \<or> Height header < 0 \<or> TimeStamp header < 0 then Inl Fatal
         else Inr (c1\<lparr>ch_headers := (ch_headers c1)(hs_header hs header \<mapsto> header)\<rparr>))"

definition deleteHeader :: "hash \<Rightarrow> Chain \<Rightarrow> Chain" where
  "deleteHeader h c = c\<lparr>ch_headers := (ch_headers c)(h := None), ch_heights := (ch_heights c)(h := None)\<rparr>"

definition getHeaderHeight :: "hash \<Rightarrow> Chain \<Rightarrow> u64 option" where
  "getHeaderHeight h c = ch_heights c h"

subsection \<open>Transactions\<close>

definition getTransaction :: "hash \<Rightarrow> Chain \<Rightarrow> StorageTx option" where
  "getTransaction h c = ch_txs c h"

definition getTransactions :: "hash \<Rightarrow> Chain \<Rightarrow> StorageTx list option" where
  "getTransactions h c =
     (case ch_txHashs c h of None \<Rightarrow> None | Some hashs \<Rightarrow> Some (List.map_filter (\<lambda>v. getTransaction v c) hashs))"

definition ToTransactions :: "StorageTx list \<Rightarrow> Transaction list" where
  "ToTransactions s = map sx_Tx s"

definition putTransaction :: "hash \<Rightarrow> hash \<Rightarrow> u64 \<Rightarrow> u64 \<Rightarrow> Transaction \<Rightarrow> Chain \<Rightarrow> go_panic + Chain" where
  "putTransaction txHash blkHash txIndex height tx c =
     (if tx_GasPrice tx < 0 \<or> tx_Value tx < 0 then Inl Fatal
      else Inr (c\<lparr>ch_txs := (ch_txs c)(txHash \<mapsto>
             \<lparr>sx_BlockHash = blkHash, sx_BlockHeight = height, sx_TxIndex = txIndex, sx_Tx = decoded_tx tx\<rparr>)\<rparr>))"

fun putTransactions_loop :: "hashes \<Rightarrow> hash \<Rightarrow> u64 \<Rightarrow> nat \<Rightarrow> Transaction list \<Rightarrow> Chain \<Rightarrow> go_panic + Chain" where
  "putTransactions_loop hs blkHash height k [] c = Inr c"
| "putTransactions_loop hs blkHash height k (v # txs) c =
     rbind (putTransaction (hs_tx hs v) blkHash (of_nat k) height v c) (putTransactions_loop hs blkHash height (Suc k) txs)"

definition putTransactions :: "hashes \<Rightarrow> hash \<Rightarrow> u64 \<Rightarrow> Transaction list \<Rightarrow> Chain \<Rightarrow> go_panic + Chain" where
  "putTransactions hs blkHash height txs c =
     rbind (putTransactions_loop hs blkHash height 0 txs c) (\<lambda>c1.
     Inr (c1\<lparr>ch_txHashs := (ch_txHashs c1)(blkHash \<mapsto> map (hs_tx hs) txs)\<rparr>))"

definition deleteTransaction :: "hash \<Rightarrow> Chain \<Rightarrow> Chain" where
  "deleteTransaction h c = c\<lparr>ch_txs := (ch_txs c)(h := None)\<rparr>"

definition deleteTransactions :: "hash \<Rightarrow> Chain \<Rightarrow> Chain" where
  "deleteTransactions h c =
     (case ch_txHashs c h of
        None \<Rightarrow> c
      | Some hashs \<Rightarrow> (let c1 = fold deleteTransaction hashs c in c1\<lparr>ch_txHashs := (ch_txHashs c1)(h := None)\<rparr>))"

subsection \<open>Receipts\<close>

definition getReceipt :: "hash \<Rightarrow> Chain \<Rightarrow> Receipt option" where
  "getReceipt h c = ch_receipts c h"

definition getReceipts :: "hash \<Rightarrow> Chain \<Rightarrow> Receipt list option" where
  "getReceipts h c =
     (case ch_txHashs c h of None \<Rightarrow> None | Some hashs \<Rightarrow> Some (List.map_filter (\<lambda>v. getReceipt v c) hashs))"

definition putReceipt :: "hash \<Rightarrow> Receipt \<Rightarrow> Chain \<Rightarrow> Chain" where
  "putReceipt h r c = c\<lparr>ch_receipts := (ch_receipts c)(h \<mapsto> r)\<rparr>"

text \<open>The receipts are indexed by the position of the transaction.\<close>

fun putReceipts_loop :: "hash list \<Rightarrow> Receipt list \<Rightarrow> Chain \<Rightarrow> go_panic + Chain" where
  "putReceipts_loop [] receipts c = Inr c"
| "putReceipts_loop (v # hashs) [] c = Inl IndexOutOfRange"
| "putReceipts_loop (v # hashs) (r # receipts) c = putReceipts_loop hashs receipts (putReceipt v r c)"

definition putReceipts :: "hash \<Rightarrow> Receipt list \<Rightarrow> Chain \<Rightarrow> go_panic + Chain" where
  "putReceipts h receipts c =
     (case ch_txHashs c h of None \<Rightarrow> Inr c | Some hashs \<Rightarrow> putReceipts_loop hashs receipts c)"

definition deleteReceipt :: "hash \<Rightarrow> Chain \<Rightarrow> Chain" where
  "deleteReceipt h c = c\<lparr>ch_receipts := (ch_receipts c)(h := None)\<rparr>"

definition deleteReceipts :: "hash \<Rightarrow> Chain \<Rightarrow> Chain" where
  "deleteReceipts h c = (case ch_txHashs c h of None \<Rightarrow> c | Some hashs \<Rightarrow> fold deleteReceipt hashs c)"

subsection \<open>Difficulties and the chain of the head\<close>

definition getTd :: "hash \<Rightarrow> Chain \<Rightarrow> int option" where
  "getTd h c = ch_tds c h"

definition putTd :: "hash \<Rightarrow> int \<Rightarrow> Chain \<Rightarrow> go_panic + Chain" where
  "putTd h td c = (if td < 0 then Inl Fatal else Inr (c\<lparr>ch_tds := (ch_tds c)(h \<mapsto> td)\<rparr>))"

definition deleteTd :: "hash \<Rightarrow> Chain \<Rightarrow> Chain" where
  "deleteTd h c = c\<lparr>ch_tds := (ch_tds c)(h := None)\<rparr>"

definition getLegitimateHash :: "u64 \<Rightarrow> Chain \<Rightarrow> hash" where
  "getLegitimateHash height c = (case ch_legitimate c height of None \<Rightarrow> 0 | Some h \<Rightarrow> h)"

definition putLegitimateHash :: "u64 \<Rightarrow> hash \<Rightarrow> Chain \<Rightarrow> Chain" where
  "putLegitimateHash height h c = c\<lparr>ch_legitimate := (ch_legitimate c)(height \<mapsto> h)\<rparr>"

definition deleteLegitimateHash :: "u64 \<Rightarrow> Chain \<Rightarrow> Chain" where
  "deleteLegitimateHash height c = c\<lparr>ch_legitimate := (ch_legitimate c)(height := None)\<rparr>"

definition getHeadBlockHash :: "Chain \<Rightarrow> hash" where
  "getHeadBlockHash c = (case ch_lastBlock c of None \<Rightarrow> 0 | Some h \<Rightarrow> h)"

definition putHeadBlockHash :: "hash \<Rightarrow> Chain \<Rightarrow> Chain" where
  "putHeadBlockHash h c = c\<lparr>ch_lastBlock := Some h\<rparr>"

subsection \<open>Blocks\<close>

definition getBlock :: "hash \<Rightarrow> Chain \<Rightarrow> Block option" where
  "getBlock h c =
     (case getHeader h c of
        None \<Rightarrow> None
      | Some header \<Rightarrow>
          Some (case getTransactions h c of
                  None \<Rightarrow> NewBlockWithBlockHeader header
                | Some txs \<Rightarrow> WithTxs (ToTransactions txs) (NewBlockWithBlockHeader header)))"

definition putBlock :: "hashes \<Rightarrow> Block \<Rightarrow> Chain \<Rightarrow> go_panic + Chain" where
  "putBlock hs b c =
     rbind (putHeader hs (bl_header b) c) (putTransactions hs (blockHash hs b) (blockHeight b) (bl_transactions b))"

definition deleteBlock :: "hash \<Rightarrow> Chain \<Rightarrow> Chain" where
  "deleteBlock h c = deleteTd h (deleteTransactions h (deleteHeader h (deleteReceipts h c)))"

section \<open>The ledger\<close>

text \<open>The cache of transactions is never used.\<close>

record Ledger =
  led_chain :: Chain
  tdCache :: "(hash, int) UnLockCache"
  blockCache :: "(hash, Block) UnLockCache"
  futureBlocks :: "(hash, Block) UnLockCache"

definition cache_limit :: "int \<Rightarrow> int" where
  "cache_limit n = (if n < 128 then 128 else n)"

definition newLedger :: "int \<Rightarrow> int \<Rightarrow> int \<Rightarrow> Chain \<Rightarrow> Ledger" where
  "newLedger tds blocks futures c =
     \<lparr>led_chain = c, tdCache = the (NewUnLockCache (cache_limit tds)), blockCache = the (NewUnLockCache (cache_limit blocks)),
      futureBlocks = the (NewUnLockCache (cache_limit futures))\<rparr>"

definition GetTd :: "hash \<Rightarrow> Ledger \<Rightarrow> int option \<times> Ledger" where
  "GetTd h l =
     (case cache_Get h (tdCache l) of
        (Some td, c) \<Rightarrow> (Some td, l\<lparr>tdCache := c\<rparr>)
      | (None, c) \<Rightarrow>
          (case getTd h (led_chain l) of
             None \<Rightarrow> (None, l\<lparr>tdCache := c\<rparr>)
           | Some td \<Rightarrow> (Some td, l\<lparr>tdCache := snd (cache_Add h td c)\<rparr>)))"

definition WriteTd :: "hash \<Rightarrow> int \<Rightarrow> Ledger \<Rightarrow> go_panic + Ledger" where
  "WriteTd h td l = rbind (putTd h td (led_chain l)) (\<lambda>c.
     Inr (l\<lparr>led_chain := c, tdCache := snd (cache_Add h td (tdCache l))\<rparr>))"

definition GetBlock :: "hashes \<Rightarrow> hash \<Rightarrow> Ledger \<Rightarrow> Block option \<times> Ledger" where
  "GetBlock hs h l =
     (case cache_Get h (blockCache l) of
        (Some b, c) \<Rightarrow> (Some b, l\<lparr>blockCache := c\<rparr>)
      | (None, c) \<Rightarrow>
          (case getBlock h (led_chain l) of
             None \<Rightarrow> (None, l\<lparr>blockCache := c\<rparr>)
           | Some b \<Rightarrow> (Some b, l\<lparr>blockCache := snd (cache_Add (blockHash hs b) b c)\<rparr>)))"

definition ledger_GetBlockByHeight :: "hashes \<Rightarrow> u64 \<Rightarrow> Ledger \<Rightarrow> Block option \<times> Ledger" where
  "ledger_GetBlockByHeight hs height l =
     (let h = getLegitimateHash height (led_chain l) in if h = 0 then (None, l) else GetBlock hs h l)"

definition ledger_GetHeader :: "hash \<Rightarrow> Ledger \<Rightarrow> BlockHeader option \<times> Ledger" where
  "ledger_GetHeader h l =
     (case cache_Get h (blockCache l) of
        (Some b, c) \<Rightarrow> (Some (bl_header b), l\<lparr>blockCache := c\<rparr>)
      | (None, c) \<Rightarrow> (getHeader h (led_chain l), l\<lparr>blockCache := c\<rparr>))"

definition HasBlock :: "hashes \<Rightarrow> hash \<Rightarrow> Ledger \<Rightarrow> bool \<times> Ledger" where
  "HasBlock hs h l = (let (b, l1) = GetBlock hs h l in (b \<noteq> None, l1))"

definition WriteLegitimateHashAndHeadBlockHash :: "u64 \<Rightarrow> hash \<Rightarrow> Ledger \<Rightarrow> Ledger" where
  "WriteLegitimateHashAndHeadBlockHash height h l =
     l\<lparr>led_chain := putHeadBlockHash h (putLegitimateHash height h (led_chain l))\<rparr>"

definition WriteBlockAndReceipts :: "hashes \<Rightarrow> Block \<Rightarrow> Receipt list \<Rightarrow> Ledger \<Rightarrow> go_panic + Ledger" where
  "WriteBlockAndReceipts hs block receipts l =
     rbind (putBlock hs block (led_chain l)) (\<lambda>c.
     rbind (putReceipts (blockHash hs block) receipts c) (\<lambda>c1. Inr (l\<lparr>led_chain := c1\<rparr>)))"

definition WriteBlockAndTd :: "hashes \<Rightarrow> Block \<Rightarrow> int \<Rightarrow> Ledger \<Rightarrow> go_panic + Ledger" where
  "WriteBlockAndTd hs block td l =
     rbind (putBlock hs block (led_chain l)) (\<lambda>c.
     rbind (putTd (blockHash hs block) td c) (\<lambda>c1. Inr (l\<lparr>led_chain := c1\<rparr>)))"

definition DeleteBlock :: "hash \<Rightarrow> Ledger \<Rightarrow> Ledger" where
  "DeleteBlock h l = l\<lparr>blockCache := snd (cache_Remove h (blockCache l)), led_chain := deleteBlock h (led_chain l)\<rparr>"

subsection \<open>Future blocks\<close>

definition GetFutureBlock :: "Ledger \<Rightarrow> Block list" where
  "GetFutureBlock l = List.map_filter (\<lambda>h. cache_Peek h (futureBlocks l)) (cache_Keys (futureBlocks l))"

text \<open>\<open>now\<close> is the clock in seconds, and blocks carry nanoseconds.\<close>

definition PutFutureBlock :: "hashes \<Rightarrow> int \<Rightarrow> Block \<Rightarrow> Ledger \<Rightarrow> bool \<times> Ledger" where
  "PutFutureBlock hs now block l =
     (if TimeStamp (bl_header block) > now + 30 then (False, l)
      else (True, l\<lparr>futureBlocks := snd (cache_Add (blockHash hs block) block (futureBlocks l))\<rparr>))"

definition RemoveFutureBlock :: "hash \<Rightarrow> Ledger \<Rightarrow> Ledger" where
  "RemoveFutureBlock h l = l\<lparr>futureBlocks := snd (cache_Remove h (futureBlocks l))\<rparr>"

definition HasFutureBlock :: "hash \<Rightarrow> Ledger \<Rightarrow> bool" where
  "HasFutureBlock h l = cache_Contains h (futureBlocks l)"

subsection \<open>Rewinding\<close>

text \<open>The recursion ends by a panic or at a low head; the fuel bounds the number of calls.\<close>

fun RewindChain :: "nat \<Rightarrow> hashes \<Rightarrow> u64 \<Rightarrow> Ledger \<Rightarrow> vm_fail + Ledger" where
  "RewindChain 0 hs height l = Inl NoFuel"
| "RewindChain (Suc f) hs height l =
     (case getBlock (getHeadBlockHash (led_chain l)) (led_chain l) of
        None \<Rightarrow> Inl (VMPanic NilDeref)
      | Some block \<Rightarrow>
          (if blockHeight block \<ge> height
           then RewindChain f hs height (l\<lparr>led_chain := deleteBlock (blockHash hs block) (led_chain l)\<rparr>)
           else Inr l))"

definition ResetChain :: "nat \<Rightarrow> hashes \<Rightarrow> Block \<Rightarrow> Ledger \<Rightarrow> vm_fail + Ledger" where
  "ResetChain fuel hs genesis l =
     rbind (RewindChain fuel hs 0 l) (\<lambda>l1.
     rbind (lift_panic (putBlock hs genesis (led_chain l1))) (\<lambda>c.
     Inr (l1\<lparr>led_chain := putHeadBlockHash (blockHash hs genesis) c, tdCache := cache_Purge (tdCache l1),
             blockCache := cache_Purge (blockCache l1), futureBlocks := cache_Purge (futureBlocks l1)\<rparr>)))"

definition CheckLastBlock :: "nat \<Rightarrow> hashes \<Rightarrow> Block \<Rightarrow> Ledger \<Rightarrow> vm_fail + Block \<times> Ledger" where
  "CheckLastBlock fuel hs genesis l =
     (let head = getHeadBlockHash (led_chain l)
      in if head = 0 then rbind (ResetChain fuel hs genesis l) (\<lambda>l1. Inr (genesis, l1))
         else case GetBlock hs head l of
                (None, l1) \<Rightarrow> rbind (ResetChain fuel hs genesis l1) (\<lambda>l2. Inr (genesis, l2))
              | (Some cur, l1) \<Rightarrow> Inr (cur, l1))"

end
