(* ===== verification/Bloom.thy ===== *)
theory Bloom
  imports Executor
begin

unbundle bit_operations_syntax

text \<open>
  The filter over the logs of a block (\<open>common/bloom\<close> and \<open>core/types/util.go\<close>): each address and topic of a log sets three of 2048
  bits, picked by its Keccak hash, which is a parameter.
\<close>

definition BloomByteLength :: nat where "BloomByteLength = 256"

definition BloomBitLength :: nat where "BloomBitLength = 8 * BloomByteLength"

text \<open>\<open>Bloom9\<close>: the bits are given by the first three pairs of bytes of the hash.\<close>

definition bloom_bit :: "bytes \<Rightarrow> nat \<Rightarrow> nat" where
  "bloom_bit b i = (unat (b ! (i + 1)) + unat (b ! i) * 256) mod 2048"

definition Bloom9 :: "(bytes \<Rightarrow> hash) \<Rightarrow> bytes \<Rightarrow> int" where
  "Bloom9 keccak b = (let k = hash_bytes (keccak b) in fold (\<lambda>i r. r OR push_bit (bloom_bit k i) 1) [0, 2, 4] 0)"

definition bloom_SetBytes :: "bytes \<Rightarrow> go_panic + bytes" where
  "bloom_SetBytes d = (if BloomByteLength < length d then Inl (PanicMsg ''bloom bytes too big'')
     else Inr (replicate (BloomByteLength - length d) 0 @ d))"

definition BytesToBloom :: "bytes \<Rightarrow> go_panic + bytes" where
  "BytesToBloom = bloom_SetBytes"

definition bloom_Add :: "(bytes \<Rightarrow> hash) \<Rightarrow> int \<Rightarrow> bytes \<Rightarrow> go_panic + bytes" where
  "bloom_Add keccak d b = bloom_SetBytes (big_Bytes (SetBytes b OR Bloom9 keccak (big_Bytes d)))"

definition bloom_log :: "(bytes \<Rightarrow> hash) \<Rightarrow> Log \<Rightarrow> int \<Rightarrow> int" where
  "bloom_log keccak l bin = fold (\<lambda>b r. r OR Bloom9 keccak (hash_bytes b)) (log_Topics l) (bin OR Bloom9 keccak (address_bytes (log_Address l)))"

definition types_LogsBloom :: "(bytes \<Rightarrow> hash) \<Rightarrow> Log list \<Rightarrow> int" where
  "types_LogsBloom keccak logs = fold (bloom_log keccak) logs 0"

definition CreateBloom :: "(bytes \<Rightarrow> hash) \<Rightarrow> Receipt list \<Rightarrow> go_panic + bytes" where
  "CreateBloom keccak receipts =
     BytesToBloom (big_Bytes (fold (\<lambda>r bin. bin OR types_LogsBloom keccak (rc_Logs r)) receipts 0))"

section \<open>The filter misses nothing\<close>

text \<open>The bits of one number are among those of another.\<close>

definition bits_in :: "int \<Rightarrow> int \<Rightarrow> bool" where
  "bits_in x y \<longleftrightarrow> x AND y = x"

lemma bits_in_iff: "bits_in x y \<longleftrightarrow> (\<forall>n. bit x n \<longrightarrow> bit y n)"
  by (auto simp: bits_in_def bit_eq_iff bit_and_iff)

lemma bits_in_or: "bits_in x (x OR y)" "bits_in x y \<Longrightarrow> bits_in x (y OR z)" "bits_in x z \<Longrightarrow> bits_in x (y OR z)"
  by (auto simp: bits_in_iff bit_or_iff)

lemma bits_in_trans: "bits_in x y \<Longrightarrow> bits_in y z \<Longrightarrow> bits_in x z"
  by (auto simp: bits_in_iff)

lemma fold_or_start: "fold (\<lambda>x r. r OR f x) xs (a OR b :: int) = a OR fold (\<lambda>x r. r OR f x) xs b"
  by (induction xs arbitrary: b) (simp_all add: or.assoc)

lemma fold_or_keeps: "bits_in y r \<Longrightarrow> bits_in y (fold (\<lambda>x r. r OR f x) xs r)"
  by (induction xs arbitrary: r) (simp_all add: bits_in_or)

lemma fold_or_has: "x \<in> set xs \<Longrightarrow> bits_in (f x) (fold (\<lambda>x r. r OR f x) xs r)"
proof (induction xs arbitrary: r)
  case (Cons a xs)
  show ?case
  proof (cases "x = a")
    case True
    then show ?thesis using fold_or_keeps [OF bits_in_or(3) [of "f a" "f a" r]] by (simp add: bits_in_def)
  qed (use Cons in simp)
qed simp

lemma fold_or_bound:
  "(\<And>x. x \<in> set xs \<Longrightarrow> 0 \<le> f x \<and> f x < 2 ^ n) \<Longrightarrow> 0 \<le> r \<Longrightarrow> r < 2 ^ n
     \<Longrightarrow> 0 \<le> fold (\<lambda>x r. r OR f x) xs r \<and> fold (\<lambda>x r. r OR f x) xs r < (2 ^ n :: int)"
  by (induction xs arbitrary: r) (auto simp: OR_upper)

lemma Bloom9_bound: "0 \<le> Bloom9 keccak b \<and> Bloom9 keccak b < 2 ^ BloomBitLength"
proof -
  have "bloom_bit k i < BloomBitLength" for k i by (simp add: bloom_bit_def BloomBitLength_def BloomByteLength_def)
  then have "push_bit (bloom_bit k i) (1 :: int) < 2 ^ BloomBitLength" for k i
    unfolding push_bit_eq_mult by simp
  then show ?thesis unfolding Bloom9_def Let_def by (intro fold_or_bound) (simp_all add: push_bit_eq_mult)
qed

lemma bloom_log_or: "bloom_log keccak l = (\<lambda>bin. bin OR bloom_log keccak l 0)"
  using fold_or_start [of "\<lambda>b. Bloom9 keccak (hash_bytes b)" "log_Topics l"] by (simp add: bloom_log_def fun_eq_iff)

lemma types_LogsBloom_or: "types_LogsBloom keccak logs = fold (\<lambda>l bin. bin OR bloom_log keccak l 0) logs 0"
proof -
  have "bloom_log keccak = (\<lambda>l bin. bin OR bloom_log keccak l 0)" by (rule ext, rule bloom_log_or)
  then show ?thesis unfolding types_LogsBloom_def by (rule arg_cong [where f = "\<lambda>g. fold g logs 0"])
qed

lemma bloom_log_bound: "0 \<le> bloom_log keccak l 0 \<and> bloom_log keccak l 0 < 2 ^ BloomBitLength"
  unfolding bloom_log_def using Bloom9_bound by (intro fold_or_bound) (simp_all add: OR_upper)

lemma types_LogsBloom_bound: "0 \<le> types_LogsBloom keccak logs \<and> types_LogsBloom keccak logs < 2 ^ BloomBitLength"
  unfolding types_LogsBloom_or using bloom_log_bound by (intro fold_or_bound) simp_all

lemma length_big_Bytes: "0 \<le> x \<Longrightarrow> x < 2 ^ (8 * n) \<Longrightarrow> length (big_Bytes x) \<le> n"
  using BitLen_le [of x "8 * n"] by (simp add: big_Bytes_def)

lemma SetBytes_zeros: "SetBytes (replicate n 0 @ bs) = SetBytes bs"
proof -
  have "foldl (\<lambda>a b. a * 256 + uint b) 0 (replicate n (0 :: byte)) = 0" by (induction n) simp_all
  then show ?thesis by (simp add: SetBytes_def)
qed

lemma CreateBloom_value:
  "\<exists>b. CreateBloom keccak rs = Inr b \<and> length b = BloomByteLength \<and> SetBytes b = fold (\<lambda>r bin. bin OR types_LogsBloom keccak (rc_Logs r)) rs 0"
proof -
  let ?x = "fold (\<lambda>r bin. bin OR types_LogsBloom keccak (rc_Logs r)) rs 0"
  have x: "0 \<le> ?x \<and> ?x < 2 ^ BloomBitLength" using types_LogsBloom_bound by (intro fold_or_bound) simp_all
  then have "length (big_Bytes ?x) \<le> BloomByteLength" using length_big_Bytes [of ?x BloomByteLength] by (simp add: BloomBitLength_def)
  then show ?thesis using x by (simp add: CreateBloom_def BytesToBloom_def bloom_SetBytes_def SetBytes_zeros SetBytes_big_Bytes)
qed

text \<open>C32: The filter of a block misses no log. Creating it never panics and gives 256 bytes, and for every
  log of every receipt, the bits of the address and of each topic are set.\<close>

theorem bloom_misses_nothing:
  assumes "r \<in> set receipts" "l \<in> set (rc_Logs r)"
  shows "\<exists>b. CreateBloom keccak receipts = Inr b \<and> length b = BloomByteLength
    \<and> bits_in (Bloom9 keccak (address_bytes (log_Address l))) (SetBytes b)
    \<and> (\<forall>t \<in> set (log_Topics l). bits_in (Bloom9 keccak (hash_bytes t)) (SetBytes b))"
proof -
  let ?x = "fold (\<lambda>r bin. bin OR types_LogsBloom keccak (rc_Logs r)) receipts 0"
  have "bits_in (bloom_log keccak l 0) (types_LogsBloom keccak (rc_Logs r))"
    unfolding types_LogsBloom_or using fold_or_has [OF assms(2), of "\<lambda>l. bloom_log keccak l 0"] .
  moreover have "bits_in (types_LogsBloom keccak (rc_Logs r)) ?x" using fold_or_has [OF assms(1), of "\<lambda>r. types_LogsBloom keccak (rc_Logs r)"] .
  ultimately have l: "bits_in (bloom_log keccak l 0) ?x" by (rule bits_in_trans)
  have "bits_in (Bloom9 keccak (address_bytes (log_Address l))) (bloom_log keccak l 0)"
    unfolding bloom_log_def by (rule fold_or_keeps) (simp add: bits_in_def)
  moreover have "bits_in (Bloom9 keccak (hash_bytes t)) (bloom_log keccak l 0)" if "t \<in> set (log_Topics l)" for t
    unfolding bloom_log_def using fold_or_has [OF that, of "\<lambda>b. Bloom9 keccak (hash_bytes b)"] .
  ultimately show ?thesis using l bits_in_trans CreateBloom_value [of keccak receipts] by metis
qed

theorem bloom_misses_nothing_witness:
  "\<exists>b. CreateBloom (\<lambda>_. 5) [\<lparr>rc_State = 0, rc_Failed = False, CumulativeGasUsed = 0,
       rc_Logs = [\<lparr>log_Address = 7, log_Topics = [9], log_Data = [], log_BlockHeight = 0, log_BlockHash = 0, log_TransactionHash = 0,
         log_TransactionIndex = 0, log_LogIndex = 0\<rparr>], TransactionHash = 0, ContractAddress = 0, rc_GasUsed = 0\<rparr>] = Inr b
     \<and> bits_in (Bloom9 (\<lambda>_. 5) (hash_bytes 9)) (SetBytes b)"
  using bloom_misses_nothing [where receipts = "[\<lparr>rc_State = 0, rc_Failed = False, CumulativeGasUsed = 0,
       rc_Logs = [\<lparr>log_Address = 7, log_Topics = [9], log_Data = [], log_BlockHeight = 0, log_BlockHash = 0, log_TransactionHash = 0,
         log_TransactionIndex = 0, log_LogIndex = 0\<rparr>], TransactionHash = 0, ContractAddress = 0, rc_GasUsed = 0\<rparr>]" and keccak = "\<lambda>_. 5"] by auto

end
