(* ===== verification/Validator.thy ===== *)
theory Validator
  imports Dpos Ledger Bloom
begin

text \<open>
  The validator of blocks (\<open>core/validator\<close>): the checks of a header against its parent, of the list of transactions against
  the header, and of the state after the execution. The Merkle roots of the lists of transactions and receipts, like
  hashes, are parameters, as are the orders in which the maps of the state are walked.
\<close>

text \<open>\<open>ErrNoAncestor\<close> is the \<open>ErrUnknownAncestor\<close> of the validator, another value than the one of the engine. The numbers
  that go into the messages are left out.\<close>

datatype validate_error =
    ErrKnownBlock
  | ErrPrunedAncestor
  | ErrNoAncestor
  | ErrBlockTime
  | ErrInvalidNumber
  | ErrFutureBlock
  | ErrExtraDataTooLong
  | ErrDifficulty
  | ErrGasLimitTooBig
  | ErrGasUsed
  | ErrGasLimit
  | ErrTxsRootHash
  | ErrReceiptRootHash
  | ErrStateRootHash
  | ErrDposRootHash
  | ErrLogsBloom
  | ErrLocalGasUsed
  | SealError epoch_error

definition MaxExtraDataSize :: nat where "MaxExtraDataSize = 32"

definition GasLimitBoundDivisor :: u64 where "GasLimitBoundDivisor = 1024"

definition MinGasLimit :: u64 where "MinGasLimit = 1000000"

definition GenesisGasLimit :: u64 where "GenesisGasLimit = 5000000"

text \<open>The distance of two gas limits, computed on \<open>int64\<close>.\<close>

definition gas_limit_diff :: "u64 \<Rightarrow> u64 \<Rightarrow> u64" where
  "gas_limit_diff parent limit =
     (let diff = wrap_int64 (sint parent - sint limit) in word_of_int (if diff < 0 then wrap_int64 (- diff) else diff))"

text \<open>\<open>v.ledger\<close> is the ledger; \<open>chain\<close>, which the engine reads, is in the environment.\<close>

definition ValidateHeader ::
  "nat \<Rightarrow> dpos_env \<Rightarrow> BlockHeader \<Rightarrow> bool \<Rightarrow> Ledger \<Rightarrow> Dpos \<Rightarrow> vm_fail + (validate_error option \<times> Ledger \<times> Dpos)" where
  "ValidateHeader fuel e header seal l d =
     (case ledger_GetHeader (hashOf e header) l of
        (Some _, l1) \<Rightarrow> Inr (None, l1, d)
      | (None, l1) \<Rightarrow>
     (case ledger_GetHeader (PreviousHash header) l1 of
        (None, l2) \<Rightarrow> Inr (Some ErrNoAncestor, l2, d)
      | (Some parent, l2) \<Rightarrow>
     (if length (ExtraData header) > MaxExtraDataSize + 65 then Inr (Some ErrExtraDataTooLong, l2, d)
      else if TimeStamp header \<le> TimeStamp parent then Inr (Some ErrBlockTime, l2, d)
      else rbind (CalcDifficulty e (Uint64 (TimeStamp header)) d) (\<lambda>(expected, d1).
        if expected \<noteq> hd_Difficulty header then Inr (Some ErrDifficulty, l2, d1)
        else if hd_GasLimit header > 0x7fffffffffffffff then Inr (Some ErrGasLimitTooBig, l2, d1)
        else if hd_GasUsed header > hd_GasLimit header then Inr (Some ErrGasUsed, l2, d1)
        else if gas_limit_diff (hd_GasLimit parent) (hd_GasLimit header) \<ge> hd_GasLimit parent div GasLimitBoundDivisor
          \<or> hd_GasLimit header < MinGasLimit then Inr (Some ErrGasLimit, l2, d1)
        else if Height header - Height parent \<noteq> 1 then Inr (Some ErrInvalidNumber, l2, d1)
        else if seal
        then rbind (VerifySeal fuel e header d1) (\<lambda>(err, d2). Inr (map_option SealError err, l2, d2))
        else Inr (None, l2, d1)))))"

definition ValidateTxs ::
  "hashes \<Rightarrow> (Transaction list \<Rightarrow> hash) \<Rightarrow> (hash \<Rightarrow> bool) \<Rightarrow> Block \<Rightarrow> Ledger \<Rightarrow> validate_error option \<times> Ledger" where
  "ValidateTxs hs txsRoot hasState block l =
     (let (has, l1) = HasBlock hs (blockHash hs block) l
      in if has \<and> hasState (StateRoot (bl_header block)) then (Some ErrKnownBlock, l1)
         else case GetBlock hs (PreviousHash (bl_header block)) l1 of
                (None, l2) \<Rightarrow> (Some ErrNoAncestor, l2)
              | (Some parent, l2) \<Rightarrow>
                  (if \<not> hasState (StateRoot (bl_header parent))
                   then (let (hasParent, l3) = HasBlock hs (blockHash hs parent) l2
                         in (Some (if hasParent then ErrPrunedAncestor else ErrNoAncestor), l3))
                   else if txsRoot (bl_transactions block) \<noteq> TransactionsRoot (bl_header block)
                   then (Some ErrTxsRootHash, l2) else (None, l2)))"

text \<open>\<open>protoOf\<close> gives the roots of a context, and \<open>protoRoot\<close> the hash of these.\<close>

record state_checks =
  sc_keccak :: "bytes \<Rightarrow> hash"
  receiptsRoot :: "Receipt list \<Rightarrow> hash"
  sc_order :: "address list"
  sc_keys :: "address \<Rightarrow> hash list"
  protoOf :: "DposContext \<Rightarrow> DposContextProto"
  protoRoot :: "DposContextProto \<Rightarrow> hash"

definition ValidateState ::
  "state_checks \<Rightarrow> Block \<Rightarrow> StateDB \<Rightarrow> Receipt list \<Rightarrow> bool \<Rightarrow> u64 \<Rightarrow> go_panic + (validate_error option \<times> StateDB)" where
  "ValidateState v block statedb receipts deleteEmptyObjects usedGas =
     (let header = bl_header block
      in if hd_GasUsed header \<noteq> usedGas then Inr (Some ErrLocalGasUsed, statedb)
         else rbind (CreateBloom (sc_keccak v) receipts) (\<lambda>rbloom.
           if rbloom \<noteq> LogsBloom header then Inr (Some ErrLogsBloom, statedb)
           else if receiptsRoot v receipts \<noteq> ReceiptsRoot header then Inr (Some ErrReceiptRootHash, statedb)
           else rbind (IntermediateRoot (sc_order v) (sc_keys v) deleteEmptyObjects statedb) (\<lambda>(stateSha, s1).
             if StateRoot header \<noteq> stateSha then Inr (Some ErrStateRootHash, s1)
             else rbind (deref (bl_DposContext block)) (\<lambda>ctx.
               if protoRoot v (protoOf v ctx) \<noteq> protoRoot v (hd_DposContext header)
               then Inr (Some ErrDposRootHash, s1) else Inr (None, s1)))))"

text \<open>The gas limit of the next block (\<open>core/types/util.go\<close>), on \<open>uint64\<close>.\<close>

definition CalcGasLimit :: "Block \<Rightarrow> u64" where
  "CalcGasLimit parent =
     (let used = hd_GasUsed (bl_header parent); gasLimit = hd_GasLimit (bl_header parent);
          contrib = (used + used div 2) div GasLimitBoundDivisor;
          decay = gasLimit div GasLimitBoundDivisor - 1;
          limit = gasLimit - decay + contrib;
          limit1 = (if limit < MinGasLimit then MinGasLimit else limit)
      in if limit1 < GenesisGasLimit
         then (let limit2 = gasLimit + decay in if limit2 > GenesisGasLimit then GenesisGasLimit else limit2)
         else limit1)"

end
