(* ===== verification/LedgerProps.thy ===== *)
theory LedgerProps
  imports Ledger
begin

text \<open>
  What the development shows of the ledger: the caches are transparent, a block that is written is read back without its
  actions, and a chain cannot be rewound.
\<close>

section \<open>Coherence\<close>

abbreviation block_at :: "Chain \<Rightarrow> hash \<rightharpoonup> Block" where
  "block_at c \<equiv> (\<lambda>h. getBlock h c)"

text \<open>Headers are stored under their hashes, and the transactions of a block are there.\<close>

definition chain_ok :: "hashes \<Rightarrow> Chain \<Rightarrow> bool" where
  "chain_ok hs c \<longleftrightarrow> (\<forall>h header. ch_headers c h = Some header \<longrightarrow> hs_header hs header = h)
     \<and> (\<forall>h hashs. ch_txHashs c h = Some hashs \<longrightarrow> set hashs \<subseteq> dom (ch_txs c))"

definition ledger_ok :: "hashes \<Rightarrow> Ledger \<Rightarrow> bool" where
  "ledger_ok hs l \<longleftrightarrow> chain_ok hs (led_chain l) \<and> lru.in_front (blockCache l) (block_at (led_chain l))
     \<and> lru.in_front (tdCache l) (ch_tds (led_chain l)) \<and> cache_ok (futureBlocks l)"

text \<open>An operation that reads: the database and the future blocks stay.\<close>

definition reads_only :: "hashes \<Rightarrow> Ledger \<Rightarrow> Ledger \<Rightarrow> bool" where
  "reads_only hs l l' \<longleftrightarrow> ledger_ok hs l' \<and> led_chain l' = led_chain l \<and> futureBlocks l' = futureBlocks l"

lemma getBlock_header: "getBlock h c = Some b \<Longrightarrow> ch_headers c h = Some (bl_header b)"
  by (auto simp: getBlock_def getHeader_def WithTxs_def NewBlockWithBlockHeader_def split: option.splits)

lemma getBlock_None: "getBlock h c = None \<longleftrightarrow> ch_headers c h = None"
  by (auto simp: getBlock_def getHeader_def split: option.splits)

lemma getBlock_hash: "chain_ok hs c \<Longrightarrow> getBlock h c = Some b \<Longrightarrow> blockHash hs b = h"
  using getBlock_header by (fastforce simp: chain_ok_def)

lemma GetBlock_ok:
  assumes "ledger_ok hs l" "GetBlock hs h l = (r, l')"
  shows "r = getBlock h (led_chain l)" "reads_only hs l l'"
proof -
  obtain r0 c where g: "cache_Get h (blockCache l) = (r0, c)" by fastforce
  have "lru.in_front (blockCache l) (block_at (led_chain l))" using assms(1) by (simp add: ledger_ok_def)
  note f = lru.in_front_get [OF this g]
  have "r = getBlock h (led_chain l) \<and> reads_only hs l l'"
  proof (cases r0)
    case None
    then show ?thesis using assms g f(1) lru.in_front_add [OF f(1), of h] getBlock_hash [of hs "led_chain l" h]
      by (cases "getBlock h (led_chain l)") (auto simp: GetBlock_def reads_only_def ledger_ok_def)
  next
    case (Some b)
    then show ?thesis using assms g f by (auto simp: GetBlock_def reads_only_def ledger_ok_def)
  qed
  then show "r = getBlock h (led_chain l)" "reads_only hs l l'" by simp_all
qed

lemma GetTd_ok:
  assumes "ledger_ok hs l" "GetTd h l = (r, l')"
  shows "r = ch_tds (led_chain l) h" "reads_only hs l l'"
proof -
  obtain r0 c where g: "cache_Get h (tdCache l) = (r0, c)" by fastforce
  have "lru.in_front (tdCache l) (ch_tds (led_chain l))" using assms(1) by (simp add: ledger_ok_def)
  note f = lru.in_front_get [OF this g]
  have "r = ch_tds (led_chain l) h \<and> reads_only hs l l'"
  proof (cases r0)
    case None
    then show ?thesis using assms g f(1) lru.in_front_add [OF f(1), of h]
      by (cases "ch_tds (led_chain l) h") (auto simp: GetTd_def getTd_def reads_only_def ledger_ok_def)
  next
    case (Some b)
    then show ?thesis using assms g f by (auto simp: GetTd_def reads_only_def ledger_ok_def)
  qed
  then show "r = ch_tds (led_chain l) h" "reads_only hs l l'" by simp_all
qed

lemma ledger_GetHeader_ok:
  assumes "ledger_ok hs l" "ledger_GetHeader h l = (r, l')"
  shows "r = ch_headers (led_chain l) h" "reads_only hs l l'"
proof -
  obtain r0 c where g: "cache_Get h (blockCache l) = (r0, c)" by fastforce
  have "lru.in_front (blockCache l) (block_at (led_chain l))" using assms(1) by (simp add: ledger_ok_def)
  note f = lru.in_front_get [OF this g]
  have "Some b = getBlock h (led_chain l) \<Longrightarrow> Some (bl_header b) = ch_headers (led_chain l) h" for b using getBlock_header [of h "led_chain l" b] by simp
  then show "r = ch_headers (led_chain l) h" "reads_only hs l l'"
    using assms g f by (auto simp: ledger_GetHeader_def getHeader_def reads_only_def ledger_ok_def split: option.splits)
qed

section \<open>Writing blocks\<close>

text \<open>What comes back of a block, and that no hash of it is in use for anything else.\<close>

definition stored_block :: "Block \<Rightarrow> Block" where
  "stored_block b = \<lparr>bl_header = bl_header b, bl_actions = [], bl_transactions = map decoded_tx (bl_transactions b), bl_DposContext = None\<rparr>"

definition no_clash :: "hashes \<Rightarrow> Block \<Rightarrow> Chain \<Rightarrow> bool" where
  "no_clash hs b c \<longleftrightarrow>
     (\<forall>tx \<in> set (bl_transactions b). \<forall>tx' \<in> set (bl_transactions b). hs_tx hs tx = hs_tx hs tx' \<longrightarrow> decoded_tx tx = decoded_tx tx')
     \<and> (\<forall>tx \<in> set (bl_transactions b). \<forall>st. ch_txs c (hs_tx hs tx) = Some st \<longrightarrow> sx_Tx st = decoded_tx tx)
     \<and> (\<forall>old. getBlock (blockHash hs b) c = Some old \<longrightarrow> old = stored_block b)"

lemma putTransactions_loop_other:
  "putTransactions_loop hs bh ht k txs c = Inr c' \<Longrightarrow> ch_headers c' = ch_headers c \<and> ch_txHashs c' = ch_txHashs c \<and> ch_tds c' = ch_tds c
     \<and> ch_legitimate c' = ch_legitimate c \<and> ch_lastBlock c' = ch_lastBlock c \<and> ch_receipts c' = ch_receipts c"
  by (induction hs bh ht k txs c rule: putTransactions_loop.induct) (auto simp: putTransaction_def split: if_splits)

text \<open>The transactions under their hashes, without their places.\<close>

abbreviation tx_at :: "Chain \<Rightarrow> hash \<rightharpoonup> Transaction" where
  "tx_at c \<equiv> (\<lambda>h. map_option sx_Tx (ch_txs c h))"

lemma putTransactions_loop_txs:
  assumes "putTransactions_loop hs bh ht k txs c = Inr c'"
    and "\<And>tx tx'. tx \<in> set txs \<Longrightarrow> tx' \<in> set txs \<Longrightarrow> hs_tx hs tx = hs_tx hs tx' \<Longrightarrow> decoded_tx tx = decoded_tx tx'"
  shows "(\<forall>tx \<in> set txs. tx_at c' (hs_tx hs tx) = Some (decoded_tx tx)) \<and> (\<forall>h. h \<notin> hs_tx hs ` set txs \<longrightarrow> tx_at c' h = tx_at c h)"
  using assms
proof (induction hs bh ht k txs c rule: putTransactions_loop.induct)
  case (2 hs bh ht k v txs c)
  obtain c1 where c1: "putTransaction (hs_tx hs v) bh (of_nat k) ht v c = Inr c1" "putTransactions_loop hs bh ht (Suc k) txs c1 = Inr c'"
    using 2(2) by auto
  have v: "tx_at c1 = (tx_at c)(hs_tx hs v \<mapsto> decoded_tx v)" using c1(1) by (auto simp: putTransaction_def fun_eq_iff split: if_splits)
  have ih: "\<forall>tx \<in> set txs. tx_at c' (hs_tx hs tx) = Some (decoded_tx tx)" "\<forall>h. h \<notin> hs_tx hs ` set txs \<longrightarrow> tx_at c' h = tx_at c1 h"
    using 2(1) [OF c1] 2(3) by auto
  have "tx_at c' (hs_tx hs v) = Some (decoded_tx v)"
  proof (cases "hs_tx hs v \<in> hs_tx hs ` set txs")
    case True
    then obtain w where w: "w \<in> set txs" "hs_tx hs w = hs_tx hs v" by auto
    then have "decoded_tx w = decoded_tx v" using 2(3) [of w v] by simp
    then show ?thesis using ih(1) w by fastforce
  qed (use ih(2) fun_cong [OF v, of "hs_tx hs v"] in simp)
  moreover have "tx_at c' h = tx_at c h" if "h \<notin> hs_tx hs ` set (v # txs)" for h
    using that ih(2) fun_cong [OF v, of h] by simp
  ultimately show ?case using ih(1) by simp
qed simp

lemma map_filter_all: "\<forall>x \<in> set xs. f (g x) = Some (k x) \<Longrightarrow> List.map_filter f (map g xs) = map k xs"
  by (induction xs) simp_all

lemma getBlock_tx_at:
  assumes "ch_headers c h = Some header" "ch_txHashs c h = Some hashs"
  shows "getBlock h c = Some \<lparr>bl_header = header, bl_actions = [], bl_transactions = List.map_filter (tx_at c) hashs, bl_DposContext = None\<rparr>"
proof -
  have "map sx_Tx (List.map_filter (ch_txs c) hashs) = List.map_filter (tx_at c) hashs"
    by (induction hashs) (simp_all split: option.splits)
  then show ?thesis using assms
    by (simp add: getBlock_def getHeader_def getTransactions_def getTransaction_def WithTxs_def NewBlockWithBlockHeader_def ToTransactions_def)
qed

lemma getBlock_same:
  assumes "ch_headers c' h = ch_headers c h" "ch_txHashs c' h = ch_txHashs c h"
    and "\<And>hashs v. ch_txHashs c h = Some hashs \<Longrightarrow> v \<in> set hashs \<Longrightarrow> tx_at c' v = tx_at c v"
  shows "getBlock h c' = getBlock h c"
proof (cases "ch_headers c h")
  case None
  then show ?thesis using assms(1) getBlock_None by metis
next
  case (Some header)
  note hd = this
  show ?thesis
  proof (cases "ch_txHashs c h")
    case None
    then show ?thesis using hd assms(1,2) by (simp add: getBlock_def getHeader_def getTransactions_def)
  next
    case (Some hashs)
    have "List.map_filter (tx_at c') hashs = List.map_filter (tx_at c) hashs"
      using assms(3) [OF Some] by (induction hashs) (simp_all split: option.split)
    then show ?thesis using getBlock_tx_at [OF hd Some] getBlock_tx_at [of c' h header hashs] hd Some assms(1,2) by simp
  qed
qed

lemma putBlock_parts:
  assumes "no_clash hs b c" "putBlock hs b c = Inr c'"
  shows "ch_headers c' = (ch_headers c)(blockHash hs b \<mapsto> bl_header b)"
    "ch_txHashs c' = (ch_txHashs c)(blockHash hs b \<mapsto> map (hs_tx hs) (bl_transactions b))"
    "ch_tds c' = ch_tds c" "ch_legitimate c' = ch_legitimate c"
    "\<forall>tx \<in> set (bl_transactions b). tx_at c' (hs_tx hs tx) = Some (decoded_tx tx)"
    "\<forall>h. h \<notin> hs_tx hs ` set (bl_transactions b) \<longrightarrow> tx_at c' h = tx_at c h"
proof -
  let ?h = "blockHash hs b" and ?txs = "bl_transactions b"
  obtain c1 c2 where c1: "putHeader hs (bl_header b) c = Inr c1" and c2: "putTransactions_loop hs ?h (blockHeight b) 0 ?txs c1 = Inr c2"
    and c': "c' = c2\<lparr>ch_txHashs := (ch_txHashs c2)(?h \<mapsto> map (hs_tx hs) ?txs)\<rparr>"
    using assms(2) by (auto simp: putBlock_def putTransactions_def)
  have h1: "ch_headers c1 = (ch_headers c)(?h \<mapsto> bl_header b)" "ch_txHashs c1 = ch_txHashs c" "ch_txs c1 = ch_txs c" "ch_tds c1 = ch_tds c"
    "ch_legitimate c1 = ch_legitimate c"
    using c1 by (auto simp: putHeader_def Let_def split: if_splits)
  have nc: "tx \<in> set ?txs \<Longrightarrow> tx' \<in> set ?txs \<Longrightarrow> hs_tx hs tx = hs_tx hs tx' \<Longrightarrow> decoded_tx tx = decoded_tx tx'" for tx tx'
    using assms(1) unfolding no_clash_def by blast
  have tx: "ch_txs c2 = ch_txs c'" by (simp add: c')
  have T: "(\<forall>tx \<in> set ?txs. tx_at c' (hs_tx hs tx) = Some (decoded_tx tx)) \<and> (\<forall>h. h \<notin> hs_tx hs ` set ?txs \<longrightarrow> tx_at c' h = tx_at c h)"
    by (rule putTransactions_loop_txs [OF c2, unfolded h1(3) tx]) (rule nc)
  from T show "\<forall>tx \<in> set ?txs. tx_at c' (hs_tx hs tx) = Some (decoded_tx tx)" by (rule conjunct1)
  from T show "\<forall>h. h \<notin> hs_tx hs ` set ?txs \<longrightarrow> tx_at c' h = tx_at c h" by (rule conjunct2)
  show "ch_headers c' = (ch_headers c)(?h \<mapsto> bl_header b)" "ch_txHashs c' = (ch_txHashs c)(?h \<mapsto> map (hs_tx hs) ?txs)"
    "ch_tds c' = ch_tds c" "ch_legitimate c' = ch_legitimate c"
    using putTransactions_loop_other [OF c2] h1 by (simp_all add: c')
qed

lemma putBlock_keeps_txs:
  assumes "no_clash hs b c" "putBlock hs b c = Inr c'" "v \<in> dom (ch_txs c)"
  shows "tx_at c' v = tx_at c v"
proof (cases "v \<in> hs_tx hs ` set (bl_transactions b)")
  case True
  then obtain w where w: "w \<in> set (bl_transactions b)" "v = hs_tx hs w" by auto
  obtain st where st: "ch_txs c v = Some st" using assms(3) by auto
  then have "sx_Tx st = decoded_tx w" using assms(1) w unfolding no_clash_def by blast
  moreover have "tx_at c' v = Some (decoded_tx w)" using putBlock_parts(5) [OF assms(1,2)] w by blast
  ultimately show ?thesis using st by simp
qed (use putBlock_parts(6) [OF assms(1,2)] in blast)

lemma putBlock_block_at:
  assumes "chain_ok hs c" "no_clash hs b c" "putBlock hs b c = Inr c'"
  shows "block_at c' = (block_at c)(blockHash hs b \<mapsto> stored_block b)"
proof -
  let ?h = "blockHash hs b"
  note p = putBlock_parts [OF assms(2,3)]
  have "getBlock h c' = getBlock h c" if h: "h \<noteq> ?h" for h
  proof (rule getBlock_same)
    show "ch_headers c' h = ch_headers c h" "ch_txHashs c' h = ch_txHashs c h" using h p by simp_all
    show "tx_at c' v = tx_at c v" if v: "ch_txHashs c h = Some hashs" "v \<in> set hashs" for hashs v
    proof (rule putBlock_keeps_txs [OF assms(2,3)])
      have "set hashs \<subseteq> dom (ch_txs c)" using v(1) assms(1) unfolding chain_ok_def by blast
      then show "v \<in> dom (ch_txs c)" using v(2) by blast
    qed
  qed
  moreover have "getBlock ?h c' = Some (stored_block b)"
    using getBlock_tx_at [of c' ?h "bl_header b" "map (hs_tx hs) (bl_transactions b)"] map_filter_all [where f = "tx_at c'" and g = "hs_tx hs" and k = decoded_tx, OF p(5)] p(1,2) by (simp add: stored_block_def)
  ultimately show ?thesis by (simp add: fun_eq_iff)
qed

lemma putBlock_chain_ok:
  assumes "chain_ok hs c" "no_clash hs b c" "putBlock hs b c = Inr c'"
  shows "chain_ok hs c'"
proof -
  let ?txs = "bl_transactions b"
  note p = putBlock_parts [OF assms(2,3)]
  have "v \<in> dom (ch_txs c')" if "v \<in> dom (ch_txs c) \<union> hs_tx hs ` set ?txs" for v
    using that
  proof
    assume "v \<in> dom (ch_txs c)"
    with putBlock_keeps_txs [OF assms(2,3) this] show ?thesis by auto
  next
    assume "v \<in> hs_tx hs ` set ?txs"
    then show ?thesis using p(5) by fastforce
  qed
  then have sub: "dom (ch_txs c) \<subseteq> dom (ch_txs c')" "hs_tx hs ` set ?txs \<subseteq> dom (ch_txs c')" by blast+
  have "set hashs \<subseteq> dom (ch_txs c')" if hashs: "ch_txHashs c' h = Some hashs" for h hashs
  proof (cases "h = blockHash hs b")
    case True
    then have "hashs = map (hs_tx hs) ?txs" using hashs p(2) by simp
    then show ?thesis using sub(2) by simp
  next
    case False
    then have "ch_txHashs c h = Some hashs" using hashs p(2) by simp
    then have "set hashs \<subseteq> dom (ch_txs c)" using assms(1) unfolding chain_ok_def by blast
    then show ?thesis using sub(1) by blast
  qed
  moreover have "hs_header hs header = h" if "ch_headers c' h = Some header" for h header
    using that assms(1) p(1) by (auto simp: chain_ok_def split: if_splits)
  ultimately show ?thesis by (simp add: chain_ok_def)
qed

lemmas putBlock_ok = putBlock_block_at putBlock_chain_ok

lemma putReceipts_loop_other:
  "putReceipts_loop hashs rs c = Inr c' \<Longrightarrow> ch_headers c' = ch_headers c \<and> ch_txHashs c' = ch_txHashs c \<and> ch_txs c' = ch_txs c
     \<and> ch_tds c' = ch_tds c \<and> ch_legitimate c' = ch_legitimate c \<and> ch_lastBlock c' = ch_lastBlock c"
  by (induction hashs rs c rule: putReceipts_loop.induct) (auto simp: putReceipt_def)


lemma same_blocks:
  assumes "ch_headers c' = ch_headers c" "ch_txHashs c' = ch_txHashs c" "ch_txs c' = ch_txs c"
  shows "block_at c' = block_at c" "chain_ok hs c' = chain_ok hs c"
  unfolding getBlock_def getHeader_def getTransactions_def getTransaction_def chain_ok_def assms by (rule refl)+

lemma putReceipts_ok:
  assumes "putReceipts h rs c = Inr c'"
  shows "block_at c' = block_at c" "chain_ok hs c' = chain_ok hs c" "ch_tds c' = ch_tds c" "ch_legitimate c' = ch_legitimate c" "ch_txHashs c' = ch_txHashs c"
proof -
  have "ch_headers c' = ch_headers c \<and> ch_txHashs c' = ch_txHashs c \<and> ch_txs c' = ch_txs c \<and> ch_tds c' = ch_tds c \<and> ch_legitimate c' = ch_legitimate c"
    using assms putReceipts_loop_other [of _ rs c c'] by (auto simp: putReceipts_def split: option.splits)
  then show "block_at c' = block_at c" "chain_ok hs c' = chain_ok hs c" "ch_tds c' = ch_tds c" "ch_legitimate c' = ch_legitimate c" "ch_txHashs c' = ch_txHashs c"
    using same_blocks [of c' c] by simp_all
qed

lemma no_clash_block: "no_clash hs b c \<Longrightarrow> getBlock (blockHash hs b) c = None \<or> getBlock (blockHash hs b) c = Some (stored_block b)"
  unfolding no_clash_def by (cases "getBlock (blockHash hs b) c") blast+

lemma in_front_stored:
  assumes "lru.in_front k (block_at c)" "no_clash hs b c" "block_at c' = (block_at c)(blockHash hs b \<mapsto> stored_block b)"
  shows "lru.in_front k (block_at c')"
  unfolding assms(3) using assms(1) no_clash_block [OF assms(2)] by (rule lru.in_front_store)

lemma WriteBlockAndReceipts_ok:
  assumes "ledger_ok hs l" "no_clash hs b (led_chain l)" "WriteBlockAndReceipts hs b rs l = Inr l'"
  shows "ledger_ok hs l'" "block_at (led_chain l') = (block_at (led_chain l))(blockHash hs b \<mapsto> stored_block b)"
    "ch_tds (led_chain l') = ch_tds (led_chain l)" "ch_legitimate (led_chain l') = ch_legitimate (led_chain l)" "futureBlocks l' = futureBlocks l"
proof -
  obtain c c1 where c: "putBlock hs b (led_chain l) = Inr c" "putReceipts (blockHash hs b) rs c = Inr c1" "l' = l\<lparr>led_chain := c1\<rparr>"
    using assms(3) by (auto simp: WriteBlockAndReceipts_def)
  have ok: "chain_ok hs (led_chain l)" "lru.in_front (blockCache l) (block_at (led_chain l))" using assms(1) by (simp_all add: ledger_ok_def)
  note p = putBlock_ok [OF ok(1) assms(2) c(1)] putBlock_parts(3,4) [OF assms(2) c(1)] and r = putReceipts_ok [OF c(2)]
  show "block_at (led_chain l') = (block_at (led_chain l))(blockHash hs b \<mapsto> stored_block b)" "ch_tds (led_chain l') = ch_tds (led_chain l)"
    "ch_legitimate (led_chain l') = ch_legitimate (led_chain l)" "futureBlocks l' = futureBlocks l"
    using p r by (simp_all add: c(3))
  then show "ledger_ok hs l'" using assms(1) in_front_stored [OF ok(2) assms(2), of c1] p(2,3) r(2,3) by (simp add: ledger_ok_def c(3))
qed

lemma WriteTd_ok:
  assumes "ledger_ok hs l" "WriteTd h td l = Inr l'"
  shows "ledger_ok hs l'" "block_at (led_chain l') = block_at (led_chain l)" "ch_tds (led_chain l') = (ch_tds (led_chain l))(h \<mapsto> td)"
    "ch_legitimate (led_chain l') = ch_legitimate (led_chain l)" "futureBlocks l' = futureBlocks l"
proof -
  let ?c = "led_chain l\<lparr>ch_tds := (ch_tds (led_chain l))(h \<mapsto> td)\<rparr>"
  have l': "l' = l\<lparr>led_chain := ?c, tdCache := snd (cache_Add h td (tdCache l))\<rparr>"
    using assms(2) by (auto simp: WriteTd_def putTd_def split: if_splits)
  have b: "block_at ?c = block_at (led_chain l)" "chain_ok hs ?c = chain_ok hs (led_chain l)" using same_blocks [of ?c "led_chain l"] by simp_all
  then show "ledger_ok hs l'" using assms(1) lru.in_front_write [of "tdCache l" "ch_tds (led_chain l)" h td] by (simp add: ledger_ok_def l')
  show "block_at (led_chain l') = block_at (led_chain l)" "ch_tds (led_chain l') = (ch_tds (led_chain l))(h \<mapsto> td)"
    "ch_legitimate (led_chain l') = ch_legitimate (led_chain l)" "futureBlocks l' = futureBlocks l" using b by (simp_all add: l')
qed

lemma WriteHead_ok:
  assumes "ledger_ok hs l"
  shows "ledger_ok hs (WriteLegitimateHashAndHeadBlockHash n h l)"
    "block_at (led_chain (WriteLegitimateHashAndHeadBlockHash n h l)) = block_at (led_chain l)"
proof -
  let ?c = "putHeadBlockHash h (putLegitimateHash n h (led_chain l))"
  have "block_at ?c = block_at (led_chain l)" "chain_ok hs ?c = chain_ok hs (led_chain l)"
    using same_blocks [of ?c "led_chain l"] by (simp_all add: putHeadBlockHash_def putLegitimateHash_def)
  then show "ledger_ok hs (WriteLegitimateHashAndHeadBlockHash n h l)"
    "block_at (led_chain (WriteLegitimateHashAndHeadBlockHash n h l)) = block_at (led_chain l)"
    using assms by (simp_all add: ledger_ok_def WriteLegitimateHashAndHeadBlockHash_def) (simp add: putHeadBlockHash_def putLegitimateHash_def)
qed

lemma cache_Remove_ok: "cache_ok c \<Longrightarrow> cache_ok (snd (cache_Remove k c))"
  using distinct_map_filter [of fst "evictList c"] le_trans [OF length_filter_le] by (auto simp: cache_ok_def cache_Remove_def)

lemma future_ok:
  assumes "ledger_ok hs l"
  shows "ledger_ok hs (snd (PutFutureBlock hs now b l))" "ledger_ok hs (RemoveFutureBlock h l)"
  using assms cache_Add_ok(1) [of "futureBlocks l"] cache_Remove_ok [of "futureBlocks l"]
  by (simp_all add: ledger_ok_def PutFutureBlock_def RemoveFutureBlock_def)

lemma newLedger_ok: "chain_ok hs c \<Longrightarrow> ledger_ok hs (newLedger tds blocks futures c)"
  by (simp add: ledger_ok_def newLedger_def NewUnLockCache_def cache_limit_def lru.in_front_def cache_ok_def)

text \<open>C13: The operations by which a chain reads and extends the ledger keep its caches well formed and in agreement with the
  database, from a new ledger on: a read returns what the database has, and no write leaves an entry that differs from it, as
  long as a block is not written under a hash that stands for something else. \<open>DeleteBlock\<close> and \<open>WriteBlockAndTd\<close>, which pass
  by the cache of the difficulties, are not among them.\<close>

theorem ledger_stays_coherent:
  assumes "ledger_ok hs l"
  shows "fst (GetBlock hs h l) = getBlock h (led_chain l) \<and> ledger_ok hs (snd (GetBlock hs h l))
    \<and> fst (GetTd h l) = getTd h (led_chain l) \<and> ledger_ok hs (snd (GetTd h l))
    \<and> fst (ledger_GetHeader h l) = getHeader h (led_chain l) \<and> ledger_ok hs (snd (ledger_GetHeader h l))
    \<and> (\<forall>td l'. WriteTd h td l = Inr l' \<longrightarrow> ledger_ok hs l')
    \<and> (\<forall>b rs l'. no_clash hs b (led_chain l) \<longrightarrow> WriteBlockAndReceipts hs b rs l = Inr l' \<longrightarrow> ledger_ok hs l')
    \<and> ledger_ok hs (WriteLegitimateHashAndHeadBlockHash n h l)
    \<and> ledger_ok hs (snd (PutFutureBlock hs now b l)) \<and> ledger_ok hs (RemoveFutureBlock h l)"
proof -
  obtain r l1 where b: "GetBlock hs h l = (r, l1)" by fastforce
  obtain t l2 where t: "GetTd h l = (t, l2)" by fastforce
  obtain hd l3 where hd: "ledger_GetHeader h l = (hd, l3)" by fastforce
  have "r = getBlock h (led_chain l)" "ledger_ok hs l1" "t = getTd h (led_chain l)" "ledger_ok hs l2" "hd = getHeader h (led_chain l)" "ledger_ok hs l3"
    using GetBlock_ok [OF assms b] GetTd_ok [OF assms t] ledger_GetHeader_ok [OF assms hd] by (simp_all add: reads_only_def getTd_def getHeader_def)
  then show ?thesis
    using WriteTd_ok(1) [OF assms] WriteBlockAndReceipts_ok(1) [OF assms] WriteHead_ok(1) [OF assms] future_ok [OF assms] by (simp add: b t hd)
qed


section \<open>Rewinding\<close>

lemma fold_delete_parts:
  "ch_headers (fold deleteTransaction hashs c) = ch_headers c" "ch_lastBlock (fold deleteTransaction hashs c) = ch_lastBlock c"
  "ch_headers (fold deleteReceipt hashs c) = ch_headers c" "ch_lastBlock (fold deleteReceipt hashs c) = ch_lastBlock c"
  by (induction hashs arbitrary: c) (simp_all add: deleteTransaction_def deleteReceipt_def)

lemma deleteBlock_parts:
  "ch_headers (deleteBlock h c) = (ch_headers c)(h := None)" "ch_lastBlock (deleteBlock h c) = ch_lastBlock c"
  by (simp_all add: deleteBlock_def deleteTd_def deleteTransactions_def deleteHeader_def deleteReceipts_def Let_def fold_delete_parts split: option.splits)

text \<open>C36: A chain cannot be rewound: \<open>RewindChain\<close> deletes the head and looks for the head again, which is not there. It
  panics unless the head is below the target, so \<open>ResetChain\<close>, whose target is 0, always panics, and a
  database without its head block cannot be repaired by \<open>CheckLastBlock\<close>.\<close>

theorem rewinding_panics:
  assumes "chain_ok hs (led_chain l)" "2 \<le> fuel"
  shows "(RewindChain fuel hs height l = Inl (VMPanic NilDeref)
      \<or> (\<exists>head. getBlock (getHeadBlockHash (led_chain l)) (led_chain l) = Some head \<and> blockHeight head < height \<and> RewindChain fuel hs height l = Inr l))
    \<and> ResetChain fuel hs genesis l = Inl (VMPanic NilDeref)
    \<and> (getHeadBlockHash (led_chain l) = 0 \<longrightarrow> CheckLastBlock fuel hs genesis l = Inl (VMPanic NilDeref))"
proof -
  obtain f where f: "fuel = Suc (Suc f)" using assms(2) by (metis Suc_le_D numeral_2_eq_2 Suc_le_mono)
  let ?h = "getHeadBlockHash (led_chain l)"
  have gone: "getBlock ?h (deleteBlock ?h (led_chain l)) = None" "getHeadBlockHash (deleteBlock ?h (led_chain l)) = ?h"
    using deleteBlock_parts [of ?h "led_chain l"] by (simp_all add: getBlock_None getHeadBlockHash_def)
  have r: "RewindChain fuel hs height l = Inl (VMPanic NilDeref)
      \<or> (\<exists>head. getBlock ?h (led_chain l) = Some head \<and> blockHeight head < height \<and> RewindChain fuel hs height l = Inr l)" for height
    using gone getBlock_hash [OF assms(1), of ?h] by (auto simp: f split: option.splits)
  moreover have reset: "ResetChain fuel hs genesis l = Inl (VMPanic NilDeref)" using r [of 0] by (auto simp: ResetChain_def)
  moreover have "CheckLastBlock fuel hs genesis l = Inl (VMPanic NilDeref)" if "?h = 0" using that reset by (simp add: CheckLastBlock_def)
  ultimately show ?thesis by blast
qed

section \<open>A small ledger\<close>

definition demo_hashes :: hashes where
  "demo_hashes = \<lparr>hs_header = \<lambda>h. word_of_int (Height h) + 1, hs_tx = \<lambda>tx. ucast (tx_Nonce tx)\<rparr>"

definition demo_tx :: "u64 \<Rightarrow> Transaction" where
  "demo_tx n = \<lparr>tx_Type = Binary, tx_Nonce = n, tx_GasPrice = 0, tx_GasLimit = 0, tx_Tos = None, tx_Value = 0, tx_Payload = [], tx_Signature = []\<rparr>"

definition demo_block :: "int \<Rightarrow> u64 list \<Rightarrow> Block" where
  "demo_block n txs = \<lparr>bl_header = \<lparr>PreviousHash = word_of_int n, Miner = 0, StateRoot = 0, ActionsRoot = 0, TransactionsRoot = 0, ReceiptsRoot = 0,
       hd_DposContext = \<lparr>EpochHash = 0, DelegateHash = 0, CandidateHash = 0, VoteHash = 0, MintCntHash = 0\<rparr>,
       LogsBloom = [], hd_Difficulty = 1, Height = n, hd_GasLimit = 0, hd_GasUsed = 0, TimeStamp = n, ExtraData = [], hd_Nonce = 0\<rparr>,
     bl_actions = [], bl_transactions = map demo_tx txs, bl_DposContext = None\<rparr>"


definition demo_ledger :: Ledger where
  "demo_ledger = newLedger 0 0 0 empty_chain"

lemma demo_ledger_ok: "ledger_ok demo_hashes demo_ledger"
  unfolding demo_ledger_def by (rule newLedger_ok) (simp add: chain_ok_def empty_chain_def)

lemma demo_chain: "led_chain demo_ledger = empty_chain"
  by (simp add: demo_ledger_def newLedger_def)

theorem ledger_stays_coherent_witness:
  "ledger_ok demo_hashes (WriteLegitimateHashAndHeadBlockHash 0 1 demo_ledger) \<and> fst (GetBlock demo_hashes 1 demo_ledger) = None"
proof -
  have "getBlock 1 (led_chain demo_ledger) = None" by (simp add: demo_chain empty_chain_def getBlock_None)
  then show ?thesis using ledger_stays_coherent [OF demo_ledger_ok, of 1 0 0 "demo_block 0 []"] by simp
qed



theorem rewinding_panics_witness: "ResetChain 2 demo_hashes (demo_block 0 []) demo_ledger = Inl (VMPanic NilDeref)"
  using rewinding_panics [of demo_hashes demo_ledger 2] demo_ledger_ok by (simp add: ledger_ok_def)

end
