(* ===== verification/ValidatorProps.thy ===== *)
theory ValidatorProps
  imports Validator LedgerProps DposProps
begin

text \<open>
  What the development shows of the validator: what an accepted header satisfies, that the gas limit a miner computes is accepted, and what is
  not checked.
\<close>

section \<open>Gas limits\<close>

lemma sint_uint_small: "x \<le> 0x7fffffffffffffff \<Longrightarrow> sint (x :: u64) = uint x"
proof -
  assume "x \<le> 0x7fffffffffffffff"
  then have "uint x < 2 ^ 63" by (simp add: word_le_def)
  then have "signed_take_bit 63 (uint x) = uint x" using uint_ge_0 [of x] by (intro signed_take_bit_int_eq_self; linarith)
  then show ?thesis by (simp add: sint_uint)
qed

lemma wrap_int64_id: "- (2 ^ 63) \<le> x \<Longrightarrow> x < 2 ^ 63 \<Longrightarrow> wrap_int64 x = x"
  unfolding wrap_int64_def by (rule signed_take_bit_int_eq_self) simp_all

lemma gas_limit_diff_exact:
  assumes "a \<le> 0x7fffffffffffffff" "b \<le> 0x7fffffffffffffff"
  shows "uint (gas_limit_diff a b) = \<bar>uint a - uint b\<bar>"
proof -
  have u: "uint a < 2 ^ 63" "uint b < 2 ^ 63" "0 \<le> uint a" "0 \<le> uint b" using assms by (simp_all add: word_le_def)
  have w: "wrap_int64 (uint a - uint b) = uint a - uint b" using u by (intro wrap_int64_id; linarith)
  have w': "wrap_int64 (- (uint a - uint b)) = - (uint a - uint b)" using u by (intro wrap_int64_id; linarith)
  have "gas_limit_diff a b = word_of_int \<bar>uint a - uint b\<bar>"
    unfolding gas_limit_diff_def Let_def sint_uint_small [OF assms(1)] sint_uint_small [OF assms(2)] w w' by (simp add: abs_if)
  moreover have "uint (word_of_int \<bar>uint a - uint b\<bar> :: u64) = \<bar>uint a - uint b\<bar>"
  proof -
    have "\<bar>uint a - uint b\<bar> < 2 ^ 63" using u by linarith
    then have "\<bar>uint a - uint b\<bar> < 2 ^ 64" by simp
    then show ?thesis by (simp add: uint_word_of_int_eq take_bit_int_eq_self)
  qed
  ultimately show ?thesis by simp
qed

text \<open>The gas limit of a header may differ from its parent's by less than the 1024th part of that.\<close>

definition gas_limit_ok :: "u64 \<Rightarrow> u64 \<Rightarrow> bool" where
  "gas_limit_ok parent limit \<longleftrightarrow> MinGasLimit \<le> limit \<and> \<bar>uint parent - uint limit\<bar> < uint parent div 1024"

lemma gas_limit_check:
  assumes "parent \<le> 0x7fffffffffffffff" "limit \<le> 0x7fffffffffffffff"
  shows "(gas_limit_diff parent limit \<ge> parent div GasLimitBoundDivisor \<or> limit < MinGasLimit) \<longleftrightarrow> \<not> gas_limit_ok parent limit"
  using gas_limit_diff_exact [OF assms] by (auto simp: gas_limit_ok_def word_le_def word_less_def GasLimitBoundDivisor_def uint_div)

section \<open>Accepted headers\<close>

text \<open>C14: A header that is accepted with its seal is a block after its parent: one higher and later, with bounded
  extra data, with the gas used within the limit and the limit close to the parent's, and signed by its miner, who is the
  validator of its time.\<close>

theorem accepted_header_is_sealed:
  assumes "ledger_ok hs l" "ch_headers (led_chain l) (hashOf e header) = None" "ValidateHeader fuel e header True l d = Inr (None, l', d')"
  shows "\<exists>parent. ch_headers (led_chain l) (PreviousHash header) = Some parent
    \<and> Height header = Height parent + 1 \<and> TimeStamp parent < TimeStamp header \<and> length (ExtraData header) \<le> 97
    \<and> hd_GasUsed header \<le> hd_GasLimit header \<and> hd_GasLimit header \<le> 0x7fffffffffffffff
    \<and> (hd_GasLimit parent \<le> 0x7fffffffffffffff \<longrightarrow> gas_limit_ok (hd_GasLimit parent) (hd_GasLimit header))
    \<and> (\<exists>p. GetBlockByHash (de_chain e) (PreviousHash header) = Some p \<and> hashOf e p = PreviousHash header \<and> sealed_by fuel e p header)"
proof -
  obtain r1 l1 where r1: "ledger_GetHeader (hashOf e header) l = (r1, l1)" by fastforce
  obtain r2 l2 where r2: "ledger_GetHeader (PreviousHash header) l1 = (r2, l2)" by fastforce
  note h1 = ledger_GetHeader_ok [OF assms(1) r1]
  have n: "r1 = None" and l1: "ledger_ok hs l1" "led_chain l1 = led_chain l" using h1 assms(2) by (simp_all add: reads_only_def)
  have p2: "r2 = ch_headers (led_chain l) (PreviousHash header)" using ledger_GetHeader_ok(1) [OF l1(1) r2] l1(2) by simp
  note v = assms(3) [unfolded ValidateHeader_def r1 n prod.case option.case r2]
  obtain parent where p: "r2 = Some parent" using v by (cases r2) auto
  obtain dif d1 where d1: "CalcDifficulty e (Uint64 (TimeStamp header)) d = Inr (dif, d1)"
    using v by (auto simp: p split: if_splits)
  have "VerifySeal fuel e header d1 = Inr (None, d')" "Height header = Height parent + 1" "TimeStamp parent < TimeStamp header"
    "length (ExtraData header) \<le> 97" "hd_GasUsed header \<le> hd_GasLimit header" "hd_GasLimit header \<le> 0x7fffffffffffffff"
    "\<not> (gas_limit_diff (hd_GasLimit parent) (hd_GasLimit header) \<ge> hd_GasLimit parent div GasLimitBoundDivisor \<or> hd_GasLimit header < MinGasLimit)"
    using v by (auto simp: p d1 MaxExtraDataSize_def split: if_splits)
  then show ?thesis using VerifySeal_accepts gas_limit_check [of "hd_GasLimit parent" "hd_GasLimit header"] p p2 by (intro exI [of _ parent]) auto
qed

text \<open>The fourth block of the three validators on a store that has the third.\<close>

definition demo_sealed :: BlockHeader where
  "demo_sealed = demo_header 4\<lparr>ExtraData := replicate 65 8, hd_Difficulty := 49, hd_GasLimit := 5000000\<rparr>"

definition demo_parents :: Ledger where
  "demo_parents = newLedger 0 0 0 (empty_chain\<lparr>ch_headers := [4 \<mapsto> demo_header 3\<lparr>hd_GasLimit := 5000000\<rparr>]\<rparr>)"

lemma demo_parents_ok: "ledger_ok demo_hashes demo_parents"
  unfolding demo_parents_def by (rule newLedger_ok) (simp add: chain_ok_def empty_chain_def demo_hashes_def demo_header_def)

lemma demo_parents_headers: "ch_headers (led_chain demo_parents) = [4 \<mapsto> demo_header 3\<lparr>hd_GasLimit := 5000000\<rparr>]"
  by (simp add: demo_parents_def newLedger_def empty_chain_def)

lemma demo_seal_verifies: "\<exists>d'. VerifySeal 8 demo_env demo_sealed demo_dpos = Inr (None, d')"
proof -
  have "Int64 (TimeStamp demo_sealed) = Int64 (TimeStamp (demo_header 4))" "Miner demo_sealed = 8" "PreviousHash demo_sealed = 4"
    "ecrecover demo_env demo_sealed = Inr (Inr 8)"
    by (simp_all add: demo_sealed_def demo_defs ecrecover_def sigHash_def extraSeal_def pubkey_address_def)
  moreover have "GetBlockByHash (de_chain demo_env) 4 = Some (demo_header 3)" "hashOf demo_env (demo_header 3) = 4" by (simp_all add: demo_defs)
  ultimately show ?thesis using demo_scheduled(1) demo_confirms
    by (auto simp: VerifySeal_def lift_panic_def IsDpos_def GetValidators_def SetValidators_def)
qed

lemma demo_header_accepted: "\<exists>l' d'. ValidateHeader 8 demo_env demo_sealed True demo_parents demo_dpos = Inr (None, l', d')"
proof -
  obtain r1 l1 where r1: "ledger_GetHeader 5 demo_parents = (r1, l1)" by fastforce
  obtain r2 l2 where r2: "ledger_GetHeader 4 l1 = (r2, l2)" by fastforce
  have l1: "r1 = None" "ledger_ok demo_hashes l1" "led_chain l1 = led_chain demo_parents"
    using ledger_GetHeader_ok [OF demo_parents_ok r1] by (simp_all add: demo_parents_headers reads_only_def)
  have l2: "r2 = Some (demo_header 3\<lparr>hd_GasLimit := 5000000\<rparr>)" using ledger_GetHeader_ok(1) [OF l1(2) r2] by (simp add: l1(3) demo_parents_headers)
  have "CalcDifficulty demo_env (Uint64 (TimeStamp demo_sealed)) demo_dpos = Inr (49, demo_dpos)"
    by (simp add: CalcDifficulty_def demo_sealed_def demo_defs Uint64_def wrap_int64_def default_Option_fields)
  moreover have "hashOf demo_env demo_sealed = 5" "PreviousHash demo_sealed = 4" "length (ExtraData demo_sealed) = 65" "TimeStamp demo_sealed = 114000000000" "hd_Difficulty demo_sealed = 49"
    "hd_GasLimit demo_sealed = 5000000" "hd_GasUsed demo_sealed = 0" "Height demo_sealed = 4" "TimeStamp (demo_header 3) = 108000000000" "Height (demo_header 3) = 3"
    by (simp_all add: demo_sealed_def demo_defs)
  moreover have "gas_limit_diff 5000000 5000000 = 0" "(5000000 :: u64) div GasLimitBoundDivisor = 4882" by (simp_all add: gas_limit_diff_def wrap_int64_def GasLimitBoundDivisor_def)
  ultimately show ?thesis using r1 r2 demo_seal_verifies by (auto simp: ValidateHeader_def l1(1) l2 MaxExtraDataSize_def MinGasLimit_def)
qed

theorem accepted_header_is_sealed_witness:
  "gas_limit_ok 5000000 (hd_GasLimit demo_sealed) \<and> sealed_by 8 demo_env (demo_header 3) demo_sealed"
proof -
  obtain l' d' where v: "ValidateHeader 8 demo_env demo_sealed True demo_parents demo_dpos = Inr (None, l', d')" using demo_header_accepted by blast
  have "hashOf demo_env demo_sealed = 5" "PreviousHash demo_sealed = 4" "GetBlockByHash (de_chain demo_env) 4 = Some (demo_header 3)"
    by (simp_all add: demo_sealed_def demo_defs)
  then show ?thesis using accepted_header_is_sealed [OF demo_parents_ok _ v] by (auto simp: demo_parents_headers)
qed

section \<open>The gas limit of the next block\<close>

lemma CalcGasLimit_nat:
  assumes "unat limit < 2 ^ 62" "unat used \<le> unat limit" "1024 \<le> unat limit"
    and "c = (unat used + unat used div 2) div 1024" "d = unat limit div 1024 - 1" "L = unat limit - d + c"
  shows "unat ((used + used div 2) div GasLimitBoundDivisor) = c" "unat (limit div GasLimitBoundDivisor - 1) = d"
    "unat (limit - (limit div GasLimitBoundDivisor - 1) + (used + used div 2) div GasLimitBoundDivisor) = L" "unat (limit + (limit div GasLimitBoundDivisor - 1)) = unat limit + d"
proof -
  have h: "unat (used + used div 2) = unat used + unat used div 2" using assms(1,2) by (subst unat_add_lem [THEN iffD1]) (simp_all add: unat_div)
  then show c: "unat ((used + used div 2) div GasLimitBoundDivisor) = c" by (simp add: GasLimitBoundDivisor_def unat_div assms(4))
  have g: "unat (limit div GasLimitBoundDivisor) = unat limit div 1024" by (simp add: GasLimitBoundDivisor_def unat_div)
  have "1 \<le> unat limit div 1024" using assms(3) by simp
  then show d: "unat (limit div GasLimitBoundDivisor - 1) = d" using g assms(5) by (subst unat_sub) (simp_all add: word_le_nat_alt)
  have "d \<le> unat limit" using assms(5) by simp
  then have m: "unat (limit - (limit div GasLimitBoundDivisor - 1)) = unat limit - d" using d by (subst unat_sub) (simp_all add: word_le_nat_alt)
  have "c < 2 ^ 62" using assms(1,2,4) by simp
  then show "unat (limit - (limit div GasLimitBoundDivisor - 1) + (used + used div 2) div GasLimitBoundDivisor) = L"
    using c m assms(1,6) by (subst unat_add_lem [THEN iffD1]) simp_all
  show "unat (limit + (limit div GasLimitBoundDivisor - 1)) = unat limit + d" using d assms(1,5) by (subst unat_add_lem [THEN iffD1]) simp_all
qed

lemma gas_limit_window:
  assumes "1000000 \<le> n" "n < 2 ^ 62" "u \<le> n" "d = n div 1024 - 1" "c = (u + u div 2) div 1024" "L = n - d + c"
    and "R = (if (if L < 1000000 then 1000000 else L) < 5000000 then (if n + d > 5000000 then 5000000 else n + d) else if L < 1000000 then 1000000 else L)"
  shows "1000000 \<le> R" "\<bar>int n - int R\<bar> < int n div 1024" "R < (2 ^ 63 :: nat)"
proof -
  have q: "976 \<le> n div 1024" using assms(1) by simp
  have c: "c \<le> n div 1024 + n div 2048 + 1" using assms(3,5) by linarith
  have d: "d + 1 = n div 1024" using q assms(4) by simp
  have h: "2 * (n div 2048) \<le> n div 1024" "n div 1024 \<le> n" by linarith+
  have L: "n - d \<le> L" "L \<le> n + n div 2048 + 2" using assms(6) c d h by linarith+
  have "n - d \<le> R \<and> R \<le> n + d \<and> 1000000 \<le> R"
    using L d q h assms(1) unfolding assms(7) by auto
  then have R: "n - d \<le> R" "R \<le> n + d" "1000000 \<le> R" by simp_all
  show "1000000 \<le> R" by (rule R(3))
  have "\<bar>int n - int R\<bar> \<le> int d" using R(1,2) by linarith
  also have "\<dots> < int (n div 1024)" using d by linarith
  finally show "\<bar>int n - int R\<bar> < int n div 1024" by (simp add: zdiv_int)
  have "R \<le> 2 * n" using R(2) d h by linarith
  then show "R < (2 ^ 63 :: nat)" using assms(2) by simp
qed

text \<open>C31: The gas limit that a miner computes for the next block is one that the validator accepts, from every
  parent whose limit is at least the minimum and below 2 to the power 62, and whose gas used is within it.\<close>

theorem computed_gas_limit_is_accepted:
  assumes "MinGasLimit \<le> hd_GasLimit (bl_header parent)" "unat (hd_GasLimit (bl_header parent)) < 2 ^ 62" "hd_GasUsed (bl_header parent) \<le> hd_GasLimit (bl_header parent)"
  shows "gas_limit_ok (hd_GasLimit (bl_header parent)) (CalcGasLimit parent) \<and> CalcGasLimit parent \<le> 0x7fffffffffffffff"
proof -
  let ?limit = "hd_GasLimit (bl_header parent)" and ?used = "hd_GasUsed (bl_header parent)"
  define n where "n = unat ?limit"
  define c where "c = (unat ?used + unat ?used div 2) div 1024"
  define d where "d = n div 1024 - 1"
  define L where "L = n - d + c"
  have n: "1000000 \<le> n" "n < 2 ^ 62" "unat ?used \<le> n" using assms by (simp_all add: n_def word_le_nat_alt MinGasLimit_def)
  have "1024 \<le> n" using n(1) by simp
  note k = CalcGasLimit_nat [of ?limit ?used c d L, folded n_def, OF n(2,3) this c_def d_def L_def]
  have g: "unat MinGasLimit = 1000000" "unat GenesisGasLimit = 5000000" by (simp_all add: MinGasLimit_def GenesisGasLimit_def)
  define R where "R = (if (if L < 1000000 then 1000000 else L) < 5000000 then (if n + d > 5000000 then 5000000 else n + d) else if L < 1000000 then 1000000 else L)"
  have "unat (CalcGasLimit parent) = R"
    unfolding CalcGasLimit_def Let_def R_def word_less_nat_alt by (simp only: if_distrib [where f = unat] g k(3,4))
  moreover have R: "1000000 \<le> R" "\<bar>int n - int R\<bar> < int n div 1024" "R < 2 ^ 63"
    by (rule gas_limit_window [OF n d_def c_def L_def R_def])+
  moreover have "uint ?limit = int n" "uint (CalcGasLimit parent) = int R" unfolding uint_nat n_def calculation(1) by (rule refl)+
  ultimately show ?thesis by (simp add: gas_limit_ok_def MinGasLimit_def word_le_nat_alt)
qed

theorem computed_gas_limit_is_accepted_witness:
  "gas_limit_ok 5000000 (CalcGasLimit (demo_block 1 [] \<lparr>bl_header := (bl_header (demo_block 1 []))\<lparr>hd_GasLimit := 5000000, hd_GasUsed := 4000000\<rparr>\<rparr>))"
  using computed_gas_limit_is_accepted [of "demo_block 1 [] \<lparr>bl_header := (bl_header (demo_block 1 []))\<lparr>hd_GasLimit := 5000000, hd_GasUsed := 4000000\<rparr>\<rparr>"]
  by (simp add: MinGasLimit_def)

section \<open>Actions\<close>

definition forge :: "Action list \<Rightarrow> hash \<Rightarrow> Block \<Rightarrow> Block" where
  "forge actions root block = block\<lparr>bl_actions := actions, bl_header := (bl_header block)\<lparr>ActionsRoot := root\<rparr>\<rparr>"

lemma VerifySeal_root: "VerifySeal fuel e (header\<lparr>ActionsRoot := root\<rparr>) d = VerifySeal fuel e header d"
proof -
  let ?h = "header\<lparr>ActionsRoot := root\<rparr>"
  have "ecrecover e ?h = ecrecover e header" by (simp add: ecrecover_def sigHash_def)
  moreover have "PreviousHash ?h = PreviousHash header" "Miner ?h = Miner header" "TimeStamp ?h = TimeStamp header" by simp_all
  ultimately show ?thesis unfolding VerifySeal_def by (simp only:)
qed

text \<open>With a known parent and an unknown hash, the checks of a header depend on the parent in the store only.\<close>

definition header_checks :: "nat \<Rightarrow> dpos_env \<Rightarrow> BlockHeader \<Rightarrow> BlockHeader \<Rightarrow> Dpos \<Rightarrow> vm_fail + (validate_error option \<times> Dpos)" where
  "header_checks fuel e parent header d =
     (if length (ExtraData header) > MaxExtraDataSize + 65 then Inr (Some ErrExtraDataTooLong, d)
      else if TimeStamp header \<le> TimeStamp parent then Inr (Some ErrBlockTime, d)
      else rbind (CalcDifficulty e (Uint64 (TimeStamp header)) d) (\<lambda>(expected, d1).
        if expected \<noteq> hd_Difficulty header then Inr (Some ErrDifficulty, d1)
        else if hd_GasLimit header > 0x7fffffffffffffff then Inr (Some ErrGasLimitTooBig, d1)
        else if hd_GasUsed header > hd_GasLimit header then Inr (Some ErrGasUsed, d1)
        else if gas_limit_diff (hd_GasLimit parent) (hd_GasLimit header) \<ge> hd_GasLimit parent div GasLimitBoundDivisor
          \<or> hd_GasLimit header < MinGasLimit then Inr (Some ErrGasLimit, d1)
        else if Height header - Height parent \<noteq> 1 then Inr (Some ErrInvalidNumber, d1)
        else rbind (VerifySeal fuel e header d1) (\<lambda>(err, d2). Inr (map_option SealError err, d2))))"

lemma ValidateHeader_accepts:
  assumes "ledger_ok hs l" "ch_headers (led_chain l) (hashOf e header) = None"
  shows "(\<exists>l'. ValidateHeader fuel e header True l d = Inr (None, l', d'))
    \<longleftrightarrow> (\<exists>parent. ch_headers (led_chain l) (PreviousHash header) = Some parent \<and> header_checks fuel e parent header d = Inr (None, d'))"
proof -
  obtain r1 l1 where r1: "ledger_GetHeader (hashOf e header) l = (r1, l1)" by fastforce
  obtain r2 l2 where r2: "ledger_GetHeader (PreviousHash header) l1 = (r2, l2)" by fastforce
  have l1: "r1 = None" "ledger_ok hs l1" "led_chain l1 = led_chain l" using ledger_GetHeader_ok [OF assms(1) r1] assms(2) by (simp_all add: reads_only_def)
  have "r2 = ch_headers (led_chain l) (PreviousHash header)" using ledger_GetHeader_ok(1) [OF l1(2) r2] l1(3) by simp
  then have p: "ch_headers (led_chain l) (PreviousHash header) = r2" by simp
  show ?thesis
  proof (cases r2)
    case None
    then show ?thesis unfolding p by (simp add: ValidateHeader_def r1 l1(1) r2)
  next
    case (Some parent)
    have "ValidateHeader fuel e header True l d = rbind (header_checks fuel e parent header d) (\<lambda>(err, d2). Inr (err, l2, d2))"
      unfolding ValidateHeader_def header_checks_def r1 l1(1) prod.case option.case r2 Some
      by (cases "CalcDifficulty e (Uint64 (TimeStamp header)) d"; cases "VerifySeal fuel e header (snd (projr (CalcDifficulty e (Uint64 (TimeStamp header)) d)))")
        (simp_all add: split_beta)
    then show ?thesis unfolding p by (cases "header_checks fuel e parent header d") (auto simp: Some)
  qed
qed

lemma header_checks_root: "header_checks fuel e parent (header\<lparr>ActionsRoot := root\<rparr>) d = header_checks fuel e parent header d"
  unfolding header_checks_def by (simp add: VerifySeal_root cong: if_cong)

lemma ValidateTxs_accepts:
  assumes "ledger_ok hs l"
  shows "(\<exists>l'. ValidateTxs hs txsRoot hasState block l = (None, l'))
    \<longleftrightarrow> \<not> (ch_headers (led_chain l) (blockHash hs block) \<noteq> None \<and> hasState (StateRoot (bl_header block)))
      \<and> (\<exists>parent. getBlock (PreviousHash (bl_header block)) (led_chain l) = Some parent \<and> hasState (StateRoot (bl_header parent)))
      \<and> txsRoot (bl_transactions block) = TransactionsRoot (bl_header block)"
proof -
  obtain r1 l1 where r1: "GetBlock hs (blockHash hs block) l = (r1, l1)" by fastforce
  obtain r2 l2 where r2: "GetBlock hs (PreviousHash (bl_header block)) l1 = (r2, l2)" by fastforce
  have l1: "r1 = None \<longleftrightarrow> ch_headers (led_chain l) (blockHash hs block) = None" "ledger_ok hs l1" "led_chain l1 = led_chain l"
    using GetBlock_ok [OF assms r1] getBlock_None [of "blockHash hs block" "led_chain l"] by (simp_all add: reads_only_def)
  have "r2 = getBlock (PreviousHash (bl_header block)) (led_chain l)" using GetBlock_ok(1) [OF l1(2) r2] l1(3) by simp
  then have p: "getBlock (PreviousHash (bl_header block)) (led_chain l) = r2" by simp
  show ?thesis unfolding p
    by (cases r2; cases r1) (auto simp: ValidateTxs_def HasBlock_def r1 r2 l1(1) [symmetric] Let_def split: prod.splits if_splits)
qed

text \<open>C37: The seal does not cover the actions of a block. If a new block passes the checks of its header, the seal
  included, and of its transactions, then so does every block that differs from it in the list of actions and in the root of the actions,
  as long as the store has no block of its hash: anyone can change these two without the key of the miner, and the root is
  never compared with the list. The check of the state, which is made after the execution, does not look at them either: the actions
  count there only through the state they lead to.\<close>

theorem actions_are_not_sealed:
  assumes "ledger_ok hs l" "ch_headers (led_chain l) (hashOf e (bl_header block)) = None"
    and "ValidateHeader fuel e (bl_header block) True l d = Inr (None, l1, d1)" "ValidateTxs hs txsRoot hasState block l = (None, l2)"
    and "ch_headers (led_chain l) (hashOf e (bl_header (forge actions root block))) = None" "ch_headers (led_chain l) (blockHash hs (forge actions root block)) = None"
  shows "(\<exists>l'. ValidateHeader fuel e (bl_header (forge actions root block)) True l d = Inr (None, l', d1))
    \<and> (\<exists>l'. ValidateTxs hs txsRoot hasState (forge actions root block) l = (None, l'))
    \<and> ValidateState v (forge actions root block) s receipts del usedGas = ValidateState v block s receipts del usedGas"
proof (intro conjI)
  have f: "bl_header (forge actions root block) = (bl_header block)\<lparr>ActionsRoot := root\<rparr>" "bl_transactions (forge actions root block) = bl_transactions block"
    "bl_DposContext (forge actions root block) = bl_DposContext block"
    by (simp_all add: forge_def)
  show "\<exists>l'. ValidateHeader fuel e (bl_header (forge actions root block)) True l d = Inr (None, l', d1)"
    using ValidateHeader_accepts [OF assms(1,2), of fuel d d1] ValidateHeader_accepts [OF assms(1,5), of fuel d d1] assms(3)
    by (auto simp: f header_checks_root)
  show "\<exists>l'. ValidateTxs hs txsRoot hasState (forge actions root block) l = (None, l')"
    using ValidateTxs_accepts [OF assms(1), of txsRoot hasState block] ValidateTxs_accepts [OF assms(1), of txsRoot hasState "forge actions root block"] assms(4,6)
    by (auto simp: f)
  show "ValidateState v (forge actions root block) s receipts del usedGas = ValidateState v block s receipts del usedGas"
    unfolding ValidateState_def Let_def f by (simp cong: if_cong)
qed

theorem actions_are_not_sealed_witness:
  "\<exists>l1 l2 d'. ValidateHeader 8 demo_env (demo_sealed\<lparr>ActionsRoot := 77\<rparr>) True demo_parents demo_dpos = Inr (None, l1, d')
     \<and> ValidateTxs demo_hashes (\<lambda>_. 0) (\<lambda>_. True) (forge [] 77 ((demo_block 4 [])\<lparr>bl_header := demo_sealed\<rparr>)) demo_parents = (None, l2)"
proof -
  let ?b = "(demo_block 4 [])\<lparr>bl_header := demo_sealed\<rparr>"
  obtain l1 d1 where v: "ValidateHeader 8 demo_env demo_sealed True demo_parents demo_dpos = Inr (None, l1, d1)" using demo_header_accepted by blast
  have h: "hashOf demo_env demo_sealed = 5" "hashOf demo_env (demo_sealed\<lparr>ActionsRoot := 77\<rparr>) = 5" "hs_header demo_hashes demo_sealed = 5" "hs_header demo_hashes (demo_sealed\<lparr>ActionsRoot := 77\<rparr>) = 5"
    "PreviousHash demo_sealed = 4" "TransactionsRoot demo_sealed = 0"
    by (simp_all add: demo_sealed_def demo_defs demo_hashes_def)
  have "getBlock 4 (led_chain demo_parents) \<noteq> None" by (simp add: getBlock_None demo_parents_headers)
  then obtain l2 where "ValidateTxs demo_hashes (\<lambda>_. 0) (\<lambda>_. True) ?b demo_parents = (None, l2)"
    using ValidateTxs_accepts [OF demo_parents_ok, of "\<lambda>_. 0" "\<lambda>_. True" ?b] by (auto simp: h demo_parents_headers)
  then show ?thesis
    using actions_are_not_sealed [OF demo_parents_ok, of demo_env ?b 8 demo_dpos l1 d1 "\<lambda>_. 0" "\<lambda>_. True" l2 "[]" 77, THEN conjunct1]
      actions_are_not_sealed [OF demo_parents_ok, of demo_env ?b 8 demo_dpos l1 d1 "\<lambda>_. 0" "\<lambda>_. True" l2 "[]" 77, THEN conjunct2, THEN conjunct1] v h
    by (auto simp: demo_parents_headers forge_def)
qed

end
