(* ===== verification/BlockChain.thy ===== *)
theory BlockChain
  imports Validator
begin

text \<open>
  The chain of blocks (\<open>core/blockchain.go\<close>) with the execution of a block (\<open>core/executor/executor.go\<close>): blocks are checked, executed on the
  state of their parent and written, and the head moves to the chain of the greatest difficulty. The locks make these
  operations atomic. The events are values, and the feeds they go to are not modelled. The databases do not fail.
\<close>

section \<open>The tries of the contexts\<close>

text \<open>The five tries of a context, by their roots; the functions that give the roots are parameters.\<close>

record ContextDB =
  cd_epochs :: "hash \<rightharpoonup> address list option"
  cd_delegates :: "hash \<rightharpoonup> ((address \<times> address) \<times> address) list"
  cd_votes :: "hash \<rightharpoonup> (address \<times> address list) list"
  cd_candidates :: "hash \<rightharpoonup> (address \<times> CandidateInfo) list"
  cd_mints :: "hash \<rightharpoonup> ((u64 \<times> address) \<times> u64) list"
  epochRoot :: "address list option \<Rightarrow> hash"
  delegateRoot :: "((address \<times> address) \<times> address) list \<Rightarrow> hash"
  voteRoot :: "(address \<times> address list) list \<Rightarrow> hash"
  candidateRoot :: "(address \<times> CandidateInfo) list \<Rightarrow> hash"
  mintRoot :: "((u64 \<times> address) \<times> u64) list \<Rightarrow> hash"

definition open_trie :: "'t \<Rightarrow> (hash \<rightharpoonup> 't) \<Rightarrow> hash \<Rightarrow> dberr + 't" where
  "open_trie dflt m root =
     (if root = 0 \<or> root = emptyRoot then Inr dflt else case m root of None \<Rightarrow> Inl (MissingNodeError root) | Some t \<Rightarrow> Inr t)"

definition NewDposContextFromProto :: "ContextDB \<Rightarrow> DposContextProto \<Rightarrow> dberr + DposContext" where
  "NewDposContextFromProto db p =
     rbind (open_trie None (cd_epochs db) (EpochHash p)) (\<lambda>e.
     rbind (open_trie [] (cd_delegates db) (DelegateHash p)) (\<lambda>dl.
     rbind (open_trie [] (cd_votes db) (VoteHash p)) (\<lambda>v.
     rbind (open_trie [] (cd_candidates db) (CandidateHash p)) (\<lambda>c.
     rbind (open_trie [] (cd_mints db) (MintCntHash p)) (\<lambda>m.
     Inr \<lparr>epochTrie = e, delegateTrie = dl, voteTrie = v, candidateTrie = c, mintCntTrie = m\<rparr>)))))"

definition context_proto :: "ContextDB \<Rightarrow> DposContext \<Rightarrow> DposContextProto" where
  "context_proto db d = \<lparr>EpochHash = epochRoot db (epochTrie d), DelegateHash = delegateRoot db (delegateTrie d),
     CandidateHash = candidateRoot db (candidateTrie d), VoteHash = voteRoot db (voteTrie d), MintCntHash = mintRoot db (mintCntTrie d)\<rparr>"

definition CommitTo :: "DposContext \<Rightarrow> ContextDB \<Rightarrow> ContextDB" where
  "CommitTo d db = db\<lparr>cd_epochs := (cd_epochs db)(epochRoot db (epochTrie d) \<mapsto> epochTrie d),
     cd_delegates := (cd_delegates db)(delegateRoot db (delegateTrie d) \<mapsto> delegateTrie d),
     cd_votes := (cd_votes db)(voteRoot db (voteTrie d) \<mapsto> voteTrie d),
     cd_candidates := (cd_candidates db)(candidateRoot db (candidateTrie d) \<mapsto> candidateTrie d),
     cd_mints := (cd_mints db)(mintRoot db (mintCntTrie d) \<mapsto> mintCntTrie d)\<rparr>"

section \<open>The chain\<close>

datatype chain_error =
    Invalid validate_error
  | ExecError apply_error
  | OpenError dberr
  | InvalidOldChain
  | InvalidNewChain
  | NonContiguous
  | FutureBlockErr
  | ErrNoGenesis

datatype chain_event = ForkBlockEvent Block | BlockAndLogsEvent Block "Log list"

record BlockChain =
  bc_ledger :: Ledger
  currentBlock :: Block
  stateCache :: Database
  contextDB :: ContextDB
  bc_engine :: Dpos

text \<open>What the chain is given: the hashes, the engine, the executor and the end of a block, of which the parts that the chain
  provides are filled in below; the orders in which maps are walked, by the position of the transaction, in the checks and in
  the commit; the roots of lists; the clock in seconds and the outcome of \<open>rand.Float64() < 0.5\<close>.\<close>

record chain_env =
  ce_hashes :: hashes
  ce_dpos :: dpos_env
  ce_exec :: Executor
  ce_final :: finalize_env
  ce_order :: "nat \<Rightarrow> address list"
  ce_keys :: "nat \<Rightarrow> address \<Rightarrow> hash list"
  ce_checks :: state_checks
  ce_commit_order :: "address list"
  ce_commit_keys :: "address \<Rightarrow> hash list"
  txsRoot :: "Transaction list \<Rightarrow> hash"
  ce_now :: int
  ce_coin :: bool
  ce_fuel :: nat

definition HasState :: "BlockChain \<Rightarrow> hash \<Rightarrow> bool" where
  "HasState bc root = (case OpenTrie (stateCache bc) root of Inl _ \<Rightarrow> False | Inr _ \<Rightarrow> True)"

text \<open>What the engine reads of the chain. The reads leave their traces in the order of the cache, which is
  not kept.\<close>

definition chain_reader :: "chain_env \<Rightarrow> BlockChain \<Rightarrow> IChainReader" where
  "chain_reader ce bc = \<lparr>CurrentBlock = Some (bl_header (currentBlock bc)),
     GetHeader = \<lambda>h. fst (ledger_GetHeader h (bc_ledger bc)),
     GetBlockByHeight = \<lambda>n. map_option bl_header (fst (ledger_GetBlockByHeight (ce_hashes ce) n (bc_ledger bc))),
     GetBlockByHash = \<lambda>h. map_option bl_header (fst (GetBlock (ce_hashes ce) h (bc_ledger bc)))\<rparr>"

definition chain_dpos :: "chain_env \<Rightarrow> BlockChain \<Rightarrow> dpos_env" where
  "chain_dpos ce bc = (ce_dpos ce)\<lparr>de_chain := chain_reader ce bc, hashOf := hs_header (ce_hashes ce),
     openContext := \<lambda>root p. case New root (stateCache bc) of Inl err \<Rightarrow> Inl err | Inr _ \<Rightarrow> NewDposContextFromProto (contextDB bc) p\<rparr>"

definition chain_exec :: "chain_env \<Rightarrow> BlockChain \<Rightarrow> Executor" where
  "chain_exec ce bc = (ce_exec ce)\<lparr>ex_getHeader := \<lambda>h. fst (ledger_GetHeader h (bc_ledger bc)), ex_txHash := hs_tx (ce_hashes ce)\<rparr>"

definition chain_final :: "chain_env \<Rightarrow> BlockChain \<Rightarrow> finalize_env" where
  "chain_final ce bc = (ce_final ce)\<lparr>fe_dpos := chain_dpos ce bc, fe_commit_err := None, fe_root_err := None, ToProto := context_proto (contextDB bc)\<rparr>"

definition chain_checks :: "chain_env \<Rightarrow> BlockChain \<Rightarrow> state_checks" where
  "chain_checks ce bc = (ce_checks ce)\<lparr>protoOf := context_proto (contextDB bc), protoRoot := proto_Root (ce_dpos ce)\<rparr>"

section \<open>Executing a block\<close>

text \<open>The loop over the transactions: the receipts and logs so far are in order.\<close>

fun exec_txs ::
  "Executor \<Rightarrow> (nat \<Rightarrow> address list) \<Rightarrow> (nat \<Rightarrow> address \<Rightarrow> hash list) \<Rightarrow> BlockHeader \<Rightarrow> hash \<Rightarrow> nat \<Rightarrow> Transaction list \<Rightarrow>
   DposContext \<Rightarrow> GasPool \<Rightarrow> StateDB \<Rightarrow> u64 \<Rightarrow> Receipt list \<Rightarrow> Log list \<Rightarrow>
   vm_fail + ((apply_error + Receipt list \<times> Log list \<times> u64) \<times> DposContext \<times> StateDB)" where
  "exec_txs e order ks header bhash i [] ctx gp s usedGas receipts logs = Inr (Inr (receipts, logs, usedGas), ctx, s)"
| "exec_txs e order ks header bhash i (tx # txs) ctx gp s usedGas receipts logs =
     rbind (ExecTransaction e (order i) (ks i) None None ctx gp (Prepare (ex_txHash e tx) bhash i s) header tx usedGas)
       (\<lambda>(r, usedGas1, ctx1, s1, gp1).
        case r of
          Inl err \<Rightarrow> Inr (Inl err, ctx1, s1)
        | Inr (_, receipt, _) \<Rightarrow>
            exec_txs e order ks header bhash (Suc i) txs ctx1 gp1 s1 usedGas1 (receipts @ [receipt]) (logs @ rc_Logs receipt))"

text \<open>The last component tells whether \<open>Finalize\<close>, whose result is ignored, came to its end, where the context is committed.\<close>

definition ExecBlock ::
  "chain_env \<Rightarrow> BlockChain \<Rightarrow> Block \<Rightarrow> StateDB \<Rightarrow> vm_fail + ((apply_error + Receipt list \<times> Log list \<times> u64) \<times> DposContext \<times> StateDB \<times> Dpos \<times> bool)" where
  "ExecBlock ce bc block statedb =
     (let header = bl_header block; d = bc_engine bc
      in rbind (lift_panic (AddGas (hd_GasLimit header) 0)) (\<lambda>gp.
         rbind (lift_panic (ExecActions (map ac_Sender (bl_actions block)) statedb)) (\<lambda>s1.
         rbind (lift_panic (deref (bl_DposContext block))) (\<lambda>ctx.
         rbind (exec_txs (chain_exec ce bc) (ce_order ce) (ce_keys ce) header (blockHash (ce_hashes ce) block) 0
                  (bl_transactions block) ctx gp s1 0 [] []) (\<lambda>(r, ctx1, s2).
         case r of
           Inl err \<Rightarrow> Inr (Inl err, ctx1, s2, d, False)
         | Inr out \<Rightarrow>
             rbind (Finalize (ce_fuel ce) (chain_final ce bc) header s2 ctx1 d) (\<lambda>((res, ctx2, s3), d1).
             Inr (Inr out, ctx2, s3, d1, case res of Inl _ \<Rightarrow> False | Inr _ \<Rightarrow> True)))))))"

text \<open>\<open>execBlock\<close>: the block comes back with its context.\<close>

definition execBlock ::
  "chain_env \<Rightarrow> Block \<Rightarrow> BlockChain \<Rightarrow> vm_fail + ((chain_error + Receipt list \<times> Log list \<times> StateDB \<times> Block) \<times> BlockChain)" where
  "execBlock ce block bc =
     (case GetBlock (ce_hashes ce) (PreviousHash (bl_header block)) (bc_ledger bc) of
        (None, l1) \<Rightarrow> Inl (VMPanic NilDeref)
      | (Some parent, l1) \<Rightarrow>
          (let bc1 = bc\<lparr>bc_ledger := l1\<rparr>
           in case New (StateRoot (bl_header parent)) (stateCache bc) of
                Inl err \<Rightarrow> Inr (Inl (OpenError err), bc1)
              | Inr s \<Rightarrow>
                  (case NewDposContextFromProto (contextDB bc) (hd_DposContext (bl_header parent)) of
                     Inl err \<Rightarrow> Inr (Inl (OpenError err), bc1)
                   | Inr ctx \<Rightarrow>
                       rbind (ExecBlock ce bc1 (block\<lparr>bl_DposContext := Some ctx\<rparr>) s) (\<lambda>(r, ctx1, s1, d1, committed).
                       let bc2 = bc1\<lparr>bc_engine := d1, contextDB := if committed then CommitTo ctx1 (contextDB bc1) else contextDB bc1\<rparr>;
                           block1 = block\<lparr>bl_DposContext := Some ctx1\<rparr>
                       in case r of
                            Inl err \<Rightarrow> Inr (Inl (ExecError err), bc2)
                          | Inr (receipts, logs, usedGas) \<Rightarrow>
                              rbind (lift_panic (ValidateState (chain_checks ce bc2) block1 s1 receipts True usedGas)) (\<lambda>(err, s2).
                              case err of
                                Some x \<Rightarrow> Inr (Inl (Invalid x), bc2)
                              | None \<Rightarrow> Inr (Inr (receipts, logs, s2, block1), bc2))))))"

section \<open>Reorganising\<close>

text \<open>The loop that reduces the higher chain to the height of the other; the fuel bounds the number of blocks on the
  way.\<close>

fun reduce_loop :: "nat \<Rightarrow> hashes \<Rightarrow> u64 \<Rightarrow> Block option \<Rightarrow> Block list \<Rightarrow> Ledger \<Rightarrow> vm_fail + (Block option \<times> Block list \<times> Ledger)" where
  "reduce_loop 0 hs n blk acc l = Inl NoFuel"
| "reduce_loop (Suc f) hs n None acc l = Inr (None, acc, l)"
| "reduce_loop (Suc f) hs n (Some b) acc l =
     (if blockHeight b = n then Inr (Some b, acc, l)
      else let (p, l1) = GetBlock hs (PreviousHash (bl_header b)) l in reduce_loop f hs n p (acc @ [b]) l1)"

text \<open>The loop that walks both chains down to their common block.\<close>

fun common_loop ::
  "nat \<Rightarrow> hashes \<Rightarrow> Block \<Rightarrow> Block \<Rightarrow> Block list \<Rightarrow> Block list \<Rightarrow> Ledger \<Rightarrow> vm_fail + ((chain_error + Block list \<times> Block list) \<times> Ledger)" where
  "common_loop 0 hs oldBlock newBlock oldChain newChain l = Inl NoFuel"
| "common_loop (Suc f) hs oldBlock newBlock oldChain newChain l =
     (if blockHash hs oldBlock = blockHash hs newBlock then Inr (Inr (oldChain, newChain), l)
      else let (p, l1) = GetBlock hs (PreviousHash (bl_header oldBlock)) l;
               (q, l2) = GetBlock hs (PreviousHash (bl_header newBlock)) l1
           in case p of
                None \<Rightarrow> Inr (Inl InvalidOldChain, l2)
              | Some oldBlock1 \<Rightarrow>
                  (case q of
                     None \<Rightarrow> Inr (Inl InvalidNewChain, l2)
                   | Some newBlock1 \<Rightarrow> common_loop f hs oldBlock1 newBlock1 (oldChain @ [oldBlock]) (newChain @ [newBlock]) l2))"

definition set_head :: "hashes \<Rightarrow> Block \<Rightarrow> BlockChain \<Rightarrow> BlockChain" where
  "set_head hs block bc = bc\<lparr>bc_ledger := WriteLegitimateHashAndHeadBlockHash (blockHeight block) (blockHash hs block) (bc_ledger bc), currentBlock := block\<rparr>"

definition reorg :: "chain_env \<Rightarrow> Block \<Rightarrow> Block \<Rightarrow> BlockChain \<Rightarrow> vm_fail + (chain_error option \<times> BlockChain)" where
  "reorg ce oldBlock newBlock bc =
     (let hs = ce_hashes ce; l = bc_ledger bc
      in rbind (if blockHeight oldBlock > blockHeight newBlock
                then rbind (reduce_loop (ce_fuel ce) hs (blockHeight newBlock) (Some oldBlock) [] l) (\<lambda>(b, acc, l1). Inr (b, Some newBlock, acc, [], l1))
                else rbind (reduce_loop (ce_fuel ce) hs (blockHeight oldBlock) (Some newBlock) [] l) (\<lambda>(b, acc, l1). Inr (Some oldBlock, b, [], acc, l1)))
         (\<lambda>(ob, nb, oldChain, newChain, l1).
            case (ob, nb) of
              (None, _) \<Rightarrow> Inr (Some InvalidOldChain, bc\<lparr>bc_ledger := l1\<rparr>)
            | (Some _, None) \<Rightarrow> Inr (Some InvalidNewChain, bc\<lparr>bc_ledger := l1\<rparr>)
            | (Some old1, Some new1) \<Rightarrow>
                rbind (common_loop (ce_fuel ce) hs old1 new1 oldChain newChain l1) (\<lambda>(r, l2).
                case r of
                  Inl err \<Rightarrow> Inr (Some err, bc\<lparr>bc_ledger := l2\<rparr>)
                | Inr (oldChain1, newChain1) \<Rightarrow> Inr (None, fold (set_head hs) (rev newChain1) (bc\<lparr>bc_ledger := l2\<rparr>)))))"

section \<open>Writing blocks\<close>

text \<open>Whether the new block takes the head: a greater difficulty, or the same one with a smaller height, or a coin.\<close>

definition takes_head :: "bool \<Rightarrow> int \<Rightarrow> int \<Rightarrow> Block \<Rightarrow> Block \<Rightarrow> bool" where
  "takes_head coin externTd localTd block current =
     (externTd > localTd \<or> externTd = localTd
        \<and> (blockHeight block < blockHeight current \<or> blockHeight block = blockHeight current \<and> coin))"

definition write_head :: "chain_env \<Rightarrow> Block \<Rightarrow> Receipt list \<Rightarrow> bool \<Rightarrow> BlockChain \<Rightarrow> vm_fail + ((chain_error + bool) \<times> BlockChain)" where
  "write_head ce block receipts reorganise bc =
     (let hs = ce_hashes ce; fork = reorganise \<and> PreviousHash (bl_header block) \<noteq> blockHash hs (currentBlock bc)
      in rbind (if fork then reorg ce (currentBlock bc) block bc else Inr (None, bc)) (\<lambda>(err, bc1).
         case err of
           Some x \<Rightarrow> Inr (Inl x, bc1)
         | None \<Rightarrow>
             rbind (lift_panic (WriteBlockAndReceipts hs block receipts (bc_ledger bc1))) (\<lambda>l.
             let bc2 = bc1\<lparr>bc_ledger := l\<rparr>; bc3 = (if \<not> fork \<and> reorganise then set_head hs block bc2 else bc2)
             in Inr (Inr fork, bc3\<lparr>bc_ledger := RemoveFutureBlock (blockHash hs block) (bc_ledger bc3)\<rparr>))))"

definition WriteBlockWithState :: "chain_env \<Rightarrow> Block \<Rightarrow> Receipt list \<Rightarrow> StateDB \<Rightarrow> BlockChain \<Rightarrow> vm_fail + ((chain_error + bool) \<times> BlockChain)" where
  "WriteBlockWithState ce block receipts statedb bc =
     (let hs = ce_hashes ce
      in case GetTd (PreviousHash (bl_header block)) (bc_ledger bc) of
           (None, l1) \<Rightarrow> Inr (Inl (Invalid ErrNoAncestor), bc\<lparr>bc_ledger := l1\<rparr>)
         | (Some ptd, l1) \<Rightarrow>
             (let (localTd, l2) = GetTd (blockHash hs (currentBlock bc)) l1; externTd = hd_Difficulty (bl_header block) + ptd
              in rbind (lift_panic (WriteTd (blockHash hs block) externTd l2)) (\<lambda>l3.
                 rbind (lift_panic (deref (bl_DposContext block))) (\<lambda>ctx.
                 rbind (lift_panic (Commit (ce_commit_order ce) (ce_commit_keys ce) True statedb)) (\<lambda>(root, err, s1).
                 let bc1 = bc\<lparr>bc_ledger := l3, contextDB := CommitTo ctx (contextDB bc), stateCache := sdb_db s1\<rparr>
                 in case err of
                      Some x \<Rightarrow> Inr (Inl (OpenError x), bc1)
                    | None \<Rightarrow>
                        rbind (lift_panic (deref localTd)) (\<lambda>ltd.
                        write_head ce block receipts (takes_head (ce_coin ce) externTd ltd block (currentBlock bc)) bc1))))))"

definition WriteBlockWithoutState :: "chain_env \<Rightarrow> Block \<Rightarrow> int \<Rightarrow> BlockChain \<Rightarrow> vm_fail + BlockChain" where
  "WriteBlockWithoutState ce block td bc =
     rbind (lift_panic (WriteBlockAndTd (ce_hashes ce) block td (bc_ledger bc))) (\<lambda>l. Inr (bc\<lparr>bc_ledger := l\<rparr>))"

section \<open>Inserting blocks\<close>

text \<open>The search for the last ancestor with a state.\<close>

fun stateful_ancestor :: "nat \<Rightarrow> chain_env \<Rightarrow> Block \<Rightarrow> BlockChain \<Rightarrow> vm_fail + Block \<times> BlockChain" where
  "stateful_ancestor 0 ce parent bc = Inl NoFuel"
| "stateful_ancestor (Suc f) ce parent bc =
     (if HasState bc (StateRoot (bl_header parent)) then Inr (parent, bc)
      else case GetBlock (ce_hashes ce) (PreviousHash (bl_header parent)) (bc_ledger bc) of
             (None, l1) \<Rightarrow> Inl (VMPanic NilDeref)
           | (Some p, l1) \<Rightarrow> stateful_ancestor f ce p (bc\<lparr>bc_ledger := l1\<rparr>))"

definition put_future :: "chain_env \<Rightarrow> Block \<Rightarrow> BlockChain \<Rightarrow> vm_fail + ((chain_error + chain_event option) \<times> BlockChain)" where
  "put_future ce block bc =
     (let (ok, l) = PutFutureBlock (ce_hashes ce) (ce_now ce) block (bc_ledger bc)
      in Inr (if ok then Inr None else Inl FutureBlockErr, bc\<lparr>bc_ledger := l\<rparr>))"

text \<open>What is done with a block that passed the checks.\<close>

definition process_block :: "chain_env \<Rightarrow> Block \<Rightarrow> BlockChain \<Rightarrow> vm_fail + ((chain_error + chain_event option) \<times> BlockChain)" where
  "process_block ce block bc =
     rbind (execBlock ce block bc) (\<lambda>(r, bc1).
     case r of
       Inl err \<Rightarrow> Inr (Inl err, bc1)
     | Inr (receipts, logs, s, block1) \<Rightarrow>
         rbind (WriteBlockWithState ce block1 receipts s bc1) (\<lambda>(w, bc2).
         case w of
           Inl err \<Rightarrow> Inr (Inl err, bc2)
         | Inr forking \<Rightarrow> Inr (Inr (Some (if forking then ForkBlockEvent block1 else BlockAndLogsEvent block1 logs)), bc2)))"

definition validate_block :: "chain_env \<Rightarrow> Block \<Rightarrow> BlockChain \<Rightarrow> vm_fail + (validate_error option \<times> BlockChain)" where
  "validate_block ce block bc =
     rbind (ValidateHeader (ce_fuel ce) (chain_dpos ce bc) (bl_header block) True (bc_ledger bc) (bc_engine bc)) (\<lambda>(err, l1, d1).
     case err of
       Some x \<Rightarrow> Inr (Some x, bc\<lparr>bc_ledger := l1, bc_engine := d1\<rparr>)
     | None \<Rightarrow>
         (let (err1, l2) = ValidateTxs (ce_hashes ce) (txsRoot ce) (HasState bc) block l1
          in Inr (err1, bc\<lparr>bc_ledger := l2, bc_engine := d1\<rparr>)))"

text \<open>A block whose ancestor has no state: it is written without its state if the local chain is harder, and then the last
  ancestor with a state is inserted in its place.\<close>

definition pruned_block :: "chain_env \<Rightarrow> Block \<Rightarrow> BlockChain \<Rightarrow> vm_fail + Block \<times> BlockChain" where
  "pruned_block ce block bc =
     (let hs = ce_hashes ce; prev = PreviousHash (bl_header block);
          (localTd, l1) = GetTd (blockHash hs (currentBlock bc)) (bc_ledger bc); (ptd, l2) = GetTd prev l1
      in rbind (lift_panic (deref ptd)) (\<lambda>p.
         rbind (lift_panic (deref localTd)) (\<lambda>ltd.
         let externTd = p + hd_Difficulty (bl_header block)
         in rbind (if ltd > externTd then WriteBlockWithoutState ce block externTd (bc\<lparr>bc_ledger := l2\<rparr>) else Inr (bc\<lparr>bc_ledger := l2\<rparr>)) (\<lambda>bc1.
            case GetBlock hs prev (bc_ledger bc1) of
              (None, l3) \<Rightarrow> Inl (VMPanic NilDeref)
            | (Some parent, l3) \<Rightarrow> stateful_ancestor (ce_fuel ce) ce parent (bc1\<lparr>bc_ledger := l3\<rparr>)))))"

fun insertChain :: "nat \<Rightarrow> chain_env \<Rightarrow> Block \<Rightarrow> BlockChain \<Rightarrow> vm_fail + ((chain_error + chain_event option) \<times> BlockChain)" where
  "insertChain 0 ce block bc = Inl NoFuel"
| "insertChain (Suc f) ce block bc =
     rbind (validate_block ce block bc) (\<lambda>(err, bc1).
     case err of
       None \<Rightarrow> process_block ce block bc1
     | Some ErrKnownBlock \<Rightarrow> Inr (Inr None, bc1)
     | Some ErrFutureBlock \<Rightarrow> put_future ce block bc1
     | Some ErrPrunedAncestor \<Rightarrow> rbind (pruned_block ce block bc1) (\<lambda>(parent, bc2). insertChain f ce parent bc2)
     | Some x \<Rightarrow>
         (if x = ErrNoAncestor \<and> HasFutureBlock (PreviousHash (bl_header block)) (bc_ledger bc1)
          then put_future ce block bc1 else Inr (Inl (Invalid x), bc1)))"

fun contiguous :: "hashes \<Rightarrow> Block list \<Rightarrow> bool" where
  "contiguous hs (a # b # bs) = (blockHeight b = blockHeight a + 1 \<and> PreviousHash (bl_header b) = blockHash hs a \<and> contiguous hs (b # bs))"
| "contiguous hs _ = True"

fun insert_blocks :: "nat \<Rightarrow> chain_env \<Rightarrow> nat \<Rightarrow> Block list \<Rightarrow> BlockChain \<Rightarrow> vm_fail + ((nat \<times> chain_error option) \<times> chain_event list \<times> BlockChain)" where
  "insert_blocks fuel ce n [] bc = Inr ((n, None), [], bc)"
| "insert_blocks fuel ce n (blk # bs) bc =
     rbind (insertChain fuel ce blk bc) (\<lambda>(r, bc1).
     case r of
       Inl err \<Rightarrow> Inr ((n, Some err), [], bc1)
     | Inr event \<Rightarrow>
         rbind (insert_blocks fuel ce (Suc n) bs bc1) (\<lambda>(res, events, bc2).
         Inr (res, (case event of None \<Rightarrow> events | Some ev \<Rightarrow> ev # events), bc2)))"

definition InsertChain :: "nat \<Rightarrow> chain_env \<Rightarrow> Block list \<Rightarrow> BlockChain \<Rightarrow> vm_fail + ((nat \<times> chain_error option) \<times> chain_event list \<times> BlockChain)" where
  "InsertChain fuel ce blocks bc =
     (if contiguous (ce_hashes ce) blocks then insert_blocks fuel ce 0 blocks bc else Inr ((0, Some NonContiguous), [], bc))"

text \<open>\<open>processBlocks\<close>: the future blocks by their heights, one at a time.\<close>

fun process_each :: "nat \<Rightarrow> chain_env \<Rightarrow> Block list \<Rightarrow> BlockChain \<Rightarrow> vm_fail + (chain_event list \<times> BlockChain)" where
  "process_each fuel ce [] bc = Inr ([], bc)"
| "process_each fuel ce (b # bs) bc =
     rbind (InsertChain fuel ce [b] bc) (\<lambda>(_, events, bc1).
     rbind (process_each fuel ce bs bc1) (\<lambda>(events1, bc2). Inr (events @ events1, bc2)))"

definition processBlocks :: "nat \<Rightarrow> chain_env \<Rightarrow> BlockChain \<Rightarrow> vm_fail + (chain_event list \<times> BlockChain)" where
  "processBlocks fuel ce bc = process_each fuel ce (sort_Sort (\<lambda>a b. blockHeight a < blockHeight b) (GetFutureBlock (bc_ledger bc))) bc"

section \<open>Starting\<close>

text \<open>\<open>loadLastState\<close>: back to the last block whose state can be opened.\<close>

fun repair_loop :: "nat \<Rightarrow> chain_env \<Rightarrow> Block \<Rightarrow> BlockChain \<Rightarrow> vm_fail + BlockChain" where
  "repair_loop 0 ce cur bc = Inl NoFuel"
| "repair_loop (Suc f) ce cur bc =
     (case New (StateRoot (bl_header cur)) (stateCache bc) of
        Inr _ \<Rightarrow> Inr (bc\<lparr>currentBlock := cur, bc_ledger := snd (GetTd (blockHash (ce_hashes ce) cur) (bc_ledger bc))\<rparr>)
      | Inl _ \<Rightarrow>
          (case GetBlock (ce_hashes ce) (PreviousHash (bl_header cur)) (bc_ledger bc) of
             (None, l1) \<Rightarrow> Inl (VMPanic NilDeref)
           | (Some p, l1) \<Rightarrow> repair_loop f ce p (bc\<lparr>bc_ledger := l1\<rparr>)))"

definition loadLastState :: "chain_env \<Rightarrow> Block \<Rightarrow> BlockChain \<Rightarrow> vm_fail + BlockChain" where
  "loadLastState ce genesis bc =
     rbind (CheckLastBlock (ce_fuel ce) (ce_hashes ce) genesis (bc_ledger bc)) (\<lambda>(cur, l). repair_loop (ce_fuel ce) ce cur (bc\<lparr>bc_ledger := l\<rparr>))"

definition chain_preCheck :: "chain_env \<Rightarrow> BlockChain \<Rightarrow> vm_fail + (chain_error option \<times> BlockChain)" where
  "chain_preCheck ce bc =
     (case ledger_GetBlockByHeight (ce_hashes ce) 0 (bc_ledger bc) of
        (None, l) \<Rightarrow> Inr (Some ErrNoGenesis, bc\<lparr>bc_ledger := l\<rparr>)
      | (Some genesis, l) \<Rightarrow> rbind (loadLastState ce genesis (bc\<lparr>bc_ledger := l\<rparr>)) (\<lambda>bc1. Inr (None, bc1)))"

end
