(* ===== verification/BlockChainProps.thy ===== *)
theory BlockChainProps
  imports BlockChain LedgerProps DposProps
begin

text \<open>
  What the development shows of the chain: the head is a heaviest block and the index by height lists its ancestors,
  whichever block is written.
\<close>

section \<open>Ancestors\<close>

text \<open>The ancestor at a distance, among the stored headers.\<close>

fun hup :: "(hash \<rightharpoonup> BlockHeader) \<Rightarrow> nat \<Rightarrow> BlockHeader \<Rightarrow> BlockHeader" where
  "hup m 0 x = x"
| "hup m (Suc k) x = hup m k (the (m (PreviousHash x)))"

text \<open>A header that fits on the stored ones, and a set of headers each of which fits, with one genesis.\<close>

definition attached :: "(hash \<rightharpoonup> BlockHeader) \<Rightarrow> BlockHeader \<Rightarrow> bool" where
  "attached m x \<longleftrightarrow> 0 \<le> Height x \<and> Height x < 2 ^ 64 \<and> (0 < Height x \<longrightarrow> (\<exists>p. m (PreviousHash x) = Some p \<and> Height x = Height p + 1))"

definition tree_ok :: "hashes \<Rightarrow> (hash \<rightharpoonup> BlockHeader) \<Rightarrow> bool" where
  "tree_ok hs m \<longleftrightarrow> (\<forall>h x. m h = Some x \<longrightarrow> hs_header hs x = h \<and> attached m x)
     \<and> (\<forall>h h' x x'. m h = Some x \<longrightarrow> m h' = Some x' \<longrightarrow> Height x = 0 \<longrightarrow> Height x' = 0 \<longrightarrow> h = h')"

lemma tree_okD:
  assumes "tree_ok hs m"
  shows "m h = Some x \<Longrightarrow> hs_header hs x = h" "m h = Some x \<Longrightarrow> attached m x"
    "m h = Some x \<Longrightarrow> m h' = Some x' \<Longrightarrow> Height x = 0 \<Longrightarrow> Height x' = 0 \<Longrightarrow> h = h'"
  using assms unfolding tree_ok_def by blast+

lemma attachedD:
  assumes "attached m x"
  shows "0 \<le> Height x" "Height x < 2 ^ 64" "0 < Height x \<Longrightarrow> \<exists>p. m (PreviousHash x) = Some p \<and> Height x = Height p + 1"
  using assms unfolding attached_def by blast+

lemma hup_attached:
  assumes "tree_ok hs m" "attached m x" "int k \<le> Height x"
  shows "attached m (hup m k x)" "Height (hup m k x) = Height x - int k" "0 < k \<Longrightarrow> m (hs_header hs (hup m k x)) = Some (hup m k x)"
proof -
  have "attached m (hup m k x) \<and> Height (hup m k x) = Height x - int k \<and> (0 < k \<longrightarrow> m (hs_header hs (hup m k x)) = Some (hup m k x))"
    using assms(2,3)
  proof (induction k arbitrary: x)
    case (Suc k)
    have "0 < Height x" using Suc.prems(2) by simp
    then obtain p where p: "m (PreviousHash x) = Some p" "Height x = Height p + 1" using attachedD(3) [OF Suc.prems(1)] by blast
    have a: "attached m p" "hs_header hs p = PreviousHash x" using tree_okD(1,2) [OF assms(1) p(1)] by auto
    have "attached m (hup m k p) \<and> Height (hup m k p) = Height p - int k \<and> (0 < k \<longrightarrow> m (hs_header hs (hup m k p)) = Some (hup m k p))"
      using Suc.prems(2) p(2) by (intro Suc.IH [OF a(1)]) simp
    then show ?case using p a(2) by (cases k) auto
  qed simp
  then show "attached m (hup m k x)" "Height (hup m k x) = Height x - int k" "0 < k \<Longrightarrow> m (hs_header hs (hup m k x)) = Some (hup m k x)" by simp_all
qed

lemma hup_le:
  assumes "tree_ok hs m" "attached m x" "int k \<le> Height x" "m \<subseteq>\<^sub>m m'"
  shows "hup m' k x = hup m k x"
  using assms(2,3)
proof (induction k arbitrary: x)
  case (Suc k)
  have "0 < Height x" using Suc.prems(2) by simp
  then obtain p where p: "m (PreviousHash x) = Some p" "Height x = Height p + 1" using attachedD(3) [OF Suc.prems(1)] by blast
  have "m' (PreviousHash x) = Some p" using assms(4) p(1) unfolding map_le_def dom_def by force
  then show ?case using Suc.IH [OF tree_okD(2) [OF assms(1) p(1)]] Suc.prems(2) p by simp
qed simp

lemma attached_le: "attached m x \<Longrightarrow> m \<subseteq>\<^sub>m m' \<Longrightarrow> attached m' x"
  unfolding attached_def map_le_def dom_def by (metis (mono_tags, lifting) mem_Collect_eq option.discI)

lemma Uint64_inj: "0 \<le> x \<Longrightarrow> x < 2 ^ 64 \<Longrightarrow> 0 \<le> y \<Longrightarrow> y < 2 ^ 64 \<Longrightarrow> Uint64 x = Uint64 y \<longleftrightarrow> x = y"
  by (auto simp: Uint64_def word_of_int_eq_iff take_bit_int_eq_self)

lemma Uint64_less: "0 \<le> x \<Longrightarrow> x < 2 ^ 64 \<Longrightarrow> 0 \<le> y \<Longrightarrow> y < 2 ^ 64 \<Longrightarrow> Uint64 x < Uint64 y \<longleftrightarrow> x < y"
  by (auto simp: Uint64_def word_less_def uint_word_of_int_eq take_bit_int_eq_self)

section \<open>The loops of a reorganisation\<close>

abbreviation hmap :: "Ledger \<Rightarrow> hash \<rightharpoonup> BlockHeader" where
  "hmap l \<equiv> ch_headers (led_chain l)"

lemma GetBlock_header:
  assumes "ledger_ok hs l" "hmap l h = Some x"
  obtains b l' where "GetBlock hs h l = (Some b, l')" "bl_header b = x" "reads_only hs l l'"
proof -
  obtain r l' where g: "GetBlock hs h l = (r, l')" by fastforce
  note ok = GetBlock_ok [OF assms(1) g]
  obtain b where "r = Some b" using ok(1) assms(2) getBlock_None [of h "led_chain l"] by (cases r) auto
  moreover have "bl_header b = x" using calculation ok(1) assms(2) getBlock_header [of h "led_chain l" b] by simp
  ultimately show ?thesis using that g ok(2) by blast
qed

lemma reads_only_trans: "reads_only hs l l1 \<Longrightarrow> reads_only hs l1 l2 \<Longrightarrow> reads_only hs l l2"
  by (simp add: reads_only_def)

lemma hup_upt: "m (PreviousHash x) = Some p \<Longrightarrow> map (\<lambda>j. hup m j x) [0..<Suc k] = x # map (\<lambda>j. hup m j p) [0..<k]"
  by (simp add: upt_conv_Cons map_Suc_upt [symmetric] o_def del: upt_Suc)

lemma reduce_loop_ok:
  assumes "tree_ok hs m"
  shows "ledger_ok hs l \<Longrightarrow> hmap l = m \<Longrightarrow> attached m (bl_header b) \<Longrightarrow> int k \<le> Height (bl_header b) \<Longrightarrow> k < f \<Longrightarrow>
    \<exists>b' bs l'. reduce_loop f hs (Uint64 (Height (bl_header b) - int k)) (Some b) acc l = Inr (Some b', acc @ bs, l')
      \<and> bl_header b' = hup m k (bl_header b) \<and> map bl_header bs = map (\<lambda>j. hup m j (bl_header b)) [0..<k] \<and> reads_only hs l l' \<and> hd (bs @ [b']) = b"
proof (induction k arbitrary: b f acc l)
  case 0
  then show ?case by (cases f) (auto simp: reads_only_def)
next
  case (Suc k)
  let ?x = "bl_header b"
  obtain g where f: "f = Suc g" "k < g" using Suc.prems(5) by (cases f) auto
  note a = attachedD [OF Suc.prems(3)]
  have "0 < Height ?x" using Suc.prems(4) by simp
  then obtain p where p: "m (PreviousHash ?x) = Some p" "Height ?x = Height p + 1" using a(3) by blast
  obtain q l1 where q: "GetBlock hs (PreviousHash ?x) l = (Some q, l1)" "bl_header q = p" "reads_only hs l l1"
    using GetBlock_header [OF Suc.prems(1)] p(1) Suc.prems(2) by metis
  have n: "Uint64 (Height ?x - int (Suc k)) = Uint64 (Height p - int k)" "Uint64 (Height ?x) \<noteq> Uint64 (Height ?x - int (Suc k))"
    using p(2) a(1,2) Suc.prems(4) Uint64_inj [of "Height ?x" "Height ?x - int (Suc k)"] by auto
  have l1: "ledger_ok hs l1" "hmap l1 = m" using q(3) Suc.prems(2) by (simp_all add: reads_only_def)
  have "attached m (bl_header q)" "int k \<le> Height (bl_header q)" using tree_okD(2) [OF assms p(1)] q(2) p(2) Suc.prems(4) by auto
  from Suc.IH [OF l1 this f(2), of "acc @ [b]"] obtain b' bs l' where
    "reduce_loop g hs (Uint64 (Height p - int k)) (Some q) (acc @ [b]) l1 = Inr (Some b', (acc @ [b]) @ bs, l')"
    "bl_header b' = hup m k p" "map bl_header bs = map (\<lambda>j. hup m j p) [0..<k]" "reads_only hs l1 l'" using q(2) by auto
  moreover have "map (\<lambda>j. hup m j ?x) [0..<Suc k] = ?x # map (\<lambda>j. hup m j p) [0..<k]" using p(1) by (rule hup_upt)
  ultimately have "reduce_loop f hs (Uint64 (Height ?x - int (Suc k))) (Some b) acc l = Inr (Some b', acc @ (b # bs), l')"
    "bl_header b' = hup m (Suc k) ?x" "map bl_header (b # bs) = map (\<lambda>j. hup m j ?x) [0..<Suc k]" "reads_only hs l l'"
    using q n p reads_only_trans [OF q(3)] by (simp_all add: f(1))
  then show ?case by (intro exI [of _ b'] exI [of _ "b # bs"] exI [of _ l']) (simp del: upt_Suc)
qed

text \<open>A header that is stored unless it is above the genesis.\<close>

definition rooted :: "hashes \<Rightarrow> (hash \<rightharpoonup> BlockHeader) \<Rightarrow> BlockHeader \<Rightarrow> bool" where
  "rooted hs m x \<longleftrightarrow> attached m x \<and> (Height x = 0 \<longrightarrow> m (hs_header hs x) = Some x)"

lemma tree_rooted: "tree_ok hs m \<Longrightarrow> m h = Some x \<Longrightarrow> rooted hs m x"
  using tree_okD(1,2) unfolding rooted_def by metis

lemma common_loop_ok:
  assumes "tree_ok hs m"
  shows "ledger_ok hs l \<Longrightarrow> hmap l = m \<Longrightarrow> rooted hs m (bl_header a) \<Longrightarrow> rooted hs m (bl_header b) \<Longrightarrow>
      Height (bl_header a) = int n \<Longrightarrow> Height (bl_header b) = int n \<Longrightarrow> n < f \<Longrightarrow>
    \<exists>k bs bs' l'. k \<le> n \<and> common_loop f hs a b oc nc l = Inr (Inr (oc @ bs, nc @ bs'), l')
      \<and> hs_header hs (hup m k (bl_header a)) = hs_header hs (hup m k (bl_header b))
      \<and> map bl_header bs' = map (\<lambda>j. hup m j (bl_header b)) [0..<k] \<and> reads_only hs l l' \<and> hd (bs' @ [b]) = b"
proof (induction n arbitrary: a b f oc nc l)
  case 0
  have "hs_header hs (bl_header a) = hs_header hs (bl_header b)"
    using 0 tree_okD(3) [OF assms] by (auto simp: rooted_def)
  then show ?case using 0 by (cases f) (auto simp: reads_only_def)
next
  case (Suc n)
  let ?x = "bl_header a" and ?y = "bl_header b"
  obtain g where f: "f = Suc g" "n < g" using Suc.prems(7) by (cases f) auto
  show ?case
  proof (cases "hs_header hs ?x = hs_header hs ?y")
    case True
    then show ?thesis using Suc.prems(1) by (intro exI [of _ 0] exI [of _ "[]"] exI [of _ l]) (simp add: f(1) reads_only_def)
  next
    case False
    obtain p where p: "m (PreviousHash ?x) = Some p" "Height p = int n"
      using Suc.prems(3,5) attachedD(3) [of m ?x] unfolding rooted_def by auto
    obtain q where q: "m (PreviousHash ?y) = Some q" "Height q = int n"
      using Suc.prems(4,6) attachedD(3) [of m ?y] unfolding rooted_def by auto
    obtain a1 l1 where a1: "GetBlock hs (PreviousHash ?x) l = (Some a1, l1)" "bl_header a1 = p" "reads_only hs l l1"
      using GetBlock_header [OF Suc.prems(1)] p(1) Suc.prems(2) by metis
    have l1: "ledger_ok hs l1" "hmap l1 = m" using a1(3) Suc.prems(2) by (simp_all add: reads_only_def)
    obtain b1 l2 where b1: "GetBlock hs (PreviousHash ?y) l1 = (Some b1, l2)" "bl_header b1 = q" "reads_only hs l1 l2"
      using GetBlock_header [OF l1(1)] q(1) l1(2) by metis
    have l2: "ledger_ok hs l2" "hmap l2 = m" using b1(3) l1(2) by (simp_all add: reads_only_def)
    have r: "rooted hs m (bl_header a1)" "rooted hs m (bl_header b1)" using tree_rooted [OF assms] p(1) q(1) a1(2) b1(2) by auto
    from Suc.IH [OF l2 r _ _ f(2), of "oc @ [a]" "nc @ [b]"] p(2) q(2) a1(2) b1(2) obtain k bs bs' l' where
      k: "k \<le> n" "common_loop g hs a1 b1 (oc @ [a]) (nc @ [b]) l2 = Inr (Inr ((oc @ [a]) @ bs, (nc @ [b]) @ bs'), l')"
      "hs_header hs (hup m k p) = hs_header hs (hup m k q)" "map bl_header bs' = map (\<lambda>j. hup m j q) [0..<k]" "reads_only hs l2 l'" by auto
    have "common_loop f hs a b oc nc l = Inr (Inr (oc @ (a # bs), nc @ (b # bs')), l')" using False a1 b1 k(2) by (simp add: f(1))
    moreover have "map bl_header (b # bs') = map (\<lambda>j. hup m j ?y) [0..<Suc k]" using hup_upt [of m ?y q, OF q(1)] k(4) by simp
    moreover have "reads_only hs l l'" using reads_only_trans [OF a1(3) reads_only_trans [OF b1(3) k(5)]] .
    ultimately show ?thesis using k(1,3) p(1) q(1)
      by (intro exI [of _ "Suc k"] exI [of _ "a # bs"] exI [of _ "b # bs'"] exI [of _ l']) (simp del: upt_Suc)
  qed
qed

text \<open>The index by height lists the ancestors of a header.\<close>

definition canon :: "hashes \<Rightarrow> (hash \<rightharpoonup> BlockHeader) \<Rightarrow> (u64 \<rightharpoonup> hash) \<Rightarrow> BlockHeader \<Rightarrow> bool" where
  "canon hs m legit x \<longleftrightarrow> (\<forall>k. int k \<le> Height x \<longrightarrow> legit (Uint64 (Height x - int k)) = Some (hs_header hs (hup m k x)))"

lemma set_head_parts:
  "ch_headers (led_chain (bc_ledger (set_head hs b bc))) = ch_headers (led_chain (bc_ledger bc))"
  "ch_tds (led_chain (bc_ledger (set_head hs b bc))) = ch_tds (led_chain (bc_ledger bc))"
  "ch_txs (led_chain (bc_ledger (set_head hs b bc))) = ch_txs (led_chain (bc_ledger bc))"
  "ch_legitimate (led_chain (bc_ledger (set_head hs b bc))) = (ch_legitimate (led_chain (bc_ledger bc)))(blockHeight b \<mapsto> blockHash hs b)"
  "currentBlock (set_head hs b bc) = b" "futureBlocks (bc_ledger (set_head hs b bc)) = futureBlocks (bc_ledger bc)"
  "ledger_ok hs (bc_ledger bc) \<Longrightarrow> ledger_ok hs (bc_ledger (set_head hs b bc))"
  "ledger_ok hs (bc_ledger bc) \<Longrightarrow> block_at (led_chain (bc_ledger (set_head hs b bc))) = block_at (led_chain (bc_ledger bc))"
  using WriteHead_ok [of hs "bc_ledger bc" "blockHeight b" "blockHash hs b"]
  by (simp_all add: set_head_def) (simp_all add: WriteLegitimateHashAndHeadBlockHash_def putHeadBlockHash_def putLegitimateHash_def)

lemma fold_set_head_parts:
  assumes "bc' = fold (set_head hs) bs bc" "ledger_ok hs (bc_ledger bc)"
  shows "hmap (bc_ledger bc') = hmap (bc_ledger bc)" "ch_tds (led_chain (bc_ledger bc')) = ch_tds (led_chain (bc_ledger bc))"
    "ch_txs (led_chain (bc_ledger bc')) = ch_txs (led_chain (bc_ledger bc))" "ledger_ok hs (bc_ledger bc')"
    "block_at (led_chain (bc_ledger bc')) = block_at (led_chain (bc_ledger bc))" "currentBlock bc' = last (currentBlock bc # bs)"
proof -
  have "hmap (bc_ledger bc') = hmap (bc_ledger bc) \<and> ch_tds (led_chain (bc_ledger bc')) = ch_tds (led_chain (bc_ledger bc))
    \<and> ch_txs (led_chain (bc_ledger bc')) = ch_txs (led_chain (bc_ledger bc)) \<and> ledger_ok hs (bc_ledger bc')
    \<and> block_at (led_chain (bc_ledger bc')) = block_at (led_chain (bc_ledger bc)) \<and> currentBlock bc' = last (currentBlock bc # bs)"
    using assms by (induction bs arbitrary: bc) (simp_all add: set_head_parts)
  then show "hmap (bc_ledger bc') = hmap (bc_ledger bc)" "ch_tds (led_chain (bc_ledger bc')) = ch_tds (led_chain (bc_ledger bc))"
    "ch_txs (led_chain (bc_ledger bc')) = ch_txs (led_chain (bc_ledger bc))" "ledger_ok hs (bc_ledger bc')"
    "block_at (led_chain (bc_ledger bc')) = block_at (led_chain (bc_ledger bc))" "currentBlock bc' = last (currentBlock bc # bs)" by blast+
qed

lemma fold_set_head_canon:
  assumes "tree_ok hs m"
  shows "attached m x \<Longrightarrow> int k \<le> Height x \<Longrightarrow> map bl_header bs = map (\<lambda>j. hup m j x) [0..<k] \<Longrightarrow>
    (\<And>i. k \<le> i \<Longrightarrow> int i \<le> Height x \<Longrightarrow> ch_legitimate (led_chain (bc_ledger bc)) (Uint64 (Height x - int i)) = Some (hs_header hs (hup m i x))) \<Longrightarrow>
    canon hs m (ch_legitimate (led_chain (bc_ledger (fold (set_head hs) (rev bs) bc)))) x"
proof (induction k arbitrary: x bs)
  case 0
  then show ?case by (simp add: canon_def)
next
  case (Suc k)
  have "0 < Height x" using Suc.prems(2) by simp
  then obtain p where p: "m (PreviousHash x) = Some p" "Height x = Height p + 1" using attachedD(3) [OF Suc.prems(1)] by blast
  obtain b bs1 where bs: "bs = b # bs1" "bl_header b = x" "map bl_header bs1 = map (\<lambda>j. hup m j p) [0..<k]"
    using Suc.prems(3) unfolding hup_upt [of m x p, OF p(1)] by auto
  let ?bc = "fold (set_head hs) (rev bs1) bc"
  have c: "canon hs m (ch_legitimate (led_chain (bc_ledger ?bc))) p"
  proof (rule Suc.IH [OF tree_okD(2) [OF assms p(1)] _ bs(3)])
    show "int k \<le> Height p" using Suc.prems(2) p(2) by simp
    show "ch_legitimate (led_chain (bc_ledger bc)) (Uint64 (Height p - int i)) = Some (hs_header hs (hup m i p))" if "k \<le> i" "int i \<le> Height p" for i
      using Suc.prems(4) [of "Suc i"] that p by simp
  qed
  have "fold (set_head hs) (rev bs) bc = set_head hs b ?bc" by (simp add: bs(1))
  moreover have "((ch_legitimate (led_chain (bc_ledger ?bc)))(Uint64 (Height x) \<mapsto> hs_header hs x)) (Uint64 (Height x - int i)) = Some (hs_header hs (hup m i x))"
    if i: "int i \<le> Height x" for i
  proof (cases i)
    case (Suc j)
    have "Uint64 (Height x - int i) \<noteq> Uint64 (Height x)" using i Suc attachedD(1,2) [OF Suc.prems(1)] by (simp add: Uint64_inj)
    then show ?thesis using c i p Suc by (simp add: canon_def)
  qed simp
  ultimately show ?case by (simp add: canon_def set_head_parts bs(2))
qed

lemma upt_split: "[0..<d + k] = [0..<d] @ map (\<lambda>j. d + j) [0..<k]"
  by (rule nth_equalityI) (auto simp: nth_append)

lemma hup_add: "hup m (a + b) x = hup m b (hup m a x)"
  by (induction a arbitrary: x) simp_all

text \<open>Below a common ancestor the index lists the ancestors of both.\<close>

lemma canon_below:
  assumes "tree_ok hs m" "m (hs_header hs x) = Some x" "canon hs m legit x" "attached m y" "m (hs_header hs y) = None \<or> m (hs_header hs y) = Some y"
    and "int k' \<le> Height x" "int k \<le> Height y" "Height x - int k' = Height y - int k" "hs_header hs (hup m k' x) = hs_header hs (hup m k y)"
    and "k \<le> i" "int i \<le> Height y"
  shows "legit (Uint64 (Height y - int i)) = Some (hs_header hs (hup m i y))"
proof -
  have "m (hs_header hs (hup m k' x)) = Some (hup m k' x)"
    using hup_attached(3) [OF assms(1) tree_okD(2) [OF assms(1,2)] assms(6)] assms(2) by (cases k') auto
  moreover have "m (hs_header hs (hup m k y)) = None \<or> m (hs_header hs (hup m k y)) = Some (hup m k y)"
    using hup_attached(3) [OF assms(1,4,7)] assms(5) by (cases k) auto
  ultimately have "hup m k' x = hup m k y" using assms(9) by simp
  then have "hup m (k' + (i - k)) x = hup m i y" using hup_add [of m k' "i - k" x] hup_add [of m k "i - k" y] assms(10) by simp
  moreover have "Height x - int (k' + (i - k)) = Height y - int i" using assms(8,10) by simp
  moreover have "int (k' + (i - k)) \<le> Height x" using calculation(2) assms(11) by simp
  ultimately show ?thesis using assms(3) by (metis canon_def)
qed

text \<open>What a reorganisation does: it makes the blocks from the common ancestor to the new block the index.\<close>

definition reorganised :: "hashes \<Rightarrow> Block \<Rightarrow> BlockChain \<Rightarrow> BlockChain \<Rightarrow> bool" where
  "reorganised hs b bc bc' \<longleftrightarrow> (\<exists>bs k l'. bc' = fold (set_head hs) (rev bs) (bc\<lparr>bc_ledger := l'\<rparr>) \<and> reads_only hs (bc_ledger bc) l'
     \<and> int k \<le> Height (bl_header b) \<and> map bl_header bs = map (\<lambda>j. hup (hmap (bc_ledger bc)) j (bl_header b)) [0..<k] \<and> hd (bs @ [b]) = b
     \<and> (bs = [] \<longrightarrow> hmap (bc_ledger bc) (blockHash hs b) = Some (bl_header b))
     \<and> (\<forall>i. k \<le> i \<longrightarrow> int i \<le> Height (bl_header b) \<longrightarrow> ch_legitimate (led_chain (bc_ledger bc)) (Uint64 (Height (bl_header b) - int i))
          = Some (hs_header hs (hup (hmap (bc_ledger bc)) i (bl_header b)))))"

definition reorg_pre :: "chain_env \<Rightarrow> Block \<Rightarrow> Block \<Rightarrow> BlockChain \<Rightarrow> bool" where
  "reorg_pre ce a b bc \<longleftrightarrow> (let hs = ce_hashes ce; m = hmap (bc_ledger bc)
     in tree_ok hs m \<and> ledger_ok hs (bc_ledger bc)
        \<and> m (blockHash hs a) = Some (bl_header a) \<and> canon hs m (ch_legitimate (led_chain (bc_ledger bc))) (bl_header a)
        \<and> attached m (bl_header b) \<and> 0 < Height (bl_header b) \<and> (m (blockHash hs b) = None \<or> m (blockHash hs b) = Some (bl_header b))
        \<and> nat (Height (bl_header a)) < ce_fuel ce \<and> nat (Height (bl_header b)) < ce_fuel ce)"

lemma reorg_preD:
  assumes "reorg_pre ce a b bc"
  shows "tree_ok (ce_hashes ce) (hmap (bc_ledger bc))" "ledger_ok (ce_hashes ce) (bc_ledger bc)"
    "attached (hmap (bc_ledger bc)) (bl_header a)" "rooted (ce_hashes ce) (hmap (bc_ledger bc)) (bl_header a)"
    "attached (hmap (bc_ledger bc)) (bl_header b)" "rooted (ce_hashes ce) (hmap (bc_ledger bc)) (bl_header b)"
    "nat (Height (bl_header a)) < ce_fuel ce" "nat (Height (bl_header b)) < ce_fuel ce"
    "hmap (bc_ledger bc) (blockHash (ce_hashes ce) a) = Some (bl_header a)"
    "hmap (bc_ledger bc) (blockHash (ce_hashes ce) b) = None \<or> hmap (bc_ledger bc) (blockHash (ce_hashes ce) b) = Some (bl_header b)"
proof -
  have "hmap (bc_ledger bc) (blockHash (ce_hashes ce) a) = Some (bl_header a)" "tree_ok (ce_hashes ce) (hmap (bc_ledger bc))"
    using assms by (simp_all add: reorg_pre_def Let_def)
  then show "attached (hmap (bc_ledger bc)) (bl_header a)" "rooted (ce_hashes ce) (hmap (bc_ledger bc)) (bl_header a)"
    using tree_okD(2) tree_rooted by blast+
qed (use assms in \<open>simp_all add: reorg_pre_def rooted_def Let_def\<close>)

lemma reorg_below:
  assumes "reorg_pre ce a b bc" "int k' \<le> Height (bl_header a)" "int k \<le> Height (bl_header b)" "Height (bl_header a) - int k' = Height (bl_header b) - int k"
    and "hs_header (ce_hashes ce) (hup (hmap (bc_ledger bc)) k' (bl_header a)) = hs_header (ce_hashes ce) (hup (hmap (bc_ledger bc)) k (bl_header b))"
    and "k \<le> i" "int i \<le> Height (bl_header b)"
  shows "ch_legitimate (led_chain (bc_ledger bc)) (Uint64 (Height (bl_header b) - int i))
    = Some (hs_header (ce_hashes ce) (hup (hmap (bc_ledger bc)) i (bl_header b)))"
  using canon_below [OF _ _ _ _ _ assms(2-7)] assms(1) unfolding reorg_pre_def Let_def by blast

lemma reorg_lower:
  assumes pre: "reorg_pre ce a b bc" and m: "m = hmap (bc_ledger bc)" and hs: "hs = ce_hashes ce" and cmp: "Height (bl_header b) < Height (bl_header a)"
  shows "\<exists>bc'. reorg ce a b bc = Inr (None, bc') \<and> reorganised hs b bc bc'"
proof -
  let ?x = "bl_header a" and ?y = "bl_header b" and ?l = "bc_ledger bc"
  note p = reorg_preD [OF pre, folded m hs]
  note hx = attachedD(1,2) [OF p(3)] and hy = attachedD(1,2) [OF p(5)]
  note below = reorg_below [OF pre, folded m hs]
  define d where "d = nat (Height ?x - Height ?y)"
  have d: "int d \<le> Height ?x" "Height ?x - int d = Height ?y" "d < ce_fuel ce" "0 < d" using cmp hy p(7,8) by (auto simp: d_def)
  obtain b' bs l' where r: "reduce_loop (ce_fuel ce) hs (Uint64 (Height ?y)) (Some a) [] ?l = Inr (Some b', bs, l')"
    "bl_header b' = hup m d ?x" "reads_only hs ?l l'"
    using reduce_loop_ok [OF p(1,2) m [symmetric] p(3) d(1,3), of "[]"] d(2) by auto
  have l': "ledger_ok hs l'" "hmap l' = m" using r(3) m by (simp_all add: reads_only_def)
  have b': "rooted hs m (bl_header b')" "Height (bl_header b') = int (nat (Height ?y))"
    using hup_attached [OF p(1) p(3) d(1)] d(2,4) hy by (simp_all add: r(2) rooted_def)
  obtain k os bs' l2 where k: "k \<le> nat (Height ?y)" "common_loop (ce_fuel ce) hs b' b bs [] l' = Inr (Inr (bs @ os, bs'), l2)"
    "hs_header hs (hup m k (hup m d ?x)) = hs_header hs (hup m k ?y)" "map bl_header bs' = map (\<lambda>j. hup m j ?y) [0..<k]" "reads_only hs l' l2" "hd (bs' @ [b]) = b"
    using common_loop_ok [OF p(1) l' b'(1) p(6) b'(2) _ p(8), of bs "[]"] hy by (auto simp: r(2))
  have "reorg ce a b bc = Inr (None, fold (set_head hs) (rev bs') (bc\<lparr>bc_ledger := l2\<rparr>))"
    using r k(2) Uint64_less [of "Height ?y" "Height ?x"] cmp hx hy by (simp add: reorg_def Let_def hs)
  moreover have "int k \<le> Height ?y" using k(1) hy by simp
  moreover have "ch_legitimate (led_chain ?l) (Uint64 (Height ?y - int i)) = Some (hs_header hs (hup m i ?y))" if "k \<le> i" "int i \<le> Height ?y" for i
    using below [of "d + k" k i] k(1,3) d(1,2) that hy by (simp add: hup_add)
  moreover have "m (blockHash hs b) = Some ?y" if "bs' = []"
    using that k(3,4) p(10) hup_attached(3) [OF p(1) p(3) d(1)] d(4) by auto
  ultimately show ?thesis using k(4,6) reads_only_trans [OF r(3) k(5)] m unfolding reorganised_def by blast
qed

lemma reorg_higher:
  assumes pre: "reorg_pre ce a b bc" and m: "m = hmap (bc_ledger bc)" and hs: "hs = ce_hashes ce" and cmp: "\<not> Height (bl_header b) < Height (bl_header a)"
  shows "\<exists>bc'. reorg ce a b bc = Inr (None, bc') \<and> reorganised hs b bc bc'"
proof -
  let ?x = "bl_header a" and ?y = "bl_header b" and ?l = "bc_ledger bc"
  note p = reorg_preD [OF pre, folded m hs]
  note hx = attachedD(1,2) [OF p(3)] and hy = attachedD(1,2) [OF p(5)]
  note below = reorg_below [OF pre, folded m hs]
  define d where "d = nat (Height ?y - Height ?x)"
  have d: "int d \<le> Height ?y" "Height ?y - int d = Height ?x" "d < ce_fuel ce" using cmp hx p(7,8) by (auto simp: d_def)
  obtain b' bs l' where r: "reduce_loop (ce_fuel ce) hs (Uint64 (Height ?x)) (Some b) [] ?l = Inr (Some b', bs, l')"
    "bl_header b' = hup m d ?y" "map bl_header bs = map (\<lambda>j. hup m j ?y) [0..<d]" "reads_only hs ?l l'" "hd (bs @ [b']) = b"
    using reduce_loop_ok [OF p(1,2) m [symmetric] p(5) d(1,3), of "[]"] d(2) by auto
  have l': "ledger_ok hs l'" "hmap l' = m" using r(4) m by (simp_all add: reads_only_def)
  have b': "rooted hs m (bl_header b')" "Height (bl_header b') = int (nat (Height ?x))"
    using hup_attached [OF p(1) p(5) d(1)] d(2) hx p(6) by (cases d; simp add: r(2) rooted_def)+
  obtain k os bs' l2 where k: "k \<le> nat (Height ?x)" "common_loop (ce_fuel ce) hs a b' [] bs l' = Inr (Inr (os, bs @ bs'), l2)"
    "hs_header hs (hup m k ?x) = hs_header hs (hup m k (hup m d ?y))" "map bl_header bs' = map (\<lambda>j. hup m j (hup m d ?y)) [0..<k]"
    "reads_only hs l' l2" "hd (bs' @ [b']) = b'"
    using common_loop_ok [OF p(1) l' p(4) b'(1) _ b'(2) p(7), of "[]" bs] hx by (auto simp: r(2))
  have "reorg ce a b bc = Inr (None, fold (set_head hs) (rev (bs @ bs')) (bc\<lparr>bc_ledger := l2\<rparr>))"
    using r k(2) Uint64_less [of "Height ?y" "Height ?x"] cmp hx hy by (simp add: reorg_def Let_def hs)
  moreover have "int (d + k) \<le> Height ?y" using k(1) hx d by simp
  moreover have "map bl_header (bs @ bs') = map (\<lambda>j. hup m j ?y) [0..<d + k]" 
    unfolding upt_split using r(3) k(4) by (simp add: hup_add)
  moreover have "hd ((bs @ bs') @ [b]) = b" using r(5) k(6) by (cases bs) (cases bs'; auto)+
  moreover have "ch_legitimate (led_chain ?l) (Uint64 (Height ?y - int i)) = Some (hs_header hs (hup m i ?y))" if "d + k \<le> i" "int i \<le> Height ?y" for i
    using below [of k "d + k" i] k(1,3) d(1,2) that hx by (simp add: hup_add)
  moreover have "m (blockHash hs b) = Some ?y" if "bs @ bs' = []" using that k(3,4) r(3) p(9,10) by auto
  ultimately show ?thesis using reads_only_trans [OF r(4) k(5)] m unfolding reorganised_def by blast
qed

lemma reorg_ok: "reorg_pre ce a b bc \<Longrightarrow> \<exists>bc'. reorg ce a b bc = Inr (None, bc') \<and> reorganised (ce_hashes ce) b bc bc'"
  using reorg_lower [OF _ refl refl] reorg_higher [OF _ refl refl] by (cases "Height (bl_header b) < Height (bl_header a)") simp_all

section \<open>The invariant of the chain\<close>

text \<open>Total difficulties add up along the chain.\<close>

definition tds_ok :: "(hash \<rightharpoonup> BlockHeader) \<Rightarrow> (hash \<rightharpoonup> int) \<Rightarrow> bool" where
  "tds_ok m tds \<longleftrightarrow> (\<forall>h x. m h = Some x \<longrightarrow> (\<exists>t. tds h = Some t \<and> (0 < Height x \<longrightarrow> tds (PreviousHash x) = Some (t - hd_Difficulty x))))"

definition heaviest :: "hashes \<Rightarrow> (hash \<rightharpoonup> BlockHeader) \<Rightarrow> (hash \<rightharpoonup> int) \<Rightarrow> BlockHeader \<Rightarrow> bool" where
  "heaviest hs m tds x \<longleftrightarrow> (\<exists>t. tds (hs_header hs x) = Some t \<and> (\<forall>h y t'. m h = Some y \<longrightarrow> tds h = Some t' \<longrightarrow> t' \<le> t))"

text \<open>The ledger is coherent, the stored blocks form a tree with the head in it, the index by height lists the
  head and its ancestors, and no stored block is heavier than the head.\<close>

definition chain_inv :: "hashes \<Rightarrow> BlockChain \<Rightarrow> bool" where
  "chain_inv hs bc \<longleftrightarrow> (let l = bc_ledger bc; x = bl_header (currentBlock bc)
     in ledger_ok hs l \<and> tree_ok hs (hmap l) \<and> hmap l (hs_header hs x) = Some x \<and> canon hs (hmap l) (ch_legitimate (led_chain l)) x
        \<and> tds_ok (hmap l) (ch_tds (led_chain l)) \<and> heaviest hs (hmap l) (ch_tds (led_chain l)) x)"

text \<open>A block that may be written: its parent is stored, one below it, and its hashes stand for nothing else.\<close>

definition block_fits :: "hashes \<Rightarrow> Block \<Rightarrow> Ledger \<Rightarrow> bool" where
  "block_fits hs b l \<longleftrightarrow> no_clash hs b (led_chain l) \<and> attached (hmap l) (bl_header b) \<and> 0 < Height (bl_header b)"

lemma chain_invD:
  assumes "chain_inv hs bc"
  shows "ledger_ok hs (bc_ledger bc)" "tree_ok hs (hmap (bc_ledger bc))"
    "hmap (bc_ledger bc) (blockHash hs (currentBlock bc)) = Some (bl_header (currentBlock bc))"
    "canon hs (hmap (bc_ledger bc)) (ch_legitimate (led_chain (bc_ledger bc))) (bl_header (currentBlock bc))"
    "tds_ok (hmap (bc_ledger bc)) (ch_tds (led_chain (bc_ledger bc)))"
    "heaviest hs (hmap (bc_ledger bc)) (ch_tds (led_chain (bc_ledger bc))) (bl_header (currentBlock bc))"
  using assms unfolding chain_inv_def Let_def by blast+

lemma chain_inv_same:
  assumes "chain_inv hs bc" "ledger_ok hs (bc_ledger bc')" "led_chain (bc_ledger bc') = led_chain (bc_ledger bc)" "currentBlock bc' = currentBlock bc"
  shows "chain_inv hs bc'"
  using assms unfolding chain_inv_def Let_def by simp

lemma fits_header:
  assumes "block_fits hs b l"
  shows "hmap l (blockHash hs b) = None \<or> hmap l (blockHash hs b) = Some (bl_header b)"
proof -
  have "getBlock (blockHash hs b) (led_chain l) = None \<or> getBlock (blockHash hs b) (led_chain l) = Some (stored_block b)"
    using assms no_clash_block unfolding block_fits_def by blast
  then show ?thesis using getBlock_None [of "blockHash hs b" "led_chain l"] getBlock_header [of "blockHash hs b" "led_chain l" "stored_block b"]
    by (auto simp: stored_block_def)
qed

lemma fits_same: "led_chain l' = led_chain l \<Longrightarrow> block_fits hs b l' = block_fits hs b l"
  by (simp add: block_fits_def)

section \<open>Writing a block\<close>

text \<open>The total difficulty of the new block.\<close>

lemma write_td_ok:
  assumes "tree_ok hs m" "tds_ok m tds" "attached m y" "0 < Height y" "m (hs_header hs y) = None \<or> m (hs_header hs y) = Some y"
    and "tds (PreviousHash y) = Some p" "tds' = tds(hs_header hs y \<mapsto> hd_Difficulty y + p)"
  shows "m h = Some x \<Longrightarrow> tds' h = tds h" "tds' (PreviousHash y) = Some p" "tds_ok m tds'"
proof -
  have same: "tds' h = tds h" if h: "m h = Some x" for h x
  proof (cases "h = hs_header hs y")
    case True
    then have "x = y" using h assms(5) by auto
    then obtain t where "tds h = Some t" "tds (PreviousHash y) = Some (t - hd_Difficulty y)" using h assms(2,4) unfolding tds_ok_def by blast
    then show ?thesis using assms(6,7) True by simp
  qed (simp add: assms(7))
  then show "m h = Some x \<Longrightarrow> tds' h = tds h" .
  obtain q where "m (PreviousHash y) = Some q" using attachedD(3) [OF assms(3,4)] by blast
  then show "tds' (PreviousHash y) = Some p" using same assms(6) by simp
  show "tds_ok m tds'" unfolding tds_ok_def
  proof (intro allI impI)
    fix h x assume h: "m h = Some x"
    obtain t where t: "tds h = Some t" "0 < Height x \<Longrightarrow> tds (PreviousHash x) = Some (t - hd_Difficulty x)" using h assms(2) unfolding tds_ok_def by blast
    have "tds' (PreviousHash x) = tds (PreviousHash x)" if "0 < Height x" using attachedD(3) [OF tree_okD(2) [OF assms(1) h] that] same by blast
    then show "\<exists>t. tds' h = Some t \<and> (0 < Height x \<longrightarrow> tds' (PreviousHash x) = Some (t - hd_Difficulty x))" using t same [OF h] by auto
  qed
qed

lemma hmap_block_at: "ch_headers c h = map_option bl_header (getBlock h c)"
  using getBlock_header [of h c] getBlock_None [of h c] by (cases "getBlock h c") auto

text \<open>The block itself.\<close>

lemma store_ok:
  assumes "ledger_ok hs l" "tree_ok hs (hmap l)" "block_fits hs b l" "WriteBlockAndReceipts hs b rs l = Inr l'"
  shows "ledger_ok hs l'" "hmap l' = (hmap l)(blockHash hs b \<mapsto> bl_header b)" "hmap l \<subseteq>\<^sub>m hmap l'" "tree_ok hs (hmap l')"
    "ch_tds (led_chain l') = ch_tds (led_chain l)" "ch_legitimate (led_chain l') = ch_legitimate (led_chain l)"
proof -
  have nc: "no_clash hs b (led_chain l)" and y: "attached (hmap l) (bl_header b)" "0 < Height (bl_header b)" using assms(3) by (simp_all add: block_fits_def)
  note w = WriteBlockAndReceipts_ok [OF assms(1) nc assms(4)]
  show "ledger_ok hs l'" "ch_tds (led_chain l') = ch_tds (led_chain l)" "ch_legitimate (led_chain l') = ch_legitimate (led_chain l)" using w by simp_all
  have "ch_headers (led_chain l') h = ((hmap l)(blockHash hs b \<mapsto> bl_header b)) h" for h
    using fun_cong [OF w(2), of h] by (simp add: hmap_block_at stored_block_def)
  then show m': "hmap l' = (hmap l)(blockHash hs b \<mapsto> bl_header b)" by (rule ext)
  show le: "hmap l \<subseteq>\<^sub>m hmap l'" using fits_header [OF assms(3)] unfolding m' map_le_def dom_def by auto
  have a: "attached (hmap l') x" if "attached (hmap l) x" for x using attached_le [OF that le] .
  show "tree_ok hs (hmap l')" unfolding tree_ok_def
  proof (intro conjI allI impI)
    fix h x assume "hmap l' h = Some x"
    then have "h = blockHash hs b \<and> x = bl_header b \<or> hmap l h = Some x" unfolding m' by (auto split: if_splits)
    then show "hs_header hs x = h" "attached (hmap l') x" using tree_okD(1,2) [OF assms(2)] a y(1) by blast+
  next
    fix h h' x x' assume "hmap l' h = Some x" "hmap l' h' = Some x'" "Height x = 0" "Height x' = 0"
    then have "hmap l h = Some x" "hmap l h' = Some x'" using y(2) unfolding m' by (auto split: if_splits)
    then show "h = h'" using tree_okD(3) [OF assms(2)] \<open>Height x = 0\<close> \<open>Height x' = 0\<close> by blast
  qed
qed

lemma canon_le:
  assumes "tree_ok hs m" "attached m x" "m \<subseteq>\<^sub>m m'" "canon hs m legit x"
  shows "canon hs m' legit x"
  using assms(4) hup_le [OF assms(1,2) _ assms(3)] unfolding canon_def by metis

lemma map_leD: "m \<subseteq>\<^sub>m m' \<Longrightarrow> m k = Some v \<Longrightarrow> m' k = Some v"
  unfolding map_le_def dom_def by force

lemma upd_Some: "(m(k \<mapsto> v)) h = Some x \<Longrightarrow> h = k \<and> x = v \<or> m h = Some x"
  by (cases "h = k") simp_all

lemma tds_ok_store:
  assumes "tds_ok m tds" "tds (hs_header hs y) = Some t" "tds (PreviousHash y) = Some (t - hd_Difficulty y)"
  shows "tds_ok (m(hs_header hs y \<mapsto> y)) tds"
  unfolding tds_ok_def
proof (intro allI impI)
  fix h x assume "(m(hs_header hs y \<mapsto> y)) h = Some x"
  from upd_Some [OF this] show "\<exists>t. tds h = Some t \<and> (0 < Height x \<longrightarrow> tds (PreviousHash x) = Some (t - hd_Difficulty x))"
  proof
    assume "h = hs_header hs y \<and> x = y"
    then show ?thesis using assms(2,3) by blast
  next
    assume "m h = Some x"
    then show ?thesis using assms(1) unfolding tds_ok_def by blast
  qed
qed

lemma heaviest_store:
  assumes "\<And>h x t. m h = Some x \<Longrightarrow> tds h = Some t \<Longrightarrow> t \<le> T" "tds (hs_header hs y) = Some t" "t \<le> T" "tds (hs_header hs z) = Some T"
  shows "heaviest hs (m(hs_header hs y \<mapsto> y)) tds z"
  unfolding heaviest_def
proof (intro exI [of _ T] conjI allI impI)
  fix h x u assume h: "(m(hs_header hs y \<mapsto> y)) h = Some x" "tds h = Some u"
  from upd_Some [OF h(1)] show "u \<le> T"
  proof
    assume "h = hs_header hs y \<and> x = y"
    then show ?thesis using assms(2,3) h(2) by simp
  next
    assume "m h = Some x"
    then show ?thesis using assms(1) h(2) by blast
  qed
qed (rule assms(4))

text \<open>What the new block weighs against the head.\<close>

definition weighed :: "hashes \<Rightarrow> Block \<Rightarrow> int \<Rightarrow> int \<Rightarrow> Ledger \<Rightarrow> bool" where
  "weighed hs b t T l \<longleftrightarrow> ch_tds (led_chain l) (blockHash hs b) = Some t
     \<and> ch_tds (led_chain l) (PreviousHash (bl_header b)) = Some (t - hd_Difficulty (bl_header b))
     \<and> (\<forall>h x u. hmap l h = Some x \<longrightarrow> ch_tds (led_chain l) h = Some u \<longrightarrow> u \<le> T)"

text \<open>Storing the block keeps the invariant of a head that outweighs it, or of the block itself.\<close>

lemma store_inv:
  assumes "ledger_ok hs l" "tree_ok hs (hmap l)" "tds_ok (hmap l) (ch_tds (led_chain l))" "block_fits hs b l" "weighed hs b t T l"
    and "WriteBlockAndReceipts hs b rs l = Inr l'"
    and "attached (hmap l) z" "z = bl_header b \<or> hmap l (hs_header hs z) = Some z" "canon hs (hmap l) (ch_legitimate (led_chain l)) z"
    and "ch_tds (led_chain l) (hs_header hs z) = Some U" "t \<le> U" "T \<le> U" "bl_header (currentBlock bc') = z" "bc_ledger bc' = l'"
  shows "chain_inv hs bc'"
proof -
  note st = store_ok [OF assms(1,2,4,6)]
  have "hmap l' (hs_header hs z) = Some z"
  proof (cases "z = bl_header b")
    case False
    then show ?thesis using assms(8) map_leD [OF st(3)] by blast
  qed (simp add: st(2))
  moreover have "canon hs (hmap l') (ch_legitimate (led_chain l')) z" using canon_le [OF assms(2,7) st(3) assms(9)] st(6) by simp
  moreover have "tds_ok (hmap l') (ch_tds (led_chain l'))"
    unfolding st(2,5) using assms(3,5) unfolding weighed_def by (intro tds_ok_store) blast+
  moreover have "heaviest hs (hmap l') (ch_tds (led_chain l')) z"
    unfolding st(2,5)
  proof (rule heaviest_store [where T = U and t = t])
    show "t \<le> U" "ch_tds (led_chain l) (hs_header hs z) = Some U" using assms(10,11) by simp_all
    show "u \<le> U" if "hmap l h = Some x" "ch_tds (led_chain l) h = Some u" for h x u
      using assms(5,12) that unfolding weighed_def by (meson order_trans)
    show "ch_tds (led_chain l) (blockHash hs b) = Some t" using assms(5) unfolding weighed_def by blast
  qed
  ultimately show ?thesis unfolding chain_inv_def Let_def assms(13,14) using st(1,4) by blast
qed

lemma future_removed:
  assumes "chain_inv hs bc"
  shows "chain_inv hs (bc\<lparr>bc_ledger := RemoveFutureBlock h (bc_ledger bc)\<rparr>)"
  using future_ok(2) [OF chain_invD(1) [OF assms]] by (intro chain_inv_same [OF assms]) (simp_all, simp add: RemoveFutureBlock_def)

text \<open>The three ways a block is written: beside the head, on top of it, or as the head of another chain.\<close>

lemma write_beside:
  assumes "chain_inv hs bc" "block_fits hs b (bc_ledger bc)" "weighed hs b t T (bc_ledger bc)" "t \<le> T"
    and "ch_tds (led_chain (bc_ledger bc)) (blockHash hs (currentBlock bc)) = Some T" "WriteBlockAndReceipts hs b rs (bc_ledger bc) = Inr l'"
  shows "chain_inv hs (bc\<lparr>bc_ledger := l'\<rparr>)"
  using store_inv [OF chain_invD(1,2,5) [OF assms(1)] assms(2,3,6) tree_okD(2) [OF chain_invD(2,3) [OF assms(1)]] disjI2 [OF chain_invD(3) [OF assms(1)]]
      chain_invD(4) [OF assms(1)] assms(5,4) order_refl] by simp

lemma write_on_top:
  assumes "chain_inv hs bc" "block_fits hs b (bc_ledger bc)" "weighed hs b t T (bc_ledger bc)" "T \<le> t"
    and "PreviousHash (bl_header b) = blockHash hs (currentBlock bc)" "WriteBlockAndReceipts hs b rs (bc_ledger bc) = Inr l'"
  shows "chain_inv hs (set_head hs b (bc\<lparr>bc_ledger := l'\<rparr>))"
proof -
  let ?l = "bc_ledger bc" and ?x = "bl_header (currentBlock bc)" and ?y = "bl_header b" and ?bc = "set_head hs b (bc\<lparr>bc_ledger := l'\<rparr>)"
  note i = chain_invD [OF assms(1)]
  note st = store_ok [OF i(1,2) assms(2,6)]
  have y: "attached (hmap l') ?y" using assms(2) attached_le [OF _ st(3)] by (simp add: block_fits_def)
  have x: "hmap l' (PreviousHash ?y) = Some ?x" using map_leD [OF st(3) i(3)] assms(5) by simp
  have h: "Height ?y = Height ?x + 1" using attachedD(3) [OF y] assms(2) x by (auto simp: block_fits_def)
  have c: "canon hs (hmap l') (ch_legitimate (led_chain l')) ?x" using canon_le [OF i(2) tree_okD(2) [OF i(2,3)] st(3) i(4)] st(6) by simp
  have "canon hs (hmap l') (ch_legitimate (led_chain (bc_ledger ?bc))) ?y"
  proof -
    have "canon hs (hmap l') (ch_legitimate (led_chain (bc_ledger (fold (set_head hs) (rev [b]) (bc\<lparr>bc_ledger := l'\<rparr>))))) ?y"
    proof (rule fold_set_head_canon [OF st(4) y, where k = 1])
      show "int 1 \<le> Height ?y" "map bl_header [b] = map (\<lambda>j. hup (hmap l') j ?y) [0..<1]" using assms(2) by (simp_all add: block_fits_def)
      show "ch_legitimate (led_chain (bc_ledger (bc\<lparr>bc_ledger := l'\<rparr>))) (Uint64 (Height ?y - int j)) = Some (hs_header hs (hup (hmap l') j ?y))"
        if "1 \<le> j" "int j \<le> Height ?y" for j
        using c that x h by (cases j) (simp_all add: canon_def)
    qed
    then show ?thesis by simp
  qed
  moreover have "tds_ok (hmap l') (ch_tds (led_chain l'))" unfolding st(2,5) using i(5) assms(3) unfolding weighed_def by (intro tds_ok_store) blast+
  moreover have "heaviest hs (hmap l') (ch_tds (led_chain l')) ?y" unfolding st(2,5)
  proof (rule heaviest_store [where T = t and t = t])
    show "u \<le> t" if "hmap ?l h = Some x" "ch_tds (led_chain ?l) h = Some u" for h x u
      using assms(3,4) that unfolding weighed_def by (meson order_trans)
    show "ch_tds (led_chain ?l) (blockHash hs b) = Some t" "ch_tds (led_chain ?l) (hs_header hs ?y) = Some t" using assms(3) unfolding weighed_def by blast+
  qed simp
  ultimately show ?thesis unfolding chain_inv_def Let_def using st(1,4) by (simp add: set_head_parts) (simp add: st(2))
qed

lemma fits_cong:
  assumes "block_at (led_chain l') = block_at (led_chain l)" "ch_txs (led_chain l') = ch_txs (led_chain l)" "hmap l' = hmap l"
  shows "block_fits hs b l' = block_fits hs b l"
  using assms(2,3) fun_cong [OF assms(1), of "blockHash hs b"] unfolding block_fits_def no_clash_def by simp

lemma write_fork:
  assumes "chain_inv hs bc" "block_fits hs b (bc_ledger bc)" "weighed hs b t T (bc_ledger bc)" "T \<le> t"
    and "ch_tds (led_chain (bc_ledger bc)) (blockHash hs (currentBlock bc)) = Some T" "reorganised hs b bc bc1"
    and "WriteBlockAndReceipts hs b rs (bc_ledger bc1) = Inr l'"
  shows "chain_inv hs (bc1\<lparr>bc_ledger := l'\<rparr>)" "currentBlock bc1 = currentBlock bc \<or> currentBlock bc1 = b"
proof -
  let ?m = "hmap (bc_ledger bc)" and ?y = "bl_header b"
  obtain bs k l0 where bc1: "bc1 = fold (set_head hs) (rev bs) (bc\<lparr>bc_ledger := l0\<rparr>)" and l0: "reads_only hs (bc_ledger bc) l0"
    and k: "int k \<le> Height ?y" "map bl_header bs = map (\<lambda>j. hup ?m j ?y) [0..<k]" "hd (bs @ [b]) = b" "bs = [] \<longrightarrow> ?m (blockHash hs b) = Some ?y"
    and below: "\<forall>i. k \<le> i \<longrightarrow> int i \<le> Height ?y \<longrightarrow> ch_legitimate (led_chain (bc_ledger bc)) (Uint64 (Height ?y - int i)) = Some (hs_header hs (hup ?m i ?y))"
    using assms(6) unfolding reorganised_def by blast
  let ?bc = "bc\<lparr>bc_ledger := l0\<rparr>"
  have c0: "led_chain l0 = led_chain (bc_ledger bc)" "ledger_ok hs l0" using l0 by (simp_all add: reads_only_def)
  have inv: "chain_inv hs ?bc" using chain_inv_same [OF assms(1), of ?bc] c0 by simp
  note pt = fold_set_head_parts [OF bc1, simplified, OF c0(2)]
  have fit: "block_fits hs b (bc_ledger bc1)" using fits_cong [OF pt(5,3,1)] fits_same [OF c0(1)] assms(2) by simp
  moreover have "weighed hs b t T (bc_ledger bc1)" using assms(3) unfolding weighed_def pt(1,2) c0(1) .
  ultimately have fit: "block_fits hs b (bc_ledger bc1)" "weighed hs b t T (bc_ledger bc1)" .
  have "chain_inv hs (bc1\<lparr>bc_ledger := l'\<rparr>) \<and> (currentBlock bc1 = currentBlock bc \<or> currentBlock bc1 = b)"
  proof (cases bs)
    case Nil
    then have bc1': "bc1 = ?bc" using bc1 by simp
    have "t \<le> T" using assms(3) k(4) Nil unfolding weighed_def by blast
    then show ?thesis using write_beside [OF inv, of b t T rs l'] fit assms(5,7) c0(1) by (simp add: bc1')
  next
    case (Cons b0 bs0)
    then have cur: "currentBlock bc1 = b" using pt(6) k(3) by simp
    have "attached ?m ?y" using assms(2) by (simp add: block_fits_def)
    then have "canon hs ?m (ch_legitimate (led_chain (bc_ledger bc1))) ?y"
      unfolding bc1 using k below c0(1) by (intro fold_set_head_canon [OF chain_invD(2) [OF assms(1)], where k = k]) simp_all
    moreover have "ch_tds (led_chain (bc_ledger bc1)) (blockHash hs b) = Some t" using fit(2) by (simp add: weighed_def)
    moreover have "tree_ok hs (hmap (bc_ledger bc1))" "tds_ok (hmap (bc_ledger bc1)) (ch_tds (led_chain (bc_ledger bc1)))"
      using chain_invD(2,5) [OF inv] by (simp_all add: pt(1,2))
    ultimately have "chain_inv hs (bc1\<lparr>bc_ledger := l'\<rparr>)"
      using store_inv [OF pt(4) _ _ fit assms(7), of ?y t "bc1\<lparr>bc_ledger := l'\<rparr>"] assms(4) cur \<open>attached ?m ?y\<close> c0(1) by (simp add: pt(1))
    then show ?thesis using cur by simp
  qed
  then show "chain_inv hs (bc1\<lparr>bc_ledger := l'\<rparr>)" "currentBlock bc1 = currentBlock bc \<or> currentBlock bc1 = b" by simp_all
qed

lemma write_head_ok:
  assumes "chain_inv hs bc" "hs = ce_hashes ce" "block_fits hs b (bc_ledger bc)" "weighed hs b t T (bc_ledger bc)" "if r then T \<le> t else t \<le> T"
    and "ch_tds (led_chain (bc_ledger bc)) (blockHash hs (currentBlock bc)) = Some T"
    and "nat (Height (bl_header (currentBlock bc))) < ce_fuel ce" "nat (Height (bl_header b)) < ce_fuel ce"
  shows "write_head ce b rs r bc \<noteq> Inl NoFuel"
    "write_head ce b rs r bc = Inr (res, bc') \<Longrightarrow> (\<exists>fork. res = Inr fork) \<and> chain_inv hs bc'"
proof -
  define fork where "fork \<longleftrightarrow> r \<and> PreviousHash (bl_header b) \<noteq> blockHash hs (currentBlock bc)"
  obtain bc1 where bc1: "(if fork then reorg ce (currentBlock bc) b bc else Inr (None, bc)) = Inr (None, bc1)"
    "fork \<Longrightarrow> reorganised hs b bc bc1" "\<not> fork \<Longrightarrow> bc1 = bc"
  proof (cases fork)
    case True
    have "reorg_pre ce (currentBlock bc) b bc"
      unfolding reorg_pre_def Let_def using chain_invD [OF assms(1)] assms(2,3,7,8) fits_header [OF assms(3)] by (simp add: block_fits_def)
    then show ?thesis using that reorg_ok assms(2) True by fastforce
  qed simp
  have w: "write_head ce b rs r bc = rbind (lift_panic (WriteBlockAndReceipts hs b rs (bc_ledger bc1))) (\<lambda>l.
    let bc2 = bc1\<lparr>bc_ledger := l\<rparr>; bc3 = (if \<not> fork \<and> r then set_head hs b bc2 else bc2)
    in Inr (Inr fork, bc3\<lparr>bc_ledger := RemoveFutureBlock (blockHash hs b) (bc_ledger bc3)\<rparr>))"
    unfolding write_head_def Let_def assms(2) [symmetric] fork_def [symmetric] bc1(1) by simp
  show "write_head ce b rs r bc \<noteq> Inl NoFuel" unfolding w by (auto simp: lift_panic_def Let_def split: sum.splits)
  have "chain_inv hs (if \<not> fork \<and> r then set_head hs b (bc1\<lparr>bc_ledger := l\<rparr>) else bc1\<lparr>bc_ledger := l\<rparr>)"
    if l: "WriteBlockAndReceipts hs b rs (bc_ledger bc1) = Inr l" for l
  proof (cases fork)
    case True
    then show ?thesis using write_fork(1) [OF assms(1,3,4) _ assms(6) bc1(2) l] assms(5) by (simp add: fork_def)
  next
    case False
    then have b1: "bc1 = bc" using bc1(3) by simp
    show ?thesis
    proof (cases r)
      case True
      then show ?thesis using write_on_top [OF assms(1,3,4), of rs l] assms(5) l False unfolding b1 fork_def by simp
    next
      case False
      then show ?thesis using write_beside [OF assms(1,3,4) _ assms(6), of rs l] assms(5) l unfolding b1 by simp
    qed
  qed
  then show "write_head ce b rs r bc = Inr (res, bc') \<Longrightarrow> (\<exists>fork. res = Inr fork) \<and> chain_inv hs bc'"
    unfolding w by (auto simp: lift_panic_def Let_def intro: future_removed split: sum.splits)
qed

lemma GetTd_found:
  assumes "ledger_ok hs l" "ch_tds (led_chain l) h = Some t"
  obtains l' where "GetTd h l = (Some t, l')" "ledger_ok hs l'" "led_chain l' = led_chain l"
proof -
  obtain r l' where g: "GetTd h l = (r, l')" by fastforce
  show ?thesis using that [of l'] GetTd_ok [OF assms(1) g] assms(2) g by (simp add: reads_only_def)
qed

lemma WriteTd_chain: "WriteTd h t l = Inr l' \<Longrightarrow> led_chain l' = led_chain l\<lparr>ch_tds := (ch_tds (led_chain l))(h \<mapsto> t)\<rparr>"
  by (auto simp: WriteTd_def putTd_def split: if_splits)

lemma write_td_inv:
  assumes "chain_inv hs bc" "block_fits hs b (bc_ledger bc)" "ledger_ok hs l" "led_chain l = led_chain (bc_ledger bc)"
    and p: "ch_tds (led_chain l) (PreviousHash (bl_header b)) = Some p" and T: "ch_tds (led_chain l) (blockHash hs (currentBlock bc)) = Some T"
    and max: "\<forall>h x u. hmap l h = Some x \<longrightarrow> ch_tds (led_chain l) h = Some u \<longrightarrow> u \<le> T"
    and w: "WriteTd (blockHash hs b) (hd_Difficulty (bl_header b) + p) l = Inr (bc_ledger bc1)" and cur: "currentBlock bc1 = currentBlock bc"
  shows "chain_inv hs bc1" "block_fits hs b (bc_ledger bc1)" "weighed hs b (hd_Difficulty (bl_header b) + p) T (bc_ledger bc1)"
    "ch_tds (led_chain (bc_ledger bc1)) (blockHash hs (currentBlock bc1)) = Some T"
proof -
  let ?l = "bc_ledger bc1" and ?y = "bl_header b" and ?t = "hd_Difficulty (bl_header b) + p" and ?tds = "ch_tds (led_chain (bc_ledger bc1))"
  note i = chain_invD [OF assms(1), folded assms(4)] and c = WriteTd_chain [OF w]
  have fit: "block_fits hs b l" using assms(2) fits_same [OF assms(4)] by simp
  then have y: "attached (hmap l) ?y" "0 < Height ?y" by (simp_all add: block_fits_def)
  have same: "hmap ?l = hmap l" "ch_legitimate (led_chain ?l) = ch_legitimate (led_chain l)" "ch_txs (led_chain ?l) = ch_txs (led_chain l)"
    and tds: "?tds = (ch_tds (led_chain l))(blockHash hs b \<mapsto> ?t)" by (simp_all add: c)
  note td = write_td_ok [OF i(2,5) y fits_header [OF fit] p tds]
  show T': "?tds (blockHash hs (currentBlock bc1)) = Some T" unfolding cur using td(1) [OF i(3)] T by simp
  have max': "\<forall>h x u. hmap l h = Some x \<longrightarrow> ?tds h = Some u \<longrightarrow> u \<le> T" using max td(1) by metis
  have "heaviest hs (hmap l) ?tds (bl_header (currentBlock bc1))" unfolding heaviest_def using T' max' by blast
  then show "chain_inv hs bc1"
    unfolding chain_inv_def Let_def same cur using i(2-4) td(3) WriteTd_ok(1) [OF assms(3) w] by blast
  show "block_fits hs b ?l" using fits_cong [OF WriteTd_ok(2) [OF assms(3) w] same(3,1)] fit by simp
  have "?tds (blockHash hs b) = Some ?t" unfolding tds by simp
  then show "weighed hs b ?t T ?l" unfolding weighed_def same using td(2) max' by simp
qed

text \<open>C4: The head of the chain stays a heaviest block and the index by height lists its ancestors, whichever
  block is written. Take a chain where this holds and a block on a stored parent: writing the block
  ends, never finds a broken chain, and leaves a chain where it holds, with the old head, on top of it, or with the block
  at the head of another branch. The fuel is above the two heights.\<close>

theorem head_stays_heaviest:
  assumes "chain_inv (ce_hashes ce) bc" "block_fits (ce_hashes ce) b (bc_ledger bc)"
    and "nat (Height (bl_header (currentBlock bc))) < ce_fuel ce" "nat (Height (bl_header b)) < ce_fuel ce"
  shows "WriteBlockWithState ce b rs s bc \<noteq> Inl NoFuel
    \<and> (\<forall>r bc'. WriteBlockWithState ce b rs s bc = Inr (r, bc') \<longrightarrow> chain_inv (ce_hashes ce) bc' \<and> ((\<exists>fork. r = Inr fork) \<or> (\<exists>err. r = Inl (OpenError err))))"
proof -
  let ?hs = "ce_hashes ce" and ?l = "bc_ledger bc" and ?y = "bl_header b"
  note i = chain_invD [OF assms(1)]
  have y: "attached (hmap ?l) ?y" "0 < Height ?y" using assms(2) by (simp_all add: block_fits_def)
  obtain p where p: "ch_tds (led_chain ?l) (PreviousHash ?y) = Some p" using attachedD(3) [OF y] i(5) unfolding tds_ok_def by blast
  obtain T where T: "ch_tds (led_chain ?l) (blockHash ?hs (currentBlock bc)) = Some T"
    "\<forall>h x u. hmap ?l h = Some x \<longrightarrow> ch_tds (led_chain ?l) h = Some u \<longrightarrow> u \<le> T" using i(6) unfolding heaviest_def by blast
  obtain l1 where l1: "GetTd (PreviousHash ?y) ?l = (Some p, l1)" "ledger_ok ?hs l1" "led_chain l1 = led_chain ?l"
    using GetTd_found [OF i(1) p] .
  obtain l2 where l2: "GetTd (blockHash ?hs (currentBlock bc)) l1 = (Some T, l2)" "ledger_ok ?hs l2" "led_chain l2 = led_chain ?l"
    using GetTd_found [OF l1(2), unfolded l1(3), OF T(1)] .
  let ?t = "hd_Difficulty ?y + p"
  have inv: "write_head ce b rs (takes_head (ce_coin ce) ?t T b (currentBlock bc)) (bc\<lparr>bc_ledger := l3, contextDB := cd, stateCache := sc\<rparr>) \<noteq> Inl NoFuel
      \<and> (\<forall>r bc'. write_head ce b rs (takes_head (ce_coin ce) ?t T b (currentBlock bc)) (bc\<lparr>bc_ledger := l3, contextDB := cd, stateCache := sc\<rparr>) = Inr (r, bc')
           \<longrightarrow> (\<exists>fork. r = Inr fork) \<and> chain_inv ?hs bc')
      \<and> chain_inv ?hs (bc\<lparr>bc_ledger := l3, contextDB := cd, stateCache := sc\<rparr>)"
    if w: "WriteTd (blockHash ?hs b) ?t l2 = Inr l3" for l3 cd sc
  proof -
    let ?bc = "bc\<lparr>bc_ledger := l3, contextDB := cd, stateCache := sc\<rparr>"
    have w': "WriteTd (blockHash ?hs b) ?t l2 = Inr (bc_ledger ?bc)" and cur: "currentBlock ?bc = currentBlock bc" using w by simp_all
    note v = write_td_inv [OF assms(1,2) l2(2,3) _ _ _ w' cur, unfolded l2(3), OF p T]
    have "if takes_head (ce_coin ce) ?t T b (currentBlock bc) then T \<le> ?t else ?t \<le> T" by (auto simp: takes_head_def)
    note h = write_head_ok [OF v(1) refl v(2,3) this v(4), unfolded cur, OF assms(3,4)]
    show ?thesis using h(1) h(2) v(1) by blast
  qed
  have "WriteBlockWithState ce b rs s bc = rbind (lift_panic (WriteTd (blockHash ?hs b) ?t l2)) (\<lambda>l3.
     rbind (lift_panic (deref (bl_DposContext b))) (\<lambda>ctx.
     rbind (lift_panic (Commit (ce_commit_order ce) (ce_commit_keys ce) True s)) (\<lambda>(root, err, s1).
     let bc1 = bc\<lparr>bc_ledger := l3, contextDB := CommitTo ctx (contextDB bc), stateCache := sdb_db s1\<rparr>
     in case err of
          Some x \<Rightarrow> Inr (Inl (OpenError x), bc1)
        | None \<Rightarrow> write_head ce b rs (takes_head (ce_coin ce) ?t T b (currentBlock bc)) bc1)))"
  proof -
    have d: "lift_panic (deref (Some T)) = Inr T" by (simp add: lift_panic_def)
    show ?thesis unfolding WriteBlockWithState_def Let_def l1(1) l2(1) prod.case option.case d rbind_simps by (rule refl)
  qed
  then show ?thesis using inv by (auto simp: lift_panic_def Let_def split: sum.splits option.splits)
qed

section \<open>A small chain of blocks\<close>

definition demo_store :: Chain where
  "demo_store = empty_chain\<lparr>ch_headers := [1 \<mapsto> bl_header (demo_block 0 [])], ch_heights := [1 \<mapsto> 0], ch_txHashs := [1 \<mapsto> []],
     ch_tds := [1 \<mapsto> 1], ch_legitimate := [0 \<mapsto> 1], ch_lastBlock := Some 1\<rparr>"

definition demo_contexts :: ContextDB where
  "demo_contexts = \<lparr>cd_epochs = Map.empty, cd_delegates = Map.empty, cd_votes = Map.empty, cd_candidates = Map.empty, cd_mints = Map.empty,
     epochRoot = \<lambda>_. 0, delegateRoot = \<lambda>_. 0, voteRoot = \<lambda>_. 0, candidateRoot = \<lambda>_. 0, mintRoot = \<lambda>_. 0\<rparr>"

definition demo_bc :: BlockChain where
  "demo_bc = \<lparr>bc_ledger = newLedger 0 0 0 demo_store, currentBlock = demo_block 0 [], stateCache = sdb_db stake_state,
     contextDB = demo_contexts, bc_engine = demo_dpos\<rparr>"

definition demo_executor :: Executor where
  "demo_executor = \<lparr>ex_config = stake_config, ex_table = NewConstantinopleInstructionSet, ex_env = small_env, ex_getHeader = \<lambda>_. None,
     ex_sender = \<lambda>_. 0, ex_txHash = \<lambda>_. 0\<rparr>"

definition demo_final :: finalize_env where
  "demo_final = \<lparr>fe_dpos = demo_env, fe_elect = small_elect, fe_seed = \<lambda>_. 0, fe_order = [], fe_keys = \<lambda>_. [], fe_commit_err = None,
     fe_root_err = None, ToProto = context_proto demo_contexts\<rparr>"

definition demo_checks :: state_checks where
  "demo_checks = \<lparr>sc_keccak = \<lambda>_. 0, receiptsRoot = \<lambda>_. 0, sc_order = [], sc_keys = \<lambda>_. [], protoOf = context_proto demo_contexts, protoRoot = \<lambda>_. 0\<rparr>"

definition demo_chain_env :: chain_env where
  "demo_chain_env = \<lparr>ce_hashes = demo_hashes, ce_dpos = demo_env, ce_exec = demo_executor, ce_final = demo_final, ce_order = \<lambda>_. [], ce_keys = \<lambda>_ _. [],
     ce_checks = demo_checks, ce_commit_order = [], ce_commit_keys = \<lambda>_. [], txsRoot = \<lambda>_. 0, ce_now = 0, ce_coin = False, ce_fuel = 9\<rparr>"

lemma demo_env_fields: "ce_hashes demo_chain_env = demo_hashes" "ce_fuel demo_chain_env = 9" "ce_commit_order demo_chain_env = []"
  by (simp_all add: demo_chain_env_def)

lemma demo_genesis: "Height (bl_header (demo_block n txs)) = n" "PreviousHash (bl_header (demo_block n txs)) = word_of_int n"
  "hs_header demo_hashes (bl_header (demo_block n txs)) = word_of_int n + 1" "hd_Difficulty (bl_header (demo_block n txs)) = 1"
  by (simp_all add: demo_block_def demo_hashes_def)

lemma demo_bc_fields: "led_chain (bc_ledger demo_bc) = demo_store" "currentBlock demo_bc = demo_block 0 []"
  by (simp_all add: demo_bc_def newLedger_def)

lemma demo_headers: "ch_headers demo_store = [1 \<mapsto> bl_header (demo_block 0 [])]" "ch_tds demo_store = [1 \<mapsto> 1]" "ch_legitimate demo_store = [0 \<mapsto> 1]"
  "ch_txs demo_store = Map.empty"
  by (simp_all add: demo_store_def empty_chain_def)

lemma demo_bc_inv: "chain_inv demo_hashes demo_bc"
proof -
  let ?m = "[1 \<mapsto> bl_header (demo_block 0 [])]"
  have "chain_ok demo_hashes demo_store" by (simp add: chain_ok_def demo_store_def demo_genesis)
  then have "ledger_ok demo_hashes (bc_ledger demo_bc)" unfolding demo_bc_def by (simp add: newLedger_ok)
  moreover have "tree_ok demo_hashes ?m" by (simp add: tree_ok_def attached_def demo_genesis split: if_splits)
  moreover have "canon demo_hashes ?m [0 \<mapsto> 1] (bl_header (demo_block 0 []))" by (simp add: canon_def demo_genesis Uint64_def)
  moreover have "tds_ok ?m [1 \<mapsto> 1]" by (simp add: tds_ok_def demo_genesis)
  moreover have "heaviest demo_hashes ?m [1 \<mapsto> 1] (bl_header (demo_block 0 []))" by (simp add: heaviest_def demo_genesis)
  ultimately show ?thesis unfolding chain_inv_def Let_def demo_bc_fields demo_headers by (simp add: demo_genesis)
qed

lemma demo_fits: "block_fits demo_hashes (demo_block 1 [] \<lparr>bl_DposContext := Some NewDposContext\<rparr>) (bc_ledger demo_bc)"
proof -
  have "getBlock 2 demo_store = None" by (simp add: getBlock_None demo_headers)
  then show ?thesis by (simp add: block_fits_def no_clash_def demo_bc_fields demo_headers demo_genesis attached_def) (simp add: demo_block_def)
qed

theorem head_stays_heaviest_witness:
  "\<exists>bc'. WriteBlockWithState demo_chain_env (demo_block 1 [] \<lparr>bl_DposContext := Some NewDposContext\<rparr>) [] stake_state demo_bc = Inr (Inr False, bc')
     \<and> chain_inv demo_hashes bc'"
proof -
  let ?b = "demo_block 1 [] \<lparr>bl_DposContext := Some NewDposContext\<rparr>"
  have "\<exists>bc'. WriteBlockWithState demo_chain_env ?b [] stake_state demo_bc = Inr (Inr False, bc')"
  proof -
    have "\<exists>root s1. Commit [] (\<lambda>_. []) True stake_state = Inr (root, None, s1)" by (simp add: Commit_def Let_def)
    then show ?thesis
      by (auto simp: WriteBlockWithState_def demo_chain_env_def demo_bc_def newLedger_def NewUnLockCache_def cache_limit_def GetTd_def cache_Get_def cache_Add_def
          getTd_def demo_headers demo_genesis WriteTd_def putTd_def lift_panic_def Let_def takes_head_def write_head_def WriteBlockAndReceipts_def
          putBlock_def putHeader_def putTransactions_def putReceipts_def set_head_def) (simp_all add: demo_block_def)
  qed
  then show ?thesis
    using head_stays_heaviest [of demo_chain_env demo_bc ?b "[]" stake_state, unfolded demo_env_fields, OF demo_bc_inv demo_fits]
    by (auto simp: demo_bc_fields demo_genesis)
qed

end
