(* ===== verification/Spec2Isabelle.thy ===== *)
theory Spec2Isabelle
  imports StateLife TrieCanonical VMAnalysis EpochProps Cache DposProps ValidatorProps BlockChainProps
begin

text \<open>
  A verification development for the Uranus block chain node, the Go sources under src/.

  \<^bold>\<open>The program.\<close> A node keeps accounts in a state database over Merkle Patricia tries, runs
  transactions through a state transition and a virtual machine, elects the producers of blocks by a delegated proof of
  stake, and keeps the blocks in a ledger. A block that arrives is checked by the validator and by the engine of the
  proof of stake, executed on the state of its parent, checked against its header and written; the chain then moves its head
  to the heaviest branch.

  \<^bold>\<open>Conventions.\<close> Go panics are values: an operation that may panic returns \<open>go_panic + 'a\<close>, and loops
  without a structural bound take fuel and return \<open>NoFuel\<close> when it is used up; every theorem about
  such a loop shows that a stated amount of fuel is enough. Fixed-width integers are words, big
  integers are \<open>int\<close>, a pointer to a big integer that may be nil is \<open>int option\<close>. Hash functions,
  signatures, the order in which maps are walked and databases are parameters.

  \<^bold>\<open>State database\<close> (src/core/state: \<open>State\<close>, \<open>StateRevert\<close>, \<open>StateSnapshot\<close>, \<open>StateProps\<close>,
  \<open>StateViews\<close>, \<open>StateLife\<close>).
  Journal, state objects and \<open>StateDB\<close> with every operation that changes them. Shown: the invariant of all
  states that are reachable with finalisations, commits, resets and copies, and that an object which is marked as deleted is gone from the trie (\<open>StateLife\<close>); that reverting restores what can be observed, and the contract \<open>statedb\<close> on
  which the machine rests.

  \<^bold>\<open>Trie\<close> (src/common/mtp: \<open>Trie\<close>, \<open>TrieProps\<close>, \<open>TrieCanonical\<close>). Lookup, insertion, deletion and the
  encodings of keys. Shown: the map laws and that the tree depends on the contents only.

  \<^bold>\<open>Virtual machine\<close> (src/core/vm: \<open>BigMath\<close>, \<open>VMBase\<close>, \<open>VMArith\<close>, \<open>VMPrecompiled\<close>, \<open>VMOps\<close>,
  \<open>VMGas\<close>, \<open>VMTable\<close>, \<open>VMInterp\<close>, \<open>VMAnalysis\<close>, \<open>VMSafeBase\<close>, \<open>VMSafe\<close>, \<open>VMTableSafe\<close>, \<open>VMLoop\<close>, \<open>VMProps\<close>).
  Shown: the operations are those of 256-bit words, every run returns with fuel above its gas,
  failed calls revert, static calls write nothing, no money is created.

  \<^bold>\<open>Transactions\<close> (src/core/executor, src/core/types: \<open>Transition\<close>, \<open>TransitionProps\<close>, \<open>Executor\<close>,
  \<open>ExecutorProps\<close>). Shown: a transaction is executed to an end and pays exactly for its gas; a
  message of the proof of stake moves money only within the sender's holdings.

  \<^bold>\<open>Proof of stake\<close> (src/consensus/dpos, src/core/types/dposcontext.go: \<open>DposContext\<close>, \<open>Epoch\<close>,
  \<open>EpochProps\<close>, \<open>Dpos\<close>, \<open>DposProps\<close>). The five tries of a context are sorted association lists; the engine is a record of what
  it remembers, and reads the chain through its interface. Shown: the context implements a ballot, the schedule is fair, the
  election takes the best candidates and does not depend on the order of maps, the mint counts count; once there are
  elected validators, a confirmed header has a quorum of producers above it, a confirmed height more than two thirds of the confirmations, and what is sealed
  verifies.

  \<^bold>\<open>Caches\<close> (src/common/cache: \<open>Cache\<close>). Shown: a cache keeps the entries used last, and the contract
  \<open>cache_contract\<close> of a cache in front of a map, which the ledger uses.

  \<^bold>\<open>Ledger\<close> (src/core/ledger, src/core/types/block.go: \<open>Ledger\<close>, \<open>LedgerProps\<close>). \<open>Chain\<close> is the database, one map for
  each family of keys; \<open>Ledger\<close> adds the caches. Shown: the caches agree with the database, a block that is written is read
  back, and rewinding always panics.

  \<^bold>\<open>Validator\<close> (src/core/validator, src/common/bloom, src/core/types/util.go: \<open>Bloom\<close>, \<open>Validator\<close>, \<open>ValidatorProps\<close>).
  Shown: what an accepted header satisfies, that the gas limit a miner computes is accepted, that the filter of the logs
  misses none, and that the seal does not cover the actions of a block.

  \<^bold>\<open>Chain\<close> (src/core/blockchain.go, \<open>ExecBlock\<close> of src/core/executor/executor.go: \<open>BlockChain\<close>, \<open>BlockChainProps\<close>).
  Inserting, executing and writing blocks, reorganisations, future blocks and the start. The locks of the code make these
  operations atomic. Shown: whichever block is written, the head stays a block of the greatest total difficulty and the index
  by height follows its ancestors.

  \<^bold>\<open>Bounds and fuel.\<close> The theorems on the machine take gas, code and input below 2 to the power 62, far above
  what a block can hold, and fuel above the gas, since every step that does not end the run takes gas. The search
  for the confirmed header takes twice the height of the chain and 2, since each of its two loops goes down by one; the loops
  of a reorganisation take fuel above the heights of the two heads; rewinding takes 2, as it panics on its second call. The
  tries take fuel above the length of a key.

  \<^bold>\<open>Not modelled.\<close> The encoding (src/common/rlp) and the Merkle hashing of tries, elliptic curves and
  hash functions are parameters. The network, the remote interfaces, the wallet, the commands, the transaction pool, the
  miner's goroutines, the event feeds and the proof of work are outside: they pass data to the parts above, with
  concurrency and input and output as their main matter. Databases are maps that do not fail, except where a missing trie
  node is an error the code handles.
\<close>

end
